(* ===== verification/Prelude.thy ===== *)
theory Prelude
  imports Main "HOL-Library.Word"
begin

text \<open>
  What the component theories share: the machine types of the Rust code, \<open>Result\<close> values as
  sums, state passing with errors as values, big-endian byte codecs, checked arithmetic, the
  lower-case hexadecimal alphabet, and the interface locales \<open>codec\<close>, \<open>guarded_machine\<close>
  and \<open>progress_machine\<close> that the components interpret.
\<close>

unbundle bit_operations_syntax

section \<open>Machine types\<close>

type_synonym u8 = "8 word"
type_synonym u16 = "16 word"
type_synonym u32 = "32 word"
type_synonym u64 = "64 word"

text \<open>\<open>i64\<close> is a 64-bit word that is always read through \<open>sint\<close>.\<close>

type_synonym i64 = "64 word"

type_synonym bytes = "u8 list"

datatype ordering = Less | Equal | Greater

named_theorems res_simps "equations of the result and state combinators"
named_theorems op_defs "definitions of the state-passing operations of a component"

section \<open>Results\<close>

text \<open>\<open>Result<T, E>\<close> is \<open>'e + 'a\<close>: \<open>Err\<close> on the left, \<open>Ok\<close> on the right.\<close>

abbreviation Ok :: "'a \<Rightarrow> 'e + 'a" where "Ok \<equiv> Inr"
abbreviation Err :: "'e \<Rightarrow> 'e + 'a" where "Err \<equiv> Inl"

definition bindr :: "'e + 'a \<Rightarrow> ('a \<Rightarrow> 'e + 'b) \<Rightarrow> 'e + 'b" where
  "bindr r k = (case r of Inl e \<Rightarrow> Inl e | Inr a \<Rightarrow> k a)"

definition ok_or :: "'e \<Rightarrow> 'a option \<Rightarrow> 'e + 'a" where
  "ok_or e x = (case x of None \<Rightarrow> Err e | Some a \<Rightarrow> Ok a)"

definition map_err :: "('e \<Rightarrow> 'f) \<Rightarrow> 'e + 'a \<Rightarrow> 'f + 'a" where
  "map_err f r = (case r of Inl e \<Rightarrow> Inl (f e) | Inr a \<Rightarrow> Inr a)"

definition is_ok :: "'e + 'a \<Rightarrow> bool" where
  "is_ok r = (case r of Inl _ \<Rightarrow> False | Inr _ \<Rightarrow> True)"

lemma bindr_simps [simp, res_simps]: "bindr (Inl e) k = Inl e" "bindr (Inr a) k = k a"
  by (simp_all add: bindr_def)

lemma ok_or_simps [simp, res_simps]: "ok_or e None = Inl e" "ok_or e (Some a) = Inr a"
  by (simp_all add: ok_or_def)

lemma map_err_simps [simp, res_simps]: "map_err f (Inl e) = Inl (f e)" "map_err f (Inr a) = Inr a"
  by (simp_all add: map_err_def)

lemma is_ok_simps [simp, res_simps]: "\<not> is_ok (Inl e)" "is_ok (Inr a)"
  by (simp_all add: is_ok_def)

lemma bindr_eq_Inr [simp]: "bindr r k = Inr b \<longleftrightarrow> (\<exists>a. r = Inr a \<and> k a = Inr b)"
  by (cases r) auto

lemma bindr_eq_Inl: "bindr r k = Inl e \<longleftrightarrow> r = Inl e \<or> (\<exists>a. r = Inr a \<and> k a = Inl e)"
  by (cases r) auto

lemma ok_or_eq_Inr [simp]: "ok_or e x = Inr a \<longleftrightarrow> x = Some a"
  by (cases x) auto

lemma map_err_eq_Inr [simp]: "map_err f r = Inr a \<longleftrightarrow> r = Inr a"
  by (cases r) auto

lemma is_ok_iff: "is_ok r \<longleftrightarrow> (\<exists>a. r = Inr a)"
  by (cases r) auto

section \<open>State passing with errors\<close>

text \<open>
  A method taking \<open>&mut self\<close> and returning a \<open>Result\<close> is a function of the state that returns
  the result and the state it leaves behind, on the error paths too. \<open>try_in\<close> is the operator
  \<open>?\<close> inside such a method: it stops with the current state.
\<close>

type_synonym ('s, 'e, 'a) op = "'s \<Rightarrow> ('e + 'a) \<times> 's"

definition try_in :: "'e + 'a \<Rightarrow> 's \<Rightarrow> ('a \<Rightarrow> ('e + 'b) \<times> 's) \<Rightarrow> ('e + 'b) \<times> 's" where
  "try_in r s k = (case r of Inl e \<Rightarrow> (Inl e, s) | Inr a \<Rightarrow> k a)"

lemma try_in_simps [simp, res_simps]: "try_in (Inl e) s k = (Inl e, s)" "try_in (Inr a) s k = k a"
  by (simp_all add: try_in_def)

lemma try_in_eq_Inr:
  "try_in r s k = (Inr b, t) \<longleftrightarrow> (\<exists>a. r = Inr a \<and> k a = (Inr b, t))"
  by (cases r) auto

lemma try_in_eq_Inl:
  "try_in r s k = (Inl e, t) \<longleftrightarrow>
     (r = Inl e \<and> t = s) \<or> (\<exists>a. r = Inr a \<and> k a = (Inl e, t))"
  by (cases r) auto

text \<open>Sequencing of operations that themselves change the state.\<close>

definition bnd :: "('s, 'e, 'a) op \<Rightarrow> ('a \<Rightarrow> ('s, 'e, 'b) op) \<Rightarrow> ('s, 'e, 'b) op" where
  "bnd m k = (\<lambda>s. case m s of (Inl e, t) \<Rightarrow> (Inl e, t) | (Inr a, t) \<Rightarrow> k a t)"

definition ret :: "'a \<Rightarrow> ('s, 'e, 'a) op" where "ret a = (\<lambda>s. (Inr a, s))"
definition throw :: "'e \<Rightarrow> ('s, 'e, 'a) op" where "throw e = (\<lambda>s. (Inl e, s))"
definition lift_res :: "'e + 'a \<Rightarrow> ('s, 'e, 'a) op" where "lift_res r = (\<lambda>s. (r, s))"
definition map_fail :: "('e \<Rightarrow> 'f) \<Rightarrow> ('s, 'e, 'a) op \<Rightarrow> ('s, 'f, 'a) op" where
  "map_fail f m = (\<lambda>s. case m s of (r, t) \<Rightarrow> (map_err f r, t))"

text \<open>The result of an operation as a value, for a \<open>match\<close> on it.\<close>

definition attempt :: "('s, 'e, 'a) op \<Rightarrow> ('s, 'f, 'e + 'a) op" where
  "attempt m = (\<lambda>s. case m s of (r, t) \<Rightarrow> (Inr r, t))"

lemma attempt_apply [simp]: "attempt m s = (Inr r, t) \<longleftrightarrow> m s = (r, t)" "attempt m s \<noteq> (Inl e, t)"
  by (auto simp: attempt_def split: prod.splits)

text \<open>\<open>match\<close> on the error of an operation.\<close>

definition handle :: "('s, 'e, 'a) op \<Rightarrow> ('e \<Rightarrow> ('s, 'f, 'a) op) \<Rightarrow> ('s, 'f, 'a) op" where
  "handle m k = (\<lambda>s. case m s of (Inl e, t) \<Rightarrow> k e t | (Inr a, t) \<Rightarrow> (Inr a, t))"

lemma handle_eq_Inr:
  "handle m k s = (Inr a, t) \<longleftrightarrow>
     m s = (Inr a, t) \<or> (\<exists>e u. m s = (Inl e, u) \<and> k e u = (Inr a, t))"
  by (auto simp: handle_def split: prod.splits sum.splits)

lemma handle_eq_Inl:
  "handle m k s = (Inl f, t) \<longleftrightarrow> (\<exists>e u. m s = (Inl e, u) \<and> k e u = (Inl f, t))"
  by (auto simp: handle_def split: prod.splits sum.splits)

lemma ret_apply [simp]: "ret a s = (Inr a, s)" by (simp add: ret_def)
lemma throw_apply [simp]: "throw e s = (Inl e, s)" by (simp add: throw_def)
lemma lift_res_apply [simp]: "lift_res r s = (r, s)" by (simp add: lift_res_def)

lemma bnd_eq_Inr:
  "bnd m k s = (Inr b, t) \<longleftrightarrow> (\<exists>a u. m s = (Inr a, u) \<and> k a u = (Inr b, t))"
  by (auto simp: bnd_def split: prod.splits sum.splits)

lemma bnd_eq_Inl:
  "bnd m k s = (Inl e, t) \<longleftrightarrow>
     m s = (Inl e, t) \<or> (\<exists>a u. m s = (Inr a, u) \<and> k a u = (Inl e, t))"
  by (auto simp: bnd_def split: prod.splits sum.splits)

lemma bnd_step: "m s = (Inr a, t) \<Longrightarrow> bnd m k s = k a t"
  by (simp add: bnd_def)

lemma bnd_stop: "m s = (Inl e, t) \<Longrightarrow> bnd m k s = (Inl e, t)"
  by (simp add: bnd_def)

lemma map_fail_eq_Inr [simp]: "map_fail f m s = (Inr a, t) \<longleftrightarrow> m s = (Inr a, t)"
  by (auto simp: map_fail_def split: prod.splits)

lemma map_fail_eq_Inl: "map_fail f m s = (Inl e, t) \<longleftrightarrow> (\<exists>e'. m s = (Inl e', t) \<and> e = f e')"
  by (auto simp: map_fail_def map_err_def split: prod.splits sum.splits)

section \<open>Pre- and postconditions\<close>

text \<open>
  \<open>hoare P m Q E\<close>: from a state with \<open>P\<close> the operation ends in \<open>Q\<close> with its value, or in \<open>E\<close>
  with its error.
\<close>

definition hoare ::
    "('s \<Rightarrow> bool) \<Rightarrow> ('s, 'e, 'a) op \<Rightarrow> ('a \<Rightarrow> 's \<Rightarrow> bool) \<Rightarrow> ('e \<Rightarrow> 's \<Rightarrow> bool) \<Rightarrow> bool" where
  "hoare P m Q E \<longleftrightarrow> (\<forall>s. P s \<longrightarrow> (case m s of (Inr a, t) \<Rightarrow> Q a t | (Inl e, t) \<Rightarrow> E e t))"

named_theorems hoare_rules "rules of the pre- and postcondition calculus"

lemma hoareI:
  assumes "\<And>s a t. P s \<Longrightarrow> m s = (Inr a, t) \<Longrightarrow> Q a t"
    and "\<And>s e t. P s \<Longrightarrow> m s = (Inl e, t) \<Longrightarrow> E e t"
  shows "hoare P m Q E"
  using assms by (auto simp: hoare_def split: prod.split sum.split)

lemma hoare_Inr: "hoare P m Q E \<Longrightarrow> P s \<Longrightarrow> m s = (Inr a, t) \<Longrightarrow> Q a t"
  by (auto simp: hoare_def)

lemma hoare_Inl: "hoare P m Q E \<Longrightarrow> P s \<Longrightarrow> m s = (Inl e, t) \<Longrightarrow> E e t"
  by (auto simp: hoare_def)

lemma hoare_bnd [hoare_rules]:
  "hoare P m R E \<Longrightarrow> (\<And>a. hoare (R a) (k a) Q E) \<Longrightarrow> hoare P (bnd m k) Q E"
  by (rule hoareI) (auto simp: bnd_eq_Inr bnd_eq_Inl dest: hoare_Inr hoare_Inl)

lemma hoare_handle [hoare_rules]:
  "hoare P m Q R \<Longrightarrow> (\<And>e. hoare (R e) (k e) Q E) \<Longrightarrow> hoare P (handle m k) Q E"
  by (rule hoareI) (auto simp: handle_eq_Inr handle_eq_Inl dest: hoare_Inr hoare_Inl)

lemma hoare_attempt [hoare_rules]:
  assumes "hoare P m (\<lambda>a. R (Inr a)) (\<lambda>e. R (Inl e))"
  shows "hoare P (attempt m) R E"
proof (rule hoareI)
  fix s r t assume "P s" "attempt m s = (Inr r, t)"
  with assms show "R r t" by (cases r) (auto dest: hoare_Inr hoare_Inl)
qed simp

lemma hoare_case_sum [hoare_rules]:
  "(\<And>a. r = Inl a \<Longrightarrow> hoare P (f a) Q E) \<Longrightarrow> (\<And>b. r = Inr b \<Longrightarrow> hoare P (g b) Q E) \<Longrightarrow>
   hoare P (case r of Inl a \<Rightarrow> f a | Inr b \<Rightarrow> g b) Q E"
  by (cases r) simp_all

lemma hoare_ret [hoare_rules]: "(\<And>s. P s \<Longrightarrow> Q a s) \<Longrightarrow> hoare P (ret a) Q E"
  by (rule hoareI) auto

lemma hoare_throw [hoare_rules]: "(\<And>s. P s \<Longrightarrow> E e s) \<Longrightarrow> hoare P (throw e) Q E"
  by (rule hoareI) auto

lemma hoare_lift_res [hoare_rules]:
  "(\<And>s a. P s \<Longrightarrow> r = Inr a \<Longrightarrow> Q a s) \<Longrightarrow> (\<And>s e. P s \<Longrightarrow> r = Inl e \<Longrightarrow> E e s) \<Longrightarrow>
   hoare P (lift_res r) Q E"
  by (rule hoareI) auto

lemma hoare_map_fail [hoare_rules]:
  "hoare P m Q (\<lambda>e. E (f e)) \<Longrightarrow> hoare P (map_fail f m) Q E"
  by (rule hoareI) (auto simp: map_fail_eq_Inl dest: hoare_Inr hoare_Inl)

lemma hoare_map_fail_const: "hoare P m Q (\<lambda>_. E) \<Longrightarrow> hoare P (map_fail f m) Q (\<lambda>_. E)"
  by (rule hoare_map_fail)

lemma hoare_when: "(\<phi> \<Longrightarrow> hoare P m Q E) \<Longrightarrow> hoare (\<lambda>s. \<phi> \<and> P s) m Q E"
  by (auto simp: hoare_def)

lemma hoare_weaken:
  assumes "hoare P m Q E" "\<And>s. P' s \<Longrightarrow> P s" "\<And>a s. Q a s \<Longrightarrow> Q' a s" "\<And>e s. E e s \<Longrightarrow> E' e s"
  shows "hoare P' m Q' E'"
  using assms by (intro hoareI) (blast dest: hoare_Inr hoare_Inl)+

lemma hoare_if [hoare_rules]:
  "(b \<Longrightarrow> hoare P m Q E) \<Longrightarrow> (\<not> b \<Longrightarrow> hoare P m' Q E) \<Longrightarrow> hoare P (if b then m else m') Q E"
  by simp

text \<open>An operation that leaves a predicate alone whichever way it ends.\<close>

abbreviation keeps :: "('s \<Rightarrow> bool) \<Rightarrow> ('s, 'e, 'a) op \<Rightarrow> bool" where
  "keeps P m \<equiv> hoare P m (\<lambda>_. P) (\<lambda>_. P)"


text \<open>
  A state of two parts: the value of an object the code mutates, and what lies around it. An operation
  on the second part, reading the first, replacing it; \<open>at_fst a P\<close> fixes the first part.
\<close>

definition on_snd :: "('s, 'e, 'a) op \<Rightarrow> ('o \<times> 's, 'e, 'a) op" where
  "on_snd m = (\<lambda>s. case m (snd s) of (r, t) \<Rightarrow> (r, (fst s, t)))"

definition get_fst :: "('o \<times> 's, 'e, 'o) op" where "get_fst = (\<lambda>s. (Ok (fst s), s))"
definition put_fst :: "'o \<Rightarrow> ('o \<times> 's, 'e, unit) op" where "put_fst a = (\<lambda>s. (Ok (), (a, snd s)))"

definition at_fst :: "'o \<Rightarrow> ('s \<Rightarrow> bool) \<Rightarrow> 'o \<times> 's \<Rightarrow> bool" where
  "at_fst a P s \<longleftrightarrow> fst s = a \<and> P (snd s)"

lemma at_fst_pair [simp]: "at_fst a P (b, t) \<longleftrightarrow> b = a \<and> P t"
  by (simp add: at_fst_def)

lemma on_snd_apply: "on_snd m (a, s) = (case m s of (r, t) \<Rightarrow> (r, (a, t)))"
  by (simp add: on_snd_def)

lemma on_snd_eq: "on_snd m (a, s) = (r, t) \<longleftrightarrow> m s = (r, snd t) \<and> fst t = a"
  by (auto simp: on_snd_def split: prod.split)

lemma get_fst_apply [simp]: "get_fst (a, s) = (Inr a, (a, s))"
  by (simp add: get_fst_def)

lemma put_fst_apply [simp]: "put_fst b (a, s) = (Inr (), (b, s))"
  by (simp add: put_fst_def)

lemma hoare_on_snd:
  "hoare P m Q E \<Longrightarrow> hoare (at_fst a P) (on_snd m) (\<lambda>r. at_fst a (Q r)) (\<lambda>e. at_fst a (E e))"
  by (auto simp: hoare_def on_snd_def at_fst_def split: prod.splits sum.splits)

lemma hoare_get_fst: "hoare (at_fst a P) (k a) Q E \<Longrightarrow> hoare (at_fst a P) (bnd get_fst k) Q E"
  by (auto simp: hoare_def bnd_def at_fst_def)

lemma hoare_put_fst: "hoare (at_fst a P) (put_fst b) (\<lambda>_. at_fst b P) E"
  by (auto simp: hoare_def)

section \<open>Checked and saturating arithmetic\<close>

definition checked_add :: "'a::len word \<Rightarrow> 'a word \<Rightarrow> 'a word option" where
  "checked_add a b = (if unat a + unat b < 2 ^ LENGTH('a) then Some (a + b) else None)"

definition checked_sub :: "'a::len word \<Rightarrow> 'a word \<Rightarrow> 'a word option" where
  "checked_sub a b = (if b \<le> a then Some (a - b) else None)"

definition saturating_add :: "'a::len word \<Rightarrow> 'a word \<Rightarrow> 'a word" where
  "saturating_add a b = (if unat a + unat b < 2 ^ LENGTH('a) then a + b else - 1)"

definition saturating_sub :: "'a::len word \<Rightarrow> 'a word \<Rightarrow> 'a word" where
  "saturating_sub a b = (if b \<le> a then a - b else 0)"

text \<open>Signed 64-bit subtraction, \<open>None\<close> when the exact difference leaves the range.\<close>

definition checked_sub_i64 :: "i64 \<Rightarrow> i64 \<Rightarrow> i64 option" where
  "checked_sub_i64 a b =
     (let d = sint a - sint b in
      if - (2 ^ 63) \<le> d \<and> d < 2 ^ 63 then Some (word_of_int d) else None)"

definition cmp_i64 :: "i64 \<Rightarrow> i64 \<Rightarrow> ordering" where
  "cmp_i64 a b = (if sint a < sint b then Less else if sint a = sint b then Equal else Greater)"

text \<open>\<open>u64::try_from(len)\<close> for a length, and \<open>usize\<close> values as \<open>nat\<close> below \<open>2 ^ 64\<close>.\<close>

definition u64_of_len :: "nat \<Rightarrow> u64 option" where
  "u64_of_len n = (if n < 2 ^ 64 then Some (of_nat n) else None)"

text \<open>Evaluation by comparing the wrapped sum, without numbers as large as \<open>2 ^ w\<close> in unary.\<close>

lemma checked_add_code [code]: "checked_add a b = (let c = a + b in if c < a then None else Some c)"
proof -
  have s: "unat (a + b) = (unat a + unat b) mod 2 ^ LENGTH('a)" for a b :: "'a word" by (simp add: unat_word_ariths)
  have b: "unat a < 2 ^ LENGTH('a)" "unat b < 2 ^ LENGTH('a)" by (rule unsigned_less)+
  show ?thesis
  proof (cases "unat a + unat b < 2 ^ LENGTH('a)")
    case True
    then show ?thesis by (simp add: checked_add_def Let_def word_less_nat_alt s)
  next
    case False
    then have "(unat a + unat b) mod 2 ^ LENGTH('a) = unat a + unat b - 2 ^ LENGTH('a)"
      using b by (subst le_mod_geq) (auto simp del: unsigned_less)
    then have "(unat a + unat b) mod 2 ^ LENGTH('a) < unat a"
      using b False by linarith
    with False show ?thesis by (simp add: checked_add_def Let_def word_less_nat_alt s)
  qed
qed

lemma saturating_add_code [code]: "saturating_add a b = (case checked_add a b of None \<Rightarrow> - 1 | Some c \<Rightarrow> c)"
  by (simp add: saturating_add_def checked_add_def)

lemma u64_of_len_code [code]:
  "u64_of_len n = (if int n < 18446744073709551616 then Some (word_of_int (int n)) else None)"
  by (simp add: u64_of_len_def)

lemma sint_eq_iff [simp]: "sint a = sint b \<longleftrightarrow> a = (b :: 'a::len word)"
  by (auto intro: signed_word_eqI)

lemma sint_linear: "\<not> sint a < sint b \<Longrightarrow> a \<noteq> b \<Longrightarrow> sint b < sint (a :: 'a::len word)"
  using sint_eq_iff [of a b] by linarith

lemma checked_add_Some:
  "checked_add a b = Some c \<longleftrightarrow> unat a + unat b < 2 ^ LENGTH('a) \<and> c = (a :: 'a::len word) + b"
  by (auto simp: checked_add_def)

lemma unat_checked_add: "checked_add a b = Some c \<Longrightarrow> unat c = unat a + unat b"
  by (auto simp: checked_add_def unat_word_ariths split: if_splits)

lemma checked_add_gt: "checked_add a 1 = Some c \<Longrightarrow> a < (c :: 'a::len word)"
  by (auto simp: word_less_nat_alt dest!: unat_checked_add)

lemma unat_checked_sub: "checked_sub a b = Some c \<Longrightarrow> unat c = unat a - unat b \<and> unat b \<le> unat a"
  by (auto simp: checked_sub_def unat_sub word_le_nat_alt split: if_splits)

lemma unat_u64_of_len: "u64_of_len n = Some w \<Longrightarrow> unat w = n"
  by (auto simp: u64_of_len_def unat_of_nat split: if_splits)

lemma sint_checked_sub_i64: "checked_sub_i64 a b = Some c \<Longrightarrow> sint c = sint a - sint b"
  by (auto simp: checked_sub_i64_def Let_def sint_word_ariths signed_take_bit_int_eq_self
      split: if_splits)

lemma u64_bound: "unat (w :: u64) < 2 ^ 64"
  by (rule order_less_le_trans [OF unsigned_less]) simp

lemma unat_of_nat_small: "n < 2 ^ LENGTH('a) \<Longrightarrow> unat (of_nat n :: 'a::len word) = n"
  by (simp add: unat_of_nat take_bit_nat_eq_self)

lemma unat_eqD: "unat (w :: 'a::len word) = n \<Longrightarrow> w = of_nat n"
  by auto

section \<open>Big-endian bytes\<close>

fun be_bytes :: "nat \<Rightarrow> 'a::len word \<Rightarrow> bytes" where
  "be_bytes 0 w = []"
| "be_bytes (Suc n) w = be_bytes n (drop_bit 8 w) @ [ucast w]"

definition from_be :: "bytes \<Rightarrow> 'a::len word" where
  "from_be bs = foldl (\<lambda>acc b. push_bit 8 acc OR ucast b) 0 bs"

lemma be_bytes_numeral [simp]:
  "be_bytes (numeral k) w = be_bytes (pred_numeral k) (drop_bit 8 w) @ [ucast w]"
  by (simp add: numeral_eq_Suc)

lemma length_be_bytes: "length (be_bytes n w) = n"
  by (induction n arbitrary: w) simp_all

lemma from_be_Nil [simp]: "from_be [] = 0"
  by (simp add: from_be_def)

lemma from_be_snoc: "from_be (bs @ [b]) = push_bit 8 (from_be bs) OR ucast b"
  by (simp add: from_be_def)

lemma from_be_be_bytes: "from_be (be_bytes n w) = take_bit (8 * n) (w :: 'a::len word)"
proof (induction n arbitrary: w)
  case (Suc n)
  show ?case
    by (rule bit_eqI)
      (auto simp: from_be_snoc Suc bit_or_iff bit_push_bit_iff bit_take_bit_iff bit_drop_bit_eq
        bit_ucast_iff not_le)
qed simp

lemma from_be_be_bytes_full [simp]:
  "LENGTH('a) = 8 * n \<Longrightarrow> from_be (be_bytes n w) = (w :: 'a::len word)"
  by (simp add: from_be_be_bytes take_bit_word_eq_self)

lemma bit_from_be_ge: "bit (from_be bs :: 'a::len word) i \<Longrightarrow> i < 8 * length bs"
proof (induction bs arbitrary: i rule: rev_induct)
  case (snoc b bs)
  from snoc.prems consider "8 \<le> i" "bit (from_be bs :: 'a word) (i - 8)" | "bit b i"
    by (auto simp: from_be_snoc bit_or_iff bit_push_bit_iff bit_ucast_iff)
  then show ?case
  proof cases
    case 1
    with snoc.IH [of "i - 8"] show ?thesis by simp
  next
    case 2
    then show ?thesis using bit_imp_le_length [of b i] by simp
  qed
qed simp

lemma be_bytes_from_be:
  "8 * length bs \<le> LENGTH('a) \<Longrightarrow> be_bytes (length bs) (from_be bs :: 'a::len word) = bs"
proof (induction bs rule: rev_induct)
  case (snoc b bs)
  let ?w = "from_be bs :: 'a word"
  have drop: "drop_bit 8 (push_bit 8 ?w OR ucast b) = ?w"
  proof (rule bit_word_eqI)
    fix i assume "i < LENGTH('a)"
    moreover have "bit ?w i \<Longrightarrow> i + 8 < LENGTH('a)"
      using bit_from_be_ge [where 'a = 'a, of bs i] snoc.prems by fastforce
    moreover have "\<not> bit b (i + 8)"
      using bit_imp_le_length [of b "i + 8"] by auto
    ultimately show "bit (drop_bit 8 (push_bit 8 ?w OR ucast b)) i = bit ?w i"
      by (auto simp: bit_drop_bit_eq bit_or_iff bit_push_bit_iff bit_ucast_iff add.commute)
  qed
  have low: "ucast (push_bit 8 ?w OR ucast b :: 'a word) = b"
    by (rule bit_word_eqI) (use snoc.prems in \<open>auto simp: bit_ucast_iff bit_or_iff bit_push_bit_iff\<close>)
  from snoc show ?case
    by (simp add: from_be_snoc drop low del: drop_bit_or)
qed simp

lemma be_bytes_inj: "LENGTH('a) = 8 * n \<Longrightarrow> be_bytes n v = be_bytes n w \<Longrightarrow> v = (w :: 'a::len word)"
  by (metis from_be_be_bytes_full)

section \<open>Fixed-size arrays\<close>

text \<open>\<open>[u8; N]\<close> is a byte list; that its length is \<open>N\<close> is part of a value's well-formedness.\<close>

definition array_of :: "nat \<Rightarrow> bytes \<Rightarrow> bool" where
  "array_of n bs \<longleftrightarrow> length bs = n"

lemma array_of_length [simp]: "array_of n bs \<Longrightarrow> length bs = n"
  by (simp add: array_of_def)

lemma array_of_be [simp]: "array_of n (be_bytes n w)"
  by (simp add: array_of_def length_be_bytes)

section \<open>Byte strings\<close>

text \<open>A Rust byte-string literal; Rust strings are their UTF-8 bytes as a \<open>string\<close>.\<close>

definition ascii :: "string \<Rightarrow> bytes" where
  "ascii cs = map of_char cs"

text \<open>Decimal numerals, as \<open>Display\<close> prints unsigned integers.\<close>

fun decimal :: "nat \<Rightarrow> string" where
  "decimal n =
     (if n < 10 then [char_of (48 + n)] else decimal (n div 10) @ [char_of (48 + n mod 10)])"

declare decimal.simps [simp del]

definition hex_digit :: "u8 \<Rightarrow> char" where
  "hex_digit n = ''0123456789abcdef'' ! unat n"

definition hex_byte :: "u8 \<Rightarrow> string" where
  "hex_byte b = [hex_digit (drop_bit 4 b), hex_digit (b AND 15)]"

section \<open>Interfaces\<close>

text \<open>
  A byte codec: decoding inverts encoding on the values the encoder accepts, and a decoded input
  is the encoding of its value, so an encoding is the only byte string with its meaning.
\<close>

locale codec =
  fixes enc :: "'v \<Rightarrow> 'b"
    and dec :: "'b \<Rightarrow> 'e + 'v"
    and valid :: "'v \<Rightarrow> bool"
  assumes dec_enc: "valid v \<Longrightarrow> dec (enc v) = Inr v"
    and enc_dec: "dec bs = Inr v \<Longrightarrow> enc v = bs"
begin

lemma enc_inject: "valid v \<Longrightarrow> valid w \<Longrightarrow> enc v = enc w \<Longrightarrow> v = w"
  by (metis dec_enc sum.inject(2))

lemma dec_inject: "dec bs = Inr v \<Longrightarrow> dec cs = Inr v \<Longrightarrow> bs = cs"
  using enc_dec by metis

lemma dec_iff: "valid v \<Longrightarrow> dec bs = Inr v \<longleftrightarrow> bs = enc v"
  using dec_enc enc_dec by metis

end

text \<open>
  A machine whose operations fail without an effect and keep an invariant; \<open>run_ops\<close> performs a
  list of calls and goes on after an error, as a caller that handles the error does.
\<close>

definition run_ops :: "('c \<Rightarrow> ('s, 'e, 'o) op) \<Rightarrow> 'c list \<Rightarrow> 's \<Rightarrow> 's" where
  "run_ops step cs s = foldl (\<lambda>t c. snd (step c t)) s cs"

lemma run_ops_Nil [simp]: "run_ops step [] s = s"
  by (simp add: run_ops_def)

lemma run_ops_Cons [simp]: "run_ops step (c # cs) s = run_ops step cs (snd (step c s))"
  by (simp add: run_ops_def)

locale guarded_machine =
  fixes step :: "'c \<Rightarrow> ('s, 'e, 'o) op"
    and inv :: "'s \<Rightarrow> bool"
  assumes step_error: "step c s = (Inl e, t) \<Longrightarrow> t = s"
    and step_inv: "inv s \<Longrightarrow> step c s = (Inr r, t) \<Longrightarrow> inv t"
begin

lemma snd_step_cases:
  obtains "snd (step c s) = s" | r where "step c s = (Inr r, snd (step c s))"
  by (cases "step c s"; cases "fst (step c s)") (auto dest: step_error)

lemma snd_step_inv: "inv s \<Longrightarrow> inv (snd (step c s))"
  by (rule snd_step_cases [of c s]) (auto dest: step_inv)

lemma run_inv: "inv s \<Longrightarrow> inv (run_ops step cs s)"
  by (induction cs arbitrary: s) (simp_all add: snd_step_inv)

end

text \<open>A guarded machine with a preorder that every successful step follows.\<close>

locale progress_machine = guarded_machine +
  fixes below :: "'a \<Rightarrow> 'a \<Rightarrow> bool"
  assumes below_refl: "below s s"
    and below_trans: "below s t \<Longrightarrow> below t u \<Longrightarrow> below s u"
    and step_below: "inv s \<Longrightarrow> step c s = (Inr r, t) \<Longrightarrow> below s t"
begin

lemma snd_step_below: "inv s \<Longrightarrow> below s (snd (step c s))"
  by (rule snd_step_cases [of c s]) (auto dest: step_below intro: below_refl)

lemma run_below: "inv s \<Longrightarrow> below s (run_ops step cs s)"
proof (induction cs arbitrary: s)
  case (Cons c cs)
  have "below (snd (step c s)) (run_ops step cs (snd (step c s)))"
    using Cons by (simp add: snd_step_inv)
  with snd_step_below [OF Cons.prems] show ?case
    by (auto intro: below_trans)
qed (simp add: below_refl)

end

end
