(* ===== verification/Cursor.thy ===== *)
theory Cursor
  imports Prelude
begin

text \<open>
  The composite rising cursor of \<open>crates/dbx-rs-connector-sdk/src/cursor.rs\<close>: a timestamp in
  epoch microseconds and a signed identifier, their position order, the 18-byte canonical form,
  the cursor definition with its overlap, and the lower bound a collection query starts from.
\<close>

section \<open>Positions\<close>

datatype timestamp_id_cursor =
  TimestampIdCursor (timestamp_epoch_micros: i64) (cursor_id: i64)

definition position_cmp :: "timestamp_id_cursor \<Rightarrow> timestamp_id_cursor \<Rightarrow> ordering" where
  "position_cmp a b =
     (case cmp_i64 (timestamp_epoch_micros a) (timestamp_epoch_micros b) of
        Equal \<Rightarrow> cmp_i64 (cursor_id a) (cursor_id b)
      | other \<Rightarrow> other)"

text \<open>Cursors are linearly ordered by position, timestamp first, both components signed.\<close>

instantiation timestamp_id_cursor :: linorder
begin

definition less_cursor_def:
  "a < b \<longleftrightarrow>
     sint (timestamp_epoch_micros a) < sint (timestamp_epoch_micros b) \<or>
     timestamp_epoch_micros a = timestamp_epoch_micros b \<and>
     sint (cursor_id a) < sint (cursor_id b)"

definition less_eq_cursor_def: "a \<le> (b :: timestamp_id_cursor) \<longleftrightarrow> a < b \<or> a = b"

instance
proof
  fix x y z :: timestamp_id_cursor
  show "x < y \<longleftrightarrow> x \<le> y \<and> \<not> y \<le> x"
    by (auto simp: less_cursor_def less_eq_cursor_def)
  show "x \<le> x" by (simp add: less_eq_cursor_def)
  show "x \<le> y \<Longrightarrow> y \<le> z \<Longrightarrow> x \<le> z"
    by (auto simp: less_cursor_def less_eq_cursor_def)
  show "x \<le> y \<Longrightarrow> y \<le> x \<Longrightarrow> x = y"
    by (auto simp: less_cursor_def less_eq_cursor_def)
  show "x \<le> y \<or> y \<le> x"
    by (auto simp: less_cursor_def less_eq_cursor_def timestamp_id_cursor.expand
        dest: sint_linear)
qed

end

lemma position_cmp_Less [simp]: "position_cmp a b = Less \<longleftrightarrow> a < b"
  by (auto simp: position_cmp_def cmp_i64_def less_cursor_def)

lemma position_cmp_Equal [simp]: "position_cmp a b = Equal \<longleftrightarrow> a = b"
  by (cases a; cases b) (auto simp: position_cmp_def cmp_i64_def)

lemma position_cmp_Greater [simp]: "position_cmp a b = Greater \<longleftrightarrow> b < a"
  by (auto simp: position_cmp_def cmp_i64_def less_cursor_def dest: sint_linear)

section \<open>Canonical bytes\<close>

definition TIMESTAMP_ID_CURSOR_FORMAT_VERSION :: u16 where
  "TIMESTAMP_ID_CURSOR_FORMAT_VERSION = 1"

definition TIMESTAMP_ID_CURSOR_CANONICAL_BYTES :: nat where
  "TIMESTAMP_ID_CURSOR_CANONICAL_BYTES = 18"

datatype cursor_contract_error =
    EmptyFieldName
  | DuplicateFieldName
  | OverlapOutOfRange
  | OverlapPrecisionLoss
  | TimestampUnderflow
  | ResumeBeforeInitialBound
  | InvalidCanonicalLength
  | UnsupportedFormatVersion

definition to_canonical_bytes :: "timestamp_id_cursor \<Rightarrow> bytes" where
  "to_canonical_bytes c =
     be_bytes 2 TIMESTAMP_ID_CURSOR_FORMAT_VERSION
     @ be_bytes 8 (timestamp_epoch_micros c)
     @ be_bytes 8 (cursor_id c)"

definition from_canonical_bytes :: "bytes \<Rightarrow> cursor_contract_error + timestamp_id_cursor" where
  "from_canonical_bytes bs =
     (if length bs \<noteq> TIMESTAMP_ID_CURSOR_CANONICAL_BYTES then Err InvalidCanonicalLength
      else if from_be (take 2 bs) \<noteq> TIMESTAMP_ID_CURSOR_FORMAT_VERSION
      then Err UnsupportedFormatVersion
      else Ok (TimestampIdCursor (from_be (take 8 (drop 2 bs))) (from_be (drop 10 bs))))"

lemma length_to_canonical_bytes [simp]: "length (to_canonical_bytes c) = 18"
  by (simp add: to_canonical_bytes_def length_be_bytes del: be_bytes_numeral)

lemma from_to_canonical: "from_canonical_bytes (to_canonical_bytes c) = Ok c"
  by (simp add: from_canonical_bytes_def TIMESTAMP_ID_CURSOR_CANONICAL_BYTES_def)
    (simp add: to_canonical_bytes_def length_be_bytes del: be_bytes_numeral)

lemma to_from_canonical:
  assumes "from_canonical_bytes bs = Ok c"
  shows "to_canonical_bytes c = bs"
proof -
  from assms have len: "length bs = 18"
    and ver: "from_be (take 2 bs) = TIMESTAMP_ID_CURSOR_FORMAT_VERSION"
    and c: "c = TimestampIdCursor (from_be (take 8 (drop 2 bs))) (from_be (drop 10 bs))"
    by (auto simp: from_canonical_bytes_def TIMESTAMP_ID_CURSOR_CANONICAL_BYTES_def
        split: if_splits)
  have "be_bytes 2 TIMESTAMP_ID_CURSOR_FORMAT_VERSION = take 2 bs"
    using be_bytes_from_be [where 'a = 16, of "take 2 bs"] len ver
    by (simp del: be_bytes_numeral)
  moreover have "be_bytes 8 (timestamp_epoch_micros c) = take 8 (drop 2 bs)"
    using be_bytes_from_be [where 'a = 64, of "take 8 (drop 2 bs)"] len
    by (simp add: c del: be_bytes_numeral)
  moreover have "be_bytes 8 (cursor_id c) = drop 10 bs"
    using be_bytes_from_be [where 'a = 64, of "drop 10 bs"] len
    by (simp add: c del: be_bytes_numeral)
  moreover have "drop 10 bs = drop 8 (drop 2 bs)" by simp
  ultimately show ?thesis
    by (simp add: to_canonical_bytes_def del: be_bytes_numeral drop_drop)
qed

interpretation cursor_bytes: codec to_canonical_bytes from_canonical_bytes "\<lambda>_. True"
  by unfold_locales (simp_all add: from_to_canonical to_from_canonical)

section \<open>The cursor definition\<close>

text \<open>
  \<open>std::time::Duration\<close>: whole seconds and fewer than \<open>10 ^ 9\<close> nanoseconds; \<open>as_micros\<close> is
  a \<open>u128\<close> that cannot overflow, hence a natural number.
\<close>

record duration =
  as_secs :: u64
  subsec_nanos :: u32

definition as_micros :: "duration \<Rightarrow> nat" where
  "as_micros d = unat (as_secs d) * 1000000 + unat (subsec_nanos d) div 1000"

definition duration_is_zero :: "duration \<Rightarrow> bool" where
  "duration_is_zero d \<longleftrightarrow> as_secs d = 0 \<and> subsec_nanos d = 0"

definition i64_of_micros :: "nat \<Rightarrow> i64 option" where
  "i64_of_micros n = (if n < 2 ^ 63 then Some (of_nat n) else None)"

datatype cursor_null_policy = Reject

record timestamp_id_cursor_spec =
  timestamp_field :: string
  id_field :: string
  overlap :: duration
  null_policy :: cursor_null_policy

text \<open>
  \<open>trim().is_empty()\<close> on a UTF-8 string: every scalar has the Unicode \<open>White_Space\<close> property.
\<close>

abbreviation chr :: "nat \<Rightarrow> char" where "chr \<equiv> char_of"

fun blank :: "string \<Rightarrow> bool" where
  "blank [] = True"
| "blank (c # cs) =
     (if of_char c \<in> {9, 10, 11, 12, 13, 32 :: nat} then blank cs
      else case cs of
          [] \<Rightarrow> False
        | c2 # cs2 \<Rightarrow>
            if of_char c = (194 :: nat) \<and> of_char c2 \<in> {133, 160 :: nat} then blank cs2
            else (case cs2 of
                [] \<Rightarrow> False
              | c3 # cs3 \<Rightarrow>
                  if (of_char c, of_char c2, of_char c3) = (225 :: nat, 154 :: nat, 128 :: nat)
                   \<or> (of_char c, of_char c2) = (226 :: nat, 128 :: nat) \<and>
                     (of_char c3 \<in> {128 .. 138 :: nat} \<union> {168, 169, 175})
                   \<or> (of_char c, of_char c2, of_char c3) = (226 :: nat, 129 :: nat, 159 :: nat)
                   \<or> (of_char c, of_char c2, of_char c3) = (227 :: nat, 128 :: nat, 128 :: nat)
                  then blank cs3 else False))"

definition spec_validate :: "timestamp_id_cursor_spec \<Rightarrow> cursor_contract_error + unit" where
  "spec_validate spec =
     (if blank (timestamp_field spec) \<or> blank (id_field spec) then Err EmptyFieldName
      else if timestamp_field spec = id_field spec then Err DuplicateFieldName
      else if unat (subsec_nanos (overlap spec)) mod 1000 \<noteq> 0 then Err OverlapPrecisionLoss
      else bindr (ok_or OverlapOutOfRange (i64_of_micros (as_micros (overlap spec))))
        (\<lambda>_. Ok ()))"

section \<open>Bounds and requests\<close>

record timestamp_id_cursor_bound =
  bound_value :: timestamp_id_cursor
  inclusive :: bool

record timestamp_id_cursor_request =
  spec :: timestamp_id_cursor_spec
  req_committed :: "timestamp_id_cursor option"
  req_resume_after :: "timestamp_id_cursor option"

definition I64_MIN :: i64 where "I64_MIN = word_of_int (- (2 ^ 63))"

definition initial_bound ::
    "timestamp_id_cursor_request \<Rightarrow> cursor_contract_error + timestamp_id_cursor_bound option" where
  "initial_bound r =
     (case req_committed r of
        None \<Rightarrow> Ok None
      | Some committed \<Rightarrow>
          if duration_is_zero (overlap (spec r))
          then Ok (Some \<lparr>bound_value = committed, inclusive = False\<rparr>)
          else
            bindr (ok_or OverlapOutOfRange (i64_of_micros (as_micros (overlap (spec r)))))
              (\<lambda>overlap_micros.
            bindr (ok_or TimestampUnderflow
                (checked_sub_i64 (timestamp_epoch_micros committed) overlap_micros))
              (\<lambda>micros.
            Ok (Some \<lparr>bound_value = TimestampIdCursor micros I64_MIN, inclusive = True\<rparr>))))"

definition effective_bound ::
    "timestamp_id_cursor_request \<Rightarrow> cursor_contract_error + timestamp_id_cursor_bound option" where
  "effective_bound r =
     bindr (spec_validate (spec r)) (\<lambda>_.
       case req_resume_after r of
         Some resume_after \<Rightarrow>
           bindr (initial_bound r) (\<lambda>initial.
             if (case initial of
                   None \<Rightarrow> False
                 | Some bound \<Rightarrow> position_cmp resume_after (bound_value bound) = Less)
             then Err ResumeBeforeInitialBound
             else Ok (Some \<lparr>bound_value = resume_after, inclusive = False\<rparr>))
       | None \<Rightarrow> initial_bound r)"

section \<open>What a bound admits\<close>

text \<open>The rows a query with this lower bound may return; no bound admits every row.\<close>

definition admits :: "timestamp_id_cursor_bound option \<Rightarrow> timestamp_id_cursor \<Rightarrow> bool" where
  "admits bound v =
     (case bound of
        None \<Rightarrow> True
      | Some b \<Rightarrow> if inclusive b then bound_value b \<le> v else bound_value b < v)"

lemma sint_I64_MIN [simp]: "sint I64_MIN = - (2 ^ 63)"
  by (simp add: I64_MIN_def)

lemma I64_MIN_least: "sint I64_MIN \<le> sint (i :: i64)"
  using sint_range_size [of i] by (simp add: word_size)

lemma sint_i64_of_micros: "i64_of_micros n = Some w \<Longrightarrow> sint w = int n"
  by (auto simp: i64_of_micros_def signed_of_nat signed_take_bit_int_eq_self_iff split: if_splits)

lemma as_micros_pos:
  assumes "\<not> duration_is_zero d" "unat (subsec_nanos d) mod 1000 = 0"
  shows "0 < as_micros d"
proof (cases "as_secs d = 0")
  case True
  with assms(1) have "0 < unat (subsec_nanos d)"
    by (simp add: duration_is_zero_def unat_gt_0)
  with assms(2) have "0 < unat (subsec_nanos d) div 1000"
    by (cases "unat (subsec_nanos d) < 1000") (simp_all add: div_greater_zero_iff)
  then show ?thesis by (simp add: as_micros_def)
next
  case False
  then show ?thesis by (simp add: as_micros_def unat_gt_0)
qed

lemma spec_validate_Ok:
  "spec_validate s = Ok () \<longleftrightarrow>
     \<not> blank (timestamp_field s) \<and> \<not> blank (id_field s) \<and> timestamp_field s \<noteq> id_field s \<and>
     unat (subsec_nanos (overlap s)) mod 1000 = 0 \<and> as_micros (overlap s) < 2 ^ 63"
  by (auto simp: spec_validate_def i64_of_micros_def)

text \<open>With an overlap the bound is the exact difference of timestamps, with no wrap-around.\<close>

lemma initial_bound_overlap:
  assumes "initial_bound r = Ok (Some b)" "req_committed r = Some c"
    and "\<not> duration_is_zero (overlap (spec r))"
  shows "inclusive b"
    and "sint (timestamp_epoch_micros (bound_value b)) =
         sint (timestamp_epoch_micros c) - int (as_micros (overlap (spec r)))"
    and "cursor_id (bound_value b) = I64_MIN"
  using assms
  by (auto simp: initial_bound_def dest!: sint_checked_sub_i64 sint_i64_of_micros)

lemma initial_bound_exact:
  assumes "req_committed r = Some c" "duration_is_zero (overlap (spec r))"
  shows "initial_bound r = Ok (Some \<lparr>bound_value = c, inclusive = False\<rparr>)"
  using assms by (simp add: initial_bound_def)

lemma effective_bound_spec_ok: "effective_bound r = Ok b \<Longrightarrow> spec_validate (spec r) = Ok ()"
  by (auto simp: effective_bound_def)

lemma effective_bound_fresh:
  "req_resume_after r = None \<Longrightarrow>
     effective_bound r = Ok b \<longleftrightarrow> spec_validate (spec r) = Ok () \<and> initial_bound r = Ok b"
  by (auto simp: effective_bound_def)

lemma effective_bound_resume:
  assumes "req_resume_after r = Some p" "effective_bound r = Ok b"
  shows "b = Some \<lparr>bound_value = p, inclusive = False\<rparr>"
    and "\<exists>i. initial_bound r = Ok i \<and> (\<forall>ib. i = Some ib \<longrightarrow> bound_value ib \<le> p)"
  using assms by (auto simp: effective_bound_def not_less split: option.splits if_splits)

lemma effective_bound_uncommitted:
  assumes "effective_bound r = Ok b" "req_committed r = None" "req_resume_after r = None"
  shows "b = None"
  using assms by (auto simp: effective_bound_fresh initial_bound_def)

text \<open>Nothing after the committed cursor is hidden by the bound of a fresh scan.\<close>

lemma fresh_bound_admits_later:
  assumes "effective_bound r = Ok b" "req_resume_after r = None"
    and "req_committed r = Some c" "c < v"
  shows "admits b v"
proof (cases "duration_is_zero (overlap (spec r))")
  case True
  with assms show ?thesis
    by (auto simp: effective_bound_fresh initial_bound_exact admits_def)
next
  case False
  from assms have init: "initial_bound r = Ok b" by (simp add: effective_bound_fresh)
  with False assms(3) obtain bd where b: "b = Some bd"
    by (auto simp: initial_bound_def)
  note facts = initial_bound_overlap [OF init [unfolded b] assms(3) False]
  have "sint (timestamp_epoch_micros (bound_value bd)) \<le> sint (timestamp_epoch_micros v)"
    using facts(2) assms(4) by (auto simp: less_cursor_def)
  moreover have "cursor_id (bound_value bd) = cursor_id v \<or>
      sint (cursor_id (bound_value bd)) < sint (cursor_id v)"
    using I64_MIN_least [of "cursor_id v"]
    by (simp add: facts(3) le_less del: sint_I64_MIN) blast
  ultimately have "bound_value bd \<le> v"
    by (auto simp: less_eq_cursor_def less_cursor_def timestamp_id_cursor.expand le_less)
  with facts(1) b show ?thesis by (simp add: admits_def)
qed

section \<open>Properties\<close>

definition demo_request :: "timestamp_id_cursor option \<Rightarrow> timestamp_id_cursor_request" where
  "demo_request resume =
     \<lparr>spec = \<lparr>timestamp_field = ''updated_at'', id_field = ''id'',
        overlap = \<lparr>as_secs = 5, subsec_nanos = 0\<rparr>, null_policy = Reject\<rparr>,
      req_committed = Some (TimestampIdCursor 7000000 3), req_resume_after = resume\<rparr>"

lemma demo_request_bound:
  "effective_bound (demo_request None) =
     Ok (Some \<lparr>bound_value = TimestampIdCursor 2000000 I64_MIN, inclusive = True\<rparr>)"
  "effective_bound (demo_request (Some (TimestampIdCursor 3000000 1))) =
     Ok (Some \<lparr>bound_value = TimestampIdCursor 3000000 1, inclusive = False\<rparr>)"
  by (simp_all add: effective_bound_def demo_request_def spec_validate_def initial_bound_def
      as_micros_def i64_of_micros_def duration_is_zero_def checked_sub_i64_def position_cmp_def
      cmp_i64_def)

text \<open>
  C28. Canonical bytes. The 18-byte form of a cursor is its only one: bytes decode to a cursor
  exactly when they are its encoding.
\<close>
theorem cursor_canonical:
  "from_canonical_bytes bs = Ok c \<longleftrightarrow> bs = to_canonical_bytes c"
  by (rule cursor_bytes.dec_iff) simp

text \<open>
  C26. The window of a fresh scan. Without an overlap the query asks for the positions strictly after
  the committed cursor; with one it asks for every timestamp from the exact, unwrapped difference
  on, whatever the identifier. Either way no position after the committed cursor is left out.
\<close>
theorem fresh_bound_window:
  assumes "effective_bound r = Ok b" "req_resume_after r = None" "req_committed r = Some c"
  shows "(admits b v \<longleftrightarrow>
      (if duration_is_zero (overlap (spec r)) then c < v
       else sint (timestamp_epoch_micros c) - int (as_micros (overlap (spec r)))
         \<le> sint (timestamp_epoch_micros v))) \<and>
    (c < v \<longrightarrow> admits b v)"
proof (cases "duration_is_zero (overlap (spec r))")
  case True
  with assms show ?thesis
    by (auto simp: effective_bound_fresh initial_bound_exact admits_def)
next
  case False
  from assms have init: "initial_bound r = Ok b" by (simp add: effective_bound_fresh)
  with False assms(3) obtain bd where b: "b = Some bd"
    by (auto simp: initial_bound_def)
  note facts = initial_bound_overlap [OF init [unfolded b] assms(3) False]
  have "bound_value bd \<le> v \<longleftrightarrow>
      sint (timestamp_epoch_micros (bound_value bd)) \<le> sint (timestamp_epoch_micros v)"
    using I64_MIN_least [of "cursor_id v"] facts(3) sint_eq_iff [of I64_MIN "cursor_id v"]
    by (cases "bound_value bd"; cases v)
      (auto simp: less_eq_cursor_def less_cursor_def le_less simp del: sint_I64_MIN)
  with facts(1,2) b False fresh_bound_admits_later [OF assms(1-3), of v] show ?thesis
    by (simp add: admits_def)
qed

lemma fresh_bound_window_witness:
  "admits (Some \<lparr>bound_value = TimestampIdCursor 2000000 I64_MIN, inclusive = True\<rparr>)
     (TimestampIdCursor 2000000 0)"
  using fresh_bound_window [OF demo_request_bound(1), of "TimestampIdCursor 7000000 3" "TimestampIdCursor 2000000 0"]
  by (simp add: demo_request_def duration_is_zero_def as_micros_def)

text \<open>
  C27. The window of a resumed scan. A scan that resumes asks for the positions strictly after the
  resume cursor, and all of them lie inside the window of the fresh scan.
\<close>
theorem resume_bound_window:
  assumes "effective_bound r = Ok b" "req_resume_after r = Some p"
  shows "(admits b v \<longleftrightarrow> p < v) \<and>
    (\<exists>i. initial_bound r = Ok i \<and> (admits b v \<longrightarrow> admits i v))"
proof -
  note b = effective_bound_resume [OF assms(2,1)]
  then obtain i where i: "initial_bound r = Ok i" "\<forall>ib. i = Some ib \<longrightarrow> bound_value ib \<le> p" by blast
  have "p < v \<Longrightarrow> admits i v" using i(2) by (cases i) (auto simp: admits_def)
  with b(1) i(1) show ?thesis by (auto simp: admits_def)
qed

lemma resume_bound_window_witness:
  "admits (Some \<lparr>bound_value = TimestampIdCursor 3000000 1, inclusive = False\<rparr>)
     (TimestampIdCursor 3000000 2)"
  using resume_bound_window [OF demo_request_bound(2), of "TimestampIdCursor 3000000 1" "TimestampIdCursor 3000000 2"]
  by (simp add: demo_request_def less_cursor_def)

end
