(* ===== verification/Checkpoint.thy ===== *)
theory Checkpoint
  imports Cursor
begin

text \<open>
  The checkpoint coordinator of \<open>crates/dbx-rs-checkpoint/src/lib.rs\<close>: a snapshot with the
  committed cursor, a generation and at most one active attempt, whose collection and delivery
  sides finish in either order before a commit. Every method is a state-passing function over the
  snapshot; a method of the Rust API is one constructor of \<open>checkpoint_call\<close>.
\<close>

section \<open>State\<close>

definition SNAPSHOT_FORMAT_VERSION :: u16 where
  "SNAPSHOT_FORMAT_VERSION = 1"

datatype attempt_id = AttemptId (attempt_bytes: bytes)

record attempt_fence =
  fence_attempt :: attempt_id
  fence_configuration :: bytes
  fence_generation :: u64

datatype collection_state =
    Coll_InProgress
  | Coll_Completed u64 "timestamp_id_cursor option"
  | Coll_Failed

datatype delivery_state =
    Del_InProgress
  | Del_Confirmed u64
  | Del_Failed
  | Del_Uncertain

record active_attempt =
  fence :: attempt_fence
  collection :: collection_state
  delivery :: delivery_state

record committed_attempt =
  committed_fence :: attempt_fence
  resulting_generation :: u64

record snapshot =
  format_version :: u16
  configuration_id :: bytes
  generation :: u64
  committed :: "timestamp_id_cursor option"
  active :: "active_attempt option"
  last_committed_attempt :: "committed_attempt option"

definition new_snapshot :: "bytes \<Rightarrow> u64 \<Rightarrow> timestamp_id_cursor option \<Rightarrow> snapshot" where
  "new_snapshot cfg gen com =
     \<lparr>format_version = SNAPSHOT_FORMAT_VERSION, configuration_id = cfg, generation = gen,
      committed = com, active = None, last_committed_attempt = None\<rparr>"

section \<open>Outcomes and errors\<close>

datatype start_outcome = Started | AlreadyActive

datatype record_outcome = Recorded | Unchanged

datatype commit_outcome = Committed u64 bool | AlreadyCommitted u64

datatype replay_reason =
    Replay_CollectionInProgress
  | Replay_DeliveryInProgress
  | Replay_CollectionFailed
  | Replay_DeliveryFailed
  | Replay_DeliveryUncertain
  | Replay_RowCountMismatch

datatype recovery_action =
    StartNewAttempt
  | ReplayFromCommitted attempt_id replay_reason
  | RecoveredCommit attempt_id u64 bool

datatype checkpoint_error =
    UnsupportedSnapshotVersion
  | InvalidSnapshot
  | ConfigurationMismatch
  | GenerationMismatch
  | AttemptMismatch
  | ActiveAttemptExists
  | NoActiveAttempt
  | MissingCandidate
  | CandidateForEmptyCollection
  | CandidateRegression
  | ConflictingCollectionState
  | ConflictingDeliveryState
  | CollectionInProgress
  | CollectionFailed
  | DeliveryInProgress
  | DeliveryFailed
  | DeliveryUncertain
  | RowCountMismatch
  | GenerationOverflow

section \<open>Validation and fencing\<close>

definition validate_candidate ::
    "timestamp_id_cursor option \<Rightarrow> u64 \<Rightarrow> timestamp_id_cursor option \<Rightarrow> checkpoint_error + unit"
where
  "validate_candidate com rows candidate =
     (if rows = 0 then
        (if candidate = None then Ok () else Err CandidateForEmptyCollection)
      else
        bindr (ok_or MissingCandidate candidate) (\<lambda>c.
          if (case com of None \<Rightarrow> False | Some m \<Rightarrow> position_cmp c m = Less)
          then Err CandidateRegression
          else Ok ()))"

definition validate_active :: "snapshot \<Rightarrow> checkpoint_error + unit" where
  "validate_active s =
     (case active s of
        None \<Rightarrow> Ok ()
      | Some a \<Rightarrow>
          if fence_configuration (fence a) \<noteq> configuration_id s
           \<or> fence_generation (fence a) \<noteq> generation s
          then Err InvalidSnapshot
          else (case collection a of
              Coll_Completed rows candidate \<Rightarrow> validate_candidate (committed s) rows candidate
            | _ \<Rightarrow> Ok ()))"

definition validate_last :: "snapshot \<Rightarrow> checkpoint_error + unit" where
  "validate_last s =
     (case last_committed_attempt s of
        None \<Rightarrow> Ok ()
      | Some l \<Rightarrow>
          (case checked_add (fence_generation (committed_fence l)) 1 of
             None \<Rightarrow> Err InvalidSnapshot
           | Some expected \<Rightarrow>
               if fence_configuration (committed_fence l) \<noteq> configuration_id s
                \<or> expected \<noteq> resulting_generation l
                \<or> resulting_generation l \<noteq> generation s
               then Err InvalidSnapshot
               else Ok ()))"

definition snapshot_validate :: "snapshot \<Rightarrow> checkpoint_error + unit" where
  "snapshot_validate s =
     (if format_version s \<noteq> SNAPSHOT_FORMAT_VERSION then Err UnsupportedSnapshotVersion
      else bindr (validate_active s) (\<lambda>_. validate_last s))"

definition require_snapshot_context :: "bytes \<Rightarrow> u64 \<Rightarrow> snapshot \<Rightarrow> checkpoint_error + unit" where
  "require_snapshot_context cfg gen s =
     (if cfg \<noteq> configuration_id s then Err ConfigurationMismatch
      else if gen \<noteq> generation s then Err GenerationMismatch
      else Ok ())"

definition require_current_context :: "attempt_fence \<Rightarrow> snapshot \<Rightarrow> checkpoint_error + unit" where
  "require_current_context f s =
     require_snapshot_context (fence_configuration f) (fence_generation f) s"

definition require_active_fence :: "attempt_fence \<Rightarrow> snapshot \<Rightarrow> checkpoint_error + unit" where
  "require_active_fence f s =
     bindr (require_current_context f s) (\<lambda>_.
     bindr (ok_or NoActiveAttempt (active s)) (\<lambda>a.
       if fence_attempt (fence a) \<noteq> fence_attempt f then Err AttemptMismatch else Ok ()))"

section \<open>Operations\<close>

definition start_attempt :: "attempt_fence \<Rightarrow> (snapshot, checkpoint_error, start_outcome) op" where
  "start_attempt f s =
     try_in (snapshot_validate s) s (\<lambda>_.
     try_in (require_current_context f s) s (\<lambda>_.
       case active s of
         Some a \<Rightarrow>
           if fence_attempt (fence a) = fence_attempt f then (Ok AlreadyActive, s)
           else (Err ActiveAttemptExists, s)
       | None \<Rightarrow>
           (Ok Started,
            s\<lparr>active := Some \<lparr>fence = f, collection = Coll_InProgress, delivery = Del_InProgress\<rparr>\<rparr>)))"

definition collection_completed ::
    "attempt_fence \<Rightarrow> u64 \<Rightarrow> timestamp_id_cursor option \<Rightarrow> (snapshot, checkpoint_error, record_outcome) op"
where
  "collection_completed f rows candidate s =
     try_in (snapshot_validate s) s (\<lambda>_.
     try_in (require_active_fence f s) s (\<lambda>_.
     try_in (validate_candidate (committed s) rows candidate) s (\<lambda>_.
     try_in (ok_or InvalidSnapshot (active s)) s (\<lambda>a.
       case collection a of
         Coll_InProgress \<Rightarrow>
           (Ok Recorded, s\<lparr>active := Some (a\<lparr>collection := Coll_Completed rows candidate\<rparr>)\<rparr>)
       | Coll_Completed recorded_rows recorded_candidate \<Rightarrow>
           if recorded_rows = rows \<and> recorded_candidate = candidate then (Ok Unchanged, s)
           else (Err ConflictingCollectionState, s)
       | Coll_Failed \<Rightarrow> (Err ConflictingCollectionState, s)))))"

definition collection_failed :: "attempt_fence \<Rightarrow> (snapshot, checkpoint_error, record_outcome) op" where
  "collection_failed f s =
     try_in (snapshot_validate s) s (\<lambda>_.
     try_in (require_active_fence f s) s (\<lambda>_.
     try_in (ok_or InvalidSnapshot (active s)) s (\<lambda>a.
       case collection a of
         Coll_InProgress \<Rightarrow> (Ok Recorded, s\<lparr>active := Some (a\<lparr>collection := Coll_Failed\<rparr>)\<rparr>)
       | Coll_Failed \<Rightarrow> (Ok Unchanged, s)
       | Coll_Completed _ _ \<Rightarrow> (Err ConflictingCollectionState, s))))"

definition delivery_confirmed ::
    "attempt_fence \<Rightarrow> u64 \<Rightarrow> (snapshot, checkpoint_error, record_outcome) op" where
  "delivery_confirmed f rows s =
     try_in (snapshot_validate s) s (\<lambda>_.
     try_in (require_active_fence f s) s (\<lambda>_.
     try_in (ok_or InvalidSnapshot (active s)) s (\<lambda>a.
       case delivery a of
         Del_InProgress \<Rightarrow> (Ok Recorded, s\<lparr>active := Some (a\<lparr>delivery := Del_Confirmed rows\<rparr>)\<rparr>)
       | Del_Confirmed recorded_rows \<Rightarrow>
           if recorded_rows = rows then (Ok Unchanged, s) else (Err ConflictingDeliveryState, s)
       | Del_Failed \<Rightarrow> (Err ConflictingDeliveryState, s)
       | Del_Uncertain \<Rightarrow> (Err ConflictingDeliveryState, s))))"

definition record_delivery_terminal ::
    "attempt_fence \<Rightarrow> delivery_state \<Rightarrow> (snapshot, checkpoint_error, record_outcome) op" where
  "record_delivery_terminal f terminal s =
     try_in (snapshot_validate s) s (\<lambda>_.
     try_in (require_active_fence f s) s (\<lambda>_.
     try_in (ok_or InvalidSnapshot (active s)) s (\<lambda>a.
       if delivery a = Del_InProgress
       then (Ok Recorded, s\<lparr>active := Some (a\<lparr>delivery := terminal\<rparr>)\<rparr>)
       else if delivery a = terminal then (Ok Unchanged, s)
       else (Err ConflictingDeliveryState, s))))"

definition delivery_failed :: "attempt_fence \<Rightarrow> (snapshot, checkpoint_error, record_outcome) op" where
  "delivery_failed f = record_delivery_terminal f Del_Failed"

definition delivery_uncertain :: "attempt_fence \<Rightarrow> (snapshot, checkpoint_error, record_outcome) op" where
  "delivery_uncertain f = record_delivery_terminal f Del_Uncertain"

definition commit_rows ::
    "active_attempt \<Rightarrow> checkpoint_error + timestamp_id_cursor option" where
  "commit_rows a =
     bindr (case collection a of
         Coll_InProgress \<Rightarrow> Err CollectionInProgress
       | Coll_Completed rows candidate \<Rightarrow> Ok (rows, candidate)
       | Coll_Failed \<Rightarrow> Err CollectionFailed) (\<lambda>(collection_rows, candidate).
     bindr (case delivery a of
         Del_InProgress \<Rightarrow> Err DeliveryInProgress
       | Del_Confirmed rows \<Rightarrow> Ok rows
       | Del_Failed \<Rightarrow> Err DeliveryFailed
       | Del_Uncertain \<Rightarrow> Err DeliveryUncertain) (\<lambda>delivery_rows.
     if collection_rows \<noteq> delivery_rows then Err RowCountMismatch else Ok candidate))"

definition advances :: "timestamp_id_cursor option \<Rightarrow> timestamp_id_cursor option \<Rightarrow> bool" where
  "advances com candidate =
     (case (com, candidate) of
        (Some m, Some c) \<Rightarrow> position_cmp c m = Greater
      | (None, Some _) \<Rightarrow> True
      | (_, None) \<Rightarrow> False)"

definition commit :: "attempt_fence \<Rightarrow> (snapshot, checkpoint_error, commit_outcome) op" where
  "commit f s =
     try_in (snapshot_validate s) s (\<lambda>_.
     if (case last_committed_attempt s of None \<Rightarrow> False | Some l \<Rightarrow> committed_fence l = f)
     then (Ok (AlreadyCommitted (generation s)), s)
     else
     try_in (require_active_fence f s) s (\<lambda>_.
     try_in (ok_or InvalidSnapshot (active s)) s (\<lambda>a.
     try_in (commit_rows a) s (\<lambda>candidate.
     try_in (ok_or GenerationOverflow (checked_add (generation s) 1)) s (\<lambda>next_generation.
       (Ok (Committed next_generation (advances (committed s) candidate)),
        s\<lparr>committed := (case candidate of Some c \<Rightarrow> Some c | None \<Rightarrow> committed s),
          generation := next_generation,
          active := None,
          last_committed_attempt :=
            Some \<lparr>committed_fence = f, resulting_generation = next_generation\<rparr>\<rparr>))))))"

datatype recovery_disposition = Disp_Commit | Disp_Replay replay_reason

definition recovery_disposition_of :: "active_attempt \<Rightarrow> recovery_disposition" where
  "recovery_disposition_of a =
     (case (collection a, delivery a) of
        (Coll_Failed, _) \<Rightarrow> Disp_Replay Replay_CollectionFailed
      | (_, Del_Failed) \<Rightarrow> Disp_Replay Replay_DeliveryFailed
      | (_, Del_Uncertain) \<Rightarrow> Disp_Replay Replay_DeliveryUncertain
      | (Coll_InProgress, _) \<Rightarrow> Disp_Replay Replay_CollectionInProgress
      | (Coll_Completed _ _, Del_InProgress) \<Rightarrow> Disp_Replay Replay_DeliveryInProgress
      | (Coll_Completed collection_rows _, Del_Confirmed delivery_rows) \<Rightarrow>
          if collection_rows \<noteq> delivery_rows then Disp_Replay Replay_RowCountMismatch
          else Disp_Commit)"

text \<open>
  \<open>recover\<close> holds an \<open>unreachable!\<close>: its errors are \<open>Some e\<close> for the \<open>Err e\<close> of the code and
  \<open>None\<close> for the panic.
\<close>

definition recover ::
    "bytes \<Rightarrow> u64 \<Rightarrow> (snapshot, checkpoint_error option, recovery_action) op" where
  "recover cfg gen s =
     try_in (map_err Some (snapshot_validate s)) s (\<lambda>_.
     try_in (map_err Some (require_snapshot_context cfg gen s)) s (\<lambda>_.
       case active s of
         None \<Rightarrow> (Ok StartNewAttempt, s)
       | Some a \<Rightarrow>
           (case recovery_disposition_of a of
              Disp_Commit \<Rightarrow>
                (case commit (fence a) s of
                   (Inl e, t) \<Rightarrow> (Err (Some e), t)
                 | (Inr (Committed g adv), t) \<Rightarrow>
                     (Ok (RecoveredCommit (fence_attempt (fence a)) g adv), t)
                 | (Inr (AlreadyCommitted _), t) \<Rightarrow> (Err None, t))
            | Disp_Replay reason \<Rightarrow>
                (Ok (ReplayFromCommitted (fence_attempt (fence a)) reason),
                 s\<lparr>active := None\<rparr>))))"

section \<open>Well-formed snapshots\<close>

abbreviation valid_snapshot :: "snapshot \<Rightarrow> bool" where
  "valid_snapshot s \<equiv> snapshot_validate s = Inr ()"

lemmas checkpoint_op_defs [op_defs] =
  start_attempt_def collection_completed_def collection_failed_def delivery_confirmed_def
  record_delivery_terminal_def delivery_failed_def delivery_uncertain_def commit_def

lemma validate_candidate_Ok:
  "validate_candidate com rows candidate = Inr () \<longleftrightarrow>
     (if rows = 0 then candidate = None
      else \<exists>c. candidate = Some c \<and> (\<forall>m. com = Some m \<longrightarrow> m \<le> c))"
  by (auto simp: validate_candidate_def not_less split: option.splits)

lemma validate_active_Ok:
  "validate_active s = Inr () \<longleftrightarrow>
     (\<forall>a. active s = Some a \<longrightarrow>
        fence_configuration (fence a) = configuration_id s \<and>
        fence_generation (fence a) = generation s \<and>
        (\<forall>rows c. collection a = Coll_Completed rows c \<longrightarrow>
           validate_candidate (committed s) rows c = Inr ()))"
  by (auto simp: validate_active_def split: option.splits collection_state.splits)

lemma validate_last_Ok:
  "validate_last s = Inr () \<longleftrightarrow>
     (\<forall>l. last_committed_attempt s = Some l \<longrightarrow>
        fence_configuration (committed_fence l) = configuration_id s \<and>
        checked_add (fence_generation (committed_fence l)) 1 = Some (generation s) \<and>
        resulting_generation l = generation s)"
  by (auto simp: validate_last_def split: option.splits)

lemma valid_snapshot_iff:
  "valid_snapshot s \<longleftrightarrow>
     format_version s = SNAPSHOT_FORMAT_VERSION \<and>
     validate_active s = Inr () \<and> validate_last s = Inr ()"
  by (auto simp: snapshot_validate_def)

lemma valid_new_snapshot: "valid_snapshot (new_snapshot cfg gen com)"
  by (simp add: valid_snapshot_iff new_snapshot_def validate_active_def validate_last_def)

lemma require_active_fence_Ok:
  "require_active_fence f s = Inr () \<longleftrightarrow>
     fence_configuration f = configuration_id s \<and> fence_generation f = generation s \<and>
     (\<exists>a. active s = Some a \<and> fence_attempt (fence a) = fence_attempt f)"
  by (auto simp: require_active_fence_def require_current_context_def
      require_snapshot_context_def)

text \<open>In a valid snapshot the fence that is let through is the active attempt's own.\<close>

lemma require_active_fence_eq:
  assumes "valid_snapshot s" "require_active_fence f s = Inr ()" "active s = Some a"
  shows "fence a = f"
  using assms
  by (auto simp: valid_snapshot_iff validate_active_Ok require_active_fence_Ok
      intro: attempt_fence.equality)

lemma last_fence_not_active:
  assumes "valid_snapshot s" "active s = Some a" "last_committed_attempt s = Some l"
  shows "committed_fence l \<noteq> fence a"
  using assms
  by (auto simp: valid_snapshot_iff validate_active_Ok validate_last_Ok dest: unat_checked_add)

section \<open>The coordinator as a machine\<close>

datatype checkpoint_call =
    Call_Start attempt_fence
  | Call_CollectionCompleted attempt_fence u64 "timestamp_id_cursor option"
  | Call_CollectionFailed attempt_fence
  | Call_DeliveryConfirmed attempt_fence u64
  | Call_DeliveryFailed attempt_fence
  | Call_DeliveryUncertain attempt_fence
  | Call_Commit attempt_fence
  | Call_Recover bytes u64

datatype checkpoint_reply =
    Reply_Start start_outcome
  | Reply_Record record_outcome
  | Reply_Commit commit_outcome
  | Reply_Recover recovery_action

definition reply ::
    "('r \<Rightarrow> checkpoint_reply) \<Rightarrow> (checkpoint_error + 'r) \<times> snapshot
       \<Rightarrow> (checkpoint_error option + checkpoint_reply) \<times> snapshot" where
  "reply f rt = (case rt of (Inl e, t) \<Rightarrow> (Inl (Some e), t) | (Inr r, t) \<Rightarrow> (Inr (f r), t))"

fun checkpoint_step ::
    "checkpoint_call \<Rightarrow> (snapshot, checkpoint_error option, checkpoint_reply) op" where
  "checkpoint_step (Call_Start f) s = reply Reply_Start (start_attempt f s)"
| "checkpoint_step (Call_CollectionCompleted f rows c) s =
     reply Reply_Record (collection_completed f rows c s)"
| "checkpoint_step (Call_CollectionFailed f) s = reply Reply_Record (collection_failed f s)"
| "checkpoint_step (Call_DeliveryConfirmed f rows) s =
     reply Reply_Record (delivery_confirmed f rows s)"
| "checkpoint_step (Call_DeliveryFailed f) s = reply Reply_Record (delivery_failed f s)"
| "checkpoint_step (Call_DeliveryUncertain f) s = reply Reply_Record (delivery_uncertain f s)"
| "checkpoint_step (Call_Commit f) s = reply Reply_Commit (commit f s)"
| "checkpoint_step (Call_Recover cfg gen) s =
     (case recover cfg gen s of (Inl e, t) \<Rightarrow> (Inl e, t) | (Inr r, t) \<Rightarrow> (Inr (Reply_Recover r), t))"

lemma reply_eq_Inr: "reply f rt = (Inr r, t) \<longleftrightarrow> (\<exists>q. rt = (Inr q, t) \<and> r = f q)"
  by (auto simp: reply_def split: prod.splits sum.splits)

lemma reply_eq_Inl: "reply f rt = (Inl e, t) \<longleftrightarrow> (\<exists>q. rt = (Inl q, t) \<and> e = Some q)"
  by (auto simp: reply_def split: prod.splits sum.splits)

section \<open>Characteristic facts of the operations\<close>

text \<open>
  The guards every recording operation passes, with the branch on the attempt's own state left to
  the caller.
\<close>

lemma guarded_body_Ok:
  assumes "try_in (snapshot_validate s) s (\<lambda>_. try_in (require_active_fence f s) s (\<lambda>_.
      try_in (ok_or InvalidSnapshot (active s)) s k)) = (Inr r, t)"
  obtains a where "valid_snapshot s" "active s = Some a" "fence a = f" "k a = (Inr r, t)"
  using assms by (auto simp: try_in_eq_Inr dest: require_active_fence_eq)

lemma guarded_body_Err:
  assumes "try_in (snapshot_validate s) s (\<lambda>_. try_in (require_active_fence f s) s (\<lambda>_.
      try_in (ok_or InvalidSnapshot (active s)) s k)) = (Inl e, t)"
  obtains "t = s" | a where "active s = Some a" "k a = (Inl e, t)"
  using assms by (auto simp: try_in_eq_Inl)

text \<open>Every operation that reports an error leaves the snapshot as it was.\<close>

lemma start_attempt_Err: "start_attempt f s = (Inl e, t) \<Longrightarrow> t = s"
  by (auto simp: start_attempt_def try_in_eq_Inl split: option.split_asm if_split_asm)

lemma collection_completed_Err:
  assumes "collection_completed f rows c s = (Inl e, t)"
  shows "t = s"
proof -
  from assms consider "t = s" | a where "(case collection a of
         Coll_InProgress \<Rightarrow>
           (Ok Recorded, s\<lparr>active := Some (a\<lparr>collection := Coll_Completed rows c\<rparr>)\<rparr>)
       | Coll_Completed recorded_rows recorded_candidate \<Rightarrow>
           if recorded_rows = rows \<and> recorded_candidate = c then (Ok Unchanged, s)
           else (Err ConflictingCollectionState, s)
       | Coll_Failed \<Rightarrow> (Err ConflictingCollectionState, s)) = (Inl e, t)"
    unfolding collection_completed_def try_in_eq_Inl by auto
  then show ?thesis
    by cases (auto split: collection_state.split_asm if_split_asm)
qed

lemma collection_failed_Err: "collection_failed f s = (Inl e, t) \<Longrightarrow> t = s"
  unfolding collection_failed_def
  by (erule guarded_body_Err) (auto split: collection_state.split_asm)

lemma delivery_confirmed_Err: "delivery_confirmed f rows s = (Inl e, t) \<Longrightarrow> t = s"
  unfolding delivery_confirmed_def
  by (erule guarded_body_Err) (auto split: delivery_state.split_asm if_split_asm)

lemma record_delivery_terminal_Err: "record_delivery_terminal f d s = (Inl e, t) \<Longrightarrow> t = s"
  unfolding record_delivery_terminal_def
  by (erule guarded_body_Err) (auto split: if_split_asm)

lemma commit_Err: "commit f s = (Inl e, t) \<Longrightarrow> t = s"
  by (auto simp: commit_def try_in_eq_Inl split: if_split_asm)

text \<open>What each operation does when it succeeds.\<close>

lemma start_attempt_Ok:
  assumes "start_attempt f s = (Inr r, t)"
  shows "valid_snapshot s"
    and "t = s \<or>
      active s = None \<and> fence_configuration f = configuration_id s \<and>
      fence_generation f = generation s \<and>
      t = s\<lparr>active := Some \<lparr>fence = f, collection = Coll_InProgress, delivery = Del_InProgress\<rparr>\<rparr>"
  using assms
  by (auto simp: start_attempt_def try_in_eq_Inr require_current_context_def
      require_snapshot_context_def split: option.split_asm if_split_asm)

lemma collection_completed_Ok:
  assumes "collection_completed f rows c s = (Inr r, t)"
  shows "valid_snapshot s"
    and "t = s \<or>
      (\<exists>a. active s = Some a \<and> fence a = f \<and> collection a = Coll_InProgress \<and>
        validate_candidate (committed s) rows c = Inr () \<and>
        t = s\<lparr>active := Some (a\<lparr>collection := Coll_Completed rows c\<rparr>)\<rparr>)"
proof -
  from assms obtain a where a: "valid_snapshot s" "active s = Some a" "fence a = f"
      "validate_candidate (committed s) rows c = Inr ()"
    and body: "(case collection a of
         Coll_InProgress \<Rightarrow>
           (Ok Recorded, s\<lparr>active := Some (a\<lparr>collection := Coll_Completed rows c\<rparr>)\<rparr>)
       | Coll_Completed recorded_rows recorded_candidate \<Rightarrow>
           if recorded_rows = rows \<and> recorded_candidate = c then (Ok Unchanged, s)
           else (Err ConflictingCollectionState, s)
       | Coll_Failed \<Rightarrow> (Err ConflictingCollectionState, s)) = (Inr r, t)"
    unfolding collection_completed_def try_in_eq_Inr by (auto dest: require_active_fence_eq)
  show "valid_snapshot s" by (fact a(1))
  from body a show "t = s \<or>
      (\<exists>a. active s = Some a \<and> fence a = f \<and> collection a = Coll_InProgress \<and>
        validate_candidate (committed s) rows c = Inr () \<and>
        t = s\<lparr>active := Some (a\<lparr>collection := Coll_Completed rows c\<rparr>)\<rparr>)"
    by (cases "collection a") (auto split: if_split_asm)
qed

lemma collection_failed_Ok:
  assumes "collection_failed f s = (Inr r, t)"
  shows "valid_snapshot s"
    and "t = s \<or>
      (\<exists>a. active s = Some a \<and> fence a = f \<and> collection a = Coll_InProgress \<and>
        t = s\<lparr>active := Some (a\<lparr>collection := Coll_Failed\<rparr>)\<rparr>)"
  using assms unfolding collection_failed_def
  by (auto elim!: guarded_body_Ok split: collection_state.split_asm)

lemma delivery_confirmed_Ok:
  assumes "delivery_confirmed f rows s = (Inr r, t)"
  shows "valid_snapshot s"
    and "t = s \<or>
      (\<exists>a. active s = Some a \<and> fence a = f \<and> delivery a = Del_InProgress \<and>
        t = s\<lparr>active := Some (a\<lparr>delivery := Del_Confirmed rows\<rparr>)\<rparr>)"
  using assms unfolding delivery_confirmed_def
  by (auto elim!: guarded_body_Ok split: delivery_state.split_asm if_split_asm)

lemma record_delivery_terminal_Ok:
  assumes "record_delivery_terminal f d s = (Inr r, t)"
  shows "valid_snapshot s"
    and "t = s \<or>
      (\<exists>a. active s = Some a \<and> fence a = f \<and> delivery a = Del_InProgress \<and>
        t = s\<lparr>active := Some (a\<lparr>delivery := d\<rparr>)\<rparr>)"
  using assms unfolding record_delivery_terminal_def
  by (auto elim!: guarded_body_Ok split: if_split_asm)

lemma commit_rows_Ok:
  "commit_rows a = Inr candidate \<longleftrightarrow>
     (\<exists>rows. collection a = Coll_Completed rows candidate \<and> delivery a = Del_Confirmed rows)"
  by (cases "collection a"; cases "delivery a") (auto simp: commit_rows_def)

lemma commit_Committed:
  assumes "commit f s = (Inr (Committed g adv), t)"
  obtains a rows candidate where
    "valid_snapshot s" "active s = Some a" "fence a = f"
    "collection a = Coll_Completed rows candidate" "delivery a = Del_Confirmed rows"
    "checked_add (generation s) 1 = Some g" "adv = advances (committed s) candidate"
    "t = s\<lparr>committed := (case candidate of Some c \<Rightarrow> Some c | None \<Rightarrow> committed s),
        generation := g, active := None,
        last_committed_attempt := Some \<lparr>committed_fence = f, resulting_generation = g\<rparr>\<rparr>"
  using assms
  by (auto simp: commit_def try_in_eq_Inr commit_rows_Ok dest: require_active_fence_eq
      split: if_split_asm)

lemma commit_AlreadyCommitted:
  assumes "commit f s = (Inr (AlreadyCommitted g), t)"
  shows "valid_snapshot s" "t = s" "g = generation s"
    "\<exists>l. last_committed_attempt s = Some l \<and> committed_fence l = f"
  using assms by (auto simp: commit_def try_in_eq_Inr split: if_split_asm option.split_asm)

section \<open>Preservation of validity\<close>

text \<open>
  Only the active attempt of a snapshot is replaced by the recording operations; it stays valid
  when the new attempt has the same fence and a candidate that is sound for the committed cursor.
\<close>

lemma valid_snapshot_active:
  assumes "valid_snapshot s" "t = s\<lparr>active := Some a\<rparr>"
    and "fence_configuration (fence a) = configuration_id s"
    and "fence_generation (fence a) = generation s"
    and "\<And>rows c. collection a = Coll_Completed rows c \<Longrightarrow>
      validate_candidate (committed s) rows c = Inr ()"
  shows "valid_snapshot t"
  using assms by (auto simp: valid_snapshot_iff validate_active_Ok validate_last_Ok)

lemma valid_active_facts:
  assumes "valid_snapshot s" "active s = Some a"
  shows "fence_configuration (fence a) = configuration_id s"
    and "fence_generation (fence a) = generation s"
    and "collection a = Coll_Completed rows c \<Longrightarrow>
      validate_candidate (committed s) rows c = Inr ()"
  using assms by (auto simp: valid_snapshot_iff validate_active_Ok)

lemma valid_snapshot_drop: "valid_snapshot s \<Longrightarrow> valid_snapshot (s\<lparr>active := None\<rparr>)"
  by (auto simp: valid_snapshot_iff validate_active_Ok validate_last_Ok)

lemma valid_start_attempt: "start_attempt f s = (Inr r, t) \<Longrightarrow> valid_snapshot t"
  by (frule start_attempt_Ok(1), drule start_attempt_Ok(2)) (auto intro: valid_snapshot_active)

lemma valid_collection_completed: "collection_completed f rows c s = (Inr r, t) \<Longrightarrow> valid_snapshot t"
  by (frule collection_completed_Ok(1), drule collection_completed_Ok(2))
    (auto intro!: valid_snapshot_active [of s] dest: valid_active_facts)

lemma valid_collection_failed: "collection_failed f s = (Inr r, t) \<Longrightarrow> valid_snapshot t"
  by (frule collection_failed_Ok(1), drule collection_failed_Ok(2))
    (auto intro!: valid_snapshot_active [of s] dest: valid_active_facts)

lemma valid_delivery_confirmed: "delivery_confirmed f rows s = (Inr r, t) \<Longrightarrow> valid_snapshot t"
  by (frule delivery_confirmed_Ok(1), drule delivery_confirmed_Ok(2))
    (auto intro!: valid_snapshot_active [of s] dest: valid_active_facts)

lemma valid_record_delivery_terminal:
  "record_delivery_terminal f d s = (Inr r, t) \<Longrightarrow> valid_snapshot t"
  by (frule record_delivery_terminal_Ok(1), drule record_delivery_terminal_Ok(2))
    (auto intro!: valid_snapshot_active [of s] dest: valid_active_facts)

lemma valid_commit: "commit f s = (Inr r, t) \<Longrightarrow> valid_snapshot t"
proof (cases r)
  case (Committed g adv)
  assume "commit f s = (Inr r, t)"
  from this [unfolded Committed] show ?thesis
    by (rule commit_Committed)
      (auto simp: valid_snapshot_iff validate_active_Ok validate_last_Ok)
qed (auto dest: commit_AlreadyCommitted)

text \<open>Recording never touches the committed cursor.\<close>

lemma recording_committed:
  "start_attempt f s = (Inr r1, t) \<Longrightarrow> committed t = committed s"
  "collection_completed f rows c s = (Inr r2, t) \<Longrightarrow> committed t = committed s"
  "collection_failed f s = (Inr r2, t) \<Longrightarrow> committed t = committed s"
  "delivery_confirmed f rows s = (Inr r2, t) \<Longrightarrow> committed t = committed s"
  "record_delivery_terminal f d s = (Inr r2, t) \<Longrightarrow> committed t = committed s"
  by (auto dest!: start_attempt_Ok(2) collection_completed_Ok(2) collection_failed_Ok(2)
      delivery_confirmed_Ok(2) record_delivery_terminal_Ok(2))

section \<open>Recovery\<close>

lemma recovery_disposition_commit:
  "recovery_disposition_of a = Disp_Commit \<longleftrightarrow> (\<exists>c. commit_rows a = Inr c)"
  by (cases "collection a"; cases "delivery a")
    (auto simp: recovery_disposition_of_def commit_rows_def)

lemma commit_active_not_already:
  assumes "active s = Some a" "commit (fence a) s = (Inr (AlreadyCommitted g), t)"
  shows False
  using assms commit_AlreadyCommitted [OF assms(2)] last_fence_not_active by blast

lemma recover_never_panics: "recover cfg gen s \<noteq> (Inl None, t)"
proof
  assume *: "recover cfg gen s = (Inl None, t)"
  then obtain a where a: "active s = Some a"
    and body: "(case recovery_disposition_of a of
              Disp_Commit \<Rightarrow>
                (case commit (fence a) s of
                   (Inl e, t) \<Rightarrow> (Err (Some e), t)
                 | (Inr (Committed g adv), t) \<Rightarrow>
                     (Ok (RecoveredCommit (fence_attempt (fence a)) g adv), t)
                 | (Inr (AlreadyCommitted _), t) \<Rightarrow> (Err None, t))
            | Disp_Replay reason \<Rightarrow>
                (Ok (ReplayFromCommitted (fence_attempt (fence a)) reason),
                 s\<lparr>active := None\<rparr>)) = (Inl None, t)"
    by (auto simp: recover_def try_in_eq_Inl map_err_def split: option.split_asm sum.split_asm)
  obtain g t' where "commit (fence a) s = (Inr (AlreadyCommitted g), t')"
    using body
    by (cases "commit (fence a) s"; cases "fst (commit (fence a) s)")
      (auto split: recovery_disposition.split_asm commit_outcome.split_asm)
  with a show False by (rule commit_active_not_already)
qed

lemma recover_Ok:
  assumes "recover cfg gen s = (Inr r, t)"
  obtains (fresh) "valid_snapshot s" "active s = None" "r = StartNewAttempt" "t = s"
  | (replay) a reason where "valid_snapshot s" "active s = Some a"
      "recovery_disposition_of a = Disp_Replay reason"
      "r = ReplayFromCommitted (fence_attempt (fence a)) reason" "t = s\<lparr>active := None\<rparr>"
  | (committed) a g adv where "active s = Some a"
      "commit (fence a) s = (Inr (Committed g adv), t)"
      "r = RecoveredCommit (fence_attempt (fence a)) g adv"
proof (cases "active s")
  case None
  with assms show ?thesis by (intro fresh) (auto simp: recover_def try_in_eq_Inr)
next
  case (Some a)
  show ?thesis
  proof (cases "recovery_disposition_of a")
    case Disp_Commit
    with Some assms have "(case commit (fence a) s of
                   (Inl e, t) \<Rightarrow> (Err (Some e), t)
                 | (Inr (Committed g adv), t) \<Rightarrow>
                     (Ok (RecoveredCommit (fence_attempt (fence a)) g adv), t)
                 | (Inr (AlreadyCommitted _), t) \<Rightarrow> (Err None, t)) = (Inr r, t)"
      by (auto simp: recover_def try_in_eq_Inr)
    then obtain g adv where "commit (fence a) s = (Inr (Committed g adv), t)"
      and "r = RecoveredCommit (fence_attempt (fence a)) g adv"
      by (auto split: prod.split_asm sum.split_asm commit_outcome.split_asm)
    with Some show ?thesis by (rule committed)
  next
    case (Disp_Replay reason)
    with Some assms show ?thesis by (intro replay) (auto simp: recover_def try_in_eq_Inr)
  qed
qed

lemma recover_Err: "recover cfg gen s = (Inl e, t) \<Longrightarrow> t = s"
proof -
  assume *: "recover cfg gen s = (Inl e, t)"
  then consider "t = s"
    | a where "active s = Some a" "recovery_disposition_of a = Disp_Commit"
        "(case commit (fence a) s of
                   (Inl e, t) \<Rightarrow> (Err (Some e), t)
                 | (Inr (Committed g adv), t) \<Rightarrow>
                     (Ok (RecoveredCommit (fence_attempt (fence a)) g adv), t)
                 | (Inr (AlreadyCommitted _), t) \<Rightarrow> (Err None, t)) = (Inl e, t)"
    by (auto simp: recover_def try_in_eq_Inl split: option.split_asm
        recovery_disposition.split_asm)
  then show "t = s"
  proof cases
    case 2
    then show ?thesis
      using commit_active_not_already [OF 2(1)]
      by (cases "commit (fence a) s"; cases "fst (commit (fence a) s)")
        (auto dest: commit_Err split: commit_outcome.split_asm)
  qed
qed

lemma valid_recover: "recover cfg gen s = (Inr r, t) \<Longrightarrow> valid_snapshot t"
  by (erule recover_Ok) (auto intro: valid_snapshot_drop valid_commit)

section \<open>Positions never move back\<close>

fun cursor_le :: "timestamp_id_cursor option \<Rightarrow> timestamp_id_cursor option \<Rightarrow> bool" where
  "cursor_le None _ = True"
| "cursor_le (Some a) None = False"
| "cursor_le (Some a) (Some b) = (a \<le> b)"

lemma cursor_le_refl [simp]: "cursor_le c c"
  by (cases c) simp_all

lemma cursor_le_Some: "cursor_le x (Some c) \<longleftrightarrow> (\<forall>m. x = Some m \<longrightarrow> m \<le> c)"
  by (cases x) simp_all

lemma cursor_le_trans: "cursor_le a b \<Longrightarrow> cursor_le b c \<Longrightarrow> cursor_le a c"
  by (cases a; cases b; cases c) auto

definition checkpoint_below :: "snapshot \<Rightarrow> snapshot \<Rightarrow> bool" where
  "checkpoint_below s t \<longleftrightarrow>
     configuration_id s = configuration_id t \<and>
     generation s \<le> generation t \<and>
     cursor_le (committed s) (committed t)"

lemma commit_below:
  assumes "commit f s = (Inr r, t)"
  shows "checkpoint_below s t"
proof (cases r)
  case (Committed g adv)
  from assms [unfolded Committed] show ?thesis
  proof (rule commit_Committed)
    fix a rows candidate
    assume a: "valid_snapshot s" "active s = Some a" "collection a = Coll_Completed rows candidate"
      and g: "checked_add (generation s) 1 = Some g"
      and t: "t = s\<lparr>committed := (case candidate of Some c \<Rightarrow> Some c | None \<Rightarrow> committed s),
        generation := g, active := None,
        last_committed_attempt := Some \<lparr>committed_fence = f, resulting_generation = g\<rparr>\<rparr>"
    from valid_active_facts(3) [OF a] have "validate_candidate (committed s) rows candidate = Inr ()" .
    then have "cursor_le (committed s) (case candidate of Some c \<Rightarrow> Some c | None \<Rightarrow> committed s)"
      by (cases candidate; cases "committed s") (auto simp: validate_candidate_Ok split: if_split_asm)
    with g t show ?thesis by (auto simp: checkpoint_below_def dest: checked_add_gt)
  qed
next
  case (AlreadyCommitted g)
  with assms have "t = s" by (auto dest: commit_AlreadyCommitted)
  then show ?thesis by (simp add: checkpoint_below_def)
qed

lemma checkpoint_below_active [simp]: "checkpoint_below s (s\<lparr>active := a\<rparr>)"
  by (simp add: checkpoint_below_def)

lemma checkpoint_below_refl [simp]: "checkpoint_below s s"
  by (simp add: checkpoint_below_def)

lemma checkpoint_step_Err: "checkpoint_step c s = (Inl e, t) \<Longrightarrow> t = s"
  by (cases c)
    (auto simp: reply_eq_Inl delivery_failed_def delivery_uncertain_def
      dest: start_attempt_Err collection_completed_Err collection_failed_Err
        delivery_confirmed_Err record_delivery_terminal_Err commit_Err recover_Err
      split: prod.split_asm sum.split_asm)

lemma checkpoint_step_valid: "checkpoint_step c s = (Inr r, t) \<Longrightarrow> valid_snapshot t"
  by (cases c)
    (auto simp: reply_eq_Inr delivery_failed_def delivery_uncertain_def
      dest: valid_start_attempt valid_collection_completed valid_collection_failed
        valid_delivery_confirmed valid_record_delivery_terminal valid_commit valid_recover
      split: prod.split_asm sum.split_asm)

lemma checkpoint_step_below: "checkpoint_step c s = (Inr r, t) \<Longrightarrow> checkpoint_below s t"
proof (cases c)
  case (Call_Recover cfg gen)
  assume "checkpoint_step c s = (Inr r, t)"
  with Call_Recover obtain q where "recover cfg gen s = (Inr q, t)"
    by (auto split: prod.split_asm sum.split_asm)
  then show ?thesis by (rule recover_Ok) (auto dest: commit_below)
qed (auto simp: reply_eq_Inr delivery_failed_def delivery_uncertain_def
      dest: start_attempt_Ok(2) collection_completed_Ok(2) collection_failed_Ok(2)
        delivery_confirmed_Ok(2) record_delivery_terminal_Ok(2) commit_below)

lemma checkpoint_step_never_panics: "checkpoint_step c s \<noteq> (Inl None, t)"
  using recover_never_panics
  by (cases c) (auto simp: reply_def split: prod.splits sum.splits)

interpretation coordinator: progress_machine checkpoint_step valid_snapshot checkpoint_below
proof unfold_locales
  fix c s e t r
  show "checkpoint_step c s = (Inl e, t) \<Longrightarrow> t = s" by (rule checkpoint_step_Err)
  show "checkpoint_step c s = (Inr r, t) \<Longrightarrow> valid_snapshot t" by (rule checkpoint_step_valid)
  show "checkpoint_step c s = (Inr r, t) \<Longrightarrow> checkpoint_below s t"
    by (rule checkpoint_step_below)
next
  fix s t u
  show "checkpoint_below s s" by simp
  show "checkpoint_below s t \<Longrightarrow> checkpoint_below t u \<Longrightarrow> checkpoint_below s u"
    by (auto simp: checkpoint_below_def intro: cursor_le_trans)
qed

section \<open>Independence of the two sides\<close>

text \<open>
  An operation on one side of an attempt neither opens nor closes the guards of an operation on the
  other side.
\<close>

lemma active_fence_active: "require_active_fence f s = Inr () \<Longrightarrow> \<exists>a. active s = Some a"
  by (auto simp: require_active_fence_Ok)

lemma snd_collection_completed:
  "snd (collection_completed f n c s) =
     (if valid_snapshot s \<and> require_active_fence f s = Inr () \<and>
         validate_candidate (committed s) n c = Inr () \<and>
         collection (the (active s)) = Coll_InProgress
      then s\<lparr>active := Some ((the (active s))\<lparr>collection := Coll_Completed n c\<rparr>)\<rparr> else s)"
  by (cases "snapshot_validate s"; cases "require_active_fence f s";
      cases "validate_candidate (committed s) n c")
    (auto simp: collection_completed_def dest!: active_fence_active split: collection_state.split)

lemma snd_delivery_confirmed:
  "snd (delivery_confirmed f m s) =
     (if valid_snapshot s \<and> require_active_fence f s = Inr () \<and>
         delivery (the (active s)) = Del_InProgress
      then s\<lparr>active := Some ((the (active s))\<lparr>delivery := Del_Confirmed m\<rparr>)\<rparr> else s)"
  by (cases "snapshot_validate s"; cases "require_active_fence f s")
    (auto simp: delivery_confirmed_def dest!: active_fence_active split: delivery_state.split)

lemma completion_order:
  "snd (delivery_confirmed f m (snd (collection_completed f n c s))) =
   snd (collection_completed f n c (snd (delivery_confirmed f m s)))"
proof (cases "valid_snapshot s \<and> require_active_fence f s = Inr ()")
  case True
  then obtain a where a: "active s = Some a" by (auto simp: require_active_fence_Ok)
  from True a have fenced: "require_active_fence f (s\<lparr>active := Some a'\<rparr>) = Inr ()"
    if "fence a' = fence a" for a'
    using that by (auto simp: require_active_fence_Ok)
  have kept: "valid_snapshot (s\<lparr>active := Some a'\<rparr>)"
    if "fence a' = fence a" "collection a' = collection a \<or>
        (\<exists>n c. collection a' = Coll_Completed n c \<and>
          validate_candidate (committed s) n c = Inr ())" for a'
    using that True valid_active_facts [OF _ a]
    by (auto intro!: valid_snapshot_active [of s])
  from True a show ?thesis
    by (auto simp: snd_collection_completed snd_delivery_confirmed kept fenced)
qed (auto simp: snd_collection_completed snd_delivery_confirmed)

section \<open>Properties\<close>

lemma cursor_of_commit:
  assumes "valid_snapshot s" "active s = Some a" "collection a = Coll_Completed rows candidate"
  shows "(case candidate of Some c \<Rightarrow> Some c | None \<Rightarrow> committed s) =
         (if rows = 0 then committed s else candidate)"
    and "advances (committed s) candidate \<longleftrightarrow>
         (if rows = 0 then committed s else candidate) \<noteq> committed s"
    and "cursor_le (committed s) (if rows = 0 then committed s else candidate)"
  using valid_active_facts(3) [OF assms]
  by (auto simp: cursor_le_Some validate_candidate_Ok advances_def less_le split: if_split_asm option.splits)

lemma commit_ready:
  assumes "valid_snapshot s" "active s = Some a" "commit_rows a = Inr c"
    and "checked_add (generation s) 1 = Some g"
  shows "\<exists>adv t. commit (fence a) s = (Inr (Committed g adv), t)"
  using assms last_fence_not_active [OF assms(1,2)] valid_active_facts [OF assms(1,2)]
  by (auto simp: commit_def require_active_fence_def require_current_context_def
      require_snapshot_context_def split: option.split)

lemma commit_not_ready:
  assumes "valid_snapshot s" "active s = Some a" "commit_rows a = Inl e"
  shows "commit (fence a) s = (Inl e, s)"
  using assms last_fence_not_active [OF assms(1,2)] valid_active_facts [OF assms(1,2)]
  by (auto simp: commit_def require_active_fence_def require_current_context_def
      require_snapshot_context_def split: option.split)

lemma recover_decides:
  assumes "valid_snapshot s" "active s = Some a"
  shows "recover (configuration_id s) (generation s) s =
    (case recovery_disposition_of a of
       Disp_Commit \<Rightarrow>
         (case commit (fence a) s of
            (Inl e, t) \<Rightarrow> (Err (Some e), t)
          | (Inr (Committed g adv), t) \<Rightarrow>
              (Ok (RecoveredCommit (fence_attempt (fence a)) g adv), t)
          | (Inr (AlreadyCommitted _), t) \<Rightarrow> (Err None, t))
     | Disp_Replay reason \<Rightarrow>
         (Ok (ReplayFromCommitted (fence_attempt (fence a)) reason), s\<lparr>active := None\<rparr>))"
  using assms by (simp add: recover_def require_snapshot_context_def)

text \<open>A snapshot with a ready attempt, one row past the committed position.\<close>

definition demo_fence :: attempt_fence where
  "demo_fence = \<lparr>fence_attempt = AttemptId (replicate 16 17),
     fence_configuration = replicate 32 49, fence_generation = 7\<rparr>"

definition demo_start :: snapshot where
  "demo_start = (new_snapshot (replicate 32 49) 7 (Some (TimestampIdCursor 1000 10)))
     \<lparr>active := Some \<lparr>fence = demo_fence, collection = Coll_InProgress,
        delivery = Del_InProgress\<rparr>\<rparr>"

definition demo_ready :: snapshot where
  "demo_ready = demo_start\<lparr>active := Some \<lparr>fence = demo_fence,
     collection = Coll_Completed 2 (Some (TimestampIdCursor 1001 11)),
     delivery = Del_Confirmed 2\<rparr>\<rparr>"

definition demo_done :: snapshot where
  "demo_done = demo_start\<lparr>generation := 8, committed := Some (TimestampIdCursor 1001 11),
     active := None, last_committed_attempt :=
       Some \<lparr>committed_fence = demo_fence, resulting_generation = 8\<rparr>\<rparr>"

lemmas demo_defs = demo_fence_def demo_start_def demo_ready_def demo_done_def

lemma demo_ready_valid: "valid_snapshot demo_ready"
  by (simp add: demo_defs new_snapshot_def valid_snapshot_iff validate_active_Ok validate_last_Ok
      validate_candidate_Ok less_eq_cursor_def less_cursor_def)

lemma demo_commit: "commit demo_fence demo_ready = (Inr (Committed 8 True), demo_done)"
  using demo_ready_valid
  by (simp add: commit_def demo_defs new_snapshot_def require_active_fence_def commit_rows_def
      require_current_context_def require_snapshot_context_def checked_add_def advances_def
      less_cursor_def)

text \<open>
  C1. Delivery-gated commit. When \<open>commit\<close> reports \<open>Committed\<close>, the attempt it was called for is
  the active one, its collection completed and its delivery was confirmed with the same row count;
  the generation grows by exactly one without wrapping, the attempt is cleared, the cursor becomes
  the attempt's candidate (or stays, for an empty collection), never moves back, and the reported
  flag says exactly whether it moved.
\<close>
theorem commit_gated:
  assumes "commit f s = (Inr (Committed g adv), t)"
  shows "\<exists>a rows candidate.
    active s = Some a \<and> fence a = f \<and>
    collection a = Coll_Completed rows candidate \<and> delivery a = Del_Confirmed rows \<and>
    unat g = unat (generation s) + 1 \<and> generation t = g \<and> active t = None \<and>
    committed t = (if rows = 0 then committed s else candidate) \<and>
    cursor_le (committed s) (committed t) \<and>
    (adv \<longleftrightarrow> committed t \<noteq> committed s)"
  using assms
proof (rule commit_Committed)
  fix a rows candidate
  assume a: "valid_snapshot s" "active s = Some a" "fence a = f"
      "collection a = Coll_Completed rows candidate" "delivery a = Del_Confirmed rows"
    and g: "checked_add (generation s) 1 = Some g" "adv = advances (committed s) candidate"
    and t: "t = s\<lparr>committed := (case candidate of Some c \<Rightarrow> Some c | None \<Rightarrow> committed s),
        generation := g, active := None,
        last_committed_attempt := Some \<lparr>committed_fence = f, resulting_generation = g\<rparr>\<rparr>"
  from t have "committed t = (if rows = 0 then committed s else candidate)"
    by (simp add: cursor_of_commit(1) [OF a(1,2,4)])
  with a g t cursor_of_commit(2,3) [OF a(1,2,4)] show ?thesis
    by (auto dest: unat_checked_add)
qed

lemma commit_gated_witness:
  "\<exists>a rows candidate. active demo_ready = Some a \<and> collection a = Coll_Completed rows candidate \<and>
     delivery a = Del_Confirmed rows \<and>
     committed demo_done = (if rows = 0 then committed demo_ready else candidate)"
  using commit_gated [OF demo_commit] by blast

text \<open>
  C12. Coordinator invariant. From a valid snapshot, any sequence of API calls, with errors handled
  or ignored, ends in a valid snapshot of the same configuration whose generation and committed
  position have not moved back.
\<close>
theorem checkpoint_run_safe:
  assumes "valid_snapshot s"
  shows "valid_snapshot (run_ops checkpoint_step cs s) \<and>
    checkpoint_below s (run_ops checkpoint_step cs s)"
  using coordinator.run_inv [OF assms] coordinator.run_below [OF assms] by blast

lemma checkpoint_run_safe_witness:
  "valid_snapshot (run_ops checkpoint_step [Call_Commit demo_fence] demo_ready) \<and>
   checkpoint_below demo_ready (run_ops checkpoint_step [Call_Commit demo_fence] demo_ready)"
  by (rule checkpoint_run_safe [OF demo_ready_valid])

text \<open>
  Failure atomicity. A call that returns an error leaves the snapshot exactly as it was, and
  the \<open>unreachable!\<close> in \<open>recover\<close> is never reached.
\<close>
theorem checkpoint_error_atomic:
  assumes "checkpoint_step c s = (Inl e, t)"
  shows "t = s \<and> e \<noteq> None"
  using assms coordinator.step_error checkpoint_step_never_panics by metis

lemma checkpoint_error_atomic_witness:
  "\<exists>t. checkpoint_step (Call_Commit demo_fence) demo_start = (Inl (Some CollectionInProgress), t) \<and>
     t = demo_start"
proof -
  have "valid_snapshot demo_start"
    by (simp add: demo_defs new_snapshot_def valid_snapshot_iff validate_active_Ok
        validate_last_Ok)
  moreover have "active demo_start = Some \<lparr>fence = demo_fence, collection = Coll_InProgress,
        delivery = Del_InProgress\<rparr>"
    by (simp add: demo_start_def)
  ultimately have "commit demo_fence demo_start = (Inl CollectionInProgress, demo_start)"
    using commit_not_ready [of demo_start] by (fastforce simp: commit_rows_def)
  then have "checkpoint_step (Call_Commit demo_fence) demo_start =
      (Inl (Some CollectionInProgress), demo_start)"
    by (simp add: reply_def)
  with checkpoint_error_atomic [OF this] show ?thesis by blast
qed

text \<open>
  C25. The committed cursor moves only by a commit, asked for or made by recovery, of an attempt
  whose collection completed with that very candidate and whose delivery was confirmed for as many
  rows.
\<close>
theorem cursor_moves_only_by_commit:
  assumes "checkpoint_step c s = (r, t)" "committed t \<noteq> committed s"
  shows "\<exists>a rows candidate. active s = Some a \<and>
    collection a = Coll_Completed rows (Some candidate) \<and> delivery a = Del_Confirmed rows \<and>
    committed t = Some candidate \<and>
    (c = Call_Commit (fence a) \<or> (\<exists>cfg gen. c = Call_Recover cfg gen))"
proof -
  have moves: "\<exists>a rows candidate. active s = Some a \<and> fence a = f \<and>
      collection a = Coll_Completed rows (Some candidate) \<and> delivery a = Del_Confirmed rows \<and>
      committed t = Some candidate"
    if "commit f s = (Inr q, t)" for f q
    using that assms(2)
    by (cases q) (auto elim!: commit_Committed dest: commit_AlreadyCommitted split: option.splits)
  have ok: "\<exists>q. r = Inr q"
    using assms checkpoint_step_Err by (cases r) blast+
  show ?thesis
  proof (cases c)
    case (Call_Commit f)
    with ok assms(1) obtain q where "commit f s = (Inr q, t)" by (auto simp: reply_eq_Inr)
    from moves [OF this] Call_Commit show ?thesis by blast
  next
    case (Call_Recover cfg gen)
    with ok assms(1) obtain q where "recover cfg gen s = (Inr q, t)"
      by (auto split: prod.split_asm sum.split_asm)
    then show ?thesis
    proof (cases rule: recover_Ok)
      case (committed a g adv)
      from moves [OF this(2)] Call_Recover show ?thesis by blast
    qed (use assms(2) in auto)
  qed (use ok assms in \<open>auto simp: reply_eq_Inr delivery_failed_def delivery_uncertain_def
      dest: recording_committed\<close>)
qed

lemma cursor_moves_only_by_commit_witness:
  "\<exists>a rows candidate. active demo_ready = Some a \<and>
    collection a = Coll_Completed rows (Some candidate) \<and> delivery a = Del_Confirmed rows \<and>
    committed demo_done = Some candidate"
proof -
  have "checkpoint_step (Call_Commit demo_fence) demo_ready =
      (Inr (Reply_Commit (Committed 8 True)), demo_done)"
    by (simp add: demo_commit reply_def)
  moreover have "committed demo_done \<noteq> committed demo_ready"
    by (simp add: demo_defs new_snapshot_def)
  ultimately show ?thesis
    using cursor_moves_only_by_commit [of "Call_Commit demo_fence" demo_ready] by blast
qed

lemma snd_start_attempt:
  assumes "valid_snapshot s" "active s = None" "fence_configuration f = configuration_id s"
    and "fence_generation f = generation s"
  shows "snd (start_attempt f s) =
    s\<lparr>active := Some \<lparr>fence = f, collection = Coll_InProgress, delivery = Del_InProgress\<rparr>\<rparr>"
  using assms by (simp add: start_attempt_def require_current_context_def require_snapshot_context_def)

text \<open>
  What recovery leaves: no attempt, unless the generation is exhausted and the commit had to fail.
\<close>

lemma recovered_idle:
  assumes "valid_snapshot s" "recover (configuration_id s) (generation s) s = (r, t)"
    and "checked_add (generation t) 1 \<noteq> None"
  shows "valid_snapshot t \<and> active t = None \<and> configuration_id t = configuration_id s"
proof (cases r)
  case (Inr x)
  with assms(2) have run: "recover (configuration_id s) (generation s) s = (Inr x, t)" by simp
  from run have "active t = None \<and> configuration_id t = configuration_id s"
    by (rule recover_Ok) (auto elim: commit_Committed)
  with valid_recover [OF run] show ?thesis by simp
next
  case (Inl e)
  with assms(2) have t: "t = s" by (auto dest: recover_Err)
  show ?thesis
  proof (cases "active s")
    case (Some a)
    obtain g where g: "checked_add (generation s) 1 = Some g" using assms(3) t by auto
    have "recovery_disposition_of a = Disp_Commit"
      using assms(2) Inl by (cases "recovery_disposition_of a") (simp_all add: recover_decides [OF assms(1) Some])
    then obtain c where "commit_rows a = Inr c" unfolding recovery_disposition_commit by blast
    from commit_ready [OF assms(1) Some this g] obtain adv u where "commit (fence a) s = (Inr (Committed g adv), u)"
      by blast
    with assms(2) Inl \<open>recovery_disposition_of a = Disp_Commit\<close> have False
      by (simp add: recover_decides [OF assms(1) Some])
    then show ?thesis ..
  qed (use assms(1) t in simp)
qed

text \<open>
  C31. Progress is always possible. From any valid snapshot, whatever attempt a crash left in it, the
  recovery under the current fence followed by one undisturbed attempt commits: after the start, the
  collection's result, the delivery's confirmation for as many rows, in either order, and the commit, the
  generation is the next one, the cursor is the candidate and no attempt is left. Only an exhausted
  generation counter stops it.
\<close>
theorem progress_possible:
  assumes "valid_snapshot s" "recover (configuration_id s) (generation s) s = (r, t)"
    and "checked_add (generation t) 1 = Some g" "validate_candidate (committed t) rows c = Inr ()"
  shows "\<exists>u. committed u = (if rows = 0 then committed t else c) \<and> generation u = g \<and> active u = None \<and>
    valid_snapshot u \<and>
    (let f = \<lparr>fence_attempt = i, fence_configuration = configuration_id s, fence_generation = generation t\<rparr> in
     run_ops checkpoint_step [Call_Start f, Call_CollectionCompleted f rows c, Call_DeliveryConfirmed f rows,
       Call_Commit f] t = u \<and>
     run_ops checkpoint_step [Call_Start f, Call_DeliveryConfirmed f rows, Call_CollectionCompleted f rows c,
       Call_Commit f] t = u)"
proof -
  let ?f = "\<lparr>fence_attempt = i, fence_configuration = configuration_id s, fence_generation = generation t\<rparr>"
  let ?a = "\<lambda>x y. \<lparr>fence = ?f, collection = x, delivery = y\<rparr>"
  let ?u = "\<lambda>x y. t\<lparr>active := Some (?a x y)\<rparr>"
  have idle: "valid_snapshot t" "active t = None" "configuration_id t = configuration_id s"
    using recovered_idle [OF assms(1,2)] assms(3) by simp_all
  have start: "snd (start_attempt ?f t) = ?u Coll_InProgress Del_InProgress"
    using idle by (simp add: snd_start_attempt)
  have valid: "valid_snapshot (?u x y)" if "x = Coll_InProgress \<or> x = Coll_Completed rows c" for x y
    by (rule valid_snapshot_active [OF idle(1) refl]) (use that idle assms(4) in auto)
  have fenced: "require_active_fence ?f (?u x y) = Inr ()" for x y
    using idle by (simp add: require_active_fence_Ok)
  have both: "snd (delivery_confirmed ?f rows (snd (collection_completed ?f rows c (?u Coll_InProgress Del_InProgress))))
      = ?u (Coll_Completed rows c) (Del_Confirmed rows)"
    using valid fenced assms(4) by (simp add: snd_collection_completed snd_delivery_confirmed)
  have "commit_rows (?a (Coll_Completed rows c) (Del_Confirmed rows)) = Inr c" by (simp add: commit_rows_def)
  with commit_ready [OF valid [of "Coll_Completed rows c" "Del_Confirmed rows"],
      where a = "?a (Coll_Completed rows c) (Del_Confirmed rows)" and c = c and g = g] assms(3)
  obtain adv u where
    com: "commit ?f (?u (Coll_Completed rows c) (Del_Confirmed rows)) = (Inr (Committed g adv), u)" by auto
  have u: "valid_snapshot u" "generation u = g" "active u = None" "committed u = (if rows = 0 then committed t else c)"
    using com valid_commit [OF com] assms(4)
    by (auto elim!: commit_Committed simp: validate_candidate_Ok split: if_split_asm option.split)
  have s2: "snd (checkpoint_step (Call_Start f) x) = snd (start_attempt f x)"
    "snd (checkpoint_step (Call_CollectionCompleted f rows c) x) = snd (collection_completed f rows c x)"
    "snd (checkpoint_step (Call_DeliveryConfirmed f rows) x) = snd (delivery_confirmed f rows x)"
    "snd (checkpoint_step (Call_Commit f) x) = snd (commit f x)" for f x
    by (simp_all add: reply_def split: prod.split sum.split)
  show ?thesis
    unfolding Let_def run_ops_Cons run_ops_Nil s2 start
    using u com both completion_order [of ?f rows rows c "?u Coll_InProgress Del_InProgress"]
    by (intro exI [of _ u]) simp
qed

lemma progress_possible_witness:
  "\<exists>u. committed u = Some (TimestampIdCursor 1002 12) \<and> generation u = 9 \<and>
    (let f = \<lparr>fence_attempt = AttemptId (replicate 16 18), fence_configuration = replicate 32 49, fence_generation = 8\<rparr> in
     run_ops checkpoint_step [Call_Start f, Call_CollectionCompleted f 1 (Some (TimestampIdCursor 1002 12)),
       Call_DeliveryConfirmed f 1, Call_Commit f] demo_done = u)"
proof -
  have facts: "configuration_id demo_ready = replicate 32 49" "generation demo_ready = 7" "generation demo_done = 8"
    "committed demo_done = Some (TimestampIdCursor 1001 11)"
    by (simp_all add: demo_defs new_snapshot_def)
  have a: "active demo_ready = Some \<lparr>fence = demo_fence, collection = Coll_Completed 2 (Some (TimestampIdCursor 1001 11)),
     delivery = Del_Confirmed 2\<rparr>" by (simp add: demo_ready_def)
  have "recover (configuration_id demo_ready) (generation demo_ready) demo_ready =
      (Inr (RecoveredCommit (fence_attempt demo_fence) 8 True), demo_done)"
    unfolding recover_decides [OF demo_ready_valid a] by (simp add: recovery_disposition_of_def demo_commit)
  moreover have "checked_add (generation demo_done) 1 = Some 9"
    "validate_candidate (committed demo_done) 1 (Some (TimestampIdCursor 1002 12)) = Inr ()"
    by (simp_all add: facts checked_add_def validate_candidate_Ok less_eq_cursor_def less_cursor_def)
  ultimately obtain u where "committed u = Some (TimestampIdCursor 1002 12)" "generation u = 9"
    "let f = \<lparr>fence_attempt = AttemptId (replicate 16 18), fence_configuration = configuration_id demo_ready,
         fence_generation = generation demo_done\<rparr> in
     run_ops checkpoint_step [Call_Start f, Call_CollectionCompleted f 1 (Some (TimestampIdCursor 1002 12)),
       Call_DeliveryConfirmed f 1, Call_Commit f] demo_done = u"
    using progress_possible [OF demo_ready_valid, of _ demo_done 9 1 "Some (TimestampIdCursor 1002 12)"
        "AttemptId (replicate 16 18)"]
    unfolding Let_def by auto
  then show ?thesis unfolding facts by blast
qed

text \<open>
  Commit is idempotent: repeating a commit that succeeded reports it as already applied, with
  the generation it produced, and changes nothing.
\<close>
theorem commit_idempotent:
  assumes "commit f s = (Inr (Committed g adv), t)"
  shows "commit f t = (Inr (AlreadyCommitted g), t)"
proof -
  from assms have "valid_snapshot t" by (rule valid_commit)
  moreover from assms have "last_committed_attempt t =
      Some \<lparr>committed_fence = f, resulting_generation = g\<rparr>" "generation t = g"
    by (auto elim!: commit_Committed)
  ultimately show ?thesis by (simp add: commit_def)
qed

lemma commit_idempotent_witness:
  "commit demo_fence demo_done = (Inr (AlreadyCommitted 8), demo_done)"
  by (rule commit_idempotent [OF demo_commit])

text \<open>
  C24. Recovery agrees with commit. At restart under the current fence, an active attempt is
  committed exactly when a commit of it would succeed; otherwise, short of an exhausted generation,
  it is dropped for replay with everything else unchanged.
\<close>
theorem recover_agrees_with_commit:
  assumes "valid_snapshot s" "active s = Some a" "checked_add (generation s) 1 = Some g"
  shows "(\<exists>adv t. commit (fence a) s = (Inr (Committed g adv), t) \<and>
      recover (configuration_id s) (generation s) s =
        (Inr (RecoveredCommit (fence_attempt (fence a)) g adv), t)) \<or>
    (\<exists>e reason. commit (fence a) s = (Inl e, s) \<and>
      recover (configuration_id s) (generation s) s =
        (Inr (ReplayFromCommitted (fence_attempt (fence a)) reason), s\<lparr>active := None\<rparr>))"
proof (cases "commit_rows a")
  case (Inl e)
  then obtain reason where "recovery_disposition_of a = Disp_Replay reason"
    using recovery_disposition_commit [of a] by (cases "recovery_disposition_of a") auto
  with Inl show ?thesis
    by (simp add: recover_decides [OF assms(1,2)] commit_not_ready [OF assms(1,2)])
next
  case (Inr c)
  then have "recovery_disposition_of a = Disp_Commit" by (simp add: recovery_disposition_commit)
  with commit_ready [OF assms(1,2) Inr assms(3)] show ?thesis
    by (auto simp: recover_decides [OF assms(1,2)])
qed

lemma recover_agrees_with_commit_witness:
  "recover (replicate 32 49) 7 demo_ready =
     (Inr (RecoveredCommit (AttemptId (replicate 16 17)) 8 True), demo_done)"
proof -
  obtain a where a: "active demo_ready = Some a" "fence a = demo_fence"
    and ids: "configuration_id demo_ready = replicate 32 49" "generation demo_ready = 7"
      "fence_attempt demo_fence = AttemptId (replicate 16 17)"
    by (simp add: demo_defs new_snapshot_def)
  have "checked_add (generation demo_ready) 1 = Some 8"
    by (simp add: ids checked_add_def)
  from recover_agrees_with_commit [OF demo_ready_valid a(1) this] show ?thesis
    by (auto simp: a ids demo_commit)
qed

end
