(* ===== verification/State_Model.thy ===== *)
theory State_Model
  imports Checkpoint
begin

text \<open>
  The durable input state of \<open>crates/dbx-rs-state/src/model.rs\<close>: the coordinator snapshot beside
  the active scan, with the segment references the scan has sealed, the prefix already compacted
  away, and the delivered prefix. \<open>scan_validate\<close> and \<open>state_validate\<close> are the checks made on
  every load and before every write; SHA-256 is a parameter.
\<close>

section \<open>Identities\<close>

type_synonym hash = "bytes \<Rightarrow> bytes"

definition DURABLE_STATE_FORMAT_VERSION :: u16 where
  "DURABLE_STATE_FORMAT_VERSION = 2"

definition MAX_SEGMENTS_PER_SCAN :: nat where
  "MAX_SEGMENTS_PER_SCAN = 4096"

definition STATE_KEY_DOMAIN :: bytes where
  "STATE_KEY_DOMAIN = ascii ''dbx-rs-state-key-v1'' @ [0]"

definition CONFIGURATION_FENCE_DOMAIN :: bytes where
  "CONFIGURATION_FENCE_DOMAIN = ascii ''dbx-rs-configuration-fence-v1'' @ [0]"

datatype input_id = InputId (input_id_bytes: bytes)

datatype fingerprint = Fingerprint (fingerprint_bytes: bytes)

datatype state_key = StateKey (state_key_bytes: bytes)

definition configuration_fence_id :: "hash \<Rightarrow> fingerprint \<Rightarrow> u64 \<Rightarrow> bytes" where
  "configuration_fence_id sha fp gen =
     sha (CONFIGURATION_FENCE_DOMAIN @ fingerprint_bytes fp @ be_bytes 8 gen)"

definition state_key_for_input :: "hash \<Rightarrow> input_id \<Rightarrow> state_key" where
  "state_key_for_input sha iid = StateKey (sha (STATE_KEY_DOMAIN @ input_id_bytes iid))"

definition directory_name :: "state_key \<Rightarrow> string" where
  "directory_name k = concat (map hex_byte (state_key_bytes k))"

section \<open>The active scan\<close>

record segment_ref =
  ref_segment_id :: bytes
  ref_sequence :: u64
  ref_page :: u64
  ref_rows :: u64
  ref_digest :: bytes

record active_scan =
  scan_attempt :: attempt_id
  base_committed :: "timestamp_id_cursor option"
  resume_after :: "timestamp_id_cursor option"
  maximum_candidate :: "timestamp_id_cursor option"
  compacted_through_sequence :: u64
  compacted_rows :: u64
  next_page :: u64
  scan_complete :: bool
  segments :: "segment_ref list"
  delivered_through_sequence :: u64

datatype state_validation_error =
    UnsupportedStateVersion
  | UnsupportedCoordinatorVersion
  | InvalidConfigurationGeneration
  | InvalidCoordinator
  | ConfigurationFenceMismatch
  | ScanWithoutActiveAttempt
  | ActiveAttemptWithoutScan
  | ScanAttemptMismatch
  | ScanBaseMismatch
  | InvalidNextPage
  | TooManySegments
  | MissingResumeCursor
  | UnexpectedScanCursor
  | MissingMaximumCandidate
  | CandidateBehindResume
  | ScanCandidateRegression
  | InvalidSegmentOrder
  | DuplicateSegment
  | RowCountOverflow
  | ScanCompletionMismatch
  | DeliveryConfirmationMismatch
  | InvalidDeliveryReceipt

definition scan_segment_count :: "active_scan \<Rightarrow> state_validation_error + u64" where
  "scan_segment_count sc =
     bindr (ok_or InvalidDeliveryReceipt (u64_of_len (length (segments sc)))) (\<lambda>retained.
       ok_or InvalidSegmentOrder (checked_add (compacted_through_sequence sc) retained))"

text \<open>The loop over the retained references, with its three accumulators.\<close>

fun check_segments ::
    "u64 \<Rightarrow> u64 \<Rightarrow> bytes set \<Rightarrow> segment_ref list \<Rightarrow> state_validation_error + (u64 \<times> u64)" where
  "check_segments expected rows ids [] = Ok (expected, rows)"
| "check_segments expected rows ids (seg # rest) =
     (if ref_sequence seg \<noteq> expected \<or> ref_page seg \<noteq> expected \<or> ref_rows seg = 0
      then Err InvalidSegmentOrder
      else if ref_segment_id seg \<in> ids then Err DuplicateSegment
      else
        bindr (ok_or RowCountOverflow (checked_add rows (ref_rows seg))) (\<lambda>rows'.
        bindr (ok_or InvalidSegmentOrder (checked_add expected 1)) (\<lambda>expected'.
          check_segments expected' rows' (insert (ref_segment_id seg) ids) rest)))"

definition behind :: "timestamp_id_cursor option \<Rightarrow> timestamp_id_cursor option \<Rightarrow> bool" where
  "behind x y = (case (x, y) of (Some a, Some b) \<Rightarrow> position_cmp a b = Less | _ \<Rightarrow> False)"

definition scan_progress_check :: "active_scan \<Rightarrow> u64 \<Rightarrow> state_validation_error + unit" where
  "scan_progress_check sc count =
     (if count = 0 then
        (if next_page sc \<noteq> 1 \<or> compacted_through_sequence sc \<noteq> 0 \<or> compacted_rows sc \<noteq> 0
         then Err InvalidNextPage
         else if resume_after sc \<noteq> None \<or> maximum_candidate sc \<noteq> None
         then Err UnexpectedScanCursor
         else Ok ())
      else if resume_after sc = None then Err MissingResumeCursor
      else Ok ())"

definition scan_completion_check ::
    "active_scan \<Rightarrow> active_attempt \<Rightarrow> u64 \<Rightarrow> u64 \<Rightarrow> state_validation_error + unit" where
  "scan_completion_check sc a count sealed_rows =
     bindr (case collection a of
         Coll_Completed rows candidate \<Rightarrow>
           if \<not> scan_complete sc \<or> rows \<noteq> sealed_rows \<or> candidate \<noteq> maximum_candidate sc
            \<or> (rows > 0 \<and> resume_after sc = None)
           then Err ScanCompletionMismatch else Ok ()
       | Coll_InProgress \<Rightarrow> if scan_complete sc then Err ScanCompletionMismatch else Ok ()
       | Coll_Failed \<Rightarrow> if scan_complete sc then Err ScanCompletionMismatch else Ok ()) (\<lambda>_.
     case delivery a of
         Del_Confirmed rows \<Rightarrow>
           if \<not> scan_complete sc \<or> delivered_through_sequence sc \<noteq> count \<or> rows \<noteq> sealed_rows
           then Err DeliveryConfirmationMismatch else Ok ()
       | _ \<Rightarrow> Ok ())"

definition scan_validate :: "snapshot \<Rightarrow> active_scan \<Rightarrow> state_validation_error + unit" where
  "scan_validate s sc =
     bindr (ok_or ScanWithoutActiveAttempt (active s)) (\<lambda>a.
     if fence_attempt (fence a) \<noteq> scan_attempt sc then Err ScanAttemptMismatch
     else if base_committed sc \<noteq> committed s then Err ScanBaseMismatch
     else if next_page sc = 0 then Err InvalidNextPage
     else if length (segments sc) > MAX_SEGMENTS_PER_SCAN then Err TooManySegments
     else
     bindr (scan_segment_count sc) (\<lambda>count.
     if compacted_through_sequence sc > delivered_through_sequence sc
      \<or> delivered_through_sequence sc > count
      \<or> (compacted_through_sequence sc = 0 \<and> compacted_rows sc \<noteq> 0)
      \<or> (compacted_through_sequence sc \<noteq> 0 \<and> compacted_rows sc = 0)
     then Err InvalidDeliveryReceipt
     else
     bindr (scan_progress_check sc count) (\<lambda>_.
     if behind (maximum_candidate sc) (resume_after sc) then Err CandidateBehindResume
     else if behind (maximum_candidate sc) (base_committed sc) then Err ScanCandidateRegression
     else
     bindr (ok_or InvalidSegmentOrder (checked_add (compacted_through_sequence sc) 1)) (\<lambda>first.
     bindr (check_segments first (compacted_rows sc) {} (segments sc)) (\<lambda>(expected, sealed_rows).
     if expected \<noteq> next_page sc then Err InvalidSegmentOrder
     else if sealed_rows > 0 \<and> maximum_candidate sc = None then Err MissingMaximumCandidate
     else scan_completion_check sc a count sealed_rows)))))"

section \<open>The durable state\<close>

record durable_state =
  state_format_version :: u16
  state_input_id :: input_id
  source_lineage_fingerprint :: fingerprint
  cursor_identity_fingerprint :: fingerprint
  configuration_fingerprint :: fingerprint
  configuration_generation :: u64
  coordinator :: snapshot
  scan :: "active_scan option"

definition new_durable_state ::
    "input_id \<Rightarrow> fingerprint \<Rightarrow> fingerprint \<Rightarrow> fingerprint \<Rightarrow> u64 \<Rightarrow> snapshot \<Rightarrow> active_scan option
       \<Rightarrow> durable_state" where
  "new_durable_state iid lineage identity fp gen snap sc =
     \<lparr>state_format_version = DURABLE_STATE_FORMAT_VERSION, state_input_id = iid,
      source_lineage_fingerprint = lineage, cursor_identity_fingerprint = identity,
      configuration_fingerprint = fp, configuration_generation = gen, coordinator = snap,
      scan = sc\<rparr>"

definition state_validate :: "hash \<Rightarrow> durable_state \<Rightarrow> state_validation_error + unit" where
  "state_validate sha st =
     (if state_format_version st \<noteq> DURABLE_STATE_FORMAT_VERSION then Err UnsupportedStateVersion
      else if configuration_generation st = 0 then Err InvalidConfigurationGeneration
      else if format_version (coordinator st) \<noteq> SNAPSHOT_FORMAT_VERSION
      then Err UnsupportedCoordinatorVersion
      else
        bindr (map_err (\<lambda>_. InvalidCoordinator) (snapshot_validate (coordinator st))) (\<lambda>_.
        if configuration_id (coordinator st) \<noteq>
           configuration_fence_id sha (configuration_fingerprint st) (configuration_generation st)
        then Err ConfigurationFenceMismatch
        else (case scan st of
            Some sc \<Rightarrow> scan_validate (coordinator st) sc
          | None \<Rightarrow>
              if active (coordinator st) \<noteq> None then Err ActiveAttemptWithoutScan else Ok ())))"

section \<open>What validation establishes\<close>

text \<open>Counts as natural numbers: pages sealed so far, and rows sealed in them.\<close>

definition sealed_pages :: "active_scan \<Rightarrow> nat" where
  "sealed_pages sc = unat (compacted_through_sequence sc) + length (segments sc)"

definition rows_of :: "segment_ref list \<Rightarrow> nat" where
  "rows_of segs = sum_list (map (\<lambda>seg. unat (ref_rows seg)) segs)"

definition sealed_row_count :: "active_scan \<Rightarrow> nat" where
  "sealed_row_count sc = unat (compacted_rows sc) + rows_of (segments sc)"

lemma rows_of_simps [simp]:
  "rows_of [] = 0" "rows_of (seg # segs) = unat (ref_rows seg) + rows_of segs"
  "rows_of (xs @ ys) = rows_of xs + rows_of ys"
  by (simp_all add: rows_of_def)

text \<open>
  The references are numbered consecutively from \<open>first\<close>, page and sequence alike, none is empty
  and no identity repeats.
\<close>

definition numbered_from :: "nat \<Rightarrow> segment_ref list \<Rightarrow> bool" where
  "numbered_from first segs \<longleftrightarrow>
     (\<forall>i < length segs. unat (ref_sequence (segs ! i)) = first + i \<and>
        ref_page (segs ! i) = ref_sequence (segs ! i) \<and> ref_rows (segs ! i) \<noteq> 0) \<and>
     distinct (map ref_segment_id segs)"

lemma numbered_from_Nil [simp]: "numbered_from first []"
  by (simp add: numbered_from_def)

lemma numbered_from_Cons [simp]:
  "numbered_from first (seg # segs) \<longleftrightarrow>
     unat (ref_sequence seg) = first \<and> ref_page seg = ref_sequence seg \<and> ref_rows seg \<noteq> 0 \<and>
     (\<forall>x \<in> set segs. ref_segment_id x \<noteq> ref_segment_id seg) \<and> numbered_from (Suc first) segs"
  by (auto simp: numbered_from_def All_less_Suc2 image_iff)

lemma numbered_from_snoc:
  "numbered_from first (segs @ [seg]) \<longleftrightarrow>
     numbered_from first segs \<and> unat (ref_sequence seg) = first + length segs \<and>
     ref_page seg = ref_sequence seg \<and> ref_rows seg \<noteq> 0 \<and>
     (\<forall>x \<in> set segs. ref_segment_id x \<noteq> ref_segment_id seg)"
  by (induction segs arbitrary: first) auto

lemma numbered_from_drop: "numbered_from first segs \<Longrightarrow> numbered_from (first + n) (drop n segs)"
proof (induction n arbitrary: first segs)
  case (Suc n)
  then show ?case using Suc.IH [of "Suc first" "tl segs"] by (cases segs) auto
qed simp

lemma check_segments_Ok:
  "check_segments expected rows ids segs = Inr (e, r) \<longleftrightarrow>
     numbered_from (unat expected) segs \<and> (\<forall>seg \<in> set segs. ref_segment_id seg \<notin> ids) \<and>
     unat expected + length segs < 2 ^ 64 \<and> unat rows + rows_of segs < 2 ^ 64 \<and>
     unat e = unat expected + length segs \<and> unat r = unat rows + rows_of segs"
proof (induction segs arbitrary: expected rows ids)
  case Nil
  have "unat expected < 2 ^ 64" "unat rows < 2 ^ 64"
    using u64_bound [of expected] u64_bound [of rows] by simp_all
  then show ?case by (auto simp: word_unat_eq_iff [where v = expected] word_unat_eq_iff [where v = rows])
next
  case (Cons seg segs)
  show ?case
  proof (cases "ref_sequence seg = expected \<and> ref_page seg = expected \<and> ref_rows seg \<noteq> 0 \<and>
      ref_segment_id seg \<notin> ids")
    case False
    then show ?thesis by (auto dest: unsigned_word_eqI)
  next
    case True
    then show ?thesis
      by (cases "checked_add rows (ref_rows seg)"; cases "checked_add expected 1")
        (auto simp: Cons.IH checked_add_def unat_word_ariths split: if_split_asm)
  qed
qed

text \<open>
  The abstract specification of a consistent scan, over natural numbers: pages and receipts are a
  chain \<open>compacted \<le> delivered \<le> sealed\<close>, pages are numbered from one, and completion and
  confirmation speak of all sealed rows.
\<close>

definition scan_spec :: "snapshot \<Rightarrow> active_attempt \<Rightarrow> active_scan \<Rightarrow> bool" where
  "scan_spec s a sc \<longleftrightarrow>
     fence_attempt (fence a) = scan_attempt sc \<and> base_committed sc = committed s \<and>
     length (segments sc) \<le> MAX_SEGMENTS_PER_SCAN \<and>
     unat (next_page sc) = sealed_pages sc + 1 \<and>
     compacted_through_sequence sc \<le> delivered_through_sequence sc \<and>
     unat (delivered_through_sequence sc) \<le> sealed_pages sc \<and>
     (compacted_through_sequence sc = 0 \<longleftrightarrow> compacted_rows sc = 0) \<and>
     numbered_from (unat (compacted_through_sequence sc) + 1) (segments sc) \<and>
     sealed_row_count sc < 2 ^ 64 \<and>
     (resume_after sc = None \<longleftrightarrow> sealed_pages sc = 0) \<and>
     (maximum_candidate sc = None \<longleftrightarrow> sealed_pages sc = 0) \<and>
     \<not> behind (maximum_candidate sc) (resume_after sc) \<and>
     \<not> behind (maximum_candidate sc) (base_committed sc) \<and>
     (case collection a of
        Coll_Completed rows candidate \<Rightarrow>
          scan_complete sc \<and> unat rows = sealed_row_count sc \<and> candidate = maximum_candidate sc
      | _ \<Rightarrow> \<not> scan_complete sc) \<and>
     (\<forall>rows. delivery a = Del_Confirmed rows \<longrightarrow>
        scan_complete sc \<and> unat (delivered_through_sequence sc) = sealed_pages sc \<and>
        unat rows = sealed_row_count sc)"

lemma rows_of_zero: "numbered_from n segs \<Longrightarrow> rows_of segs = 0 \<longleftrightarrow> segs = []"
  by (cases segs) (auto simp: unat_eq_0)

lemma sealed_zero:
  assumes "numbered_from n (segments sc)" "compacted_through_sequence sc = 0 \<longleftrightarrow> compacted_rows sc = 0"
  shows "sealed_row_count sc = 0 \<longleftrightarrow> sealed_pages sc = 0"
  using assms by (auto simp: sealed_row_count_def sealed_pages_def rows_of_zero unat_eq_0)

lemma scan_segment_count_Ok:
  "length (segments sc) \<le> MAX_SEGMENTS_PER_SCAN \<Longrightarrow>
   scan_segment_count sc = Inr n \<longleftrightarrow> unat n = sealed_pages sc"
proof -
  assume "length (segments sc) \<le> MAX_SEGMENTS_PER_SCAN"
  then have "length (segments sc) < 2 ^ 64" by (simp add: MAX_SEGMENTS_PER_SCAN_def)
  moreover have "unat n < 2 ^ 64" using u64_bound [of n] by simp
  ultimately show ?thesis
    by (auto simp: scan_segment_count_def u64_of_len_def sealed_pages_def checked_add_Some
        unat_word_ariths unat_of_nat word_unat_eq_iff [of n])
qed

lemma scan_progress_check_Ok:
  "scan_progress_check sc n = Inr () \<longleftrightarrow>
     (if n = 0 then next_page sc = 1 \<and> compacted_through_sequence sc = 0 \<and> compacted_rows sc = 0 \<and>
        resume_after sc = None \<and> maximum_candidate sc = None
      else resume_after sc \<noteq> None)"
  by (auto simp: scan_progress_check_def)

lemma scan_completion_check_Ok:
  "scan_completion_check sc a n r = Inr () \<longleftrightarrow>
     (case collection a of
        Coll_Completed rows candidate \<Rightarrow>
          scan_complete sc \<and> rows = r \<and> candidate = maximum_candidate sc \<and>
          (rows > 0 \<longrightarrow> resume_after sc \<noteq> None)
      | _ \<Rightarrow> \<not> scan_complete sc) \<and>
     (\<forall>rows. delivery a = Del_Confirmed rows \<longrightarrow>
        scan_complete sc \<and> delivered_through_sequence sc = n \<and> rows = r)"
  by (auto simp: scan_completion_check_def split: collection_state.splits delivery_state.splits)

lemma check_segments_scan:
  assumes "unat first = unat (compacted_through_sequence sc) + 1"
  shows "check_segments first (compacted_rows sc) {} (segments sc) = Inr (e, r) \<longleftrightarrow>
     numbered_from (unat (compacted_through_sequence sc) + 1) (segments sc) \<and>
     sealed_pages sc + 1 < 2 ^ 64 \<and> sealed_row_count sc < 2 ^ 64 \<and>
     unat e = sealed_pages sc + 1 \<and> unat r = sealed_row_count sc"
  using assms by (simp add: check_segments_Ok sealed_pages_def sealed_row_count_def)

lemma scan_validate_sound:
  assumes "scan_validate s sc = Inr ()"
  shows "\<exists>a. active s = Some a \<and> scan_spec s a sc"
proof -
  from assms obtain a n first e r where
    a: "active s = Some a" "fence_attempt (fence a) = scan_attempt sc"
      "base_committed sc = committed s" "length (segments sc) \<le> MAX_SEGMENTS_PER_SCAN"
    and n: "scan_segment_count sc = Inr n"
    and d: "compacted_through_sequence sc \<le> delivered_through_sequence sc"
      "delivered_through_sequence sc \<le> n"
      "compacted_through_sequence sc = 0 \<longleftrightarrow> compacted_rows sc = 0"
    and p: "scan_progress_check sc n = Inr ()"
    and b: "\<not> behind (maximum_candidate sc) (resume_after sc)"
      "\<not> behind (maximum_candidate sc) (base_committed sc)"
    and f: "checked_add (compacted_through_sequence sc) 1 = Some first"
    and c: "check_segments first (compacted_rows sc) {} (segments sc) = Inr (e, r)"
    and e: "e = next_page sc" and m: "0 < r \<longrightarrow> maximum_candidate sc \<noteq> None"
    and k: "scan_completion_check sc a n r = Inr ()"
    by (auto simp: scan_validate_def not_less split: if_split_asm)
  have n': "unat n = sealed_pages sc" using n a(4) by (simp add: scan_segment_count_Ok)
  have c': "numbered_from (unat (compacted_through_sequence sc) + 1) (segments sc)"
      "sealed_row_count sc < 2 ^ 64" "unat e = sealed_pages sc + 1" "unat r = sealed_row_count sc"
    using c unat_checked_add [OF f] by (simp_all add: check_segments_scan)
  have n0: "n = 0 \<longleftrightarrow> sealed_pages sc = 0" using n' by (simp add: unat_eq_0 [symmetric])
  have r0: "r = 0 \<longleftrightarrow> sealed_pages sc = 0"
    using c'(4) sealed_zero [OF c'(1) d(3)] by (simp add: unat_eq_0 [symmetric])
  have "scan_spec s a sc"
    unfolding scan_spec_def
    using a d b c' e n' n0 r0 m p k
    by (auto simp: scan_progress_check_Ok scan_completion_check_Ok word_le_nat_alt word_gt_0
        split: collection_state.splits if_split_asm)
  with a(1) show ?thesis by blast
qed

lemma scan_validate_complete:
  assumes "active s = Some a" "scan_spec s a sc"
  shows "scan_validate s sc = Inr ()"
proof -
  note spec = assms(2) [unfolded scan_spec_def]
  define n :: u64 where "n = of_nat (sealed_pages sc)"
  define r :: u64 where "r = of_nat (sealed_row_count sc)"
  have pages: "sealed_pages sc + 1 < 2 ^ 64"
    using spec u64_bound [of "next_page sc"] by simp
  then have n: "unat n = sealed_pages sc" by (simp add: n_def unat_of_nat)
  have r: "unat r = sealed_row_count sc" using spec by (simp add: r_def unat_of_nat)
  have f: "checked_add (compacted_through_sequence sc) 1 = Some (compacted_through_sequence sc + 1)"
    and f': "unat (compacted_through_sequence sc + 1) = unat (compacted_through_sequence sc) + 1"
    using pages by (auto simp: checked_add_def sealed_pages_def unat_word_ariths)
  have c: "check_segments (compacted_through_sequence sc + 1) (compacted_rows sc) {} (segments sc) =
      Inr (next_page sc, r)"
    using spec pages f' by (simp add: check_segments_scan r)
  have n0: "n = 0 \<longleftrightarrow> sealed_pages sc = 0" using n by (simp add: unat_eq_0 [symmetric])
  have r0: "r = 0 \<longleftrightarrow> sealed_pages sc = 0"
    using r spec sealed_zero [of "unat (compacted_through_sequence sc) + 1" sc] by (simp add: unat_eq_0 [symmetric])
  have p: "scan_progress_check sc n = Inr ()"
    using spec n0 by (auto simp: scan_progress_check_Ok sealed_pages_def word_unat_eq_iff [of _ 1] unat_eq_0)
  have k: "scan_completion_check sc a n r = Inr ()"
    using spec n r r0
    by (auto simp: scan_completion_check_Ok word_unat_eq_iff [of _ n] word_unat_eq_iff [of _ r]
        word_gt_0 unat_eq_0 split: collection_state.splits)
  have cnt: "scan_segment_count sc = Inr n" using spec n by (simp add: scan_segment_count_Ok)
  show ?thesis
    unfolding scan_validate_def
    using spec assms(1) cnt f c p k n r0
    by (auto simp: word_le_nat_alt not_less word_gt_0)
qed

lemma scan_validate_iff:
  "scan_validate s sc = Inr () \<longleftrightarrow> (\<exists>a. active s = Some a \<and> scan_spec s a sc)"
  using scan_validate_sound scan_validate_complete by blast

lemma state_validate_Ok:
  "state_validate sha st = Inr () \<longleftrightarrow>
     state_format_version st = DURABLE_STATE_FORMAT_VERSION \<and> configuration_generation st \<noteq> 0 \<and>
     valid_snapshot (coordinator st) \<and>
     configuration_id (coordinator st) =
       configuration_fence_id sha (configuration_fingerprint st) (configuration_generation st) \<and>
     (case scan st of
        Some sc \<Rightarrow> \<exists>a. active (coordinator st) = Some a \<and> scan_spec (coordinator st) a sc
      | None \<Rightarrow> active (coordinator st) = None)"
  by (auto simp: state_validate_def scan_validate_iff snapshot_validate_def
      split: option.splits if_split_asm)

lemma state_validate_scan:
  assumes "state_validate sha st = Inr ()" "active (coordinator st) = Some a"
  obtains sc where "scan st = Some sc" "scan_spec (coordinator st) a sc"
  using assms by (auto simp: state_validate_Ok split: option.splits)

text \<open>A state with two sealed and delivered pages of one row each, ready to commit.\<close>

definition demo_sha :: hash where
  "demo_sha = (\<lambda>_. replicate 32 49)"

definition demo_scan :: active_scan where
  "demo_scan = \<lparr>scan_attempt = AttemptId (replicate 16 17),
     base_committed = Some (TimestampIdCursor 1000 10),
     resume_after = Some (TimestampIdCursor 1001 11),
     maximum_candidate = Some (TimestampIdCursor 1001 11),
     compacted_through_sequence = 0, compacted_rows = 0, next_page = 3, scan_complete = True,
     segments =
       [\<lparr>ref_segment_id = replicate 16 1, ref_sequence = 1, ref_page = 1, ref_rows = 1,
          ref_digest = replicate 32 9\<rparr>,
        \<lparr>ref_segment_id = replicate 16 2, ref_sequence = 2, ref_page = 2, ref_rows = 1,
          ref_digest = replicate 32 8\<rparr>],
     delivered_through_sequence = 2\<rparr>"

definition demo_state :: durable_state where
  "demo_state = new_durable_state (InputId (replicate 16 5)) (Fingerprint (replicate 32 1))
     (Fingerprint (replicate 32 2)) (Fingerprint (replicate 32 3)) 4 demo_ready (Some demo_scan)"

lemma demo_scan_spec:
  "active demo_ready = Some a \<Longrightarrow> scan_spec demo_ready a demo_scan"
  by (auto simp: demo_defs demo_scan_def scan_spec_def new_snapshot_def sealed_pages_def
      sealed_row_count_def behind_def less_cursor_def MAX_SEGMENTS_PER_SCAN_def)

lemma demo_state_valid: "state_validate demo_sha demo_state = Inr ()"
proof -
  obtain a where "active demo_ready = Some a" by (simp add: demo_defs)
  with demo_ready_valid demo_scan_spec show ?thesis
    by (auto simp: state_validate_Ok demo_state_def new_durable_state_def configuration_fence_id_def
        demo_sha_def demo_ready_def demo_start_def new_snapshot_def)
qed

section \<open>Properties\<close>

text \<open>
  C11. Scan validation is exact: the checks of \<open>ActiveScan::validate\<close>, with their early returns and
  64-bit accumulators, accept a scan exactly when it meets the specification over natural numbers:
  pages and sequences numbered from one without a gap, distinct non-empty segments, a receipt
  prefix between the compacted and the sealed pages, cursors that do not regress, no counter that
  would wrap, and completion and confirmation that cover every sealed row.
\<close>
theorem scan_validation_exact:
  "scan_validate s sc = Inr () \<longleftrightarrow> (\<exists>a. active s = Some a \<and> scan_spec s a sc)"
  by (rule scan_validate_iff)

text \<open>
  C2. Commit needs full delivery. When the coordinator of a valid durable state commits an attempt,
  the scan beside it is complete, every sealed page has a delivery receipt, and the rows confirmed
  to the coordinator are all the rows of the sealed segments, the compacted ones included.
\<close>
theorem commit_needs_full_delivery:
  assumes "state_validate sha st = Inr ()"
    and "commit f (coordinator st) = (Inr (Committed g adv), t)"
  shows "\<exists>sc rows candidate a. scan st = Some sc \<and> active (coordinator st) = Some a \<and>
    collection a = Coll_Completed rows candidate \<and> delivery a = Del_Confirmed rows \<and>
    scan_complete sc \<and> unat (delivered_through_sequence sc) = sealed_pages sc \<and>
    unat rows = sealed_row_count sc \<and> candidate = maximum_candidate sc \<and>
    committed t = (if sealed_pages sc = 0 then committed (coordinator st) else candidate)"
  using assms(2)
proof (rule commit_Committed)
  fix a rows candidate
  assume a: "active (coordinator st) = Some a" "collection a = Coll_Completed rows candidate"
      "delivery a = Del_Confirmed rows"
    and t: "t = (coordinator st)\<lparr>committed := (case candidate of Some c \<Rightarrow> Some c
          | None \<Rightarrow> committed (coordinator st)),
        generation := g, active := None,
        last_committed_attempt := Some \<lparr>committed_fence = f, resulting_generation = g\<rparr>\<rparr>"
  obtain sc where "scan st = Some sc" "scan_spec (coordinator st) a sc"
    by (rule state_validate_scan [OF assms(1) a(1)])
  with a t show ?thesis
    by (auto simp: scan_spec_def split: option.splits)
qed

lemma commit_needs_full_delivery_witness:
  "\<exists>sc. scan demo_state = Some sc \<and> scan_complete sc \<and>
     unat (delivered_through_sequence sc) = sealed_pages sc"
proof -
  have "commit demo_fence (coordinator demo_state) = (Inr (Committed 8 True), demo_done)"
    by (simp add: demo_state_def new_durable_state_def demo_commit)
  from commit_needs_full_delivery [OF demo_state_valid this] show ?thesis by blast
qed

end
