(* ===== verification/State_Transitions.thy ===== *)
theory State_Transitions
  imports State_Model
begin

text \<open>
  The transition checks of \<open>crates/dbx-rs-state/src/store.rs\<close>: which change of the durable state
  an ordinary write may make. The checks compare the stored state with the proposed one; the
  relation \<open>durable_step\<close> says the same as guarded steps of a state machine.
\<close>

section \<open>Errors\<close>

datatype state_store_error =
    St_InvalidRoot
  | St_PathSymlink
  | St_InvalidPathType
  | St_InvalidPermissions
  | St_Filesystem
  | St_LockPoisoned
  | St_WriterLockUnavailable
  | St_AlreadyExists
  | St_OrphanedBackup
  | St_MissingCurrent
  | St_MissingBackup
  | St_StateKeyMismatch
  | St_EnvelopeTooLarge
  | St_EnvelopeTruncated
  | St_InvalidMagic
  | St_UnsupportedEnvelopeVersion
  | St_UnsupportedCodec
  | St_InvalidEnvelopeLength
  | St_TrailingData
  | St_InvalidRevision
  | St_ChecksumMismatch
  | St_InvalidPayload
  | St_UnsupportedStateVersion
  | St_InvalidState state_validation_error
  | St_StaleRevision
  | St_StaleDigest
  | St_RevisionOverflow
  | St_NoStateChange
  | St_IdentityMigrationRequired
  | St_ConfigurationActivationRequired
  | St_ConfigurationActivationBlocked
  | St_ConfigurationUnchanged
  | St_ConfigurationGenerationOverflow
  | St_InvalidCheckpointTransition
  | St_ScanProgressRegression
  | St_ConfigurationGenerationRegression
  | St_CheckpointGenerationRegression

definition validate_key ::
    "hash \<Rightarrow> state_key \<Rightarrow> durable_state \<Rightarrow> state_store_error + unit" where
  "validate_key sha key v =
     (if state_key_for_input sha (state_input_id v) \<noteq> key then Err St_StateKeyMismatch else Ok ())"

section \<open>Coordinator transitions\<close>

datatype checkpoint_transition =
    Tr_Unchanged
  | Tr_StartAttempt
  | Tr_CollectionCompleted
  | Tr_CollectionFailed
  | Tr_DeliveryChanged
  | Tr_Commit

definition snapshot_after :: "snapshot \<Rightarrow> snapshot \<Rightarrow> (snapshot, 'e, 'a) op \<Rightarrow> bool" where
  "snapshot_after cur nxt m = (case m cur of (r, candidate) \<Rightarrow> is_ok r \<and> candidate = nxt)"

definition classify_active ::
    "snapshot \<Rightarrow> snapshot \<Rightarrow> active_attempt \<Rightarrow> checkpoint_transition option" where
  "classify_active cur nxt a =
     (if snapshot_after cur nxt (start_attempt (fence a)) then Some Tr_StartAttempt
      else if (case collection a of
            Coll_Completed rows candidate \<Rightarrow>
              snapshot_after cur nxt (collection_completed (fence a) rows candidate)
          | _ \<Rightarrow> False)
      then Some Tr_CollectionCompleted
      else if collection a = Coll_Failed \<and> snapshot_after cur nxt (collection_failed (fence a))
      then Some Tr_CollectionFailed
      else if (case delivery a of
            Del_Confirmed rows \<Rightarrow> snapshot_after cur nxt (delivery_confirmed (fence a) rows)
          | Del_Failed \<Rightarrow> snapshot_after cur nxt (delivery_failed (fence a))
          | Del_Uncertain \<Rightarrow> snapshot_after cur nxt (delivery_uncertain (fence a))
          | Del_InProgress \<Rightarrow> False)
      then Some Tr_DeliveryChanged
      else None)"

definition classify_checkpoint_transition ::
    "snapshot \<Rightarrow> snapshot \<Rightarrow> state_store_error + checkpoint_transition" where
  "classify_checkpoint_transition cur nxt =
     (if cur = nxt then Ok Tr_Unchanged
      else (case (case active nxt of None \<Rightarrow> None | Some a \<Rightarrow> classify_active cur nxt a) of
          Some tr \<Rightarrow> Ok tr
        | None \<Rightarrow>
            if (case active cur of
                None \<Rightarrow> False
              | Some a \<Rightarrow> snapshot_after cur nxt (commit (fence a)))
            then Ok Tr_Commit
            else Err St_InvalidCheckpointTransition))"

section \<open>Scan transitions\<close>

definition cursor_strictly_advances ::
    "timestamp_id_cursor option \<Rightarrow> timestamp_id_cursor option \<Rightarrow> bool" where
  "cursor_strictly_advances cur nxt =
     (case (cur, nxt) of
        (None, Some _) \<Rightarrow> True
      | (Some c, Some n) \<Rightarrow> position_cmp n c = Greater
      | (_, None) \<Rightarrow> False)"

definition cursor_regresses ::
    "timestamp_id_cursor option \<Rightarrow> timestamp_id_cursor option \<Rightarrow> bool" where
  "cursor_regresses cur nxt =
     (case (cur, nxt) of
        (Some c, Some n) \<Rightarrow> position_cmp n c = Less
      | (Some _, None) \<Rightarrow> True
      | (None, _) \<Rightarrow> False)"

definition scan_has_full_delivery_receipt :: "active_scan \<Rightarrow> state_store_error + bool" where
  "scan_has_full_delivery_receipt sc =
     bindr (ok_or St_ScanProgressRegression (u64_of_len (length (segments sc)))) (\<lambda>retained_count.
     bindr (ok_or St_ScanProgressRegression
         (checked_add (compacted_through_sequence sc) retained_count)) (\<lambda>segment_count.
       Ok (scan_complete sc \<and> delivered_through_sequence sc = segment_count)))"

definition validate_initial_scan :: "active_scan \<Rightarrow> state_store_error + unit" where
  "validate_initial_scan sc =
     (if next_page sc = 1 \<and> \<not> scan_complete sc \<and> segments sc = [] \<and> resume_after sc = None
       \<and> maximum_candidate sc = None \<and> compacted_through_sequence sc = 0
       \<and> compacted_rows sc = 0 \<and> delivered_through_sequence sc = 0
      then Ok () else Err St_ScanProgressRegression)"

definition starts_with :: "'a list \<Rightarrow> 'a list \<Rightarrow> bool" where
  "starts_with xs ps \<longleftrightarrow> take (length ps) xs = ps"

definition validate_scan_append ::
    "active_scan \<Rightarrow> active_scan \<Rightarrow> bool \<Rightarrow> state_store_error + unit" where
  "validate_scan_append cur nxt completes_collection =
     (if scan_attempt cur \<noteq> scan_attempt nxt
       \<or> base_committed cur \<noteq> base_committed nxt
       \<or> scan_complete cur
       \<or> scan_complete nxt \<noteq> completes_collection
       \<or> compacted_through_sequence cur \<noteq> compacted_through_sequence nxt
       \<or> compacted_rows cur \<noteq> compacted_rows nxt
       \<or> delivered_through_sequence cur \<noteq> delivered_through_sequence nxt
       \<or> next_page nxt < next_page cur
       \<or> \<not> starts_with (segments nxt) (segments cur)
      then Err St_ScanProgressRegression
      else if length (segments nxt) - length (segments cur) = 0 then
        (if next_page nxt \<noteq> next_page cur
          \<or> resume_after nxt \<noteq> resume_after cur
          \<or> maximum_candidate nxt \<noteq> maximum_candidate cur
         then Err St_ScanProgressRegression
         else if completes_collection then Ok ()
         else Err St_NoStateChange)
      else if length (segments nxt) - length (segments cur) = 1 then
        bindr (ok_or St_ScanProgressRegression (checked_add (next_page cur) 1)) (\<lambda>expected_next_page.
          if next_page nxt \<noteq> expected_next_page
           \<or> \<not> cursor_strictly_advances (resume_after cur) (resume_after nxt)
           \<or> cursor_regresses (maximum_candidate cur) (maximum_candidate nxt)
          then Err St_ScanProgressRegression
          else Ok ())
      else Err St_ScanProgressRegression)"

definition last_sequence :: "active_scan \<Rightarrow> u64" where
  "last_sequence sc =
     (if segments sc = [] then compacted_through_sequence sc else ref_sequence (last (segments sc)))"

definition validate_delivery_receipt_advance ::
    "active_scan \<Rightarrow> active_scan \<Rightarrow> state_store_error + unit" where
  "validate_delivery_receipt_advance cur nxt =
     bindr (ok_or St_ScanProgressRegression (checked_add (delivered_through_sequence cur) 1)) (\<lambda>expected_sequence.
     if delivered_through_sequence nxt \<noteq> expected_sequence then Err St_ScanProgressRegression
     else if delivered_through_sequence nxt > last_sequence cur then Err St_ScanProgressRegression
     else
       let expected = cur\<lparr>delivered_through_sequence := delivered_through_sequence nxt\<rparr> in
       if expected = nxt then Ok () else Err St_ScanProgressRegression)"

text \<open>\<open>try_fold\<close> with \<open>checked_add\<close> over the rows of a prefix.\<close>

fun sum_rows :: "u64 \<Rightarrow> segment_ref list \<Rightarrow> u64 option" where
  "sum_rows rows [] = Some rows"
| "sum_rows rows (seg # segs) =
     (case checked_add rows (ref_rows seg) of None \<Rightarrow> None | Some r \<Rightarrow> sum_rows r segs)"

definition validate_scan_compaction ::
    "active_scan \<Rightarrow> active_scan \<Rightarrow> state_store_error + unit" where
  "validate_scan_compaction cur nxt =
     (if compacted_through_sequence nxt \<le> compacted_through_sequence cur
       \<or> compacted_through_sequence nxt > delivered_through_sequence cur
      then Err St_ScanProgressRegression
      else
        bindr (ok_or St_ScanProgressRegression
            (checked_sub (compacted_through_sequence nxt) (compacted_through_sequence cur))) (\<lambda>count.
        let removed_count = unat count in
        if removed_count > length (segments cur) then Err St_ScanProgressRegression
        else
        bindr (ok_or St_ScanProgressRegression
            (sum_rows 0 (take removed_count (segments cur)))) (\<lambda>removed_rows.
        bindr (ok_or St_ScanProgressRegression
            (checked_add (compacted_rows cur) removed_rows)) (\<lambda>rows.
        let expected = cur\<lparr>compacted_through_sequence := compacted_through_sequence nxt,
              compacted_rows := rows, segments := drop removed_count (segments cur)\<rparr> in
        if expected = nxt then Ok () else Err St_ScanProgressRegression))))"

definition validate_scan_transition ::
    "durable_state \<Rightarrow> durable_state \<Rightarrow> checkpoint_transition \<Rightarrow> state_store_error + unit" where
  "validate_scan_transition cur nxt tr =
     (case tr of
        Tr_Unchanged \<Rightarrow>
          (case (scan cur, scan nxt) of
             (Some c, Some n) \<Rightarrow>
               if delivered_through_sequence c \<noteq> delivered_through_sequence n
               then validate_delivery_receipt_advance c n
               else if compacted_through_sequence c \<noteq> compacted_through_sequence n
                \<or> compacted_rows c \<noteq> compacted_rows n
               then validate_scan_compaction c n
               else
                 bindr (ok_or St_NoStateChange (active (coordinator cur))) (\<lambda>a.
                 if collection a \<noteq> Coll_InProgress then Err St_InvalidCheckpointTransition
                 else validate_scan_append c n False)
           | (None, Some _) \<Rightarrow> Err St_InvalidCheckpointTransition
           | (None, None) \<Rightarrow> Err St_NoStateChange
           | (Some _, None) \<Rightarrow> Err St_ScanProgressRegression)
      | Tr_StartAttempt \<Rightarrow>
          if scan cur \<noteq> None then Err St_ScanProgressRegression
          else bindr (ok_or St_ScanProgressRegression (scan nxt)) validate_initial_scan
      | Tr_CollectionCompleted \<Rightarrow>
          (case (scan cur, scan nxt) of
             (Some c, Some n) \<Rightarrow> validate_scan_append c n True
           | _ \<Rightarrow> Err St_ScanProgressRegression)
      | Tr_CollectionFailed \<Rightarrow>
          (case (scan cur, scan nxt) of
             (Some c, Some n) \<Rightarrow> if c = n then Ok () else Err St_ScanProgressRegression
           | _ \<Rightarrow> Err St_ScanProgressRegression)
      | Tr_DeliveryChanged \<Rightarrow>
          (case (scan cur, scan nxt) of
             (Some c, Some n) \<Rightarrow>
               if c \<noteq> n then Err St_ScanProgressRegression
               else
                 bindr (ok_or St_InvalidCheckpointTransition (active (coordinator nxt))) (\<lambda>a.
                 (case delivery a of
                    Del_Confirmed _ \<Rightarrow>
                      bindr (scan_has_full_delivery_receipt n) (\<lambda>full.
                        if \<not> full then Err St_ScanProgressRegression else Ok ())
                  | _ \<Rightarrow> Ok ()))
           | _ \<Rightarrow> Err St_ScanProgressRegression)
      | Tr_Commit \<Rightarrow>
          bindr (ok_or St_ScanProgressRegression (scan cur)) (\<lambda>sc.
            if scan nxt \<noteq> None then Err St_ScanProgressRegression
            else bindr (scan_has_full_delivery_receipt sc) (\<lambda>full.
              if \<not> full then Err St_ScanProgressRegression else Ok ())))"

definition validate_transition :: "durable_state \<Rightarrow> durable_state \<Rightarrow> state_store_error + unit" where
  "validate_transition cur nxt =
     (if state_input_id cur \<noteq> state_input_id nxt then Err St_StateKeyMismatch
      else if source_lineage_fingerprint cur \<noteq> source_lineage_fingerprint nxt
       \<or> cursor_identity_fingerprint cur \<noteq> cursor_identity_fingerprint nxt
      then Err St_IdentityMigrationRequired
      else if configuration_generation nxt < configuration_generation cur
      then Err St_ConfigurationGenerationRegression
      else if configuration_fingerprint cur \<noteq> configuration_fingerprint nxt
       \<or> configuration_generation cur \<noteq> configuration_generation nxt
      then Err St_ConfigurationActivationRequired
      else if generation (coordinator nxt) < generation (coordinator cur)
      then Err St_CheckpointGenerationRegression
      else
        bindr (classify_checkpoint_transition (coordinator cur) (coordinator nxt)) (\<lambda>tr.
          validate_scan_transition cur nxt tr))"

section \<open>Classification is exact\<close>

text \<open>The steps of the coordinator that a durable write may carry, as guarded rules.\<close>

inductive coordinator_step :: "checkpoint_transition \<Rightarrow> snapshot \<Rightarrow> snapshot \<Rightarrow> bool" where
  cs_unchanged: "coordinator_step Tr_Unchanged s s"
| cs_start:
    "valid_snapshot s \<Longrightarrow> active s = None \<Longrightarrow> fence_configuration f = configuration_id s \<Longrightarrow>
     fence_generation f = generation s \<Longrightarrow>
     coordinator_step Tr_StartAttempt s
       (s\<lparr>active := Some \<lparr>fence = f, collection = Coll_InProgress, delivery = Del_InProgress\<rparr>\<rparr>)"
| cs_collected:
    "valid_snapshot s \<Longrightarrow> active s = Some a \<Longrightarrow> collection a = Coll_InProgress \<Longrightarrow>
     validate_candidate (committed s) rows c = Inr () \<Longrightarrow>
     coordinator_step Tr_CollectionCompleted s
       (s\<lparr>active := Some (a\<lparr>collection := Coll_Completed rows c\<rparr>)\<rparr>)"
| cs_collection_failed:
    "valid_snapshot s \<Longrightarrow> active s = Some a \<Longrightarrow> collection a = Coll_InProgress \<Longrightarrow>
     coordinator_step Tr_CollectionFailed s (s\<lparr>active := Some (a\<lparr>collection := Coll_Failed\<rparr>)\<rparr>)"
| cs_delivered:
    "valid_snapshot s \<Longrightarrow> active s = Some a \<Longrightarrow> delivery a = Del_InProgress \<Longrightarrow>
     d \<noteq> Del_InProgress \<Longrightarrow>
     coordinator_step Tr_DeliveryChanged s (s\<lparr>active := Some (a\<lparr>delivery := d\<rparr>)\<rparr>)"
| cs_commit:
    "commit f s = (Inr (Committed g adv), t) \<Longrightarrow> coordinator_step Tr_Commit s t"

inductive_cases coordinator_stepE: "coordinator_step tr s t"

lemma active_update_neq:
  "active s = Some a \<Longrightarrow> a' \<noteq> a \<Longrightarrow> s\<lparr>active := Some a'\<rparr> \<noteq> s"
  "active s = Some a \<Longrightarrow> a' \<noteq> a \<Longrightarrow> s \<noteq> s\<lparr>active := Some a'\<rparr>"
  "active s = None \<Longrightarrow> s\<lparr>active := Some a'\<rparr> \<noteq> s"
  "active s = None \<Longrightarrow> s \<noteq> s\<lparr>active := Some a'\<rparr>"
  by (metis option.inject snapshot.select_convs(5) snapshot.update_convs(5) snapshot.surjective
      option.distinct(1))+

lemma coordinator_step_neq: "coordinator_step tr s t \<Longrightarrow> tr \<noteq> Tr_Unchanged \<Longrightarrow> s \<noteq> t"
proof (induction rule: coordinator_step.induct)
  case (cs_collected s a rows c)
  then show ?case by (intro active_update_neq(2)) (auto dest: arg_cong [where f = collection])
next
  case (cs_collection_failed s a)
  then show ?case by (intro active_update_neq(2)) (auto dest: arg_cong [where f = collection])
next
  case (cs_delivered s a d)
  then show ?case by (intro active_update_neq(2)) (auto dest: arg_cong [where f = delivery])
next
  case (cs_commit f s g adv t)
  then have "active t = None" "active s \<noteq> None" by (auto elim!: commit_Committed)
  then show ?case by auto
qed (auto dest: arg_cong [where f = active])

text \<open>One method of the coordinator reaches \<open>t\<close> from another snapshot \<open>s\<close>.\<close>

lemma snapshot_after_iff: "snapshot_after s t m \<longleftrightarrow> (\<exists>r. m s = (Inr r, t))"
  by (auto simp: snapshot_after_def is_ok_iff split: prod.splits)

lemma active_fence_own:
  "valid_snapshot s \<Longrightarrow> active s = Some a \<Longrightarrow> require_active_fence (fence a) s = Inr ()"
  by (auto simp: require_active_fence_Ok valid_active_facts)

lemma after_start:
  "s \<noteq> t \<Longrightarrow> snapshot_after s t (start_attempt f) \<longleftrightarrow>
     valid_snapshot s \<and> active s = None \<and> fence_configuration f = configuration_id s \<and>
     fence_generation f = generation s \<and>
     t = s\<lparr>active := Some \<lparr>fence = f, collection = Coll_InProgress, delivery = Del_InProgress\<rparr>\<rparr>"
  unfolding snapshot_after_iff
  by (auto dest: start_attempt_Ok)
    (simp add: start_attempt_def require_current_context_def require_snapshot_context_def)

lemma after_collection_completed:
  "s \<noteq> t \<Longrightarrow> snapshot_after s t (collection_completed f rows c) \<longleftrightarrow>
     valid_snapshot s \<and> (\<exists>a. active s = Some a \<and> fence a = f \<and> collection a = Coll_InProgress \<and>
       validate_candidate (committed s) rows c = Inr () \<and>
       t = s\<lparr>active := Some (a\<lparr>collection := Coll_Completed rows c\<rparr>)\<rparr>)"
  unfolding snapshot_after_iff
  by (auto dest: collection_completed_Ok)
    (simp add: collection_completed_def active_fence_own)

lemma after_collection_failed:
  "s \<noteq> t \<Longrightarrow> snapshot_after s t (collection_failed f) \<longleftrightarrow>
     valid_snapshot s \<and> (\<exists>a. active s = Some a \<and> fence a = f \<and> collection a = Coll_InProgress \<and>
       t = s\<lparr>active := Some (a\<lparr>collection := Coll_Failed\<rparr>)\<rparr>)"
  unfolding snapshot_after_iff
  by (auto dest: collection_failed_Ok) (simp add: collection_failed_def active_fence_own)

lemma after_delivery_confirmed:
  "s \<noteq> t \<Longrightarrow> snapshot_after s t (delivery_confirmed f rows) \<longleftrightarrow>
     valid_snapshot s \<and> (\<exists>a. active s = Some a \<and> fence a = f \<and> delivery a = Del_InProgress \<and>
       t = s\<lparr>active := Some (a\<lparr>delivery := Del_Confirmed rows\<rparr>)\<rparr>)"
  unfolding snapshot_after_iff
  by (auto dest: delivery_confirmed_Ok) (simp add: delivery_confirmed_def active_fence_own)

lemma after_delivery_terminal:
  "s \<noteq> t \<Longrightarrow> snapshot_after s t (record_delivery_terminal f d) \<longleftrightarrow>
     valid_snapshot s \<and> (\<exists>a. active s = Some a \<and> fence a = f \<and> delivery a = Del_InProgress \<and>
       t = s\<lparr>active := Some (a\<lparr>delivery := d\<rparr>)\<rparr>)"
  unfolding snapshot_after_iff
  by (auto dest: record_delivery_terminal_Ok) (simp add: record_delivery_terminal_def active_fence_own)

lemma after_commit:
  "s \<noteq> t \<Longrightarrow> snapshot_after s t (commit f) \<longleftrightarrow> (\<exists>g adv. commit f s = (Inr (Committed g adv), t))"
  unfolding snapshot_after_iff by (metis commit_AlreadyCommitted(2) commit_outcome.exhaust)

lemmas after_simps = after_start after_collection_completed after_collection_failed
  after_delivery_confirmed after_delivery_terminal after_commit

lemma classify_active_sound:
  "s \<noteq> t \<Longrightarrow> classify_active s t a = Some tr \<Longrightarrow> coordinator_step tr s t"
  by (auto simp: classify_active_def after_simps delivery_failed_def delivery_uncertain_def
      intro: coordinator_step.intros
      split: if_split_asm collection_state.split_asm delivery_state.split_asm)

lemma classify_sound:
  "classify_checkpoint_transition s t = Inr tr \<Longrightarrow> coordinator_step tr s t"
  by (auto simp: classify_checkpoint_transition_def after_simps
      intro: coordinator_step.intros dest: classify_active_sound
      split: if_split_asm option.split_asm)

lemma classify_complete:
  assumes "coordinator_step tr s t"
  shows "classify_checkpoint_transition s t = Inr tr"
proof (cases "s = t")
  case True
  with assms show ?thesis
    using coordinator_step_neq by (fastforce simp: classify_checkpoint_transition_def)
next
  case False
  note neq = False
  from assms show ?thesis
  proof cases
    case (cs_delivered a d)
    note t = cs_delivered(2)
    have at: "active t = Some (a\<lparr>delivery := d\<rparr>)" by (simp add: t)
    have others: "\<not> snapshot_after s t (start_attempt f)"
        "\<not> snapshot_after s t (collection_completed f rows c)"
        "\<not> snapshot_after s t (collection_failed f)" for f rows c
      unfolding after_simps [OF neq] using cs_delivered(4) at
      by (auto dest!: arg_cong [where f = collection])
    have "snapshot_after s t (delivery_confirmed (fence a) rows) \<longleftrightarrow> d = Del_Confirmed rows"
      "snapshot_after s t (record_delivery_terminal (fence a) e) \<longleftrightarrow> d = e" for rows e
      unfolding after_simps [OF neq] using cs_delivered(3-5) at
      by (auto dest!: arg_cong [where f = "\<lambda>s. delivery (the (active s))"] simp: t)
    with neq at cs_delivered(1,6) show ?thesis
      by (cases d) (simp_all add: classify_checkpoint_transition_def classify_active_def others
        delivery_failed_def delivery_uncertain_def split: collection_state.split)
  next
    case (cs_commit f g adv)
    then obtain a where "active s = Some a" "fence a = f" "active t = None"
      by (auto elim!: commit_Committed)
    with neq cs_commit show ?thesis
      by (auto simp: classify_checkpoint_transition_def after_simps)
  qed (use neq in \<open>auto simp: classify_checkpoint_transition_def classify_active_def after_simps\<close>)
qed

lemma classify_iff: "classify_checkpoint_transition s t = Inr tr \<longleftrightarrow> coordinator_step tr s t"
  using classify_sound classify_complete by blast

section \<open>The durable state machine\<close>

definition fresh_scan :: "attempt_id \<Rightarrow> timestamp_id_cursor option \<Rightarrow> active_scan" where
  "fresh_scan att base = \<lparr>scan_attempt = att, base_committed = base, resume_after = None,
     maximum_candidate = None, compacted_through_sequence = 0, compacted_rows = 0, next_page = 1,
     scan_complete = False, segments = [], delivered_through_sequence = 0\<rparr>"

definition full_receipt :: "active_scan \<Rightarrow> bool" where
  "full_receipt sc \<longleftrightarrow> scan_complete sc \<and> unat (delivered_through_sequence sc) = sealed_pages sc"

definition append_page ::
    "segment_ref \<Rightarrow> timestamp_id_cursor option \<Rightarrow> timestamp_id_cursor option \<Rightarrow> active_scan \<Rightarrow> active_scan"
where
  "append_page seg resume candidate sc =
     sc\<lparr>segments := segments sc @ [seg], next_page := next_page sc + 1, resume_after := resume,
        maximum_candidate := candidate\<rparr>"

definition can_append ::
    "timestamp_id_cursor option \<Rightarrow> timestamp_id_cursor option \<Rightarrow> active_scan \<Rightarrow> bool" where
  "can_append resume candidate sc \<longleftrightarrow>
     \<not> scan_complete sc \<and> unat (next_page sc) + 1 < 2 ^ 64 \<and>
     cursor_strictly_advances (resume_after sc) resume \<and>
     \<not> cursor_regresses (maximum_candidate sc) candidate"

definition compact_pages :: "nat \<Rightarrow> active_scan \<Rightarrow> active_scan" where
  "compact_pages k sc =
     sc\<lparr>compacted_through_sequence := compacted_through_sequence sc + of_nat k,
        compacted_rows := compacted_rows sc + of_nat (rows_of (take k (segments sc))),
        segments := drop k (segments sc)\<rparr>"

text \<open>
  The steps a durable state may take: start a scan, seal a page, complete or fail the collection,
  acknowledge the next page, compact acknowledged pages, record the delivery, commit.
\<close>

inductive durable_step :: "durable_state \<Rightarrow> durable_state \<Rightarrow> bool" where
  ds_start:
    "scan st = None \<Longrightarrow> coordinator_step Tr_StartAttempt (coordinator st) k \<Longrightarrow> active k = Some a \<Longrightarrow>
     durable_step st (st\<lparr>coordinator := k,
       scan := Some (fresh_scan (fence_attempt (fence a)) (committed k))\<rparr>)"
| ds_append:
    "scan st = Some sc \<Longrightarrow> active (coordinator st) = Some a \<Longrightarrow> collection a = Coll_InProgress \<Longrightarrow>
     can_append resume candidate sc \<Longrightarrow>
     durable_step st (st\<lparr>scan := Some (append_page seg resume candidate sc)\<rparr>)"
| ds_complete:
    "scan st = Some sc \<Longrightarrow> coordinator_step Tr_CollectionCompleted (coordinator st) k \<Longrightarrow>
     \<not> scan_complete sc \<Longrightarrow>
     durable_step st (st\<lparr>coordinator := k, scan := Some (sc\<lparr>scan_complete := True\<rparr>)\<rparr>)"
| ds_append_complete:
    "scan st = Some sc \<Longrightarrow> coordinator_step Tr_CollectionCompleted (coordinator st) k \<Longrightarrow>
     can_append resume candidate sc \<Longrightarrow>
     durable_step st (st\<lparr>coordinator := k,
       scan := Some ((append_page seg resume candidate sc)\<lparr>scan_complete := True\<rparr>)\<rparr>)"
| ds_collection_failed:
    "scan st = Some sc \<Longrightarrow> coordinator_step Tr_CollectionFailed (coordinator st) k \<Longrightarrow>
     durable_step st (st\<lparr>coordinator := k\<rparr>)"
| ds_receipt:
    "scan st = Some sc \<Longrightarrow> unat (delivered_through_sequence sc) < sealed_pages sc \<Longrightarrow>
     durable_step st
       (st\<lparr>scan := Some (sc\<lparr>delivered_through_sequence := delivered_through_sequence sc + 1\<rparr>)\<rparr>)"
| ds_compact:
    "scan st = Some sc \<Longrightarrow> 0 < k \<Longrightarrow>
     unat (compacted_through_sequence sc) + k \<le> unat (delivered_through_sequence sc) \<Longrightarrow>
     durable_step st (st\<lparr>scan := Some (compact_pages k sc)\<rparr>)"
| ds_delivery:
    "scan st = Some sc \<Longrightarrow> coordinator_step Tr_DeliveryChanged (coordinator st) k \<Longrightarrow>
     active k = Some a \<Longrightarrow> (\<exists>rows. delivery a = Del_Confirmed rows) \<longrightarrow> full_receipt sc \<Longrightarrow>
     durable_step st (st\<lparr>coordinator := k\<rparr>)"
| ds_commit:
    "scan st = Some sc \<Longrightarrow> coordinator_step Tr_Commit (coordinator st) k \<Longrightarrow> full_receipt sc \<Longrightarrow>
     durable_step st (st\<lparr>coordinator := k, scan := None\<rparr>)"

lemma append_page_open:
  "\<not> scan_complete sc \<Longrightarrow>
   (append_page seg resume candidate sc)\<lparr>scan_complete := False\<rparr> = append_page seg resume candidate sc"
  by (cases sc) (simp add: append_page_def)

lemma validate_scan_append_iff:
  "validate_scan_append c n b = Inr () \<longleftrightarrow>
     (b \<and> \<not> scan_complete c \<and> n = c\<lparr>scan_complete := True\<rparr>) \<or>
     (\<exists>seg. can_append (resume_after n) (maximum_candidate n) c \<and>
        n = (append_page seg (resume_after n) (maximum_candidate n) c)\<lparr>scan_complete := b\<rparr>)"
  (is "?L \<longleftrightarrow> ?R")
proof
  assume L: ?L
  then have pre: "starts_with (segments n) (segments c)"
    by (auto simp: validate_scan_append_def split: if_split_asm)
  then obtain ys where ys: "segments n = segments c @ ys"
    unfolding starts_with_def by (metis append_take_drop_id)
  have "ys = [] \<or> (\<exists>seg. ys = [seg])"
    using L ys by (cases ys rule: rev_cases) (auto simp: validate_scan_append_def split: if_split_asm)
  then show ?R
  proof
    assume "ys = []"
    with L ys have "b \<and> \<not> scan_complete c \<and> n = c\<lparr>scan_complete := True\<rparr>"
      by (intro conjI active_scan.equality)
        (auto simp: validate_scan_append_def split: if_split_asm)
    then show ?R ..
  next
    assume "\<exists>seg. ys = [seg]"
    then obtain seg where "segments n = segments c @ [seg]" using ys by auto
    moreover from this L have "can_append (resume_after n) (maximum_candidate n) c"
      by (auto simp: validate_scan_append_def can_append_def checked_add_Some split: if_split_asm)
    moreover from calculation L have
      "n = (append_page seg (resume_after n) (maximum_candidate n) c)\<lparr>scan_complete := b\<rparr>"
      by (intro active_scan.equality)
        (auto simp: validate_scan_append_def append_page_def checked_add_Some split: if_split_asm)
    ultimately show ?R by blast
  qed
next
  assume ?R
  then consider "b" "\<not> scan_complete c" "n = c\<lparr>scan_complete := True\<rparr>"
    | seg where "can_append (resume_after n) (maximum_candidate n) c"
      "n = (append_page seg (resume_after n) (maximum_candidate n) c)\<lparr>scan_complete := b\<rparr>"
    by blast
  then show ?L
  proof cases
    case 1
    then show ?thesis by (simp add: validate_scan_append_def starts_with_def)
  next
    case 2
    have fields: "scan_attempt n = scan_attempt c" "base_committed n = base_committed c"
      "scan_complete n = b" "compacted_through_sequence n = compacted_through_sequence c"
      "compacted_rows n = compacted_rows c"
      "delivered_through_sequence n = delivered_through_sequence c"
      "next_page n = next_page c + 1" "segments n = segments c @ [seg]"
      by (subst 2(2), simp add: append_page_def)+
    have "checked_add (next_page c) 1 = Some (next_page c + 1)"
      using 2(1) by (simp add: can_append_def checked_add_def)
    moreover from this have "next_page c < next_page c + 1" by (rule checked_add_gt)
    ultimately show ?thesis
      using 2(1) by (simp add: validate_scan_append_def fields can_append_def starts_with_def)
  qed
qed

lemma last_sequence_sealed:
  assumes "scan_spec s a c"
  shows "unat (last_sequence c) = sealed_pages c"
proof (cases "segments c" rule: rev_cases)
  case (snoc xs x)
  with assms show ?thesis
    by (simp add: scan_spec_def last_sequence_def sealed_pages_def numbered_from_snoc)
qed (simp add: last_sequence_def sealed_pages_def)

lemma validate_receipt_iff:
  assumes "scan_spec s a c"
  shows "validate_delivery_receipt_advance c n = Inr () \<longleftrightarrow>
    unat (delivered_through_sequence c) < sealed_pages c \<and>
    n = c\<lparr>delivered_through_sequence := delivered_through_sequence c + 1\<rparr>"
proof -
  note last = last_sequence_sealed [OF assms]
  have le: "unat (delivered_through_sequence c) \<le> sealed_pages c"
    using assms by (simp add: scan_spec_def)
  have bound: "sealed_pages c < 2 ^ 64"
    using last u64_bound [of "last_sequence c"] by simp
  show ?thesis
  proof (cases "checked_add (delivered_through_sequence c) 1")
    case None
    with le bound show ?thesis
      by (auto simp: validate_delivery_receipt_advance_def checked_add_def split: if_split_asm)
  next
    case (Some d)
    then have d: "d = delivered_through_sequence c + 1"
        "unat d = unat (delivered_through_sequence c) + 1"
      using unat_checked_add [OF Some] by (simp_all add: checked_add_Some)
    have "last_sequence c < d \<longleftrightarrow> \<not> unat (delivered_through_sequence c) < sealed_pages c"
      by (auto simp: word_less_nat_alt last d(2))
    with Some d(1) show ?thesis
      by (auto simp: validate_delivery_receipt_advance_def Let_def)
  qed
qed

lemma sum_rows_Some:
  "sum_rows r segs = Some q \<longleftrightarrow> unat r + rows_of segs < 2 ^ 64 \<and> unat q = unat r + rows_of segs"
proof (induction segs arbitrary: r)
  case Nil
  show ?case using u64_bound [of r] by (auto simp: word_unat_eq_iff [of r])
next
  case (Cons seg segs)
  show ?case
    by (cases "checked_add r (ref_rows seg)")
      (auto simp: Cons checked_add_def unat_word_ariths split: if_split_asm)
qed

lemma rows_of_take: "rows_of (take k segs) + rows_of (drop k segs) = rows_of segs"
  by (metis append_take_drop_id rows_of_simps(3))

lemma validate_compaction_iff:
  assumes spec: "scan_spec s a c"
  shows "validate_scan_compaction c n = Inr () \<longleftrightarrow>
    (\<exists>k > 0. unat (compacted_through_sequence c) + k \<le> unat (delivered_through_sequence c) \<and>
       n = compact_pages k c)"
  (is "?L \<longleftrightarrow> ?R")
proof -
  have sums: "sum_rows 0 (take k (segments c)) = Some (of_nat (rows_of (take k (segments c))))"
      "checked_add (compacted_rows c) (of_nat (rows_of (take k (segments c)))) =
         Some (compacted_rows c + of_nat (rows_of (take k (segments c))))" for k
  proof -
    have "unat (compacted_rows c) + rows_of (take k (segments c)) < 2 ^ 64"
      using spec rows_of_take [of k "segments c"] by (simp add: scan_spec_def sealed_row_count_def)
    then show "sum_rows 0 (take k (segments c)) = Some (of_nat (rows_of (take k (segments c))))"
      "checked_add (compacted_rows c) (of_nat (rows_of (take k (segments c)))) =
         Some (compacted_rows c + of_nat (rows_of (take k (segments c))))"
      by (auto simp: sum_rows_Some checked_add_def unat_of_nat)
  qed
  have le: "unat (delivered_through_sequence c) \<le> sealed_pages c"
    using spec by (simp add: scan_spec_def)
  show ?thesis
  proof
    assume L: ?L
    then obtain w where w: "checked_sub (compacted_through_sequence n) (compacted_through_sequence c) = Some w"
      and lt: "compacted_through_sequence c < compacted_through_sequence n"
        "compacted_through_sequence n \<le> delivered_through_sequence c"
      and n: "n = c\<lparr>compacted_through_sequence := compacted_through_sequence n,
        compacted_rows := compacted_rows c + of_nat (rows_of (take (unat w) (segments c))),
        segments := drop (unat w) (segments c)\<rparr>"
      by (auto simp: validate_scan_compaction_def Let_def sums not_le split: if_split_asm)
    have w': "w = compacted_through_sequence n - compacted_through_sequence c"
        "unat w = unat (compacted_through_sequence n) - unat (compacted_through_sequence c)"
      using w unat_checked_sub [OF w] by (auto simp: checked_sub_def split: if_split_asm)
    have eq: "compacted_through_sequence n = compacted_through_sequence c + of_nat (unat w)"
      using w'(1) by simp
    have "n = compact_pages (unat w) c"
      unfolding compact_pages_def by (rule n [unfolded eq])
    moreover have "0 < unat w"
        "unat (compacted_through_sequence c) + unat w \<le> unat (delivered_through_sequence c)"
      using lt w'(2) by (simp_all add: word_less_nat_alt word_le_nat_alt)
    ultimately show ?R by blast
  next
    assume ?R
    then obtain k where k: "0 < k" "n = compact_pages k c"
        "unat (compacted_through_sequence c) + k \<le> unat (delivered_through_sequence c)"
      by blast
    have b: "unat (compacted_through_sequence c) + k < 2 ^ 64"
      using k(3) u64_bound [of "delivered_through_sequence c"] by simp
    then have u: "unat (compacted_through_sequence c + of_nat k) = unat (compacted_through_sequence c) + k"
      by (simp add: unat_word_ariths unat_of_nat)
    have "k \<le> length (segments c)" using k(3) le by (simp add: sealed_pages_def)
    moreover have "unat (of_nat k :: u64) = k" using b by (simp add: unat_of_nat)
    moreover have "compacted_through_sequence c < compacted_through_sequence c + of_nat k"
        "compacted_through_sequence c + of_nat k \<le> delivered_through_sequence c"
      using k u by (simp_all add: word_less_nat_alt word_le_nat_alt)
    moreover from calculation k(1) have "(of_nat k :: u64) \<noteq> 0" by (metis less_numeral_extra(3) unat_0)
    ultimately show ?L
      by (simp add: validate_scan_compaction_def k(2) compact_pages_def checked_sub_def sums Let_def
          not_less)
  qed
qed

lemma full_receipt_iff:
  assumes "scan_spec s a sc"
  shows "scan_has_full_delivery_receipt sc = Inr (full_receipt sc)"
proof -
  obtain n where n: "scan_segment_count sc = Inr n" "unat n = sealed_pages sc"
  proof
    have "sealed_pages sc < 2 ^ 64"
      using assms u64_bound [of "next_page sc"] by (simp add: scan_spec_def)
    then show "unat (of_nat (sealed_pages sc) :: u64) = sealed_pages sc"
      by (simp add: unat_of_nat)
    then show "scan_segment_count sc = Inr (of_nat (sealed_pages sc))"
      using assms by (simp add: scan_segment_count_Ok scan_spec_def)
  qed
  then show ?thesis
    by (auto simp: scan_segment_count_def scan_has_full_delivery_receipt_def full_receipt_def
        word_unat_eq_iff [of _ n])
qed

section \<open>Refinement\<close>

text \<open>The scan side of a write, given the coordinator's transition.\<close>

lemma same_identity:
  assumes "validate_transition cur nxt = Inr ()" "state_format_version cur = state_format_version nxt"
  shows "nxt = cur\<lparr>coordinator := coordinator nxt, scan := scan nxt\<rparr>"
  using assms by (intro durable_state.equality) (auto simp: validate_transition_def split: if_split_asm)

lemma validate_transition_split:
  assumes "nxt = cur\<lparr>coordinator := k, scan := sc\<rparr>"
  shows "validate_transition cur nxt = Inr () \<longleftrightarrow>
    \<not> generation k < generation (coordinator cur) \<and>
    (\<exists>tr. coordinator_step tr (coordinator cur) k \<and> validate_scan_transition cur nxt tr = Inr ())"
  by (auto simp: validate_transition_def assms classify_iff)

lemma coordinator_step_generation:
  "coordinator_step tr s t \<Longrightarrow> \<not> generation t < generation s"
  by (induction rule: coordinator_step.induct)
    (auto elim!: commit_Committed dest!: checked_add_gt)

lemma initial_scan_fresh:
  "validate_initial_scan sc = Inr () \<longleftrightarrow> sc = fresh_scan (scan_attempt sc) (base_committed sc)"
proof
  show "validate_initial_scan sc = Inr () \<Longrightarrow> sc = fresh_scan (scan_attempt sc) (base_committed sc)"
    by (rule active_scan.equality)
      (simp_all add: validate_initial_scan_def fresh_scan_def split: if_split_asm)
next
  assume "sc = fresh_scan (scan_attempt sc) (base_committed sc)"
  then obtain att base where "sc = fresh_scan att base" by blast
  then show "validate_initial_scan sc = Inr ()"
    by (simp add: validate_initial_scan_def fresh_scan_def)
qed

text \<open>A valid state has a scan exactly when its coordinator has an active attempt.\<close>

lemma valid_scan_facts:
  assumes "state_validate sha st = Inr ()" "scan st = Some sc"
  obtains a where "active (coordinator st) = Some a" "scan_spec (coordinator st) a sc"
  using assms by (auto simp: state_validate_Ok)

lemma start_scan_fresh:
  assumes "state_validate sha nxt = Inr ()" "scan nxt = Some sc" "validate_initial_scan sc = Inr ()"
  shows "\<exists>a. active (coordinator nxt) = Some a \<and>
    sc = fresh_scan (fence_attempt (fence a)) (committed (coordinator nxt))"
  using valid_scan_facts [OF assms(1,2)] assms(3)
  by (metis initial_scan_fresh scan_spec_def)

lemma durable_step_sound:
  assumes cur: "state_validate sha cur = Inr ()" and nxt: "state_validate sha nxt = Inr ()"
    and ok: "validate_transition cur nxt = Inr ()"
  shows "durable_step cur nxt"
proof -
  define k s where "k = coordinator nxt" and "s = scan nxt"
  have nxt_eq: "nxt = cur\<lparr>coordinator := k, scan := s\<rparr>"
    unfolding k_def s_def
    by (rule same_identity [OF ok]) (use cur nxt in \<open>simp add: state_validate_Ok\<close>)
  from ok obtain tr where tr: "coordinator_step tr (coordinator cur) k"
      and sc: "validate_scan_transition cur nxt tr = Inr ()"
    unfolding validate_transition_split [OF nxt_eq] by blast
  have keep: "nxt = cur\<lparr>scan := s\<rparr>" if "k = coordinator cur" using nxt_eq that by simp
  have keep': "nxt = cur\<lparr>coordinator := k\<rparr>" if "s = scan cur" using nxt_eq that by simp
  show ?thesis
  proof (cases tr)
    case Tr_Unchanged
    with tr have k: "k = coordinator cur" by (auto elim: coordinator_stepE)
    from Tr_Unchanged sc obtain c n where cn: "scan cur = Some c" "s = Some n"
      by (auto simp: validate_scan_transition_def s_def split: option.split_asm)
    obtain a where a: "active (coordinator cur) = Some a" "scan_spec (coordinator cur) a c"
      by (rule valid_scan_facts [OF cur cn(1)])
    from sc Tr_Unchanged cn a(1) consider
        "validate_delivery_receipt_advance c n = Inr ()"
      | "validate_scan_compaction c n = Inr ()"
      | "collection a = Coll_InProgress" "validate_scan_append c n False = Inr ()"
      by (auto simp: validate_scan_transition_def s_def [symmetric] split: if_split_asm)
    then show ?thesis
    proof cases
      case 1
      then show ?thesis
        unfolding validate_receipt_iff [OF a(2)] keep [OF k] cn(2)
        using ds_receipt [OF cn(1)] by blast
    next
      case 2
      then show ?thesis
        unfolding validate_compaction_iff [OF a(2)] keep [OF k] cn(2)
        using ds_compact [OF cn(1)] by blast
    next
      case 3
      from 3(2) obtain seg where seg: "can_append (resume_after n) (maximum_candidate n) c"
          "n = (append_page seg (resume_after n) (maximum_candidate n) c)\<lparr>scan_complete := False\<rparr>"
        unfolding validate_scan_append_iff by blast
      then have "n = append_page seg (resume_after n) (maximum_candidate n) c"
        by (metis append_page_open can_append_def)
      with ds_append [OF cn(1) a(1) 3(1) seg(1), of seg] show ?thesis
        unfolding keep [OF k] cn(2) by metis
    qed
  next
    case Tr_StartAttempt
    with sc obtain n where n: "scan cur = None" "s = Some n" "validate_initial_scan n = Inr ()"
      by (auto simp: validate_scan_transition_def s_def split: if_split_asm)
    obtain a where "active k = Some a" "n = fresh_scan (fence_attempt (fence a)) (committed k)"
      using start_scan_fresh [OF nxt _ n(3)] n(2) by (auto simp: s_def k_def)
    with ds_start [OF n(1)] tr Tr_StartAttempt show ?thesis unfolding nxt_eq n(2) by metis
  next
    case Tr_CollectionCompleted
    with sc obtain c n where cn: "scan cur = Some c" "s = Some n" "validate_scan_append c n True = Inr ()"
      by (auto simp: validate_scan_transition_def s_def split: option.split_asm)
    from cn(3) show ?thesis
      unfolding validate_scan_append_iff nxt_eq cn(2)
      using ds_complete [OF cn(1)] ds_append_complete [OF cn(1)] tr Tr_CollectionCompleted
      by metis
  next
    case Tr_CollectionFailed
    with sc obtain c where "scan cur = Some c" "s = scan cur"
      by (auto simp: validate_scan_transition_def s_def split: option.split_asm if_split_asm)
    with ds_collection_failed tr Tr_CollectionFailed show ?thesis by (auto simp: keep')
  next
    case Tr_DeliveryChanged
    with sc obtain c a where c: "scan cur = Some c" "s = scan cur" "active k = Some a"
      and d: "(case delivery a of
                    Del_Confirmed _ \<Rightarrow>
                      bindr (scan_has_full_delivery_receipt c) (\<lambda>full.
                        if \<not> full then Err St_ScanProgressRegression else Ok ())
                  | _ \<Rightarrow> Ok ()) = Inr ()"
      by (auto simp: validate_scan_transition_def s_def k_def split: option.split_asm if_split_asm)
    from d have c4: "(\<exists>rows. delivery a = Del_Confirmed rows) \<longrightarrow> scan_has_full_delivery_receipt c = Inr True"
      by (cases "delivery a") (auto split: if_split_asm)
    obtain b where "scan_spec (coordinator cur) b c" by (rule valid_scan_facts [OF cur c(1)])
    with c4 have "(\<exists>rows. delivery a = Del_Confirmed rows) \<longrightarrow> full_receipt c"
      by (auto simp: full_receipt_iff)
    with ds_delivery [OF c(1) _ c(3)] tr Tr_DeliveryChanged c(2) show ?thesis by (auto simp: keep')
  next
    case Tr_Commit
    with sc obtain c where c: "scan cur = Some c" "s = None"
        "scan_has_full_delivery_receipt c = Inr True"
      by (auto simp: validate_scan_transition_def s_def split: if_split_asm)
    obtain b where "scan_spec (coordinator cur) b c" by (rule valid_scan_facts [OF cur c(1)])
    with c(3) have "full_receipt c" by (auto simp: full_receipt_iff)
    with ds_commit [OF c(1)] tr Tr_Commit show ?thesis unfolding nxt_eq c(2) by blast
  qed
qed

lemma durable_step_shape:
  "durable_step cur nxt \<Longrightarrow> nxt = cur\<lparr>coordinator := coordinator nxt, scan := scan nxt\<rparr>"
  by (induction rule: durable_step.induct) simp_all

lemma transition_accepted:
  assumes "nxt = cur\<lparr>coordinator := k, scan := sc\<rparr>" "coordinator_step tr (coordinator cur) k"
    and "validate_scan_transition cur nxt tr = Inr ()"
  shows "validate_transition cur nxt = Inr ()"
  unfolding validate_transition_split [OF assms(1)]
  using assms coordinator_step_generation by blast

lemma compact_pages_forward:
  assumes "0 < k" "unat (compacted_through_sequence c) + k \<le> unat (delivered_through_sequence c)"
  shows "compacted_through_sequence (compact_pages k c) \<noteq> compacted_through_sequence c"
proof -
  have "unat (compacted_through_sequence c) + k < 2 ^ 64"
    using assms(2) u64_bound [of "delivered_through_sequence c"] by simp
  then have "unat (compacted_through_sequence (compact_pages k c)) = unat (compacted_through_sequence c) + k"
    by (simp add: compact_pages_def unat_word_ariths unat_of_nat)
  with assms(1) show ?thesis by auto
qed

lemma initial_fresh: "validate_initial_scan (fresh_scan att base) = Inr ()"
  by (simp add: validate_initial_scan_def fresh_scan_def)

lemma append_page_ok:
  "can_append resume candidate sc \<Longrightarrow>
     validate_scan_append sc ((append_page seg resume candidate sc)\<lparr>scan_complete := b\<rparr>) b = Inr ()"
  unfolding validate_scan_append_iff by (rule disjI2, rule exI [of _ seg]) (simp add: append_page_def)

lemma append_page_kept [simp]:
  "delivered_through_sequence (append_page seg resume candidate sc) = delivered_through_sequence sc"
  "compacted_through_sequence (append_page seg resume candidate sc) = compacted_through_sequence sc"
  "compacted_rows (append_page seg resume candidate sc) = compacted_rows sc"
  by (simp_all add: append_page_def)

lemma compact_pages_kept [simp]:
  "delivered_through_sequence (compact_pages k sc) = delivered_through_sequence sc"
  by (simp add: compact_pages_def)

lemma durable_step_complete:
  assumes "durable_step cur nxt" "state_validate sha cur = Inr ()"
  shows "validate_transition cur nxt = Inr ()"
  using assms
proof (induction rule: durable_step.induct)
  case (ds_start st k a)
  then show ?case
    by (intro transition_accepted [OF _ ds_start(2)])
      (auto simp: validate_scan_transition_def initial_fresh)
next
  case (ds_append st sc a resume candidate seg)
  then have "validate_scan_append sc (append_page seg resume candidate sc) False = Inr ()"
    using append_page_ok [where resume = resume and candidate = candidate and sc = sc and seg = seg and b = False]
    by (simp add: append_page_open can_append_def)
  with ds_append show ?case
    by (intro transition_accepted [OF _ cs_unchanged]) (auto simp: validate_scan_transition_def)
next
  case (ds_complete st sc k)
  have "validate_scan_append sc (sc\<lparr>scan_complete := True\<rparr>) True = Inr ()"
    unfolding validate_scan_append_iff using ds_complete(3) by simp
  with ds_complete show ?case
    by (intro transition_accepted [OF _ ds_complete(2)]) (auto simp: validate_scan_transition_def)
next
  case (ds_append_complete st sc k resume candidate seg)
  then show ?case
    by (intro transition_accepted [OF _ ds_append_complete(2)])
      (auto simp: validate_scan_transition_def append_page_ok)
next
  case (ds_collection_failed st sc k)
  then show ?case
    by (intro transition_accepted [OF _ ds_collection_failed(2), where sc = "scan st"])
      (auto simp: validate_scan_transition_def)
next
  case (ds_receipt st sc)
  obtain a where a: "active (coordinator st) = Some a" "scan_spec (coordinator st) a sc"
    by (rule valid_scan_facts [OF ds_receipt(3,1)])
  from ds_receipt(1,2) show ?case
    by (intro transition_accepted [OF _ cs_unchanged])
      (auto simp: validate_scan_transition_def validate_receipt_iff [OF a(2)])
next
  case (ds_compact st sc k)
  obtain a where a: "active (coordinator st) = Some a" "scan_spec (coordinator st) a sc"
    by (rule valid_scan_facts [OF ds_compact(4,1)])
  have "validate_scan_compaction sc (compact_pages k sc) = Inr ()"
    using ds_compact(2,3) by (auto simp: validate_compaction_iff [OF a(2)])
  with ds_compact(1) show ?case
    using compact_pages_forward [OF ds_compact(2,3)]
    by (intro transition_accepted [OF _ cs_unchanged])
      (auto simp: validate_scan_transition_def)
next
  case (ds_delivery st sc k a)
  obtain b where "scan_spec (coordinator st) b sc" by (rule valid_scan_facts [OF ds_delivery(5,1)])
  with ds_delivery show ?case
    by (intro transition_accepted [OF _ ds_delivery(2), where sc = "scan st"])
      (auto simp: validate_scan_transition_def full_receipt_iff split: delivery_state.split)
next
  case (ds_commit st sc k)
  obtain b where "scan_spec (coordinator st) b sc" by (rule valid_scan_facts [OF ds_commit(4,1)])
  with ds_commit show ?case
    by (intro transition_accepted [OF _ ds_commit(2)])
      (auto simp: validate_scan_transition_def full_receipt_iff)
qed

section \<open>What an accepted write preserves\<close>

lemma coordinator_step_below: "coordinator_step tr s t \<Longrightarrow> checkpoint_below s t"
  by (induction rule: coordinator_step.induct) (auto dest: commit_below)

lemma coordinator_step_committed:
  "coordinator_step tr s t \<Longrightarrow> tr \<noteq> Tr_Commit \<Longrightarrow> committed t = committed s"
  by (induction rule: coordinator_step.induct) simp_all

lemma durable_step_below: "durable_step cur nxt \<Longrightarrow> checkpoint_below (coordinator cur) (coordinator nxt)"
  by (induction rule: durable_step.induct) (auto dest: coordinator_step_below)

lemma durable_step_identity:
  assumes "durable_step cur nxt"
  shows "state_input_id nxt = state_input_id cur"
    "source_lineage_fingerprint nxt = source_lineage_fingerprint cur"
    "cursor_identity_fingerprint nxt = cursor_identity_fingerprint cur"
    "configuration_fingerprint nxt = configuration_fingerprint cur"
    "configuration_generation nxt = configuration_generation cur"
  using assms by (induction rule: durable_step.induct) simp_all

lemma durable_step_commit:
  assumes "durable_step cur nxt" "committed (coordinator nxt) \<noteq> committed (coordinator cur)"
  shows "\<exists>sc. scan cur = Some sc \<and> full_receipt sc \<and> scan nxt = None \<and>
    coordinator_step Tr_Commit (coordinator cur) (coordinator nxt)"
  using assms by (induction rule: durable_step.induct) (auto dest: coordinator_step_committed)

lemma sequence_in_segments:
  assumes "scan_spec s a sc" "seg \<in> set (segments sc)"
  obtains i where "i < length (segments sc)" "segments sc ! i = seg"
    "unat (ref_sequence seg) = unat (compacted_through_sequence sc) + 1 + i"
proof -
  from assms(2) obtain i where "i < length (segments sc)" "segments sc ! i = seg"
    by (auto simp: in_set_conv_nth)
  with assms(1) that show thesis by (auto simp: scan_spec_def numbered_from_def)
qed

lemma compact_keeps_undelivered:
  assumes "scan_spec s a sc" "seg \<in> set (segments sc)"
    and "delivered_through_sequence sc < ref_sequence seg"
    and "unat (compacted_through_sequence sc) + k \<le> unat (delivered_through_sequence sc)"
  shows "seg \<in> set (segments (compact_pages k sc))"
proof -
  obtain i where i: "i < length (segments sc)" "segments sc ! i = seg"
      "unat (ref_sequence seg) = unat (compacted_through_sequence sc) + 1 + i"
    by (rule sequence_in_segments [OF assms(1,2)])
  with assms(3,4) have "k \<le> i" by (simp add: word_less_nat_alt)
  with i show ?thesis
    by (auto simp: compact_pages_def in_set_conv_nth intro!: exI [of _ "i - k"])
qed

lemma undelivered_kept:
  assumes "durable_step cur nxt" "state_validate sha cur = Inr ()" "scan cur = Some sc"
    and "seg \<in> set (segments sc)" "delivered_through_sequence sc < ref_sequence seg"
  shows "\<exists>sc'. scan nxt = Some sc' \<and> seg \<in> set (segments sc')"
proof -
  obtain a where a: "scan_spec (coordinator cur) a sc" by (rule valid_scan_facts [OF assms(2,3)])
  have "\<not> full_receipt sc"
  proof
    assume "full_receipt sc"
    then have d: "unat (delivered_through_sequence sc) = sealed_pages sc" by (simp add: full_receipt_def)
    obtain i where "i < length (segments sc)"
        "unat (ref_sequence seg) = unat (compacted_through_sequence sc) + 1 + i"
      by (rule sequence_in_segments [OF a assms(4)])
    with assms(5) d show False by (simp add: word_less_nat_alt sealed_pages_def)
  qed
  with assms(1,3-5) a show ?thesis
    by (induction rule: durable_step.induct)
      (auto simp: append_page_def intro: compact_keeps_undelivered)
qed

text \<open>A run of accepted writes, each proposed state validated before the transition is checked.\<close>

fun accepted_run :: "hash \<Rightarrow> durable_state \<Rightarrow> durable_state list \<Rightarrow> bool" where
  "accepted_run sha st [] \<longleftrightarrow> True"
| "accepted_run sha st (n # ns) \<longleftrightarrow>
     state_validate sha n = Inr () \<and> validate_transition st n = Inr () \<and> accepted_run sha n ns"

definition same_input :: "durable_state \<Rightarrow> durable_state \<Rightarrow> bool" where
  "same_input st nx \<longleftrightarrow>
     state_input_id nx = state_input_id st \<and>
     source_lineage_fingerprint nx = source_lineage_fingerprint st \<and>
     cursor_identity_fingerprint nx = cursor_identity_fingerprint st \<and>
     configuration_fingerprint nx = configuration_fingerprint st \<and>
     configuration_generation nx = configuration_generation st"

lemma accepted_run_below:
  assumes "state_validate sha st = Inr ()" "accepted_run sha st ns"
  shows "state_validate sha (last (st # ns)) = Inr () \<and> same_input st (last (st # ns)) \<and>
    checkpoint_below (coordinator st) (coordinator (last (st # ns)))"
  using assms
proof (induction ns arbitrary: st)
  case (Cons n ns)
  then have "durable_step st n" by (auto intro: durable_step_sound)
  then have "checkpoint_below (coordinator st) (coordinator n)" "same_input st n"
    using durable_step_below durable_step_identity by (simp_all add: same_input_def)
  moreover from Cons have "state_validate sha (last (n # ns)) = Inr ()"
      "checkpoint_below (coordinator n) (coordinator (last (n # ns)))"
      "same_input n (last (n # ns))"
    by auto
  ultimately show ?case
    by (auto simp: same_input_def dest: coordinator.below_trans)
qed (simp add: same_input_def)

section \<open>Properties\<close>

text \<open>
  The demonstration state with its second page not yet acknowledged, and the state after its
  commit.
\<close>

definition demo_collected :: snapshot where
  "demo_collected = demo_start\<lparr>active := Some \<lparr>fence = demo_fence,
     collection = Coll_Completed 2 (Some (TimestampIdCursor 1001 11)), delivery = Del_InProgress\<rparr>\<rparr>"

definition demo_half :: active_scan where
  "demo_half = demo_scan\<lparr>delivered_through_sequence := 1\<rparr>"

definition demo_pending :: durable_state where
  "demo_pending = demo_state\<lparr>coordinator := demo_collected, scan := Some demo_half\<rparr>"

definition demo_acked :: durable_state where
  "demo_acked = demo_pending\<lparr>scan := Some demo_scan\<rparr>"

definition demo_committed :: durable_state where
  "demo_committed = demo_state\<lparr>coordinator := demo_done, scan := None\<rparr>"

lemmas demo_state_defs = demo_pending_def demo_acked_def demo_committed_def demo_half_def
  demo_state_def new_durable_state_def

lemma demo_collected_spec:
  "active demo_collected = Some a \<Longrightarrow> scan_spec demo_collected a demo_scan"
  "active demo_collected = Some a \<Longrightarrow> scan_spec demo_collected a demo_half"
  by (auto simp: demo_collected_def demo_half_def demo_defs demo_scan_def scan_spec_def
      new_snapshot_def sealed_pages_def sealed_row_count_def behind_def less_cursor_def
      MAX_SEGMENTS_PER_SCAN_def word_le_nat_alt)

lemma demo_collected_valid: "valid_snapshot demo_collected"
  by (simp add: demo_collected_def demo_defs new_snapshot_def valid_snapshot_iff validate_active_Ok
      validate_last_Ok validate_candidate_Ok less_eq_cursor_def less_cursor_def)

lemma demo_pending_valid:
  "state_validate demo_sha demo_pending = Inr ()" "state_validate demo_sha demo_acked = Inr ()"
  using demo_collected_valid demo_collected_spec
  by (auto simp: state_validate_Ok demo_state_defs configuration_fence_id_def demo_sha_def
      demo_collected_def demo_start_def new_snapshot_def)

lemma demo_committed_valid: "state_validate demo_sha demo_committed = Inr ()"
  using valid_commit [OF demo_commit]
  by (simp add: state_validate_Ok demo_state_defs configuration_fence_id_def demo_sha_def
      demo_done_def demo_start_def new_snapshot_def)

lemma demo_receipt_step: "validate_transition demo_pending demo_acked = Inr ()"
proof -
  have "durable_step demo_pending (demo_pending\<lparr>scan :=
      Some (demo_half\<lparr>delivered_through_sequence := delivered_through_sequence demo_half + 1\<rparr>)\<rparr>)"
    by (rule ds_receipt)
      (simp_all add: demo_pending_def demo_half_def demo_scan_def sealed_pages_def)
  moreover have "demo_half\<lparr>delivered_through_sequence := delivered_through_sequence demo_half + 1\<rparr> = demo_scan"
    by (simp add: demo_half_def demo_scan_def)
  ultimately have "durable_step demo_pending demo_acked" by (simp add: demo_acked_def)
  then show ?thesis by (rule durable_step_complete [OF _ demo_pending_valid(1)])
qed

lemma demo_commit_step: "validate_transition demo_state demo_committed = Inr ()"
proof -
  have "durable_step demo_state (demo_state\<lparr>coordinator := demo_done, scan := None\<rparr>)"
    by (rule ds_commit [where sc = demo_scan])
      (auto simp: demo_state_def new_durable_state_def full_receipt_def demo_scan_def sealed_pages_def
        intro: cs_commit demo_commit)
  then have "durable_step demo_state demo_committed" by (simp add: demo_committed_def)
  then show ?thesis by (rule durable_step_complete [OF _ demo_state_valid])
qed

text \<open>
  Classification is exact. The trial replay of coordinator methods on a clone of the current
  snapshot recognises a proposed snapshot as a transition exactly when it is the result of that one
  step of the coordinator; no pair of snapshots has two classes.
\<close>
theorem classification_exact:
  "classify_checkpoint_transition s t = Inr tr \<longleftrightarrow> coordinator_step tr s t"
  by (rule classify_iff)

text \<open>
  C3. Refinement. Between valid states, the comparison of records done by \<open>validate_transition\<close>
  accepts a write exactly when it is one step of the durable state machine: a start with a fresh
  scan, one sealed page, a completion with at most one page, a failure, one receipt, a compaction of
  acknowledged pages with their rows, a delivery result, or a commit behind a full receipt.
\<close>
theorem transition_refinement:
  assumes "state_validate sha cur = Inr ()" "state_validate sha nxt = Inr ()"
  shows "validate_transition cur nxt = Inr () \<longleftrightarrow> durable_step cur nxt"
  using durable_step_sound [OF assms] durable_step_complete [OF _ assms(1)] by blast

lemma transition_refinement_witness: "durable_step demo_pending demo_acked"
  using transition_refinement [OF demo_pending_valid] demo_receipt_step by blast

text \<open>
  Runs of writes. However many writes the store accepts, the last state is valid, belongs to
  the same input, source lineage, cursor identity and configuration, and neither the checkpoint
  generation nor the committed cursor has moved back.
\<close>
theorem accepted_run_safe:
  assumes "state_validate sha st = Inr ()" "accepted_run sha st ns"
  shows "state_validate sha (last (st # ns)) = Inr () \<and> same_input st (last (st # ns)) \<and>
    checkpoint_below (coordinator st) (coordinator (last (st # ns)))"
  by (rule accepted_run_below [OF assms])

lemma accepted_run_safe_witness:
  "checkpoint_below (coordinator demo_state) (coordinator demo_committed)"
  using accepted_run_safe [OF demo_state_valid, of "[demo_committed]"]
  by (simp add: demo_committed_valid demo_commit_step)

text \<open>
  C4. The durable cursor moves only with a full receipt. A write that changes the committed cursor
  is the commit of a complete scan with a receipt for every sealed page; it drops the scan, and the
  new cursor is the scan's maximum candidate.
\<close>
theorem durable_cursor_needs_receipts:
  assumes "state_validate sha cur = Inr ()" "state_validate sha nxt = Inr ()"
    and "validate_transition cur nxt = Inr ()"
    and "committed (coordinator nxt) \<noteq> committed (coordinator cur)"
  shows "\<exists>sc. scan cur = Some sc \<and> scan_complete sc \<and>
    unat (delivered_through_sequence sc) = sealed_pages sc \<and> scan nxt = None \<and>
    committed (coordinator nxt) = maximum_candidate sc"
proof -
  obtain sc where sc: "scan cur = Some sc" "full_receipt sc" "scan nxt = None"
      "coordinator_step Tr_Commit (coordinator cur) (coordinator nxt)"
    using durable_step_commit [OF durable_step_sound [OF assms(1-3)] assms(4)] by blast
  obtain a where a: "active (coordinator cur) = Some a" "scan_spec (coordinator cur) a sc"
    by (rule valid_scan_facts [OF assms(1) sc(1)])
  from sc(4) obtain f g adv where "commit f (coordinator cur) = (Inr (Committed g adv), coordinator nxt)"
    by (auto elim: coordinator_stepE)
  then have "committed (coordinator nxt) = maximum_candidate sc"
    using a assms(4) by (auto elim!: commit_Committed simp: scan_spec_def split: option.splits)
  with sc show ?thesis by (auto simp: full_receipt_def)
qed

lemma durable_cursor_needs_receipts_witness:
  "committed (coordinator demo_committed) = Some (TimestampIdCursor 1001 11)"
proof -
  have "committed (coordinator demo_committed) \<noteq> committed (coordinator demo_state)"
    by (simp add: demo_state_defs demo_defs new_snapshot_def)
  from durable_cursor_needs_receipts [OF demo_state_valid demo_committed_valid demo_commit_step this]
  show ?thesis by (auto simp: demo_state_def new_durable_state_def demo_scan_def)
qed

text \<open>
  C5. No page is lost before its receipt. A sealed segment whose sequence is past the delivered
  prefix is still referenced after any accepted write.
\<close>
theorem undelivered_segment_kept:
  assumes "state_validate sha cur = Inr ()" "state_validate sha nxt = Inr ()"
    and "validate_transition cur nxt = Inr ()"
    and "scan cur = Some sc" "seg \<in> set (segments sc)"
    and "delivered_through_sequence sc < ref_sequence seg"
  shows "\<exists>sc'. scan nxt = Some sc' \<and> seg \<in> set (segments sc')"
  by (rule undelivered_kept [OF durable_step_sound [OF assms(1-3)] assms(1,4-6)])

lemma undelivered_segment_kept_witness:
  "\<exists>sc'. scan demo_acked = Some sc' \<and> last (segments demo_half) \<in> set (segments sc')"
  by (rule undelivered_segment_kept [OF demo_pending_valid demo_receipt_step, of demo_half])
    (simp_all add: demo_pending_def demo_half_def demo_scan_def)

end
