(* ===== verification/State_Envelope.thy ===== *)
theory State_Envelope
  imports State_Transitions
begin

text \<open>
  The checkpoint envelope of \<open>crates/dbx-rs-state/src/store.rs\<close>: a 56-byte header with magic,
  version, codec, payload length, revision and SHA-256 checksum, and a JSON payload. The JSON
  serialiser and parser of \<open>serde_json\<close> and SHA-256 are parameters.
\<close>

section \<open>Stored states\<close>

definition DURABLE_ENVELOPE_VERSION :: u16 where "DURABLE_ENVELOPE_VERSION = 1"
definition MAX_ENVELOPE_BYTES :: nat where "MAX_ENVELOPE_BYTES = 1048576"
definition MAGIC :: bytes where "MAGIC = ascii ''DBXRSCP'' @ [0]"
definition JSON_CODEC :: u16 where "JSON_CODEC = 1"
definition HEADER_BYTES :: nat where "HEADER_BYTES = 56"
definition CHECKSUM_START :: nat where "CHECKSUM_START = 24"
definition CHECKSUM_END :: nat where "CHECKSUM_END = 56"
definition CHECKSUM_DOMAIN :: bytes where
  "CHECKSUM_DOMAIN = ascii ''dbx-rs-checkpoint-envelope-v1'' @ [0]"

lemmas envelope_sizes = HEADER_BYTES_def CHECKSUM_START_def CHECKSUM_END_def MAX_ENVELOPE_BYTES_def

record state_token =
  revision :: u64
  digest :: bytes

record stored_state =
  stored_value :: durable_state
  stored_token :: state_token

type_synonym to_json = "durable_state \<Rightarrow> bytes option"
type_synonym from_json = "bytes \<Rightarrow> durable_state option"

definition verify_expected :: "state_token \<Rightarrow> state_token \<Rightarrow> state_store_error + unit" where
  "verify_expected cur expected =
     (if revision cur \<noteq> revision expected then Err St_StaleRevision
      else if digest cur \<noteq> digest expected then Err St_StaleDigest
      else Ok ())"

definition map_validation_error :: "state_validation_error \<Rightarrow> state_store_error" where
  "map_validation_error e =
     (if e = UnsupportedStateVersion \<or> e = UnsupportedCoordinatorVersion
      then St_UnsupportedStateVersion else St_InvalidState e)"

section \<open>Encoding\<close>

definition envelope_checksum :: "hash \<Rightarrow> bytes \<Rightarrow> bytes \<Rightarrow> bytes" where
  "envelope_checksum sha prefix payload = sha (CHECKSUM_DOMAIN @ prefix @ payload)"

text \<open>The first 24 bytes, which the checksum covers.\<close>

definition envelope_prefix :: "nat \<Rightarrow> u64 \<Rightarrow> bytes" where
  "envelope_prefix n rv =
     MAGIC @ be_bytes 2 DURABLE_ENVELOPE_VERSION @ be_bytes 2 JSON_CODEC @
     be_bytes 4 (of_nat n :: u32) @ be_bytes 8 rv"

definition encode_payload :: "hash \<Rightarrow> bytes \<Rightarrow> u64 \<Rightarrow> state_store_error + bytes" where
  "encode_payload sha payload rv =
     (if rv = 0 then Err St_InvalidRevision
      else if HEADER_BYTES + length payload > MAX_ENVELOPE_BYTES then Err St_EnvelopeTooLarge
      else
        let prefix = envelope_prefix (length payload) rv in
        Ok (prefix @ envelope_checksum sha prefix payload @ payload))"

definition encode_envelope ::
    "hash \<Rightarrow> to_json \<Rightarrow> durable_state \<Rightarrow> u64 \<Rightarrow> state_store_error + bytes" where
  "encode_envelope sha to_json v rv =
     bindr (map_err map_validation_error (state_validate sha v)) (\<lambda>_.
     bindr (ok_or St_InvalidPayload (to_json v)) (\<lambda>payload.
       encode_payload sha payload rv))"

section \<open>Decoding\<close>

definition slice :: "nat \<Rightarrow> nat \<Rightarrow> 'a list \<Rightarrow> 'a list" where
  "slice i j xs = take (j - i) (drop i xs)"

definition decode_envelope ::
    "hash \<Rightarrow> from_json \<Rightarrow> bytes \<Rightarrow> state_store_error + stored_state" where
  "decode_envelope sha from_json bs =
     (if length bs > MAX_ENVELOPE_BYTES then Err St_EnvelopeTooLarge
      else if length bs < HEADER_BYTES then Err St_EnvelopeTruncated
      else if take 8 bs \<noteq> MAGIC then Err St_InvalidMagic
      else if (from_be (slice 8 10 bs) :: u16) \<noteq> DURABLE_ENVELOPE_VERSION
      then Err St_UnsupportedEnvelopeVersion
      else if (from_be (slice 10 12 bs) :: u16) \<noteq> JSON_CODEC then Err St_UnsupportedCodec
      else
        let expected_length = HEADER_BYTES + unat (from_be (slice 12 16 bs) :: u32) in
        if length bs < expected_length then Err St_EnvelopeTruncated
        else if length bs > expected_length then Err St_TrailingData
        else
          let rv = (from_be (slice 16 24 bs) :: u64) in
          if rv = 0 then Err St_InvalidRevision
          else
            let payload = drop HEADER_BYTES bs;
                stored_digest = slice CHECKSUM_START CHECKSUM_END bs in
            if envelope_checksum sha (take CHECKSUM_START bs) payload \<noteq> stored_digest
            then Err St_ChecksumMismatch
            else
              bindr (ok_or St_InvalidPayload (from_json payload)) (\<lambda>v.
              bindr (map_err map_validation_error (state_validate sha v)) (\<lambda>_.
                Ok \<lparr>stored_value = v,
                    stored_token = \<lparr>revision = rv, digest = stored_digest\<rparr>\<rparr>)))"

section \<open>The layout\<close>

lemma length_prefix [simp]: "length (envelope_prefix n rv) = 24"
  by (simp add: envelope_prefix_def MAGIC_def ascii_def length_be_bytes del: be_bytes_numeral)

lemma length_MAGIC [simp]: "length MAGIC = 8"
  by (simp add: MAGIC_def ascii_def)

lemma slice_append:
  "length xs = i \<Longrightarrow> length ys = j - i \<Longrightarrow> slice i j (xs @ ys @ zs) = ys"
  by (simp add: slice_def)

lemma length_slice [simp]: "j \<le> length xs \<Longrightarrow> length (slice i j xs) = j - i"
  by (simp add: slice_def)

lemma slice_slice_append:
  assumes "i \<le> j" "j \<le> k"
  shows "slice i j xs @ slice j k xs = slice i k xs"
proof -
  have "take (j - i) (drop i xs) @ take (k - j) (drop (j - i) (drop i xs)) =
      take ((j - i) + (k - j)) (drop i xs)"
    by (rule take_add [symmetric])
  moreover have "(j - i) + (k - j) = k - i" using assms by simp
  moreover have "drop (j - i) (drop i xs) = drop j xs" using assms(1) by simp
  ultimately show ?thesis by (simp add: slice_def)
qed

lemma take_slice: "i \<le> j \<Longrightarrow> take i xs @ slice i j xs = take j xs"
  using slice_slice_append [of 0 i j xs] by (simp add: slice_def)

lemma take_slice_drop: "i \<le> j \<Longrightarrow> take i xs @ slice i j xs @ drop j xs = xs"
  by (metis append.assoc append_take_drop_id take_slice)

text \<open>The fields of an encoded envelope.\<close>

lemma prefix_fields:
  fixes ck payload :: bytes and rv :: u64
  assumes "n < 2 ^ 32"
  defines "bs \<equiv> envelope_prefix n rv @ ck @ payload"
  shows "take 8 bs = MAGIC"
    and "(from_be (slice 8 10 bs) :: u16) = DURABLE_ENVELOPE_VERSION"
    and "(from_be (slice 10 12 bs) :: u16) = JSON_CODEC"
    and "unat (from_be (slice 12 16 bs) :: u32) = n"
    and "(from_be (slice 16 24 bs) :: u64) = rv"
proof -
  note l = length_be_bytes length_MAGIC
  show "take 8 bs = MAGIC" by (simp add: bs_def envelope_prefix_def del: be_bytes_numeral)
  have "slice 8 10 bs = be_bytes 2 DURABLE_ENVELOPE_VERSION"
    "slice 10 12 bs = be_bytes 2 JSON_CODEC" "slice 12 16 bs = be_bytes 4 (of_nat n :: u32)"
    "slice 16 24 bs = be_bytes 8 rv"
    by (simp_all add: bs_def envelope_prefix_def slice_def l drop_append del: be_bytes_numeral)
  then show "(from_be (slice 8 10 bs) :: u16) = DURABLE_ENVELOPE_VERSION"
    and "(from_be (slice 10 12 bs) :: u16) = JSON_CODEC"
    and "unat (from_be (slice 12 16 bs) :: u32) = n"
    and "(from_be (slice 16 24 bs) :: u64) = rv"
    using assms(1) by (simp_all add: unat_of_nat del: be_bytes_numeral)
qed

text \<open>The other way: 24 bytes that read as these fields are that prefix.\<close>

lemma prefix_of_fields:
  assumes "24 \<le> length bs" "take 8 bs = MAGIC"
    and "(from_be (slice 8 10 bs) :: u16) = DURABLE_ENVELOPE_VERSION"
    and "(from_be (slice 10 12 bs) :: u16) = JSON_CODEC"
    and "unat (from_be (slice 12 16 bs) :: u32) = n"
    and "(from_be (slice 16 24 bs) :: u64) = rv"
  shows "take 24 bs = envelope_prefix n rv"
proof -
  have "slice 8 10 bs = be_bytes 2 DURABLE_ENVELOPE_VERSION"
    using be_bytes_from_be [where 'a = 16, of "slice 8 10 bs"] assms(1,3)
    by (simp del: be_bytes_numeral)
  moreover have "slice 10 12 bs = be_bytes 2 JSON_CODEC"
    using be_bytes_from_be [where 'a = 16, of "slice 10 12 bs"] assms(1,4)
    by (simp del: be_bytes_numeral)
  moreover have "slice 12 16 bs = be_bytes 4 (of_nat n :: u32)"
    using be_bytes_from_be [where 'a = 32, of "slice 12 16 bs"] assms(1)
    by (simp add: assms(5) [symmetric] del: be_bytes_numeral)
  moreover have "slice 16 24 bs = be_bytes 8 rv"
    using be_bytes_from_be [where 'a = 64, of "slice 16 24 bs"] assms(1,6)
    by (simp del: be_bytes_numeral)
  moreover have "take 24 bs =
      take 8 bs @ slice 8 10 bs @ slice 10 12 bs @ slice 12 16 bs @ slice 16 24 bs"
    by (simp add: slice_slice_append take_slice)
  ultimately show ?thesis by (simp add: assms(2) envelope_prefix_def del: be_bytes_numeral)
qed

section \<open>Decoding inverts encoding\<close>

definition sha_sized :: "hash \<Rightarrow> bool" where
  "sha_sized sha \<longleftrightarrow> (\<forall>x. length (sha x) = 32)"

lemma length_checksum [simp]: "sha_sized sha \<Longrightarrow> length (envelope_checksum sha p payload) = 32"
  by (simp add: sha_sized_def envelope_checksum_def)

lemma encode_payload_Ok:
  "encode_payload sha payload rv = Inr bs \<longleftrightarrow>
     rv \<noteq> 0 \<and> HEADER_BYTES + length payload \<le> MAX_ENVELOPE_BYTES \<and>
     bs = envelope_prefix (length payload) rv @
       envelope_checksum sha (envelope_prefix (length payload) rv) payload @ payload"
  by (auto simp: encode_payload_def Let_def)

lemma decode_encoded:
  assumes sha: "sha_sized sha" and enc: "encode_payload sha payload rv = Inr bs"
  shows "decode_envelope sha from_json bs =
    bindr (ok_or St_InvalidPayload (from_json payload)) (\<lambda>v.
    bindr (map_err map_validation_error (state_validate sha v)) (\<lambda>_.
      Ok \<lparr>stored_value = v, stored_token = \<lparr>revision = rv,
        digest = envelope_checksum sha (envelope_prefix (length payload) rv) payload\<rparr>\<rparr>))"
proof -
  let ?p = "envelope_prefix (length payload) rv"
  from enc have bs: "bs = ?p @ envelope_checksum sha ?p payload @ payload"
    and rv: "rv \<noteq> 0" and len: "HEADER_BYTES + length payload \<le> MAX_ENVELOPE_BYTES"
    by (simp_all add: encode_payload_Ok)
  have small: "length payload < 2 ^ 32" using len by (simp add: envelope_sizes)
  note fields = prefix_fields [OF small, of rv "envelope_checksum sha ?p payload" payload, folded bs]
  have parts: "drop HEADER_BYTES bs = payload"
      "slice CHECKSUM_START CHECKSUM_END bs = envelope_checksum sha ?p payload"
      "take CHECKSUM_START bs = ?p" "length bs = HEADER_BYTES + length payload"
    using sha by (simp_all add: bs envelope_sizes slice_def)
  show ?thesis
    using rv len by (simp add: decode_envelope_def fields parts Let_def)
qed

lemma decode_is_encoded:
  assumes "decode_envelope sha from_json bs = Inr st"
  shows "\<exists>payload. encode_payload sha payload (revision (stored_token st)) = Inr bs \<and>
    from_json payload = Some (stored_value st) \<and> state_validate sha (stored_value st) = Inr () \<and>
    digest (stored_token st) =
      envelope_checksum sha (envelope_prefix (length payload) (revision (stored_token st))) payload"
proof -
  define payload where "payload = drop HEADER_BYTES bs"
  define rv where "rv = (from_be (slice 16 24 bs) :: u64)"
  from assms have len: "length bs = HEADER_BYTES + unat (from_be (slice 12 16 bs) :: u32)"
      "length bs \<le> MAX_ENVELOPE_BYTES"
    and fields: "take 8 bs = MAGIC" "(from_be (slice 8 10 bs) :: u16) = DURABLE_ENVELOPE_VERSION"
      "(from_be (slice 10 12 bs) :: u16) = JSON_CODEC" "rv \<noteq> 0"
    and ck: "envelope_checksum sha (take CHECKSUM_START bs) payload = slice CHECKSUM_START CHECKSUM_END bs"
    and v: "from_json payload = Some (stored_value st)" "state_validate sha (stored_value st) = Inr ()"
      "stored_token st = \<lparr>revision = rv, digest = slice CHECKSUM_START CHECKSUM_END bs\<rparr>"
    by (auto simp: decode_envelope_def Let_def payload_def rv_def not_less split: if_split_asm)
  have p: "take CHECKSUM_START bs = envelope_prefix (length payload) rv"
    unfolding CHECKSUM_START_def
    by (rule prefix_of_fields) (use len fields in \<open>simp_all add: payload_def rv_def HEADER_BYTES_def\<close>)
  have "bs = take CHECKSUM_START bs @ slice CHECKSUM_START CHECKSUM_END bs @ drop CHECKSUM_END bs"
    by (rule take_slice_drop [symmetric]) (simp add: envelope_sizes)
  then have "bs = envelope_prefix (length payload) rv @
      envelope_checksum sha (envelope_prefix (length payload) rv) payload @ payload"
    using ck p by (simp add: payload_def envelope_sizes)
  moreover have "HEADER_BYTES + length payload \<le> MAX_ENVELOPE_BYTES"
    using len by (simp add: payload_def)
  ultimately show ?thesis
    using v fields(4) ck p by (intro exI [of _ payload]) (simp add: encode_payload_Ok)
qed

lemma checksum_input_inj:
  assumes "length p = length q" "p @ x \<noteq> q @ y"
  shows "CHECKSUM_DOMAIN @ p @ x \<noteq> CHECKSUM_DOMAIN @ q @ y"
  using assms by simp

text \<open>What serde promises of one value: its JSON text parses back to it.\<close>

definition json_roundtrip :: "to_json \<Rightarrow> from_json \<Rightarrow> durable_state \<Rightarrow> bool" where
  "json_roundtrip to_json from_json v \<longleftrightarrow>
     (case to_json v of None \<Rightarrow> True | Some payload \<Rightarrow> from_json payload = Some v)"

lemma encode_envelope_decodes:
  assumes "sha_sized sha" "json_roundtrip to_json from_json v"
    and "encode_envelope sha to_json v rv = Inr bs"
  obtains d where "decode_envelope sha from_json bs =
      Inr \<lparr>stored_value = v, stored_token = \<lparr>revision = rv, digest = d\<rparr>\<rparr>"
    "length bs \<le> MAX_ENVELOPE_BYTES" "rv \<noteq> 0" "state_validate sha v = Inr ()"
proof -
  from assms(3) obtain payload where p: "to_json v = Some payload"
      "encode_payload sha payload rv = Inr bs" "state_validate sha v = Inr ()"
    by (auto simp: encode_envelope_def)
  with assms(2) have "from_json payload = Some v" by (simp add: json_roundtrip_def)
  with p decode_encoded [OF assms(1) p(2), of from_json] that show thesis
    using assms(1) by (auto simp: encode_payload_Ok envelope_sizes)
qed

lemma decoded_valid:
  "decode_envelope sha from_json bs = Inr st \<Longrightarrow> state_validate sha (stored_value st) = Inr ()"
  using decode_is_encoded by blast

lemma decoded_revision:
  "decode_envelope sha from_json bs = Inr st \<Longrightarrow> revision (stored_token st) \<noteq> 0"
  using decode_is_encoded [of sha from_json bs st] by (auto simp: encode_payload_Ok)

section \<open>Properties\<close>

lemma demo_sha_sized: "sha_sized demo_sha"
  by (simp add: sha_sized_def demo_sha_def)

lemma demo_checksum [simp]: "envelope_checksum demo_sha p payload = replicate 32 49"
  by (simp add: envelope_checksum_def demo_sha_def)

lemma demo_encode: "length payload \<le> 1000 \<Longrightarrow> \<exists>bs. encode_payload demo_sha payload 1 = Inr bs"
  by (auto simp: encode_payload_Ok envelope_sizes)

text \<open>
  C14. Round trip. An encoded envelope, of any valid state and revision, fits the size limit and
  decodes to that state and revision.
\<close>
theorem envelope_roundtrip:
  assumes "sha_sized sha" "json_roundtrip to_json from_json v"
    and "encode_envelope sha to_json v rv = Inr bs"
  shows "length bs \<le> MAX_ENVELOPE_BYTES \<and> (\<exists>d. decode_envelope sha from_json bs =
    Inr \<lparr>stored_value = v, stored_token = \<lparr>revision = rv, digest = d\<rparr>\<rparr>)"
  by (rule encode_envelope_decodes [OF assms]) blast

lemma envelope_roundtrip_witness:
  "\<exists>bs st. encode_envelope demo_sha (\<lambda>_. Some (ascii ''{}'')) demo_state 1 = Inr bs \<and>
     decode_envelope demo_sha (\<lambda>_. Some demo_state) bs = Inr st \<and> stored_value st = demo_state"
proof -
  obtain bs where "encode_payload demo_sha (ascii ''{}'') 1 = Inr bs"
    using demo_encode [of "ascii ''{}''"] by (auto simp: ascii_def)
  then have bs: "encode_envelope demo_sha (\<lambda>_. Some (ascii ''{}'')) demo_state 1 = Inr bs"
    by (simp add: encode_envelope_def demo_state_valid)
  have "json_roundtrip (\<lambda>_. Some (ascii ''{}'')) (\<lambda>_. Some demo_state) demo_state"
    by (simp add: json_roundtrip_def)
  from envelope_roundtrip [OF demo_sha_sized this bs] bs show ?thesis by auto
qed

text \<open>
  C13. Decoding is exact. Bytes decode to a stored state exactly when they are the encoding, at that
  revision and with that digest, of a payload that parses to a valid state: nothing truncated,
  padded, relabelled or of another version is accepted.
\<close>
theorem envelope_decode_exact:
  assumes "sha_sized sha"
  shows "decode_envelope sha from_json bs = Inr st \<longleftrightarrow>
    (\<exists>payload. encode_payload sha payload (revision (stored_token st)) = Inr bs \<and>
      from_json payload = Some (stored_value st) \<and> state_validate sha (stored_value st) = Inr () \<and>
      digest (stored_token st) = envelope_checksum sha
        (envelope_prefix (length payload) (revision (stored_token st))) payload)"
  using decode_is_encoded [of sha from_json bs st] decode_encoded [OF assms, of _ _ bs from_json]
  by (auto simp: map_err_def)

lemma envelope_decode_exact_witness:
  "\<exists>bs. decode_envelope demo_sha (\<lambda>_. Some demo_state) bs = Inr \<lparr>stored_value = demo_state,
     stored_token = \<lparr>revision = 1, digest = replicate 32 49\<rparr>\<rparr>"
proof -
  obtain bs where "encode_payload demo_sha (ascii ''{}'') 1 = Inr bs"
    using demo_encode [of "ascii ''{}''"] by (auto simp: ascii_def)
  with envelope_decode_exact [OF demo_sha_sized, of "\<lambda>_. Some demo_state" bs]
  show ?thesis
    by (intro exI [of _ bs]) (auto simp: demo_state_valid)
qed

text \<open>
  C15. Tampering. Two different files that both decode, with the same digest, exhibit two different
  inputs on which SHA-256 collides: the checksum covers every byte outside itself.
\<close>
theorem envelope_tamper_collides:
  assumes "decode_envelope sha from_json bs = Inr st" "decode_envelope sha from_json bs' = Inr st'"
    and "digest (stored_token st) = digest (stored_token st')" "bs \<noteq> bs'"
  shows "CHECKSUM_DOMAIN @ take 24 bs @ drop 56 bs \<noteq> CHECKSUM_DOMAIN @ take 24 bs' @ drop 56 bs' \<and>
    sha (CHECKSUM_DOMAIN @ take 24 bs @ drop 56 bs) = sha (CHECKSUM_DOMAIN @ take 24 bs' @ drop 56 bs')"
proof -
  have parts: "sha (CHECKSUM_DOMAIN @ take 24 b @ drop 56 b) = digest (stored_token s) \<and>
      slice 24 56 b = digest (stored_token s) \<and> 56 \<le> length b"
    if "decode_envelope sha from_json b = Inr s" for b s
    using that by (auto simp: decode_envelope_def envelope_checksum_def envelope_sizes Let_def
        split: if_split_asm)
  have split: "b = take 24 b @ slice 24 56 b @ drop 56 b" for b :: bytes
    by (rule take_slice_drop [symmetric]) simp
  have "take 24 bs @ drop 56 bs \<noteq> take 24 bs' @ drop 56 bs'"
  proof
    assume "take 24 bs @ drop 56 bs = take 24 bs' @ drop 56 bs'"
    then have "take 24 bs = take 24 bs'" "drop 56 bs = drop 56 bs'"
      using parts [OF assms(1)] parts [OF assms(2)] by (simp_all add: append_eq_append_conv)
    with split [of bs] split [of bs'] parts [OF assms(1)] parts [OF assms(2)] assms(3,4)
    show False by metis
  qed
  with parts [OF assms(1)] parts [OF assms(2)] assms(3) show ?thesis by simp
qed

lemma envelope_tamper_collides_witness:
  "\<exists>bs bs'. CHECKSUM_DOMAIN @ take 24 bs @ drop 56 bs \<noteq> CHECKSUM_DOMAIN @ take 24 bs' @ drop 56 bs'"
proof -
  let ?x = "ascii ''{}''" and ?y = "ascii ''[]''" and ?j = "\<lambda>_ :: bytes. Some demo_state"
  obtain bs bs' where bs: "encode_payload demo_sha ?x 1 = Inr bs" "encode_payload demo_sha ?y 1 = Inr bs'"
    using demo_encode [of ?x] demo_encode [of ?y] by (auto simp: ascii_def)
  then have "bs \<noteq> bs'"
    by (auto simp: encode_payload_Ok ascii_def)
  moreover obtain st st' where "decode_envelope demo_sha ?j bs = Inr st"
      "decode_envelope demo_sha ?j bs' = Inr st'" "digest (stored_token st) = digest (stored_token st')"
    using decode_encoded [OF demo_sha_sized bs(1), of ?j] decode_encoded [OF demo_sha_sized bs(2), of ?j]
    by (simp add: demo_state_valid)
  ultimately show ?thesis using envelope_tamper_collides by blast
qed

end
