(* ===== verification/Host_Fs.thy ===== *)
theory Host_Fs
  imports Prelude "HOL-Library.AList"
begin

text \<open>
  The part of the standard library's file system that the program uses, as system calls over a
  host state: a finite tree of nodes, symbolic links resolved the way Unix does, creation modes
  under a umask, and a list of injected faults. A fault makes one call fail, tear a write after some
  bytes, or stop the process; after that no call has an effect, so the final state of a run is the
  state in which the process died. Data reaches the tree when it is written: the loss of unsynchronised
  data by the machine itself is outside the model, and so are other processes.
\<close>

section \<open>Nodes and hosts\<close>

text \<open>An absolute, normalised path: the components below the root.\<close>

type_synonym path = "string list"

datatype node = File bytes u32 | Dir u32 | Symlink path

datatype io_kind =
    NotFound
  | AlreadyExists
  | NotADirectory
  | IsADirectory
  | FilesystemLoop
  | OtherError

datatype fault = FailCall | TornWrite nat | StopProcess

record host =
  nodes :: "(path \<times> node) list"
  umask :: u32
  process_id :: nat
  next_temp_file :: u64
  entropy :: "bytes list"
  faults :: "fault option list"
  stopped :: bool

type_synonym 'a io = "(host, io_kind, 'a) op"

definition node_at :: "host \<Rightarrow> path \<Rightarrow> node option" where
  "node_at h p = map_of (nodes h) p"

definition put_node :: "path \<Rightarrow> node \<Rightarrow> host \<Rightarrow> host" where
  "put_node p n h = h\<lparr>nodes := AList.update p n (nodes h)\<rparr>"

definition drop_node :: "path \<Rightarrow> host \<Rightarrow> host" where
  "drop_node p h = h\<lparr>nodes := AList.delete p (nodes h)\<rparr>"

lemma node_at_put [simp]: "node_at (put_node p n h) q = (if q = p then Some n else node_at h q)"
  by (simp add: node_at_def put_node_def update_conv')

lemma node_at_drop [simp]: "node_at (drop_node p h) q = (if q = p then None else node_at h q)"
  by (simp add: node_at_def drop_node_def delete_conv')

fun is_file :: "node \<Rightarrow> bool" where
  "is_file (File _ _) = True" | "is_file _ = False"

fun is_dir :: "node \<Rightarrow> bool" where
  "is_dir (Dir _) = True" | "is_dir _ = False"

fun is_symlink :: "node \<Rightarrow> bool" where
  "is_symlink (Symlink _) = True" | "is_symlink _ = False"

fun node_len :: "node \<Rightarrow> nat" where
  "node_len (File bs _) = length bs" | "node_len _ = 0"

fun node_mode :: "node \<Rightarrow> u32" where
  "node_mode (File _ m) = m" | "node_mode (Dir m) = m" | "node_mode (Symlink _) = 511"

fun with_mode :: "u32 \<Rightarrow> node \<Rightarrow> node" where
  "with_mode m (File bs _) = File bs m" | "with_mode m (Dir _) = Dir m" | "with_mode m (Symlink t) = Symlink t"

section \<open>Path resolution\<close>

text \<open>The components still to walk, from the directory reached; 40 links at most.\<close>

definition MAX_LINKS :: nat where "MAX_LINKS = 40"

function resolve :: "host \<Rightarrow> nat \<Rightarrow> path \<Rightarrow> path \<Rightarrow> io_kind + path" where
  "resolve h n cur [] = Ok cur"
| "resolve h n cur (c # cs) =
     (case node_at h (cur @ [c]) of
        Some (Symlink target) \<Rightarrow>
          if n = 0 then Err FilesystemLoop else resolve h (n - 1) [] (target @ cs)
      | Some (Dir _) \<Rightarrow> resolve h n (cur @ [c]) cs
      | Some (File _ _) \<Rightarrow> if cs = [] then Ok (cur @ [c]) else Err NotADirectory
      | None \<Rightarrow> if cs = [] then Ok (cur @ [c]) else Err NotFound)"
  by pat_completeness auto

termination
  by (relation "measures [\<lambda>(h, n, cur, cs). n, \<lambda>(h, n, cur, cs). length cs]") auto

text \<open>The path of the last component itself, inside its resolved directory.\<close>

definition resolve_entry :: "host \<Rightarrow> path \<Rightarrow> io_kind + path" where
  "resolve_entry h p =
     (if p = [] then Ok []
      else
        bindr (resolve h MAX_LINKS [] (butlast p)) (\<lambda>d.
        case node_at h d of
          Some (Dir _) \<Rightarrow> Ok (d @ [last p])
        | Some _ \<Rightarrow> Err NotADirectory
        | None \<Rightarrow> Err NotFound))"

definition resolve_path :: "host \<Rightarrow> path \<Rightarrow> io_kind + path" where
  "resolve_path h p = resolve h MAX_LINKS [] p"

section \<open>System calls\<close>

definition syscall :: "'a io \<Rightarrow> 'a io" where
  "syscall m h =
     (if stopped h then (Err OtherError, h)
      else (case faults h of
          [] \<Rightarrow> m h
        | None # fs \<Rightarrow> m (h\<lparr>faults := fs\<rparr>)
        | Some StopProcess # fs \<Rightarrow> (Err OtherError, h\<lparr>faults := fs, stopped := True\<rparr>)
        | Some _ # fs \<Rightarrow> (Err OtherError, h\<lparr>faults := fs\<rparr>)))"

text \<open>\<open>symlink_metadata\<close> and \<open>metadata\<close>; a node stands for its metadata.\<close>

definition sys_lstat :: "path \<Rightarrow> node io" where
  "sys_lstat p = syscall (\<lambda>h.
     (bindr (resolve_entry h p) (\<lambda>q. ok_or NotFound (node_at h q)), h))"

definition sys_stat :: "path \<Rightarrow> node io" where
  "sys_stat p = syscall (\<lambda>h.
     (bindr (resolve_path h p) (\<lambda>q. ok_or NotFound (node_at h q)), h))"

text \<open>\<open>Path::is_dir\<close>: any error counts as no.\<close>

definition path_is_dir :: "path \<Rightarrow> bool io" where
  "path_is_dir p h = (case sys_stat p h of (r, t) \<Rightarrow>
     (Ok (case r of Inr n \<Rightarrow> is_dir n | Inl _ \<Rightarrow> False), t))"

text \<open>Opening for reading gives a handle, the resolved path; directories open too.\<close>

definition sys_open :: "path \<Rightarrow> path io" where
  "sys_open p = syscall (\<lambda>h.
     (bindr (resolve_path h p) (\<lambda>q. bindr (ok_or NotFound (node_at h q)) (\<lambda>_. Ok q)), h))"

definition sys_open_write :: "path \<Rightarrow> path io" where
  "sys_open_write p = syscall (\<lambda>h.
     (bindr (resolve_path h p) (\<lambda>q. bindr (ok_or NotFound (node_at h q)) (\<lambda>n.
        if is_dir n then Err IsADirectory else Ok q)), h))"

definition sys_create_new :: "path \<Rightarrow> u32 \<Rightarrow> path io" where
  "sys_create_new p mode = syscall (\<lambda>h.
     case resolve_entry h p of
       Inl e \<Rightarrow> (Err e, h)
     | Inr q \<Rightarrow>
         if node_at h q \<noteq> None then (Err AlreadyExists, h)
         else (Ok q, put_node q (File [] (mode AND NOT (umask h))) h))"

definition sys_fstat :: "path \<Rightarrow> node io" where
  "sys_fstat q = syscall (\<lambda>h. (ok_or OtherError (node_at h q), h))"

text \<open>\<open>read_to_end\<close> through \<open>take(limit)\<close>.\<close>

definition sys_read :: "path \<Rightarrow> nat \<Rightarrow> bytes io" where
  "sys_read q limit = syscall (\<lambda>h.
     (case node_at h q of
        Some (File bs _) \<Rightarrow> Ok (take limit bs)
      | Some (Dir _) \<Rightarrow> Err IsADirectory
      | _ \<Rightarrow> Err OtherError, h))"

definition append_bytes :: "path \<Rightarrow> bytes \<Rightarrow> host \<Rightarrow> host" where
  "append_bytes q bs h =
     (case node_at h q of Some (File old m) \<Rightarrow> put_node q (File (old @ bs) m) h | _ \<Rightarrow> h)"

text \<open>\<open>write_all\<close> on a handle positioned at the end of its file.\<close>

definition sys_write :: "path \<Rightarrow> bytes \<Rightarrow> unit io" where
  "sys_write q bs h =
     (case faults h of
        Some (TornWrite n) # fs \<Rightarrow>
          if stopped h then (Err OtherError, h)
          else (Err OtherError, append_bytes q (take n bs) (h\<lparr>faults := fs\<rparr>))
      | _ \<Rightarrow> syscall (\<lambda>h. (Ok (), append_bytes q bs h)) h)"

definition sys_fsync :: "path \<Rightarrow> unit io" where
  "sys_fsync q = syscall (\<lambda>h. (Ok (), h))"

definition sys_chmod :: "path \<Rightarrow> u32 \<Rightarrow> unit io" where
  "sys_chmod p mode = syscall (\<lambda>h.
     case bindr (resolve_path h p) (\<lambda>q. bindr (ok_or NotFound (node_at h q)) (\<lambda>n. Ok (q, n))) of
       Inl e \<Rightarrow> (Err e, h)
     | Inr (q, n) \<Rightarrow> (Ok (), put_node q (with_mode mode n) h))"

definition sys_mkdir :: "path \<Rightarrow> unit io" where
  "sys_mkdir p = syscall (\<lambda>h.
     case resolve_entry h p of
       Inl e \<Rightarrow> (Err e, h)
     | Inr q \<Rightarrow>
         if node_at h q \<noteq> None then (Err AlreadyExists, h)
         else (Ok (), put_node q (Dir (511 AND NOT (umask h))) h))"

text \<open>Renaming of a file or link; the program renames no directory.\<close>

definition sys_rename :: "path \<Rightarrow> path \<Rightarrow> unit io" where
  "sys_rename a b = syscall (\<lambda>h.
     case bindr (resolve_entry h a) (\<lambda>qa. bindr (ok_or NotFound (node_at h qa)) (\<lambda>n.
          bindr (resolve_entry h b) (\<lambda>qb.
          if is_dir n then Err OtherError
          else if (case node_at h qb of Some m \<Rightarrow> is_dir m | None \<Rightarrow> False) then Err IsADirectory
          else Ok (qa, n, qb)))) of
       Inl e \<Rightarrow> (Err e, h)
     | Inr (qa, n, qb) \<Rightarrow> (Ok (), put_node qb n (drop_node qa h)))"

definition sys_remove_file :: "path \<Rightarrow> unit io" where
  "sys_remove_file p = syscall (\<lambda>h.
     case bindr (resolve_entry h p) (\<lambda>q. bindr (ok_or NotFound (node_at h q)) (\<lambda>n.
          if is_dir n then Err IsADirectory else Ok q)) of
       Inl e \<Rightarrow> (Err e, h)
     | Inr q \<Rightarrow> (Ok (), drop_node q h))"

definition sys_read_dir :: "path \<Rightarrow> string list io" where
  "sys_read_dir p = syscall (\<lambda>h.
     (bindr (resolve_path h p) (\<lambda>q. bindr (ok_or NotFound (node_at h q)) (\<lambda>n.
        if is_dir n
        then Ok (map last (filter (\<lambda>k. k \<noteq> [] \<and> butlast k = q \<and> node_at h k \<noteq> None)
               (remdups (map fst (nodes h)))))
        else Err NotADirectory)), h))"

text \<open>
  A buffered reader over a file: the bytes it will still deliver, and the error, if any, that ends them
  instead of the end of the file. A fault cuts the stream at some byte.
\<close>

record reader =
  unread :: bytes
  broken :: "io_kind option"

definition file_bytes :: "host \<Rightarrow> path \<Rightarrow> io_kind + bytes" where
  "file_bytes h q =
     (case node_at h q of
        Some (File bs _) \<Rightarrow> Ok bs
      | Some (Dir _) \<Rightarrow> Err IsADirectory
      | _ \<Rightarrow> Err OtherError)"

definition sys_reader :: "path \<Rightarrow> (host, 'e, reader) op" where
  "sys_reader q h =
     (case (faults h, syscall (\<lambda>h. (file_bytes h q, h)) h) of
        (Some (TornWrite n) # fs, _) \<Rightarrow>
          (Ok \<lparr>unread = (case (stopped h, file_bytes h q) of (False, Inr bs) \<Rightarrow> take n bs | _ \<Rightarrow> []),
               broken = Some OtherError\<rparr>,
           if stopped h then h else h\<lparr>faults := fs\<rparr>)
      | (_, Inr bs, h') \<Rightarrow> (Ok \<lparr>unread = bs, broken = None\<rparr>, h')
      | (_, Inl e, h') \<Rightarrow> (Ok \<lparr>unread = [], broken = Some e\<rparr>, h'))"

text \<open>\<open>DirBuilder::recursive\<close>, on the reversed path.\<close>

definition dir_or :: "path \<Rightarrow> io_kind \<Rightarrow> unit io" where
  "dir_or p e = bnd (path_is_dir p) (\<lambda>b. if b then ret () else throw e)"

primrec create_dirs :: "string list \<Rightarrow> unit io" where
  "create_dirs [] = ret ()"
| "create_dirs (c # cs) =
     handle (sys_mkdir (rev (c # cs))) (\<lambda>e.
       if e = NotFound then
         bnd (create_dirs cs) (\<lambda>_.
           handle (sys_mkdir (rev (c # cs))) (\<lambda>e'.
             if e' = AlreadyExists then dir_or (rev (c # cs)) e' else throw e'))
       else if e = AlreadyExists then dir_or (rev (c # cs)) e
       else throw e)"

definition create_dir_all :: "path \<Rightarrow> unit io" where
  "create_dir_all p = create_dirs (rev p)"

text \<open>The next block of a cryptographic random source; an exhausted or failing source is an error.\<close>

definition sys_random :: "nat \<Rightarrow> bytes io" where
  "sys_random n = syscall (\<lambda>h.
     case entropy h of
       [] \<Rightarrow> (Err OtherError, h)
     | r # rs \<Rightarrow> if length r = n then (Ok r, h\<lparr>entropy := rs\<rparr>) else (Err OtherError, h))"

section \<open>The tree and its leaves\<close>

text \<open>
  The root is a directory and every node hangs under one. The files and links of a host, without its directories, are
  what the calls change in a controlled way: \<open>leaf\<close> is that map.
\<close>

definition tree_ok :: "host \<Rightarrow> bool" where
  "tree_ok h \<longleftrightarrow> (\<forall>p \<in> set ([] # map fst (nodes h)).
     (case node_at h (butlast p) of Some n \<Rightarrow> is_dir n | None \<Rightarrow> False))"

definition leaf :: "host \<Rightarrow> path \<Rightarrow> node option" where
  "leaf h p = (case node_at h p of Some n \<Rightarrow> if is_dir n then None else Some n | None \<Rightarrow> None)"

definition dir_at :: "host \<Rightarrow> path \<Rightarrow> bool" where
  "dir_at h p \<longleftrightarrow> (case node_at h p of Some n \<Rightarrow> is_dir n | None \<Rightarrow> False)"

text \<open>No component of the path, the last included, is a symbolic link.\<close>

definition plain_in :: "(path \<Rightarrow> node option) \<Rightarrow> path \<Rightarrow> bool" where
  "plain_in L p \<longleftrightarrow> (\<forall>k \<le> length p. case L (take k p) of Some n \<Rightarrow> \<not> is_symlink n | None \<Rightarrow> True)"

abbreviation plain :: "host \<Rightarrow> path \<Rightarrow> bool" where
  "plain h \<equiv> plain_in (leaf h)"

lemma tree_ok_iff:
  "tree_ok h \<longleftrightarrow> dir_at h [] \<and> (\<forall>p n. node_at h p = Some n \<longrightarrow> dir_at h (butlast p))"
proof -
  have "p \<in> set (map fst (nodes h)) \<longleftrightarrow> (\<exists>n. node_at h p = Some n)" for p
    by (simp add: node_at_def flip: not_None_eq) (metis map_of_eq_None_iff)
  then have "(\<forall>p \<in> set ([] # map fst (nodes h)). Q p) \<longleftrightarrow> Q [] \<and> (\<forall>p n. node_at h p = Some n \<longrightarrow> Q p)"
    for Q unfolding set_simps ball_simps by blast
  from this [of "\<lambda>p. dir_at h (butlast p)"] show ?thesis
    unfolding tree_ok_def dir_at_def by simp
qed

lemma tree_ok_root: "tree_ok h \<Longrightarrow> dir_at h []"
  by (simp add: tree_ok_iff)

lemma tree_okD: "tree_ok h \<Longrightarrow> node_at h p = Some n \<Longrightarrow> p \<noteq> [] \<Longrightarrow> dir_at h (butlast p)"
  by (simp add: tree_ok_iff)

lemma leaf_Some: "leaf h p = Some n \<longleftrightarrow> node_at h p = Some n \<and> \<not> is_dir n"
  by (auto simp: leaf_def split: option.splits)

lemma dir_not_leaf: "dir_at h p \<Longrightarrow> leaf h p = None"
  by (auto simp: dir_at_def leaf_def split: option.splits)

text \<open>Changing one node.\<close>

lemma dir_at_put: "dir_at (put_node q n h) p \<longleftrightarrow> (if p = q then is_dir n else dir_at h p)"
  by (auto simp: dir_at_def)

lemma leaf_put:
  "leaf (put_node q n h) = (if is_dir n then (leaf h)(q := None) else (leaf h)(q \<mapsto> n))"
  by (rule ext) (auto simp: leaf_def)

lemma leaf_drop: "leaf (drop_node q h) = (leaf h)(q := None)"
  by (rule ext) (auto simp: leaf_def)

lemma dir_at_drop: "dir_at (drop_node q h) p \<longleftrightarrow> p \<noteq> q \<and> dir_at h p"
  by (auto simp: dir_at_def)

lemma tree_ok_put:
  assumes "tree_ok h" "q = [] \<or> dir_at h (butlast q)" "dir_at h q \<Longrightarrow> is_dir n"
  shows "tree_ok (put_node q n h)"
  using assms by (auto simp: tree_ok_iff dir_at_put)

lemma tree_ok_drop:
  assumes "tree_ok h" "\<not> dir_at h q"
  shows "tree_ok (drop_node q h)"
  using assms by (auto simp: tree_ok_iff dir_at_drop)

text \<open>Updates of the record fields outside the tree.\<close>

lemma same_nodes:
  assumes "nodes t = nodes h"
  shows "node_at t = node_at h" "leaf t = leaf h" "dir_at t = dir_at h" "tree_ok t = tree_ok h"
proof -
  show "node_at t = node_at h" by (rule ext) (simp add: node_at_def assms)
  then show "leaf t = leaf h" "dir_at t = dir_at h" by (auto simp: leaf_def dir_at_def fun_eq_iff)
  then show "tree_ok t = tree_ok h"
    using \<open>node_at t = node_at h\<close> by (simp add: tree_ok_iff)
qed

lemma plain_take: "plain_in L p \<Longrightarrow> plain_in L (take k p)"
  by (auto simp: plain_in_def min_def)

lemma plain_butlast: "plain_in L p \<Longrightarrow> plain_in L (butlast p)"
  by (simp add: butlast_conv_take plain_take)

lemma plain_update: "plain_in L p \<Longrightarrow> \<not> is_symlink n \<Longrightarrow> plain_in (L(q \<mapsto> n)) p"
  by (simp add: plain_in_def)

lemma plain_remove: "plain_in L p \<Longrightarrow> plain_in (L(q := None)) p"
  by (simp add: plain_in_def)

lemma plain_no_link: "plain h p \<Longrightarrow> k \<le> length p \<Longrightarrow> node_at h (take k p) \<noteq> Some (Symlink t)"
  by (auto simp: plain_in_def leaf_def split: option.splits if_splits)

lemma resolve_plain:
  assumes "\<And>k t. k \<le> length cs \<Longrightarrow> node_at h (cur @ take k cs) \<noteq> Some (Symlink t)"
    and "resolve h n cur cs = Inr q"
  shows "q = cur @ cs"
  using assms
proof (induction cs arbitrary: cur)
  case (Cons c cs)
  have "node_at h ((cur @ [c]) @ take k cs) \<noteq> Some (Symlink t)" if "k \<le> length cs" for k t
    using Cons.prems(1) [of "Suc k"] that by simp
  with Cons.IH [of "cur @ [c]"] Cons.prems(2) Cons.prems(1) [of 1] show ?case
    by (auto split: option.split_asm node.split_asm if_split_asm)
qed simp

lemma resolve_path_plain: "plain h p \<Longrightarrow> resolve_path h p = Inr q \<Longrightarrow> q = p"
  using resolve_plain [of p h "[]" MAX_LINKS q] plain_no_link [of h p]
  by (auto simp: resolve_path_def)

lemma resolve_entry_Ok:
  "resolve_entry h p = Inr q \<longleftrightarrow>
     (if p = [] then q = []
      else \<exists>d. resolve_path h (butlast p) = Inr d \<and> dir_at h d \<and> q = d @ [last p])"
proof (cases "resolve h MAX_LINKS [] (butlast p)")
  case (Inr d)
  then show ?thesis
    by (cases "node_at h d"; cases "the (node_at h d)")
      (auto simp: resolve_entry_def resolve_path_def dir_at_def)
qed (simp add: resolve_entry_def resolve_path_def, blast)

lemma resolve_entry_dir: "resolve_entry h p = Inr q \<Longrightarrow> q = [] \<or> dir_at h (butlast q)"
  by (auto simp: resolve_entry_Ok split: if_split_asm)

lemma resolve_entry_plain: "plain h (butlast p) \<Longrightarrow> resolve_entry h p = Inr q \<Longrightarrow> q = p"
  using resolve_path_plain [of h "butlast p"]
  by (auto simp: resolve_entry_Ok split: if_split_asm)

text \<open>Where a plain path leads: to itself, when its directory exists.\<close>

lemma tree_ok_prefix:
  assumes "tree_ok h" "dir_at h p"
  shows "dir_at h (take k p)"
proof (induction "length p - k" arbitrary: k)
  case 0
  then show ?case using assms(2) by simp
next
  case (Suc n)
  then have "dir_at h (take (Suc k) p)" by auto
  then obtain m where "node_at h (take (Suc k) p) = Some m" by (auto simp: dir_at_def split: option.splits)
  moreover have "take (Suc k) p \<noteq> []" "butlast (take (Suc k) p) = take k p"
    using Suc.hyps(2) by (auto simp: butlast_take)
  ultimately show ?case using tree_okD [OF assms(1)] by metis
qed

lemma resolve_dirs:
  assumes "\<And>k. 0 < k \<Longrightarrow> k < length cs \<Longrightarrow> dir_at h (cur @ take k cs)"
    and "cs \<noteq> [] \<Longrightarrow> \<forall>t. node_at h (cur @ cs) \<noteq> Some (Symlink t)"
  shows "resolve h n cur cs = Inr (cur @ cs)"
  using assms
proof (induction cs arbitrary: cur)
  case (Cons c cs)
  show ?case
  proof (cases cs)
    case Nil
    with Cons.prems(2) show ?thesis by (auto split: option.split node.split)
  next
    case (Cons d ds)
    then have "dir_at h (cur @ [c])" using Cons.prems(1) [of 1] by simp
    moreover have "resolve h n (cur @ [c]) cs = Inr ((cur @ [c]) @ cs)"
    proof (rule Cons.IH)
      fix k assume "0 < k" "k < length cs"
      then show "dir_at h ((cur @ [c]) @ take k cs)" using Cons.prems(1) [of "Suc k"] by simp
    qed (use Cons.prems(2) in simp)
    ultimately show ?thesis by (auto simp: dir_at_def split: option.splits node.splits)
  qed
qed simp

lemma resolve_path_complete:
  assumes "tree_ok h" "plain h p" "p = [] \<or> dir_at h (butlast p)"
  shows "resolve_path h p = Inr p"
  unfolding resolve_path_def
proof (rule resolve_dirs [of p h "[]", simplified])
  fix k assume "0 < k" "k < length p"
  then have "take k p = take k (butlast p)" by (simp add: take_butlast)
  with tree_ok_prefix [OF assms(1), of "butlast p" k] assms(3) \<open>k < length p\<close>
  show "dir_at h (take k p)" by auto
next
  show "\<forall>t. node_at h p \<noteq> Some (Symlink t)" using plain_no_link [OF assms(2), of "length p"] by simp
qed

lemma resolve_entry_complete:
  assumes "tree_ok h" "plain h (butlast p)" "p = [] \<or> dir_at h (butlast p)"
  shows "resolve_entry h p = Inr p"
proof (cases "p = []")
  case False
  with assms have d: "dir_at h (butlast p)" by simp
  then obtain m where m: "node_at h (butlast p) = Some m" by (auto simp: dir_at_def split: option.splits)
  have "butlast p = [] \<or> dir_at h (butlast (butlast p))"
    using tree_okD [OF assms(1) m] by blast
  then have "resolve_path h (butlast p) = Inr (butlast p)"
    by (rule resolve_path_complete [OF assms(1,2)])
  with d False show ?thesis by (simp add: resolve_entry_Ok)
qed (simp add: resolve_entry_def)

section \<open>Effects of the calls\<close>

lemma fault_fields [simp]:
  "node_at (h\<lparr>faults := fs\<rparr>) = node_at h" "leaf (h\<lparr>faults := fs\<rparr>) = leaf h"
  "dir_at (h\<lparr>faults := fs\<rparr>) = dir_at h" "tree_ok (h\<lparr>faults := fs\<rparr>) = tree_ok h"
  "node_at (h\<lparr>stopped := b\<rparr>) = node_at h" "leaf (h\<lparr>stopped := b\<rparr>) = leaf h"
  "dir_at (h\<lparr>stopped := b\<rparr>) = dir_at h" "tree_ok (h\<lparr>stopped := b\<rparr>) = tree_ok h"
  "node_at (h\<lparr>next_temp_file := i\<rparr>) = node_at h" "leaf (h\<lparr>next_temp_file := i\<rparr>) = leaf h"
  "dir_at (h\<lparr>next_temp_file := i\<rparr>) = dir_at h" "tree_ok (h\<lparr>next_temp_file := i\<rparr>) = tree_ok h"
  "node_at (h\<lparr>entropy := rs\<rparr>) = node_at h" "leaf (h\<lparr>entropy := rs\<rparr>) = leaf h"
  "dir_at (h\<lparr>entropy := rs\<rparr>) = dir_at h" "tree_ok (h\<lparr>entropy := rs\<rparr>) = tree_ok h"
  by (rule same_nodes, simp)+

text \<open>
  The working assertion: a well-formed tree with the leaves \<open>L\<close> and at least the directories \<open>D\<close>.
\<close>

definition holds :: "(path \<Rightarrow> node option) \<Rightarrow> path set \<Rightarrow> host \<Rightarrow> bool" where
  "holds L D h \<longleftrightarrow> tree_ok h \<and> leaf h = L \<and> (\<forall>d \<in> D. dir_at h d)"

lemma holds_fields [simp]:
  "holds L D (h\<lparr>faults := fs\<rparr>) = holds L D h" "holds L D (h\<lparr>stopped := b\<rparr>) = holds L D h"
  "holds L D (h\<lparr>next_temp_file := i\<rparr>) = holds L D h" "holds L D (h\<lparr>entropy := rs\<rparr>) = holds L D h"
  by (simp_all add: holds_def)

lemma holds_mono: "holds L D h \<Longrightarrow> D' \<subseteq> D \<Longrightarrow> holds L D' h"
  by (auto simp: holds_def)

lemma hoare_syscall:
  assumes "hoare P m Q E" "\<And>h fs. P h \<Longrightarrow> P (h\<lparr>faults := fs\<rparr>)"
    and "\<And>h. P h \<Longrightarrow> P (h\<lparr>stopped := True\<rparr>)" "\<And>h. P h \<Longrightarrow> E OtherError h"
  shows "hoare P (syscall m) Q E"
proof -
  have "case syscall m h of (Inr a, t) \<Rightarrow> Q a t | (Inl e, t) \<Rightarrow> E e t" if h: "P h" for h
  proof (cases "stopped h \<or> faults h = [] \<or> hd (faults h) = None")
    case True
    then consider "stopped h" | "\<not> stopped h" "faults h = []"
      | fs where "\<not> stopped h" "faults h = None # fs"
      by (cases "faults h") auto
    then show ?thesis
      using assms(1) assms(4) [OF h] h assms(2) [OF h] by cases (auto simp: syscall_def hoare_def)
  next
    case False
    then obtain flt fs where "faults h = Some flt # fs" "\<not> stopped h"
      by (cases "faults h"; cases "hd (faults h)") auto
    then show ?thesis
      using assms(4) assms(2) [OF h, of fs] assms(3) [OF assms(2) [OF h, of fs]]
      by (cases flt) (auto simp: syscall_def)
  qed
  then show ?thesis by (simp add: hoare_def)
qed

lemma hoare_pure:
  "(\<And>h. P h \<Longrightarrow> case f h of Inr a \<Rightarrow> Q a h | Inl e \<Rightarrow> E e h) \<Longrightarrow> hoare P (\<lambda>h. (f h, h)) Q E"
  by (auto simp: hoare_def split: sum.split)

text \<open>A call that reads leaves everything; what it returns is read off the tree.\<close>

lemma hoare_sys_lstat [hoare_rules]:
  "hoare (holds L D) (sys_lstat p)
     (\<lambda>n h. holds L D h \<and> (\<exists>q. resolve_entry h p = Inr q \<and> node_at h q = Some n))
     (\<lambda>e h. holds L D h \<and>
        (e = NotFound \<longrightarrow> (\<forall>q. resolve_entry h p = Inr q \<longrightarrow> node_at h q = None)) \<and>
        (e = NotFound \<longrightarrow> (\<forall>e'. resolve_entry h p = Inl e' \<longrightarrow> e' = NotFound)))"
  unfolding sys_lstat_def
  by (rule hoare_syscall) (auto simp: hoare_def bindr_def ok_or_def split: sum.split option.split)

lemma hoare_sys_stat:
  "hoare (holds L D) (sys_stat p)
     (\<lambda>n h. holds L D h \<and> (plain_in L p \<longrightarrow> node_at h p = Some n)) (\<lambda>_. holds L D)"
  unfolding sys_stat_def
  by (rule hoare_syscall) (auto simp: hoare_def holds_def dest: resolve_path_plain split: sum.split)

text \<open>A plain path is a directory afterwards: it exists, or no leaf is in its place.\<close>

abbreviation made :: "(path \<Rightarrow> node option) \<Rightarrow> path set \<Rightarrow> path \<Rightarrow> host \<Rightarrow> bool" where
  "made L D p h \<equiv> holds L D h \<and> (plain_in L p \<longrightarrow> dir_at h p)"

lemma hoare_path_is_dir:
  "hoare (holds L D) (path_is_dir p)
     (\<lambda>b h. holds L D h \<and> (plain_in L p \<longrightarrow> b \<longrightarrow> dir_at h p)) (\<lambda>_. holds L D)"
  using hoare_sys_stat [of L D p]
  by (auto simp: hoare_def path_is_dir_def dir_at_def split: prod.splits sum.splits) blast+

lemma hoare_sys_open:
  "hoare (holds L D) (sys_open p) (\<lambda>q h. holds L D h \<and> resolve_path h p = Inr q) (\<lambda>_. holds L D)"
  unfolding sys_open_def by (rule hoare_syscall) (auto simp: hoare_def split: sum.split)

lemma hoare_sys_open_write:
  "hoare (holds L D) (sys_open_write p) (\<lambda>q h. holds L D h) (\<lambda>_. holds L D)"
  unfolding sys_open_write_def by (rule hoare_syscall) (auto simp: hoare_def split: sum.split)

lemma hoare_sys_fstat:
  "hoare (holds L D) (sys_fstat q) (\<lambda>n h. holds L D h \<and> node_at h q = Some n) (\<lambda>_. holds L D)"
  unfolding sys_fstat_def by (rule hoare_syscall) (auto simp: hoare_def split: sum.split)

lemma hoare_sys_read:
  "hoare (holds L D) (sys_read q n)
     (\<lambda>bs h. holds L D h \<and> (\<exists>c m. L q = Some (File c m) \<and> bs = take n c)) (\<lambda>_. holds L D)"
  unfolding sys_read_def
  by (rule hoare_syscall)
    (auto simp: hoare_def holds_def leaf_Some split: sum.split option.split node.split)

lemma hoare_sys_reader:
  "hoare (holds L D) (sys_reader q)
     (\<lambda>rd h. holds L D h \<and> (\<exists>c m rest. (L q = Some (File c m) \<and> c = unread rd @ rest \<or> unread rd = []) \<and>
        (broken rd = None \<longrightarrow> L q = Some (File (unread rd) m)))) (\<lambda>_. holds L D)"
proof -
  have content: "\<exists>m. L q = Some (File bs m)" if "holds L D h" "file_bytes h q = Inr bs" for h bs
    using that by (auto simp: file_bytes_def holds_def leaf_Some split: option.split_asm node.split_asm)
  have call: "hoare (holds L D) (syscall (\<lambda>h. (file_bytes h q, h)))
      (\<lambda>bs h. holds L D h \<and> (\<exists>m. L q = Some (File bs m))) (\<lambda>_. holds L D)"
    by (rule hoare_syscall) (auto simp: hoare_def dest: content split: sum.split)
  show ?thesis
  proof (rule hoareI)
    fix h rd t assume h: "holds L D h" and run: "sys_reader q h = (Inr rd, t)"
    show "holds L D t \<and> (\<exists>c m rest. (L q = Some (File c m) \<and> c = unread rd @ rest \<or> unread rd = []) \<and>
        (broken rd = None \<longrightarrow> L q = Some (File (unread rd) m)))"
    proof (cases "\<exists>n fs. faults h = Some (TornWrite n) # fs")
      case True
      with run h content [OF h] show ?thesis
        by (auto simp: sys_reader_def split: sum.split_asm bool.split_asm if_split_asm)
          (metis append_take_drop_id)+
    next
      case False
      obtain r u where u: "syscall (\<lambda>h. (file_bytes h q, h)) h = (r, u)" by force
      from False run u have "(rd, t) = (case r of Inr bs \<Rightarrow> (\<lparr>unread = bs, broken = None\<rparr>, u)
          | Inl e \<Rightarrow> (\<lparr>unread = [], broken = Some e\<rparr>, u))"
        by (auto simp: sys_reader_def split: sum.split_asm list.split_asm option.split_asm fault.split_asm)
      with u hoare_Inr [OF call h] hoare_Inl [OF call h] show ?thesis
        by (cases r) fastforce+
    qed
  next
    fix h e t assume "sys_reader q h = (Inl e, t)"
    then show "holds L D t"
      by (auto simp: sys_reader_def split: sum.split_asm list.split_asm option.split_asm fault.split_asm prod.split_asm)
  qed
qed

lemma hoare_sys_fsync: "hoare (holds L D) (sys_fsync q) (\<lambda>_. holds L D) (\<lambda>_. holds L D)"
  unfolding sys_fsync_def by (rule hoare_syscall) (auto simp: hoare_def)

lemma hoare_sys_read_dir:
  "hoare (holds L D) (sys_read_dir p) (\<lambda>_. holds L D) (\<lambda>_. holds L D)"
  unfolding sys_read_dir_def by (rule hoare_syscall) (auto simp: hoare_def split: sum.split)

lemma hoare_sys_random:
  "hoare (holds L D) (sys_random n) (\<lambda>r h. holds L D h \<and> length r = n) (\<lambda>_. holds L D)"
  unfolding sys_random_def by (rule hoare_syscall) (auto simp: hoare_def split: list.split)

text \<open>Directories appear under directories; no leaf moves.\<close>

lemma holds_put_dir:
  assumes "holds L D h" "q = [] \<or> dir_at h (butlast q)" "leaf h q = None"
  shows "holds L D (put_node q (Dir m) h)"
  using assms by (auto simp: holds_def leaf_put dir_at_put intro: tree_ok_put)

lemma hoare_sys_mkdir:
  "hoare (holds L D) (sys_mkdir p) (\<lambda>_. made L D p) (\<lambda>_. holds L D)"
  unfolding sys_mkdir_def
proof (rule hoare_syscall)
  have "made L D p (put_node q (Dir m) h)"
    if "resolve_entry h p = Inr q" "node_at h q = None" "holds L D h" for h q m
  proof -
    have "holds L D (put_node q (Dir m) h)"
      by (rule holds_put_dir [OF that(3) resolve_entry_dir [OF that(1)]])
        (simp add: leaf_def that(2))
    moreover have "q = p" if "plain_in L p"
      using that \<open>resolve_entry h p = Inr q\<close> \<open>holds L D h\<close>
      by (auto simp: holds_def intro: resolve_entry_plain plain_butlast)
    ultimately show ?thesis by (auto simp: dir_at_put)
  qed
  then show "hoare (holds L D) (\<lambda>h. case resolve_entry h p of
       Inl e \<Rightarrow> (Err e, h)
     | Inr q \<Rightarrow>
         if node_at h q \<noteq> None then (Err AlreadyExists, h)
         else (Ok (), put_node q (Dir (511 AND NOT (umask h))) h))
     (\<lambda>_. made L D p) (\<lambda>_. holds L D)"
    by (auto simp: hoare_def split: sum.split)
qed simp_all

lemma hoare_dir_or: "hoare (holds L D) (dir_or p e) (\<lambda>_. made L D p) (\<lambda>_. holds L D)"
  unfolding dir_or_def
  by (rule hoare_bnd [OF hoare_path_is_dir]) (auto simp: hoare_def)

lemma hoare_create_dirs:
  "hoare (holds L D) (create_dirs cs) (\<lambda>_. made L D (rev cs)) (\<lambda>_. holds L D)"
proof (induction cs)
  case (Cons c cs)
  note sub = hoare_weaken [OF Cons, where P' = "holds L D" and Q' = "\<lambda>_. holds L D" and E' = "\<lambda>_. holds L D"]
  show ?case
    unfolding create_dirs.simps
    by (rule hoare_if hoare_handle hoare_bnd hoare_throw hoare_sys_mkdir hoare_dir_or sub
        | assumption | simp)+
next
  case Nil
  show ?case
    unfolding create_dirs.simps by (rule hoare_ret) (simp add: holds_def tree_ok_root)
qed

lemma hoare_create_dir_all:
  "hoare (holds L D) (create_dir_all p) (\<lambda>_. made L D p) (\<lambda>_. holds L D)"
  using hoare_create_dirs [of L D "rev p"] by (simp add: create_dir_all_def)

text \<open>The calls that change a file.\<close>

lemma holds_put_file:
  assumes "holds L D h" "q = [] \<or> dir_at h (butlast q)" "\<not> dir_at h q" "\<not> is_dir n"
  shows "holds (L(q \<mapsto> n)) D (put_node q n h)"
  using assms by (auto simp: holds_def leaf_put dir_at_put intro: tree_ok_put)

lemma hoare_sys_create_new:
  assumes "plain_in L (butlast p)"
  shows "hoare (holds L D) (sys_create_new p m)
    (\<lambda>q h. q = p \<and> L p = None \<and> (\<exists>m'. holds (L(p \<mapsto> File [] m')) D h)) (\<lambda>_. holds L D)"
  unfolding sys_create_new_def
proof (rule hoare_syscall)
  let ?m = "\<lambda>h. case resolve_entry h p of
       Inl e \<Rightarrow> (Err e, h)
     | Inr q \<Rightarrow>
         if node_at h q \<noteq> None then (Err AlreadyExists, h)
         else (Ok q, put_node q (File [] (m AND NOT (umask h))) h)"
  have created: "q = p \<and> L p = None \<and> holds (L(p \<mapsto> File [] m')) D (put_node q (File [] m') h)"
    if "resolve_entry h p = Inr q" "node_at h q = None" "holds L D h" for h q m'
  proof -
    have q: "q = p" "p = [] \<or> dir_at h (butlast p)"
      using resolve_entry_plain [of h p q] resolve_entry_dir [OF that(1)] that assms
      by (auto simp: holds_def)
    moreover have "\<not> dir_at h p" "L p = None"
      using that q(1) by (auto simp: dir_at_def holds_def leaf_def)
    ultimately show ?thesis using that(3) by (auto intro: holds_put_file)
  qed
  then show "hoare (holds L D) ?m
      (\<lambda>q h. q = p \<and> L p = None \<and> (\<exists>m'. holds (L(p \<mapsto> File [] m')) D h)) (\<lambda>_. holds L D)"
    by (auto simp: hoare_def split: sum.split)
qed simp_all

lemma holds_append:
  assumes "holds L D h" "L q = Some (File old m)"
  shows "holds (L(q \<mapsto> File (old @ bs) m)) D (append_bytes q bs h)"
proof -
  have n: "node_at h q = Some (File old m)" using assms by (auto simp: holds_def leaf_Some)
  then have "q = [] \<or> dir_at h (butlast q)" "\<not> dir_at h q"
    using assms(1) tree_okD [of h q] by (auto simp: holds_def dir_at_def)
  with n assms(1) show ?thesis by (auto simp: append_bytes_def intro: holds_put_file)
qed

lemma hoare_sys_write:
  assumes "L q = Some (File old m)"
  shows "hoare (holds L D) (sys_write q bs) (\<lambda>_. holds (L(q \<mapsto> File (old @ bs) m)) D)
    (\<lambda>_ h. \<exists>x. holds (L(q \<mapsto> File x m)) D h)"
proof -
  have same: "\<exists>x. holds (L(q \<mapsto> File x m)) D h" if "holds L D h" for h
    using that assms by (intro exI [of _ old]) (simp add: fun_upd_idem)
  have call: "hoare (holds L D) (syscall (\<lambda>h. (Ok (), append_bytes q bs h)))
      (\<lambda>_. holds (L(q \<mapsto> File (old @ bs) m)) D) (\<lambda>_ h. \<exists>x. holds (L(q \<mapsto> File x m)) D h)"
    by (rule hoare_syscall) (auto simp: hoare_def same intro: holds_append assms)
  have torn: "\<exists>x. holds (L(q \<mapsto> File x m)) D (append_bytes q (take n bs) (h\<lparr>faults := fs\<rparr>))"
    if "holds L D h" for n fs h
    using holds_append [of L D "h\<lparr>faults := fs\<rparr>" q old m "take n bs"] that assms by auto
  show ?thesis
  proof (rule hoareI)
    fix s a t assume h: "holds L D s" and w: "sys_write q bs s = (Inr a, t)"
    then have "syscall (\<lambda>h. (Ok (), append_bytes q bs h)) s = (Inr a, t)"
      by (auto simp: sys_write_def split: list.split_asm option.split_asm fault.split_asm if_split_asm)
    with call h show "holds (L(q \<mapsto> File (old @ bs) m)) D t" by (auto dest: hoare_Inr)
  next
    fix s e t assume h: "holds L D s" and w: "sys_write q bs s = (Inl e, t)"
    show "\<exists>x. holds (L(q \<mapsto> File x m)) D t"
    proof (cases "\<exists>n fs. faults s = Some (TornWrite n) # fs")
      case True
      with w h show ?thesis
        using torn same by (auto simp: sys_write_def split: if_split_asm)
    next
      case False
      with w have "syscall (\<lambda>h. (Ok (), append_bytes q bs h)) s = (Inl e, t)"
        by (auto simp: sys_write_def split: list.split_asm option.split_asm fault.split_asm)
      with call h show ?thesis by (auto dest: hoare_Inl)
    qed
  qed
qed

lemma hoare_sys_chmod_file:
  assumes "plain_in L p" "L p = Some n"
  shows "hoare (holds L D) (sys_chmod p m) (\<lambda>_. holds (L(p \<mapsto> with_mode m n)) D) (\<lambda>_. holds L D)"
  unfolding sys_chmod_def
proof (rule hoare_syscall)
  have "holds (L(p \<mapsto> with_mode m n)) D (put_node p (with_mode m k) h)"
    if "holds L D h" "node_at h p = Some k" for h k
  proof -
    have k: "k = n" "\<not> is_dir n" using that assms(2) by (auto simp: holds_def leaf_Some)
    moreover have "p = [] \<or> dir_at h (butlast p)" "\<not> dir_at h p"
      using that tree_okD [of h p] k by (auto simp: holds_def dir_at_def)
    moreover have "\<not> is_dir (with_mode m n)" using k(2) by (cases n) auto
    ultimately show ?thesis using that(1) by (auto intro: holds_put_file)
  qed
  then show "hoare (holds L D) (\<lambda>h.
     case bindr (resolve_path h p) (\<lambda>q. bindr (ok_or NotFound (node_at h q)) (\<lambda>n. Ok (q, n))) of
       Inl e \<Rightarrow> (Err e, h)
     | Inr (q, n) \<Rightarrow> (Ok (), put_node q (with_mode m n) h))
      (\<lambda>_. holds (L(p \<mapsto> with_mode m n)) D) (\<lambda>_. holds L D)"
    using resolve_path_plain assms(1)
    by (auto simp: hoare_def split: sum.split) (metis holds_def)
qed simp_all

lemma hoare_sys_chmod_dir:
  assumes "plain_in L p" "L p = None"
  shows "hoare (holds L D) (sys_chmod p m) (\<lambda>_. holds L (insert p D)) (\<lambda>_. holds L D)"
  unfolding sys_chmod_def
proof (rule hoare_syscall)
  have "holds L (insert p D) (put_node p (with_mode m k) h)"
    if "holds L D h" "node_at h p = Some k" for h k
  proof -
    have "leaf h p = None" using that assms(2) by (simp add: holds_def)
    with that(2) obtain m' where "k = Dir m'" by (cases k) (auto simp: leaf_def)
    moreover from that have "p = [] \<or> dir_at h (butlast p)"
      using tree_okD [of h p] by (auto simp: holds_def)
    ultimately show ?thesis
      using holds_put_dir [OF that(1), of p m] assms(2) that(1) by (auto simp: holds_def dir_at_put)
  qed
  then show "hoare (holds L D) (\<lambda>h.
     case bindr (resolve_path h p) (\<lambda>q. bindr (ok_or NotFound (node_at h q)) (\<lambda>n. Ok (q, n))) of
       Inl e \<Rightarrow> (Err e, h)
     | Inr (q, n) \<Rightarrow> (Ok (), put_node q (with_mode m n) h))
      (\<lambda>_. holds L (insert p D)) (\<lambda>_. holds L D)"
    using resolve_path_plain assms(1)
    by (auto simp: hoare_def split: sum.split) (metis holds_def)
qed simp_all

lemma holds_drop:
  assumes "holds L D h" "\<not> dir_at h q"
  shows "holds (L(q := None)) D (drop_node q h)"
  using assms by (auto simp: holds_def leaf_drop dir_at_drop intro: tree_ok_drop)

lemma hoare_sys_remove_file:
  assumes "plain_in L (butlast p)"
  shows "hoare (holds L D) (sys_remove_file p)
    (\<lambda>_ h. L p \<noteq> None \<and> holds (L(p := None)) D h) (\<lambda>_. holds L D)"
  unfolding sys_remove_file_def
proof (rule hoare_syscall)
  have removed: "L p \<noteq> None \<and> holds (L(p := None)) D (drop_node q h)"
    if "resolve_entry h p = Inr q" "node_at h q = Some n" "\<not> is_dir n" "holds L D h" for h q n
  proof -
    have "q = p" using resolve_entry_plain that(1,4) assms by (auto simp: holds_def)
    moreover have "\<not> dir_at h q" "L q \<noteq> None"
      using that by (auto simp: dir_at_def holds_def leaf_def)
    ultimately show ?thesis using holds_drop that(4) by blast
  qed
  then show "hoare (holds L D) (\<lambda>h.
     case bindr (resolve_entry h p) (\<lambda>q. bindr (ok_or NotFound (node_at h q)) (\<lambda>n.
          if is_dir n then Err IsADirectory else Ok q)) of
       Inl e \<Rightarrow> (Err e, h)
     | Inr q \<Rightarrow> (Ok (), drop_node q h))
     (\<lambda>_ h. L p \<noteq> None \<and> holds (L(p := None)) D h) (\<lambda>_. holds L D)"
    by (auto simp: hoare_def split: sum.split if_split_asm)
qed simp_all

lemma hoare_sys_rename:
  assumes "plain_in L (butlast a)" "plain_in L (butlast b)" "L a = Some n"
  shows "hoare (holds L D) (sys_rename a b)
    (\<lambda>_. holds ((L(a := None))(b \<mapsto> n)) D) (\<lambda>_. holds L D)"
  unfolding sys_rename_def
proof (rule hoare_syscall)
  have renamed: "holds ((L(a := None))(b \<mapsto> n)) D (put_node qb k (drop_node qa h))"
    if "resolve_entry h a = Inr qa" "resolve_entry h b = Inr qb" "node_at h qa = Some k"
      "\<not> dir_at h qb" "holds L D h" for h qa qb k
  proof -
    have q: "qa = a" "qb = b"
      using resolve_entry_plain that(1,2,5) assms(1,2) by (auto simp: holds_def)
    have k: "k = n" "\<not> is_dir n"
      using that(3,5) assms(3) q by (auto simp: holds_def leaf_Some)
    have a: "\<not> dir_at h a" using that(3) k q by (simp add: dir_at_def)
    then have "holds (L(a := None)) D (drop_node a h)" by (rule holds_drop [OF that(5)])
    moreover have "b = [] \<or> dir_at (drop_node a h) (butlast b)" "\<not> dir_at (drop_node a h) b"
      using resolve_entry_dir [OF that(2)] that(4) a q by (auto simp: dir_at_drop)
    ultimately show ?thesis using k q holds_put_file by blast
  qed
  then show "hoare (holds L D) (\<lambda>h.
     case bindr (resolve_entry h a) (\<lambda>qa. bindr (ok_or NotFound (node_at h qa)) (\<lambda>n.
          bindr (resolve_entry h b) (\<lambda>qb.
          if is_dir n then Err OtherError
          else if (case node_at h qb of Some m \<Rightarrow> is_dir m | None \<Rightarrow> False) then Err IsADirectory
          else Ok (qa, n, qb)))) of
       Inl e \<Rightarrow> (Err e, h)
     | Inr (qa, n, qb) \<Rightarrow> (Ok (), put_node qb n (drop_node qa h)))
     (\<lambda>_. holds ((L(a := None))(b \<mapsto> n)) D) (\<lambda>_. holds L D)"
    by (auto simp: hoare_def dir_at_def split: sum.split if_split_asm)
qed simp_all

end
