(* ===== verification/Secure_Fs.thy ===== *)
theory Secure_Fs
  imports Host_Fs
begin

text \<open>
  The protected file operations of \<open>crates/dbx-rs-secure-store/src/fs.rs\<close>, on Unix: private
  directories, bounded reads that follow no symbolic link, creation without replacement, and atomic
  replacement through a staging file. Every operation is a sequence of system calls of \<open>Host_Fs\<close>,
  each of which may fail.
\<close>

section \<open>Errors\<close>

record secure_store_error =
  err_code :: string
  err_class :: string
  err_stage :: string
  err_message :: string
  retryable :: bool
  configuration_error :: bool
  err_io_kind :: "io_kind option"

definition fs_error ::
    "string \<Rightarrow> string \<Rightarrow> string \<Rightarrow> string \<Rightarrow> bool \<Rightarrow> bool \<Rightarrow> secure_store_error" where
  "fs_error code class stage message retry config =
     \<lparr>err_code = code, err_class = class, err_stage = stage, err_message = message,
      retryable = retry, configuration_error = config, err_io_kind = None\<rparr>"

definition fs_io_error :: "string \<Rightarrow> string \<Rightarrow> string \<Rightarrow> io_kind \<Rightarrow> secure_store_error" where
  "fs_io_error code stage message kind =
     \<lparr>err_code = code, err_class = ''io'', err_stage = stage, err_message = message,
      retryable = False, configuration_error = False, err_io_kind = Some kind\<rparr>"

type_synonym 'a secure = "(host, secure_store_error, 'a) op"

section \<open>Paths and permissions\<close>

text \<open>
  \<open>Path::ancestors\<close>: the path itself first, the root last. Modes are hexadecimal here: \<open>0x1C0\<close> is
  octal 700, \<open>0x180\<close> octal 600 and \<open>0x3F\<close> octal 77.
\<close>

definition ancestors :: "path \<Rightarrow> path list" where
  "ancestors p = map (\<lambda>k. take k p) (rev [0..<Suc (length p)])"

fun reject_links :: "path list \<Rightarrow> unit secure" where
  "reject_links [] = ret ()"
| "reject_links (a # as) =
     bnd (attempt (sys_lstat a)) (\<lambda>r.
       case r of
         Inl e \<Rightarrow>
           if e = NotFound then reject_links as
           else throw (fs_io_error ''DBX-RS-FS-0013'' ''path_validate'' ''failed to inspect a protected path'' e)
       | Inr n \<Rightarrow>
           if is_symlink n
           then throw (fs_error ''DBX-RS-FS-0014'' ''configuration'' ''path_validate''
             ''protected paths must not contain symbolic links'' False True)
           else reject_links as)"

definition reject_existing_ancestor_symlinks :: "path \<Rightarrow> unit secure" where
  "reject_existing_ancestor_symlinks p = reject_links (ancestors p)"

definition set_mode :: "path \<Rightarrow> u32 \<Rightarrow> unit secure" where
  "set_mode p mode = map_fail
     (fs_io_error ''DBX-RS-FS-0015'' ''permissions'' ''failed to protect file permissions'')
     (sys_chmod p mode)"

definition ensure_private_dir :: "path \<Rightarrow> unit secure" where
  "ensure_private_dir p =
     bnd (reject_existing_ancestor_symlinks p) (\<lambda>_.
     bnd (map_fail (fs_io_error ''DBX-RS-FS-0001'' ''directory_create''
         ''failed to create a private directory'') (create_dir_all p)) (\<lambda>_.
     bnd (reject_existing_ancestor_symlinks p) (\<lambda>_.
       set_mode p 0x1C0)))"

definition too_open :: "u32 \<Rightarrow> bool" where
  "too_open mode \<longleftrightarrow> mode AND 0x3F \<noteq> 0"

definition validate_private_mode :: "node \<Rightarrow> secure_store_error + unit" where
  "validate_private_mode n =
     (if too_open (node_mode n)
      then Err (fs_error ''DBX-RS-FS-0020'' ''configuration'' ''permissions''
        ''private directory permissions are too broad'' False True)
      else Ok ())"

definition validate_private_dir :: "path \<Rightarrow> unit secure" where
  "validate_private_dir p =
     bnd (reject_existing_ancestor_symlinks p) (\<lambda>_.
     bnd (map_fail (fs_io_error ''DBX-RS-FS-0018'' ''directory_validate''
         ''failed to inspect a private directory'') (sys_lstat p)) (\<lambda>n.
       if is_symlink n \<or> \<not> is_dir n
       then throw (fs_error ''DBX-RS-FS-0019'' ''configuration'' ''directory_validate''
         ''private directory has an invalid type'' False True)
       else lift_res (validate_private_mode n)))"

definition validate_private_file_mode :: "node \<Rightarrow> secure_store_error + unit" where
  "validate_private_file_mode n =
     (if too_open (node_mode n)
      then Err (fs_error ''DBX-RS-FS-0021'' ''configuration'' ''permissions''
        ''private file permissions are too broad'' False True)
      else Ok ())"

section \<open>Reading\<close>

definition invalid_file :: secure_store_error where
  "invalid_file = fs_error ''DBX-RS-FS-0004'' ''configuration'' ''file_validate''
     ''protected file has an invalid type or size'' False True"

definition read_limited_inner :: "path \<Rightarrow> nat \<Rightarrow> bool \<Rightarrow> bytes secure" where
  "read_limited_inner p max_bytes require_private =
     bnd (reject_existing_ancestor_symlinks p) (\<lambda>_.
     bnd (map_fail (fs_io_error ''DBX-RS-FS-0002'' ''file_open'' ''failed to open a protected file'')
         (sys_open p)) (\<lambda>file.
     bnd (map_fail (fs_io_error ''DBX-RS-FS-0003'' ''file_metadata'' ''failed to inspect a protected file'')
         (sys_fstat file)) (\<lambda>n.
     if \<not> is_file n \<or> node_len n > max_bytes then throw invalid_file
     else
     bnd (lift_res (if require_private then validate_private_file_mode n else Ok ())) (\<lambda>_.
     bnd (map_fail (fs_io_error ''DBX-RS-FS-0005'' ''file_read'' ''failed to read a protected file'')
         (sys_read file (max_bytes + 1))) (\<lambda>bs.
     if length bs > max_bytes then throw invalid_file else ret bs)))))"

definition read_limited :: "path \<Rightarrow> nat \<Rightarrow> bytes secure" where
  "read_limited p max_bytes = read_limited_inner p max_bytes False"

definition read_private_limited :: "path \<Rightarrow> nat \<Rightarrow> bytes secure" where
  "read_private_limited p max_bytes = read_limited_inner p max_bytes True"

section \<open>Writing\<close>

definition write_and_sync :: "path \<Rightarrow> bytes \<Rightarrow> unit secure" where
  "write_and_sync file bs =
     bnd (map_fail (fs_io_error ''DBX-RS-FS-0011'' ''file_write'' ''failed to write a protected file'')
         (sys_write file bs)) (\<lambda>_.
       map_fail (fs_io_error ''DBX-RS-FS-0012'' ''file_sync'' ''failed to synchronize a protected file'')
         (sys_fsync file))"

definition sync_parent :: "path \<Rightarrow> unit secure" where
  "sync_parent parent = map_fail
     (fs_io_error ''DBX-RS-FS-0016'' ''directory_sync'' ''failed to synchronize a protected directory'')
     (bnd (sys_open parent) sys_fsync)"

text \<open>\<open>Path::parent\<close> and \<open>Path::file_name\<close> are \<open>None\<close> for the root only.\<close>

definition no_parent :: "string \<Rightarrow> secure_store_error" where
  "no_parent stage = fs_error ''DBX-RS-FS-0006'' ''configuration'' stage
     ''protected file has no parent directory'' False True"

definition write_new :: "path \<Rightarrow> bytes \<Rightarrow> u32 \<Rightarrow> unit secure" where
  "write_new p bs mode =
     (if p = [] then throw (no_parent ''file_create'')
      else
      bnd (ensure_private_dir (butlast p)) (\<lambda>_.
      bnd (map_fail (fs_io_error ''DBX-RS-FS-0007'' ''file_create'' ''failed to create a protected file'')
          (sys_create_new p mode)) (\<lambda>file.
      bnd (write_and_sync file bs) (\<lambda>_.
      bnd (set_mode p mode) (\<lambda>_.
        sync_parent (butlast p))))))"

text \<open>\<open>fetch_add\<close> on the process-wide counter of staging files.\<close>

definition next_temp :: "u64 secure" where
  "next_temp h = (Ok (next_temp_file h), h\<lparr>next_temp_file := next_temp_file h + 1\<rparr>)"

definition staging_name :: "string \<Rightarrow> nat \<Rightarrow> u64 \<Rightarrow> string" where
  "staging_name name pid seq =
     ''.'' @ name @ ''.'' @ decimal pid @ ''.'' @ decimal (unat seq) @ ''.tmp''"

definition process_id_of :: "nat secure" where
  "process_id_of h = (Ok (process_id h), h)"

definition publish :: "path \<Rightarrow> path \<Rightarrow> bytes \<Rightarrow> u32 \<Rightarrow> unit secure" where
  "publish temp p bs mode =
     bnd (map_fail (fs_io_error ''DBX-RS-FS-0009'' ''file_write'' ''failed to create an atomic staging file'')
         (sys_create_new temp mode)) (\<lambda>file.
     bnd (write_and_sync file bs) (\<lambda>_.
     bnd (set_mode temp mode) (\<lambda>_.
     bnd (map_fail (fs_io_error ''DBX-RS-FS-0010'' ''file_publish'' ''failed to publish an atomic file'')
         (sys_rename temp p)) (\<lambda>_.
       sync_parent (butlast p)))))"

definition atomic_write :: "path \<Rightarrow> bytes \<Rightarrow> u32 \<Rightarrow> unit secure" where
  "atomic_write p bs mode =
     (if p = [] then throw (no_parent ''file_write'')
      else
      bnd (ensure_private_dir (butlast p)) (\<lambda>_.
      bnd next_temp (\<lambda>seq.
      bnd process_id_of (\<lambda>pid.
      let temp = butlast p @ [staging_name (last p) pid seq] in
      handle (publish temp p bs mode) (\<lambda>e.
        bnd (attempt (sys_remove_file temp)) (\<lambda>_. throw e))))))"

section \<open>No symbolic links\<close>

text \<open>What one passed check says, in the state in which it was made.\<close>

definition checked :: "(path \<Rightarrow> node option) \<Rightarrow> path \<Rightarrow> bool" where
  "checked L a \<longleftrightarrow> (\<exists>h. tree_ok h \<and> leaf h = L \<and>
     (\<forall>q n. resolve_entry h a = Inr q \<longrightarrow> node_at h q = Some n \<longrightarrow> \<not> is_symlink n))"

lemma hoare_reject_links:
  "hoare (holds L D) (reject_links as) (\<lambda>_ h. holds L D h \<and> (\<forall>a \<in> set as. checked L a)) (\<lambda>_. holds L D)"
proof (induction as)
  case (Cons a as)
  have lstat: "hoare (holds L D) (attempt (sys_lstat a))
      (\<lambda>r h. holds L D h \<and> (case r of Inr n \<Rightarrow> \<not> is_symlink n \<longrightarrow> checked L a
        | Inl e \<Rightarrow> e = NotFound \<longrightarrow> checked L a)) (\<lambda>_. holds L D)"
    by (rule hoare_attempt, rule hoare_weaken [OF hoare_sys_lstat [of L D a]])
      (auto simp: checked_def holds_def)
  have rest: "hoare (\<lambda>h. holds L D h \<and> checked L a) (reject_links as)
      (\<lambda>_ h. holds L D h \<and> (\<forall>b \<in> set (a # as). checked L b)) (\<lambda>_. holds L D)"
    using Cons by (auto simp: hoare_def split: prod.splits sum.splits)
  show ?case
    unfolding reject_links.simps
    by (rule hoare_bnd [OF lstat]; intro hoare_case_sum hoare_if hoare_throw hoare_weaken [OF rest])
      auto
next
  case Nil
  show ?case unfolding reject_links.simps by (rule hoare_ret) simp
qed

lemma checked_plain:
  assumes "\<And>k. k \<le> length p \<Longrightarrow> checked L (take k p)"
  shows "plain_in L p"
proof -
  have "k \<le> length p \<Longrightarrow> plain_in L (take k p)" for k
  proof (induction k)
    case 0
    from assms [of 0] obtain h where "tree_ok h" "leaf h = L" by (auto simp: checked_def)
    then have "L [] = None" using tree_ok_root dir_not_leaf by metis
    then show ?case by (simp add: plain_in_def)
  next
    case (Suc k)
    then have IH: "plain_in L (take k p)" by simp
    from assms [OF Suc.prems] obtain h where h: "tree_ok h" "leaf h = L"
      and ok: "\<And>q n. resolve_entry h (take (Suc k) p) = Inr q \<Longrightarrow> node_at h q = Some n \<Longrightarrow> \<not> is_symlink n"
      by (auto simp: checked_def)
    have "\<not> is_symlink n" if "L (take (Suc k) p) = Some n" for n
    proof
      assume "is_symlink n"
      from that h(2) have n: "node_at h (take (Suc k) p) = Some n" by (auto simp: leaf_Some)
      have "butlast (take (Suc k) p) = take k p" using Suc.prems by (simp add: butlast_take)
      then have "resolve_entry h (take (Suc k) p) = Inr (take (Suc k) p)"
        using IH h tree_okD [OF h(1) n] by (intro resolve_entry_complete) auto
      from ok [OF this n] \<open>is_symlink n\<close> show False by simp
    qed
    with IH show ?case
      using Suc.prems by (auto simp: plain_in_def le_Suc_eq min_def split: option.split)
  qed
  from this [of "length p"] show ?thesis by simp
qed

lemma hoare_reject:
  "hoare (holds L D) (reject_existing_ancestor_symlinks p)
     (\<lambda>_ h. holds L D h \<and> plain_in L p) (\<lambda>_. holds L D)"
  unfolding reject_existing_ancestor_symlinks_def
proof (rule hoare_weaken [OF hoare_reject_links [of L D "ancestors p"]])
  show "holds L D h \<and> plain_in L p" if "holds L D h \<and> (\<forall>a \<in> set (ancestors p). checked L a)" for h
  proof -
    have "checked L (take k p)" if "k \<le> length p" for k
      using \<open>holds L D h \<and> (\<forall>a \<in> set (ancestors p). checked L a)\<close> that
      by (auto simp: ancestors_def)
    then show ?thesis using that checked_plain by blast
  qed
qed simp_all

text \<open>A fact that does not depend on the state is carried through an operation.\<close>

lemma hoare_fact:
  assumes "\<phi> \<Longrightarrow> hoare P m Q E"
  shows "hoare (\<lambda>h. P h \<and> \<phi>) m (\<lambda>a h. Q a h \<and> \<phi>) (\<lambda>e h. E e h)"
  using assms by (auto simp: hoare_def split: prod.splits sum.splits)

lemma hoare_ensure_private_dir:
  "hoare (holds L D) (ensure_private_dir p)
     (\<lambda>_ h. holds L (insert p D) h \<and> plain_in L p) (\<lambda>_. holds L D)"
proof -
  have mode: "hoare (\<lambda>h. (holds L (insert p D) h) \<and> plain_in L p) (set_mode p 0x1C0)
      (\<lambda>_ h. holds L (insert p D) h \<and> plain_in L p) (\<lambda>_. holds L D)"
  proof (rule hoareI)
    fix s a t assume s: "holds L (insert p D) s \<and> plain_in L p" and m: "set_mode p 0x1C0 s = (Inr a, t)"
    then have "L p = None" by (auto simp: holds_def dir_not_leaf)
    from hoare_sys_chmod_dir [of L p "insert p D" "0x1C0"] this s m
    show "holds L (insert p D) t \<and> plain_in L p" by (auto simp: set_mode_def dest!: hoare_Inr)
  next
    fix s e t assume s: "holds L (insert p D) s \<and> plain_in L p" and m: "set_mode p 0x1C0 s = (Inl e, t)"
    then have "L p = None" by (auto simp: holds_def dir_not_leaf)
    from hoare_sys_chmod_dir [of L p "insert p D" "0x1C0"] this s m
    show "holds L D t"
      by (auto simp: set_mode_def map_fail_eq_Inl dest!: hoare_Inl intro: holds_mono)
  qed
  have again: "hoare (\<lambda>h. (made L D p h) \<and> plain_in L p) (reject_existing_ancestor_symlinks p)
      (\<lambda>_ h. (holds L (insert p D) h) \<and> plain_in L p) (\<lambda>_. holds L D)"
    by (rule hoare_weaken [OF hoare_reject [of L "insert p D" p]])
      (auto simp: holds_def)
  have create: "hoare (\<lambda>h. holds L D h \<and> plain_in L p) (create_dir_all p)
      (\<lambda>_ h. (made L D p h) \<and> plain_in L p) (\<lambda>_. holds L D)"
    by (rule hoare_fact [OF hoare_create_dir_all])
  show ?thesis
    unfolding ensure_private_dir_def
    by (rule hoare_bnd hoare_map_fail hoare_reject create again mode)+
qed

section \<open>Reading\<close>

lemma hoare_read_limited_inner:
  "hoare (holds L D) (read_limited_inner p n private)
     (\<lambda>bs h. holds L D h \<and> plain_in L p \<and>
        (\<exists>m. L p = Some (File bs m) \<and> length bs \<le> n \<and> (private \<longrightarrow> \<not> too_open m)))
     (\<lambda>_. holds L D)"
proof -
  have opn: "hoare (\<lambda>h. holds L D h \<and> plain_in L p) (sys_open p)
      (\<lambda>q h. holds L D h \<and> plain_in L p \<and> q = p) (\<lambda>_. holds L D)"
    by (rule hoare_weaken [OF hoare_fact [OF hoare_sys_open [of L D p], where \<phi> = "plain_in L p"]])
      (auto simp: holds_def dest: resolve_path_plain)
  have stat: "hoare (\<lambda>h. holds L D h \<and> plain_in L p \<and> q = p) (sys_fstat q)
      (\<lambda>k h. holds L D h \<and> (plain_in L p \<and> q = p) \<and> node_at h p = Some k) (\<lambda>_. holds L D)" for q
    by (rule hoare_weaken [OF hoare_fact [OF hoare_sys_fstat [of L D q], where \<phi> = "plain_in L p \<and> q = p"]])
      auto
  have rd: "hoare (\<lambda>h. holds L D h \<and> \<phi>) (sys_read q (n + 1))
      (\<lambda>bs h. (holds L D h \<and> (\<exists>c m. L q = Some (File c m) \<and> bs = take (n + 1) c)) \<and> \<phi>) (\<lambda>_. holds L D)" for q \<phi>
    by (rule hoare_fact [OF hoare_sys_read])
  have leafk: "L p = Some k" if "holds L D h" "node_at h p = Some k" "is_file k" for h k
    using that by (cases k) (auto simp: holds_def leaf_def)
  show ?thesis
    unfolding read_limited_inner_def
  proof (rule hoare_bnd [OF hoare_reject], rule hoare_bnd [OF hoare_map_fail_const [OF opn]],
      rule hoare_bnd [OF hoare_map_fail_const [OF stat]], rule hoare_if)
    fix u q k
    let ?priv = "if private then validate_private_file_mode k else Ok ()"
    assume ok: "\<not> (\<not> is_file k \<or> node_len k > n)"
    have mode: "hoare (\<lambda>h. holds L D h \<and> (plain_in L p \<and> q = p) \<and> node_at h p = Some k)
        (lift_res ?priv)
        (\<lambda>_ h. holds L D h \<and> plain_in L p \<and> q = p \<and> L p = Some k \<and> (private \<longrightarrow> \<not> too_open (node_mode k)))
        (\<lambda>_. holds L D)"
      using ok leafk
      by (intro hoare_lift_res) (auto simp: validate_private_file_mode_def split: if_split_asm)
    show "hoare (\<lambda>h. holds L D h \<and> (plain_in L p \<and> q = p) \<and> node_at h p = Some k)
      (bnd (lift_res ?priv) (\<lambda>_. bnd (map_fail (fs_io_error ''DBX-RS-FS-0005'' ''file_read''
          ''failed to read a protected file'') (sys_read q (n + 1))) (\<lambda>bs.
        if length bs > n then throw invalid_file else ret bs)))
      (\<lambda>bs h. holds L D h \<and> plain_in L p \<and>
        (\<exists>m. L p = Some (File bs m) \<and> length bs \<le> n \<and> (private \<longrightarrow> \<not> too_open m)))
      (\<lambda>_. holds L D)"
    proof (rule hoare_bnd [OF mode], rule hoare_bnd [OF hoare_map_fail_const])
      fix v
      show "hoare (\<lambda>h. holds L D h \<and> plain_in L p \<and> q = p \<and> L p = Some k \<and>
          (private \<longrightarrow> \<not> too_open (node_mode k))) (sys_read q (n + 1))
        (\<lambda>bs h. holds L D h \<and> plain_in L p \<and> (\<exists>m. L p = Some (File bs m) \<and> length bs \<le> n \<and>
          (private \<longrightarrow> \<not> too_open m))) (\<lambda>_. holds L D)"
        by (rule hoare_weaken [OF rd [where q = q and \<phi> = "plain_in L p \<and> q = p \<and> L p = Some k \<and>
            (private \<longrightarrow> \<not> too_open (node_mode k))"]]) (use ok in auto)
    next
      fix v bs
      show "hoare (\<lambda>h. holds L D h \<and> plain_in L p \<and> (\<exists>m. L p = Some (File bs m) \<and> length bs \<le> n \<and>
          (private \<longrightarrow> \<not> too_open m))) (if length bs > n then throw invalid_file else ret bs)
        (\<lambda>bs h. holds L D h \<and> plain_in L p \<and>
          (\<exists>m. L p = Some (File bs m) \<and> length bs \<le> n \<and> (private \<longrightarrow> \<not> too_open m)))
        (\<lambda>_. holds L D)"
        by (intro hoare_if hoare_throw hoare_ret) auto
    qed
  qed (auto intro: hoare_throw)
qed

lemma hoare_read_limited:
  "hoare (holds L D) (read_limited p n)
     (\<lambda>bs h. holds L D h \<and> plain_in L p \<and> (\<exists>m. L p = Some (File bs m)) \<and> length bs \<le> n)
     (\<lambda>_. holds L D)"
  unfolding read_limited_def by (rule hoare_weaken [OF hoare_read_limited_inner]) auto

section \<open>Writing\<close>

lemma hoare_write_and_sync:
  assumes "L q = Some (File old m)"
  shows "hoare (holds L D) (write_and_sync q bs) (\<lambda>_. holds (L(q \<mapsto> File (old @ bs) m)) D)
    (\<lambda>_ h. \<exists>x. holds (L(q \<mapsto> File x m)) D h)"
  unfolding write_and_sync_def
  by (rule hoare_bnd, rule hoare_map_fail_const, rule hoare_sys_write [where L = L and q = q and old = old and m = m], rule assms,
      rule hoare_map_fail_const,
      rule hoare_weaken [OF hoare_sys_fsync [where L = "L(q \<mapsto> File (old @ bs) m)" and D = D]]) auto

lemma hoare_sync_parent: "hoare (holds L D) (sync_parent p) (\<lambda>_. holds L D) (\<lambda>_. holds L D)"
  unfolding sync_parent_def
  by (rule hoare_map_fail_const, rule hoare_bnd [OF hoare_sys_open],
      rule hoare_weaken [OF hoare_sys_fsync]) auto

lemma hoare_set_mode_file:
  assumes "plain_in L p" "L p = Some (File bs m)"
  shows "hoare (holds L D) (set_mode p mode) (\<lambda>_. holds (L(p \<mapsto> File bs mode)) D) (\<lambda>_. holds L D)"
  unfolding set_mode_def
  by (rule hoare_map_fail_const, rule hoare_weaken [OF hoare_sys_chmod_file [of L p "File bs m" D mode]]) (use assms in auto)

text \<open>A pure fact of the precondition may be used as an assumption.\<close>

lemma hoare_assume:
  "(\<And>x. \<phi> x \<Longrightarrow> hoare (P x) m Q E) \<Longrightarrow> hoare (\<lambda>s. \<exists>x. \<phi> x \<and> P x s) m Q E"
proof (rule hoareI)
  fix s a t assume *: "\<And>x. \<phi> x \<Longrightarrow> hoare (P x) m Q E" "\<exists>x. \<phi> x \<and> P x s" "m s = (Inr a, t)"
  then obtain x where "\<phi> x" "P x s" by blast
  with * show "Q a t" by (auto dest: hoare_Inr)
next
  fix s e t assume *: "\<And>x. \<phi> x \<Longrightarrow> hoare (P x) m Q E" "\<exists>x. \<phi> x \<and> P x s" "m s = (Inl e, t)"
  then obtain x where "\<phi> x" "P x s" by blast
  with * show "E e t" by (auto dest: hoare_Inl)
qed

lemma plain_near:
  "(\<And>q. length q \<le> length d \<Longrightarrow> L' q = L q) \<Longrightarrow> plain_in L' d = plain_in L d"
  by (auto simp: plain_in_def)

lemma plain_file_in:
  assumes "plain_in L (butlast p)" "L p = Some n" "\<not> is_symlink n"
  shows "plain_in L p"
  unfolding plain_in_def
proof (intro allI impI)
  fix k assume k: "k \<le> length p"
  show "case L (take k p) of Some n \<Rightarrow> \<not> is_symlink n | None \<Rightarrow> True"
  proof (cases "k = length p")
    case False
    with k have "k \<le> length (butlast p)" "take k p = take k (butlast p)"
      by (simp_all add: take_butlast)
    with assms(1) show ?thesis by (simp add: plain_in_def)
  qed (use assms(2,3) in simp)
qed

text \<open>
  The names of staging files, and what replacing a file may leave behind: every other path as it
  was, and at the path itself the old node or the new one.
\<close>

definition staged :: "path \<Rightarrow> path \<Rightarrow> bool" where
  "staged p q \<longleftrightarrow> (\<exists>pid seq. q = butlast p @ [staging_name (last p) pid seq])"

definition replaced ::
    "path \<Rightarrow> node \<Rightarrow> (path \<Rightarrow> node option) \<Rightarrow> (path \<Rightarrow> node option) \<Rightarrow> bool" where
  "replaced p n L L' \<longleftrightarrow>
     (\<forall>q. q \<noteq> p \<longrightarrow> \<not> staged p q \<longrightarrow> L' q = L q) \<and> (L' p = L p \<or> L' p = Some n)"

lemma staged_neq: "p \<noteq> [] \<Longrightarrow> staged p q \<Longrightarrow> q \<noteq> p"
proof
  assume "p \<noteq> []" "staged p q" "q = p"
  then obtain pid seq where "last p = staging_name (last p) pid seq"
    by (auto simp: staged_def) (metis last_snoc)
  then have "length (last p) = length (staging_name (last p) pid seq)" by simp
  then show False by (simp add: staging_name_def)
qed

lemma staged_butlast: "staged p q \<Longrightarrow> butlast q = butlast p \<and> q \<noteq> []"
  by (auto simp: staged_def)

lemma replaced_staged: "replaced p n L L' \<Longrightarrow> p \<noteq> [] \<Longrightarrow> staged p q \<Longrightarrow> replaced p n L (L'(q := x))"
  using staged_neq by (auto simp: replaced_def)

lemma replaced_refl: "replaced p n L L" "replaced p n L (L(p \<mapsto> n))"
  by (simp_all add: replaced_def)

lemma hoare_publish:
  assumes p: "p \<noteq> []" "plain_in L (butlast p)" and temp: "staged p temp"
  shows "hoare (holds L D) (publish temp p bs mode) (\<lambda>_. holds (L(p \<mapsto> File bs mode)) D)
    (\<lambda>_ h. \<exists>L'. replaced p (File bs mode) L L' \<and> holds L' D h)"
proof -
  let ?E = "\<lambda>_ h. \<exists>L'. replaced p (File bs mode) L L' \<and> holds L' D h"
  have neq: "temp \<noteq> p" "butlast temp = butlast p" "temp \<noteq> []"
    using staged_neq [OF p(1) temp] staged_butlast [OF temp] by auto
  have plain: "plain_in (L(temp \<mapsto> n)) (butlast p)" if "\<not> is_symlink n" for n
    using p(2) that by (rule plain_update)
  have E: "\<exists>L'. replaced p (File bs mode) L L' \<and> holds L' D h" if "holds (L(temp \<mapsto> n)) D h" for n h
    using that replaced_staged [OF replaced_refl(1) p(1) temp] by blast
  have body: "hoare (holds (L(temp \<mapsto> File [] m')) D)
      (bnd (write_and_sync temp bs) (\<lambda>_. bnd (set_mode temp mode) (\<lambda>_.
       bnd (map_fail (fs_io_error ''DBX-RS-FS-0010'' ''file_publish'' ''failed to publish an atomic file'')
         (sys_rename temp p)) (\<lambda>_. sync_parent (butlast p)))))
      (\<lambda>_. holds (L(p \<mapsto> File bs mode)) D) ?E" if "L temp = None" for m'
  proof -
    have w: "hoare (holds (L(temp \<mapsto> File [] m')) D) (write_and_sync temp bs)
        (\<lambda>_. holds (L(temp \<mapsto> File bs m')) D) ?E"
      by (rule hoare_weaken [OF hoare_write_and_sync
          [where L = "L(temp \<mapsto> File [] m')" and q = temp and m = m' and old = "[]" and D = D]])
        (auto dest: E)
    have c: "hoare (holds (L(temp \<mapsto> File bs m')) D) (set_mode temp mode)
        (\<lambda>_. holds (L(temp \<mapsto> File bs mode)) D) ?E"
    proof (rule hoare_weaken [OF hoare_set_mode_file
        [where L = "L(temp \<mapsto> File bs m')" and p = temp and bs = bs and m = m' and D = D]])
      show "plain_in (L(temp \<mapsto> File bs m')) temp"
        by (rule plain_file_in [where n = "File bs m'"]) (use plain [of "File bs m'"] in \<open>simp_all add: neq\<close>)
    qed (auto dest: E)
    have "(L(temp \<mapsto> File bs mode))(temp := None) = L" using that by auto
    then have eq: "(L(temp \<mapsto> File bs mode))(temp := None, p \<mapsto> File bs mode) = L(p \<mapsto> File bs mode)" by simp
    have "hoare (holds (L(temp \<mapsto> File bs mode)) D) (sys_rename temp p)
        (\<lambda>_. holds ((L(temp \<mapsto> File bs mode))(temp := None, p \<mapsto> File bs mode)) D)
        (\<lambda>_. holds (L(temp \<mapsto> File bs mode)) D)"
      by (rule hoare_sys_rename) (use plain [of "File bs mode"] neq in simp_all)
    then have r: "hoare (holds (L(temp \<mapsto> File bs mode)) D) (sys_rename temp p)
        (\<lambda>_. holds (L(p \<mapsto> File bs mode)) D) ?E"
      unfolding eq by (rule hoare_weaken) (auto dest: E)
    have s: "hoare (holds (L(p \<mapsto> File bs mode)) D) (sync_parent (butlast p))
        (\<lambda>_. holds (L(p \<mapsto> File bs mode)) D) ?E"
      by (rule hoare_weaken [OF hoare_sync_parent]) (auto intro: replaced_refl)
    show ?thesis
      by (rule hoare_bnd [OF w], rule hoare_bnd [OF c], rule hoare_bnd [OF hoare_map_fail_const])
        (rule r s)+
  qed
  have create: "hoare (holds L D) (sys_create_new temp mode)
      (\<lambda>q h. \<exists>m'. (q = temp \<and> L temp = None) \<and> holds (L(temp \<mapsto> File [] m')) D h) ?E"
    by (rule hoare_weaken [OF hoare_sys_create_new [where p = temp]])
      (use p(2) neq in \<open>auto intro: replaced_refl\<close>)
  show ?thesis
    unfolding publish_def
    by (rule hoare_bnd [OF hoare_map_fail_const [OF create]], rule hoare_assume) (use body in auto)
qed

lemma plain_replaced:
  assumes "replaced p n L L'" "p \<noteq> []" "plain_in L (butlast p)"
  shows "plain_in L' (butlast p)"
proof -
  have "L' q = L q" if "length q \<le> length (butlast p)" for q
  proof -
    have "length (butlast p) < length p" using assms(2) by (cases p rule: rev_cases) simp_all
    with that have "length q \<noteq> length p" by linarith
    then have "q \<noteq> p" by auto
    moreover have "\<not> staged p q" using that by (auto simp: staged_def)
    ultimately show ?thesis using assms(1) by (simp add: replaced_def)
  qed
  then have "plain_in L' (butlast p) = plain_in L (butlast p)" by (rule plain_near)
  with assms(3) show ?thesis by simp
qed

lemma hoare_atomic_write:
  "hoare (holds L D) (atomic_write p bs mode) (\<lambda>_. holds (L(p \<mapsto> File bs mode)) D)
    (\<lambda>_ h. \<exists>L'. replaced p (File bs mode) L L' \<and> holds L' D h)"
proof (cases "p = []")
  case True
  then show ?thesis
    unfolding atomic_write_def by (auto intro!: hoare_throw replaced_refl)
next
  case p: False
  let ?E = "\<lambda>_ h. \<exists>L'. replaced p (File bs mode) L L' \<and> holds L' D h"
  have dir: "hoare (holds L D) (ensure_private_dir (butlast p))
      (\<lambda>_ h. plain_in L (butlast p) \<and> holds L D h) ?E"
    by (rule hoare_weaken [OF hoare_ensure_private_dir [of L D]])
      (auto intro: replaced_refl holds_mono)
  have seq: "hoare (\<lambda>h. \<phi> \<and> holds L D h) next_temp (\<lambda>_ h. \<phi> \<and> holds L D h) ?E" for \<phi>
    by (auto simp: hoare_def next_temp_def)
  have pid: "hoare (\<lambda>h. \<phi> \<and> holds L D h) process_id_of (\<lambda>_ h. \<phi> \<and> holds L D h) ?E" for \<phi>
    by (auto simp: hoare_def process_id_of_def)
  have last: "hoare (\<lambda>h. plain_in L (butlast p) \<and> holds L D h)
      (handle (publish temp p bs mode) (\<lambda>e. bnd (attempt (sys_remove_file temp)) (\<lambda>_. throw e)))
      (\<lambda>_. holds (L(p \<mapsto> File bs mode)) D) ?E" if t: "staged p temp" for temp
  proof (rule hoare_handle)
    show "hoare (\<lambda>h. plain_in L (butlast p) \<and> holds L D h) (publish temp p bs mode)
        (\<lambda>_. holds (L(p \<mapsto> File bs mode)) D)
        (\<lambda>_ h. \<exists>L'. (replaced p (File bs mode) L L' \<and> plain_in L (butlast p)) \<and> holds L' D h)"
      using hoare_publish [OF p _ t, of L D bs mode]
      by (intro hoareI) (auto dest: hoare_Inr hoare_Inl)
    fix e :: secure_store_error
    show "hoare (\<lambda>h. \<exists>L'. (replaced p (File bs mode) L L' \<and> plain_in L (butlast p)) \<and> holds L' D h)
        (bnd (attempt (sys_remove_file temp)) (\<lambda>_. throw e))
        (\<lambda>_. holds (L(p \<mapsto> File bs mode)) D) ?E"
    proof (rule hoare_assume)
      fix L' assume L': "replaced p (File bs mode) L L' \<and> plain_in L (butlast p)"
      then have "plain_in L' (butlast temp)"
        using plain_replaced [OF _ p] staged_butlast [OF t] by auto
      then have "hoare (holds L' D) (attempt (sys_remove_file temp) ::
            (host, secure_store_error, io_kind + unit) op)
          (\<lambda>_ h. \<exists>L'. replaced p (File bs mode) L L' \<and> holds L' D h) ?E"
        using L' replaced_staged [where L = L and L' = L' and p = p and q = temp and n = "File bs mode", OF _ p t]
        by (intro hoare_attempt, elim hoare_weaken [OF hoare_sys_remove_file [of L' temp D]]) blast+
      then show "hoare (holds L' D) (bnd (attempt (sys_remove_file temp)) (\<lambda>_. throw e))
          (\<lambda>_. holds (L(p \<mapsto> File bs mode)) D) ?E"
        by (rule hoare_bnd) (rule hoare_throw, assumption)
    qed
  qed
  have "staged p (butlast p @ [staging_name (last p) i k])" for i k
    by (auto simp: staged_def)
  with p show ?thesis
    unfolding atomic_write_def Let_def
    by (auto intro!: hoare_bnd [OF dir] hoare_bnd [OF seq] hoare_bnd [OF pid] last)
qed

lemma hoare_write_new:
  "hoare (holds L D) (write_new p bs mode)
    (\<lambda>_ h. L p = None \<and> holds (L(p \<mapsto> File bs mode)) D h)
    (\<lambda>_ h. \<exists>L'. (\<forall>q. q \<noteq> p \<longrightarrow> L' q = L q) \<and> (L p \<noteq> None \<longrightarrow> L' = L) \<and> holds L' D h)"
proof (cases "p = []")
  case True
  then show ?thesis unfolding write_new_def by (auto intro!: hoare_throw)
next
  case p: False
  let ?Q = "\<lambda>_ h. L p = None \<and> holds (L(p \<mapsto> File bs mode)) D h"
  let ?E = "\<lambda>_ h. \<exists>L'. (\<forall>q. q \<noteq> p \<longrightarrow> L' q = L q) \<and> (L p \<noteq> None \<longrightarrow> L' = L) \<and> holds L' D h"
  have E: "\<exists>L'. (\<forall>q. q \<noteq> p \<longrightarrow> L' q = L q) \<and> (L p \<noteq> None \<longrightarrow> L' = L) \<and> holds L' D h"
    if "holds (L(p \<mapsto> n)) D h" "L p = None" for n h
    using that by (intro exI [of _ "L(p \<mapsto> n)"]) auto
  have dir: "hoare (holds L D) (ensure_private_dir (butlast p))
      (\<lambda>_ h. plain_in L (butlast p) \<and> holds L D h) ?E"
    by (rule hoare_weaken [OF hoare_ensure_private_dir [of L D]]) (auto intro: holds_mono)
  have create: "hoare (\<lambda>h. plain_in L (butlast p) \<and> holds L D h) (sys_create_new p mode)
      (\<lambda>q h. \<exists>m'. (q = p \<and> L p = None \<and> plain_in L (butlast p)) \<and> holds (L(p \<mapsto> File [] m')) D h) ?E"
    using hoare_sys_create_new [of L p D mode]
    by (intro hoareI) (auto dest: hoare_Inr hoare_Inl)
  have body: "hoare (holds (L(p \<mapsto> File [] m')) D)
      (bnd (write_and_sync p bs) (\<lambda>_. bnd (set_mode p mode) (\<lambda>_. sync_parent (butlast p)))) ?Q ?E"
    if none: "L p = None" and plain: "plain_in L (butlast p)" for m'
  proof -
    have w: "hoare (holds (L(p \<mapsto> File [] m')) D) (write_and_sync p bs)
        (\<lambda>_. holds (L(p \<mapsto> File bs m')) D) ?E"
      by (rule hoare_weaken [OF hoare_write_and_sync
          [where L = "L(p \<mapsto> File [] m')" and q = p and m = m' and old = "[]" and D = D]])
        (simp, assumption, simp, elim exE, rule E [OF _ none], simp)
    have "plain_in (L(p \<mapsto> File bs m')) p"
      by (rule plain_file_in [where n = "File bs m'"]) (use plain in \<open>simp_all add: plain_update\<close>)
    then have c: "hoare (holds (L(p \<mapsto> File bs m')) D) (set_mode p mode)
        (\<lambda>_. holds (L(p \<mapsto> File bs mode)) D) ?E"
      by (rule hoare_weaken [OF hoare_set_mode_file
          [where L = "L(p \<mapsto> File bs m')" and p = p and bs = bs and m = m' and D = D]])
        (simp, assumption, simp, rule E [OF _ none], assumption)
    have s: "hoare (holds (L(p \<mapsto> File bs mode)) D) (sync_parent (butlast p)) ?Q ?E"
      by (rule hoare_weaken [OF hoare_sync_parent])
        (assumption, simp add: none, rule E [OF _ none], assumption)
    show ?thesis by (rule hoare_bnd [OF w], rule hoare_bnd [OF c], rule s)
  qed
  show ?thesis
    unfolding write_new_def if_not_P [OF p]
    by (rule hoare_bnd [OF dir], rule hoare_bnd [OF hoare_map_fail_const [OF create]],
        rule hoare_assume) (use body in auto)
qed

section \<open>Properties\<close>

lemma holds_start: "tree_ok h \<Longrightarrow> holds (leaf h) {} h"
  by (simp add: holds_def)

definition demo_host :: host where
  "demo_host = \<lparr>nodes = [([], Dir 0x1ED), ([''s''], Dir 0x1C0), ([''s'', ''f''], File [9] 0x180)],
     umask = 0x12, process_id = 7, next_temp_file = 3, entropy = [], faults = [], stopped = False\<rparr>"

text \<open>The same host, where the tenth system call is the last of the process.\<close>

definition demo_crash :: host where
  "demo_crash = demo_host\<lparr>faults := replicate 9 None @ [Some StopProcess]\<rparr>"

lemma demo_host_tree: "tree_ok demo_host" "tree_ok demo_crash"
  by (simp_all add: tree_ok_def demo_crash_def demo_host_def node_at_def)

lemma demo_write:
  "fst (atomic_write [''s'', ''f''] [1, 2] 0x180 demo_host) = Inr ()"
  "\<not> is_ok (fst (atomic_write [''s'', ''f''] [1, 2] 0x180 demo_crash))"
  by code_simp+

text \<open>
  C19. Replacement is all or nothing. Whatever calls fail, are torn, or never happen because the
  process dies, \<open>atomic_write\<close> leaves at its path the old file or the complete new one with its
  mode, the new one if it reports success, and no other path but a staging name beside it changes.
\<close>
theorem atomic_write_all_or_nothing:
  assumes "tree_ok h" "atomic_write p bs mode h = (r, t)"
  shows "tree_ok t \<and> (leaf t p = leaf h p \<or> leaf t p = Some (File bs mode)) \<and>
    (r = Inr () \<longrightarrow> leaf t p = Some (File bs mode)) \<and>
    (\<forall>q. q \<noteq> p \<longrightarrow> \<not> staged p q \<longrightarrow> leaf t q = leaf h q)"
proof (cases r)
  case (Inl e)
  with hoare_Inl [OF hoare_atomic_write holds_start [OF assms(1)]] assms(2)
  show ?thesis by (fastforce simp: holds_def replaced_def)
next
  case (Inr u)
  with hoare_Inr [OF hoare_atomic_write holds_start [OF assms(1)]] assms(2)
  have "holds ((leaf h)(p \<mapsto> File bs mode)) {} t" by blast
  then show ?thesis by (simp add: holds_def)
qed

lemma atomic_write_all_or_nothing_witness:
  "(\<exists>t. atomic_write [''s'', ''f''] [1, 2] 0x180 demo_host = (Inr (), t) \<and>
     leaf t [''s'', ''f''] = Some (File [1, 2] 0x180)) \<and>
   (\<exists>e t. atomic_write [''s'', ''f''] [1, 2] 0x180 demo_crash = (Inl e, t) \<and>
     leaf t [''s'', ''f''] \<in> {Some (File [9] 0x180), Some (File [1, 2] 0x180)})"
proof
  obtain t where t: "atomic_write [''s'', ''f''] [1, 2] 0x180 demo_host = (Inr (), t)"
    using demo_write(1) by (metis prod.collapse)
  with atomic_write_all_or_nothing [OF demo_host_tree(1) t]
  show "\<exists>t. atomic_write [''s'', ''f''] [1, 2] 0x180 demo_host = (Inr (), t) \<and>
     leaf t [''s'', ''f''] = Some (File [1, 2] 0x180)" by blast
next
  obtain e t where t: "atomic_write [''s'', ''f''] [1, 2] 0x180 demo_crash = (Inl e, t)"
    using demo_write(2)
    by (cases "atomic_write [''s'', ''f''] [1, 2] 0x180 demo_crash"; cases "fst (atomic_write [''s'', ''f''] [1, 2] 0x180 demo_crash)") auto
  have "leaf demo_crash [''s'', ''f''] = Some (File [9] 0x180)"
    by (simp add: leaf_def demo_crash_def demo_host_def node_at_def)
  with atomic_write_all_or_nothing [OF demo_host_tree(2) t] t
  show "\<exists>e t. atomic_write [''s'', ''f''] [1, 2] 0x180 demo_crash = (Inl e, t) \<and>
     leaf t [''s'', ''f''] \<in> {Some (File [9] 0x180), Some (File [1, 2] 0x180)}" by auto
qed

text \<open>
  C23. A bounded read returns the complete contents of a regular file of at most that size, reached
  through no symbolic link and, when asked for, with owner-only permissions; it changes no file.
\<close>
theorem read_limited_sound:
  assumes "tree_ok h" "read_limited_inner p n private h = (Inr bs, t)"
  shows "leaf t = leaf h \<and> plain h p \<and> length bs \<le> n \<and>
    (\<exists>m. leaf h p = Some (File bs m) \<and> (private \<longrightarrow> \<not> too_open m))"
  using hoare_Inr [OF hoare_read_limited_inner holds_start [OF assms(1)] assms(2)]
  by (auto simp: holds_def)

lemma read_limited_sound_witness:
  "read_limited_inner [''s'', ''f''] 4 True demo_host = (Inr [9], demo_host) \<and>
   plain demo_host [''s'', ''f'']"
proof -
  have "read_limited_inner [''s'', ''f''] 4 True demo_host = (Inr [9], demo_host)" by code_simp
  with read_limited_sound [OF demo_host_tree(1) this] show ?thesis by blast
qed

text \<open>
  Exclusive creation. \<open>write_new\<close> never touches an existing file or any other path, and when it
  succeeds the path was free and now holds exactly the given bytes and mode.
\<close>
theorem write_new_exclusive:
  assumes "tree_ok h" "write_new p bs mode h = (r, t)"
  shows "tree_ok t \<and> (\<forall>q. q \<noteq> p \<longrightarrow> leaf t q = leaf h q) \<and>
    (leaf h p \<noteq> None \<longrightarrow> leaf t p = leaf h p) \<and>
    (r = Inr () \<longrightarrow> leaf h p = None \<and> leaf t p = Some (File bs mode))"
proof (cases r)
  case (Inl e)
  with hoare_Inl [OF hoare_write_new holds_start [OF assms(1)]] assms(2)
  show ?thesis by (fastforce simp: holds_def)
next
  case (Inr u)
  with hoare_Inr [OF hoare_write_new holds_start [OF assms(1)]] assms(2)
  have "leaf h p = None \<and> holds ((leaf h)(p \<mapsto> File bs mode)) {} t" by blast
  with Inr show ?thesis by (simp add: holds_def)
qed

lemma write_new_exclusive_witness:
  "\<exists>e t. write_new [''s'', ''f''] [1] 0x180 demo_host = (Inl e, t) \<and>
     leaf t [''s'', ''f''] = Some (File [9] 0x180)"
proof -
  have "\<not> is_ok (fst (write_new [''s'', ''f''] [1] 0x180 demo_host))" by code_simp
  then obtain e t where t: "write_new [''s'', ''f''] [1] 0x180 demo_host = (Inl e, t)"
    by (cases "write_new [''s'', ''f''] [1] 0x180 demo_host"; cases "fst (write_new [''s'', ''f''] [1] 0x180 demo_host)") auto
  have "leaf demo_host [''s'', ''f''] = Some (File [9] 0x180)"
    by (simp add: leaf_def demo_host_def node_at_def)
  with write_new_exclusive [OF demo_host_tree(1) t] t show ?thesis by auto
qed

end
