(* ===== verification/State_Store.thy ===== *)
theory State_Store
  imports State_Envelope Secure_Fs "HOL-Library.List_Lexorder"
begin

text \<open>
  The file checkpoint store of \<open>crates/dbx-rs-state/src/store.rs\<close> over the host: one directory per
  input with the current envelope and the previous one, a writer lock, compare-and-exchange, the
  activation of a configuration and the explicit restore. A lock of the process-wide mutex fails only
  when it is poisoned; the advisory file lock is a call that may fail.
\<close>

section \<open>The store\<close>

definition CURRENT_FILE :: string where "CURRENT_FILE = ''checkpoint.dbx''"
definition PREVIOUS_FILE :: string where "PREVIOUS_FILE = ''checkpoint.dbx.prev''"
definition WRITER_LOCK_FILE :: string where "WRITER_LOCK_FILE = ''.checkpoint-writer.lock''"

text \<open>What the store uses from outside: SHA-256 and the JSON codec of the state.\<close>

record state_env =
  env_sha :: hash
  env_to_json :: to_json
  env_from_json :: from_json

record checkpoint_store =
  store_root :: path
  writer_poisoned :: bool

datatype load_result = Missing | Current stored_state

type_synonym 'a store_io = "(host, state_store_error, 'a) op"

definition input_directory :: "checkpoint_store \<Rightarrow> state_key \<Rightarrow> path" where
  "input_directory st key = store_root st @ [''inputs'', directory_name key]"

definition current_path :: "checkpoint_store \<Rightarrow> state_key \<Rightarrow> path" where
  "current_path st key = input_directory st key @ [CURRENT_FILE]"

definition previous_path :: "checkpoint_store \<Rightarrow> state_key \<Rightarrow> path" where
  "previous_path st key = input_directory st key @ [PREVIOUS_FILE]"

definition writer_lock_path :: "checkpoint_store \<Rightarrow> path" where
  "writer_lock_path st = store_root st @ [WRITER_LOCK_FILE]"

section \<open>Paths\<close>

definition inspect_file :: "path \<Rightarrow> node option store_io" where
  "inspect_file p =
     bnd (attempt (sys_lstat p)) (\<lambda>r.
       case r of
         Inr n \<Rightarrow>
           if is_symlink n then throw St_PathSymlink
           else if \<not> is_file n then throw St_InvalidPathType
           else ret (Some n)
       | Inl e \<Rightarrow> if e = NotFound then ret None else throw St_Filesystem)"

definition check_private :: "node \<Rightarrow> unit store_io" where
  "check_private n = (if too_open (node_mode n) then throw St_InvalidPermissions else ret ())"

definition validate_directory_if_exists :: "path \<Rightarrow> unit store_io" where
  "validate_directory_if_exists p =
     bnd (attempt (sys_lstat p)) (\<lambda>r.
       case r of
         Inr n \<Rightarrow>
           if is_symlink n then throw St_PathSymlink
           else if \<not> is_dir n then throw St_InvalidPathType
           else check_private n
       | Inl e \<Rightarrow> if e = NotFound then ret () else throw St_Filesystem)"

definition ensure_directory :: "path \<Rightarrow> unit store_io" where
  "ensure_directory p =
     bnd (attempt (sys_lstat p)) (\<lambda>r.
       case r of
         Inr _ \<Rightarrow> validate_directory_if_exists p
       | Inl e \<Rightarrow>
           if e = NotFound then
             bnd (map_fail (\<lambda>_. St_Filesystem) (ensure_private_dir p)) (\<lambda>_.
               validate_directory_if_exists p)
           else throw St_Filesystem)"

definition read_envelope :: "state_env \<Rightarrow> path \<Rightarrow> (bytes \<times> stored_state) option store_io" where
  "read_envelope env p =
     bnd (inspect_file p) (\<lambda>m.
       case m of
         None \<Rightarrow> ret None
       | Some n \<Rightarrow>
           if node_len n > MAX_ENVELOPE_BYTES then throw St_EnvelopeTooLarge
           else
           bnd (check_private n) (\<lambda>_.
           bnd (map_fail (\<lambda>_. St_Filesystem) (read_limited p MAX_ENVELOPE_BYTES)) (\<lambda>bs.
           bnd (lift_res (decode_envelope (env_sha env) (env_from_json env) bs)) (\<lambda>s.
             ret (Some (bs, s))))))"

definition validate_input_directories :: "checkpoint_store \<Rightarrow> state_key \<Rightarrow> unit store_io" where
  "validate_input_directories st key =
     bnd (validate_directory_if_exists (store_root st)) (\<lambda>_.
     bnd (validate_directory_if_exists (store_root st @ [''inputs''])) (\<lambda>_.
       validate_directory_if_exists (input_directory st key)))"

definition ensure_input_directory :: "checkpoint_store \<Rightarrow> state_key \<Rightarrow> unit store_io" where
  "ensure_input_directory st key =
     bnd (ensure_directory (store_root st)) (\<lambda>_.
     bnd (ensure_directory (store_root st @ [''inputs''])) (\<lambda>_.
       ensure_directory (input_directory st key)))"

section \<open>Locks\<close>

definition lock_writer :: "checkpoint_store \<Rightarrow> unit store_io" where
  "lock_writer st = (if writer_poisoned st then throw St_LockPoisoned else ret ())"

definition sys_flock :: "path \<Rightarrow> unit io" where
  "sys_flock q = syscall (\<lambda>h. (Ok (), h))"

definition create_lock_file :: "path \<Rightarrow> unit store_io" where
  "create_lock_file p =
     handle (write_new p [] 0x180) (\<lambda>e.
       if err_io_kind e = Some AlreadyExists then ret () else throw St_Filesystem)"

definition acquire_writer_lock :: "checkpoint_store \<Rightarrow> unit store_io" where
  "acquire_writer_lock st =
     bnd (ensure_directory (store_root st)) (\<lambda>_.
     let p = writer_lock_path st in
     bnd (inspect_file p) (\<lambda>m.
     bnd (if m = None then create_lock_file p else ret ()) (\<lambda>_.
     bnd (inspect_file p) (\<lambda>m2.
     case m2 of
       None \<Rightarrow> throw St_Filesystem
     | Some n \<Rightarrow>
         bnd (check_private n) (\<lambda>_.
         bnd (map_fail (\<lambda>_. St_Filesystem) (sys_open_write p)) (\<lambda>file.
         bnd (map_fail (\<lambda>_. St_Filesystem) (sys_fstat file)) (\<lambda>n2.
         if \<not> is_file n2 then throw St_InvalidPathType
         else
         bnd (check_private n2) (\<lambda>_.
           map_fail (\<lambda>_. St_WriterLockUnavailable) (sys_flock file)))))))))"

section \<open>Reading the store\<close>

definition open_store :: "path option \<Rightarrow> checkpoint_store store_io" where
  "open_store root =
     (case root of
        None \<Rightarrow> throw St_InvalidRoot
      | Some r \<Rightarrow>
          bnd (validate_directory_if_exists r) (\<lambda>_.
          bnd (validate_directory_if_exists (r @ [''inputs''])) (\<lambda>_.
          bnd (inspect_file (r @ [WRITER_LOCK_FILE])) (\<lambda>m.
          bnd (case m of None \<Rightarrow> ret () | Some n \<Rightarrow> check_private n) (\<lambda>_.
            ret \<lparr>store_root = r, writer_poisoned = False\<rparr>)))))"

definition read_current_unlocked ::
    "state_env \<Rightarrow> checkpoint_store \<Rightarrow> state_key \<Rightarrow> (bytes \<times> stored_state) option store_io" where
  "read_current_unlocked env st key =
     bnd (validate_input_directories st key) (\<lambda>_.
     bnd (read_envelope env (current_path st key)) (\<lambda>v.
     case v of
       None \<Rightarrow> ret None
     | Some (bs, s) \<Rightarrow>
         bnd (lift_res (validate_key (env_sha env) key (stored_value s))) (\<lambda>_.
           ret (Some (bs, s)))))"

definition load_unlocked ::
    "state_env \<Rightarrow> checkpoint_store \<Rightarrow> state_key \<Rightarrow> load_result store_io" where
  "load_unlocked env st key =
     bnd (read_current_unlocked env st key) (\<lambda>v.
     case v of
       Some (_, s) \<Rightarrow> ret (Current s)
     | None \<Rightarrow> ret Missing)"

definition load :: "state_env \<Rightarrow> checkpoint_store \<Rightarrow> state_key \<Rightarrow> load_result store_io" where
  "load env st key = bnd (lock_writer st) (\<lambda>_. load_unlocked env st key)"

text \<open>One step of the directory iterator, which may fail.\<close>

definition next_input :: "unit store_io" where
  "next_input = map_fail (\<lambda>_. St_Filesystem) (syscall (\<lambda>h. (Ok (), h)))"

fun collect_inputs ::
    "state_env \<Rightarrow> path \<Rightarrow> string list \<Rightarrow> input_id list store_io" where
  "collect_inputs env inputs [] = ret []"
| "collect_inputs env inputs (name # names) =
     bnd next_input (\<lambda>_.
     bnd (validate_directory_if_exists (inputs @ [name])) (\<lambda>_.
     bnd (read_envelope env (inputs @ [name, CURRENT_FILE])) (\<lambda>v.
     case v of
       None \<Rightarrow> throw St_MissingCurrent
     | Some (_, s) \<Rightarrow>
         if name \<noteq> directory_name (state_key_for_input (env_sha env) (state_input_id (stored_value s)))
         then throw St_StateKeyMismatch
         else
         bnd (collect_inputs env inputs names) (\<lambda>ids.
           ret (state_input_id (stored_value s) # ids)))))"

definition input_ids :: "state_env \<Rightarrow> checkpoint_store \<Rightarrow> input_id list store_io" where
  "input_ids env st =
     bnd (lock_writer st) (\<lambda>_.
     bnd (validate_directory_if_exists (store_root st)) (\<lambda>_.
     let inputs = store_root st @ [''inputs''] in
     bnd (validate_directory_if_exists inputs) (\<lambda>_.
     bnd (attempt (sys_read_dir inputs)) (\<lambda>r.
     case r of
       Inl e \<Rightarrow> if e = NotFound then ret [] else throw St_Filesystem
     | Inr names \<Rightarrow>
         bnd (collect_inputs env inputs names) (\<lambda>ids.
           ret (sort_key input_id_bytes ids))))))"

section \<open>Writing the store\<close>

definition create ::
    "state_env \<Rightarrow> checkpoint_store \<Rightarrow> state_key \<Rightarrow> durable_state \<Rightarrow> stored_state store_io" where
  "create env st key v =
     bnd (lift_res (validate_key (env_sha env) key v)) (\<lambda>_.
     bnd (lift_res (map_err map_validation_error (state_validate (env_sha env) v))) (\<lambda>_.
     bnd (lift_res (encode_envelope (env_sha env) (env_to_json env) v 1)) (\<lambda>envelope.
     bnd (lift_res (decode_envelope (env_sha env) (env_from_json env) envelope)) (\<lambda>stored.
     bnd (lock_writer st) (\<lambda>_.
     bnd (acquire_writer_lock st) (\<lambda>_.
     bnd (ensure_input_directory st key) (\<lambda>_.
     bnd (read_envelope env (current_path st key)) (\<lambda>c.
     if c \<noteq> None then throw St_AlreadyExists
     else
     bnd (inspect_file (previous_path st key)) (\<lambda>p.
     if p \<noteq> None then throw St_OrphanedBackup
     else
     bnd (map_fail (\<lambda>_. St_Filesystem) (atomic_write (current_path st key) envelope 0x180)) (\<lambda>_.
       ret stored))))))))))"

definition replace_current_unlocked ::
    "state_env \<Rightarrow> checkpoint_store \<Rightarrow> state_key \<Rightarrow> bytes \<Rightarrow> stored_state \<Rightarrow> durable_state
       \<Rightarrow> stored_state store_io" where
  "replace_current_unlocked env st key current_bytes cur v =
     bnd (lift_res (ok_or St_RevisionOverflow (checked_add (revision (stored_token cur)) 1))) (\<lambda>next_revision.
     bnd (lift_res (encode_envelope (env_sha env) (env_to_json env) v next_revision)) (\<lambda>next_bytes.
     bnd (lift_res (decode_envelope (env_sha env) (env_from_json env) next_bytes)) (\<lambda>nxt.
     bnd (map_fail (\<lambda>_. St_Filesystem) (atomic_write (previous_path st key) current_bytes 0x180)) (\<lambda>_.
     bnd (map_fail (\<lambda>_. St_Filesystem) (atomic_write (current_path st key) next_bytes 0x180)) (\<lambda>_.
       ret nxt)))))"

text \<open>The part the three replacing operations share: both locks, the current envelope, the token.\<close>

definition with_current ::
    "state_env \<Rightarrow> checkpoint_store \<Rightarrow> state_key \<Rightarrow> state_token
       \<Rightarrow> (bytes \<Rightarrow> stored_state \<Rightarrow> stored_state store_io) \<Rightarrow> stored_state store_io" where
  "with_current env st key expected k =
     bnd (lock_writer st) (\<lambda>_.
     bnd (acquire_writer_lock st) (\<lambda>_.
     bnd (read_current_unlocked env st key) (\<lambda>c.
     case c of
       None \<Rightarrow> throw St_MissingCurrent
     | Some (current_bytes, cur) \<Rightarrow>
         bnd (lift_res (verify_expected (stored_token cur) expected)) (\<lambda>_.
           k current_bytes cur))))"

definition compare_exchange ::
    "state_env \<Rightarrow> checkpoint_store \<Rightarrow> state_key \<Rightarrow> state_token \<Rightarrow> durable_state
       \<Rightarrow> stored_state store_io" where
  "compare_exchange env st key expected v =
     bnd (lift_res (validate_key (env_sha env) key v)) (\<lambda>_.
     bnd (lift_res (map_err map_validation_error (state_validate (env_sha env) v))) (\<lambda>_.
     with_current env st key expected (\<lambda>current_bytes cur.
       bnd (lift_res (validate_transition (stored_value cur) v)) (\<lambda>_.
         replace_current_unlocked env st key current_bytes cur v))))"

definition activated :: "hash \<Rightarrow> durable_state \<Rightarrow> fingerprint \<Rightarrow> state_store_error + durable_state" where
  "activated sha cur fp =
     (if configuration_fingerprint cur = fp then Err St_ConfigurationUnchanged
      else if scan cur \<noteq> None \<or> active (coordinator cur) \<noteq> None
      then Err St_ConfigurationActivationBlocked
      else
        bindr (ok_or St_ConfigurationGenerationOverflow
            (checked_add (configuration_generation cur) 1)) (\<lambda>gen.
        let nxt = cur\<lparr>configuration_generation := gen, configuration_fingerprint := fp,
              coordinator := new_snapshot (configuration_fence_id sha fp gen)
                (generation (coordinator cur)) (committed (coordinator cur))\<rparr> in
        bindr (map_err map_validation_error (state_validate sha nxt)) (\<lambda>_. Ok nxt)))"

definition activate_configuration ::
    "state_env \<Rightarrow> checkpoint_store \<Rightarrow> state_key \<Rightarrow> state_token \<Rightarrow> fingerprint
       \<Rightarrow> stored_state store_io" where
  "activate_configuration env st key expected fp =
     with_current env st key expected (\<lambda>current_bytes cur.
       bnd (lift_res (activated (env_sha env) (stored_value cur) fp)) (\<lambda>nxt.
         replace_current_unlocked env st key current_bytes cur nxt))"

definition restore_previous ::
    "state_env \<Rightarrow> checkpoint_store \<Rightarrow> state_key \<Rightarrow> state_token \<Rightarrow> stored_state store_io" where
  "restore_previous env st key expected =
     with_current env st key expected (\<lambda>current_bytes cur.
       bnd (read_envelope env (previous_path st key)) (\<lambda>p.
       case p of
         None \<Rightarrow> throw St_MissingBackup
       | Some (_, previous) \<Rightarrow>
           bnd (lift_res (validate_key (env_sha env) key (stored_value previous))) (\<lambda>_.
           replace_current_unlocked env st key current_bytes cur (stored_value previous))))"

section \<open>Reading changes nothing\<close>

text \<open>A file hangs under real directories, so what \<open>lstat\<close> does not find is not there.\<close>

lemma leaf_plain:
  assumes "tree_ok h" "node_at h p = Some n"
  shows "plain h (butlast p)"
  unfolding plain_in_def
proof (intro allI impI)
  fix k assume "k \<le> length (butlast p)"
  have "dir_at h (take k (butlast p))"
    by (rule tree_ok_prefix [OF assms(1)]) (use assms in \<open>auto simp: tree_ok_iff\<close>)
  then show "case leaf h (take k (butlast p)) of None \<Rightarrow> True | Some n \<Rightarrow> \<not> is_symlink n"
    by (simp add: dir_not_leaf)
qed

lemma not_found_absent:
  assumes "tree_ok h" "\<forall>q. resolve_entry h p = Inr q \<longrightarrow> node_at h q = None"
  shows "leaf h p = None"
proof (cases "node_at h p")
  case (Some n)
  from leaf_plain [OF assms(1) Some] assms(1) Some
  have "resolve_entry h p = Inr p" by (intro resolve_entry_complete) (auto simp: tree_ok_iff)
  with assms(2) Some show ?thesis by simp
qed (simp add: leaf_def)

lemma hoare_attempt_lstat:
  "hoare (holds L D) (attempt (sys_lstat p))
     (\<lambda>r h. (r = Inl NotFound \<longrightarrow> L p = None) \<and> holds L D h) E"
  by (rule hoare_attempt, rule hoare_weaken [OF hoare_sys_lstat [of L D p]])
    (auto simp: holds_def dest: not_found_absent)

lemma hoare_inspect_file:
  "hoare (holds L D) (inspect_file p)
     (\<lambda>m h. (m = None \<longrightarrow> L p = None) \<and> holds L D h) (\<lambda>_. holds L D)"
  unfolding inspect_file_def
  by (rule hoare_bnd [OF hoare_attempt_lstat], intro hoare_case_sum hoare_if hoare_throw hoare_ret) auto

lemma hoare_check_private: "hoare P (check_private n) (\<lambda>_. P) (\<lambda>_. P)"
  unfolding check_private_def by (intro hoare_if hoare_throw hoare_ret)

lemma hoare_validate_directory:
  "hoare (holds L D) (validate_directory_if_exists p) (\<lambda>_. holds L D) (\<lambda>_. holds L D)"
  unfolding validate_directory_if_exists_def
  by (rule hoare_bnd [OF hoare_attempt_lstat],
      intro hoare_case_sum hoare_if hoare_throw hoare_ret hoare_weaken [OF hoare_check_private]) auto

lemma hoare_ensure_directory:
  "hoare (holds L D) (ensure_directory p) (\<lambda>_. holds L D) (\<lambda>_. holds L D)"
proof -
  have ens: "hoare (holds L D) (ensure_private_dir p) (\<lambda>_. holds L D) (\<lambda>_. holds L D)"
    by (rule hoare_weaken [OF hoare_ensure_private_dir [of L D]]) (auto intro: holds_mono)
  show ?thesis
    unfolding ensure_directory_def
    by (rule hoare_bnd [OF hoare_weaken [OF hoare_attempt_lstat, where Q' = "\<lambda>_. holds L D"
          and P' = "holds L D" and E' = "\<lambda>_. holds L D"]])
      (auto intro!: hoare_case_sum hoare_if hoare_throw hoare_validate_directory
        hoare_bnd [OF hoare_map_fail_const [OF ens]])
qed

lemma hoare_read_envelope:
  "hoare (holds L D) (read_envelope env p)
     (\<lambda>r h. (case r of None \<Rightarrow> L p = None
        | Some (bs, s) \<Rightarrow> (\<exists>m. L p = Some (File bs m)) \<and>
            decode_envelope (env_sha env) (env_from_json env) bs = Inr s) \<and> holds L D h)
     (\<lambda>_. holds L D)"
proof -
  have read: "hoare (holds L D) (read_limited p MAX_ENVELOPE_BYTES)
      (\<lambda>bs h. (\<exists>m. L p = Some (File bs m)) \<and> holds L D h) (\<lambda>_. holds L D)"
    by (rule hoare_weaken [OF hoare_read_limited [of L D p]]) auto
  have dec: "hoare (\<lambda>h. (\<exists>m. L p = Some (File bs m)) \<and> holds L D h)
      (bnd (lift_res (decode_envelope (env_sha env) (env_from_json env) bs)) (\<lambda>s. ret (Some (bs, s))))
      (\<lambda>r h. (case r of None \<Rightarrow> L p = None
        | Some (bs, s) \<Rightarrow> (\<exists>m. L p = Some (File bs m)) \<and>
            decode_envelope (env_sha env) (env_from_json env) bs = Inr s) \<and> holds L D h)
      (\<lambda>_. holds L D)" for bs
    by (auto simp: hoare_def bnd_def split: sum.split)
  show ?thesis
    unfolding read_envelope_def
  proof (rule hoare_bnd [OF hoare_inspect_file])
    fix m
    show "hoare (\<lambda>h. (m = None \<longrightarrow> L p = None) \<and> holds L D h)
      (case m of None \<Rightarrow> ret None
       | Some n \<Rightarrow>
           if node_len n > MAX_ENVELOPE_BYTES then throw St_EnvelopeTooLarge
           else
           bnd (check_private n) (\<lambda>_.
           bnd (map_fail (\<lambda>_. St_Filesystem) (read_limited p MAX_ENVELOPE_BYTES)) (\<lambda>bs.
           bnd (lift_res (decode_envelope (env_sha env) (env_from_json env) bs)) (\<lambda>s.
             ret (Some (bs, s))))))
      (\<lambda>r h. (case r of None \<Rightarrow> L p = None
        | Some (bs, s) \<Rightarrow> (\<exists>m. L p = Some (File bs m)) \<and>
            decode_envelope (env_sha env) (env_from_json env) bs = Inr s) \<and> holds L D h)
      (\<lambda>_. holds L D)"
      by (cases m)
        (auto intro!: hoare_ret hoare_if hoare_throw hoare_bnd [OF hoare_check_private]
          hoare_bnd [OF hoare_map_fail_const [OF read]] dec)
  qed
qed

lemma hoare_validate_input_directories:
  "hoare (holds L D) (validate_input_directories st key) (\<lambda>_. holds L D) (\<lambda>_. holds L D)"
  unfolding validate_input_directories_def by (rule hoare_bnd hoare_validate_directory)+

lemma hoare_ensure_input_directory:
  "hoare (holds L D) (ensure_input_directory st key) (\<lambda>_. holds L D) (\<lambda>_. holds L D)"
  unfolding ensure_input_directory_def by (rule hoare_bnd hoare_ensure_directory)+

lemma hoare_lock_writer: "hoare P (lock_writer st) (\<lambda>_. P) (\<lambda>_. P)"
  unfolding lock_writer_def by (intro hoare_if hoare_throw hoare_ret)

text \<open>The current envelope, as the file at its path decodes.\<close>

definition found ::
    "state_env \<Rightarrow> checkpoint_store \<Rightarrow> state_key \<Rightarrow> (path \<Rightarrow> node option) \<Rightarrow> bytes \<Rightarrow> stored_state \<Rightarrow> bool"
where
  "found env st key L bs s \<longleftrightarrow>
     (\<exists>m. L (current_path st key) = Some (File bs m)) \<and>
     decode_envelope (env_sha env) (env_from_json env) bs = Inr s \<and>
     validate_key (env_sha env) key (stored_value s) = Inr ()"

lemma hoare_read_current:
  "hoare (holds L D) (read_current_unlocked env st key)
     (\<lambda>r h. (case r of None \<Rightarrow> L (current_path st key) = None
        | Some (bs, s) \<Rightarrow> found env st key L bs s) \<and> holds L D h)
     (\<lambda>_. holds L D)"
  unfolding read_current_unlocked_def
  by (rule hoare_bnd [OF hoare_validate_input_directories], rule hoare_bnd [OF hoare_read_envelope])
    (auto simp: hoare_def bnd_def found_def split: option.split sum.split)

section \<open>What a write may change\<close>

text \<open>
  Every path outside the input's two envelopes, the writer lock and the staging files is left alone.
\<close>

definition elsewhere ::
    "checkpoint_store \<Rightarrow> state_key \<Rightarrow> (path \<Rightarrow> node option) \<Rightarrow> (path \<Rightarrow> node option) \<Rightarrow> bool" where
  "elsewhere st key L L' \<longleftrightarrow>
     (\<forall>q. q \<noteq> current_path st key \<and> q \<noteq> previous_path st key \<and> q \<noteq> writer_lock_path st \<and>
        \<not> staged (current_path st key) q \<and> \<not> staged (previous_path st key) q \<longrightarrow> L' q = L q)"

lemma elsewhere_refl [simp]: "elsewhere st key L L"
  by (simp add: elsewhere_def)

lemma elsewhere_trans: "elsewhere st key L M \<Longrightarrow> elsewhere st key M N \<Longrightarrow> elsewhere st key L N"
  by (simp add: elsewhere_def)

lemma store_paths_distinct [simp]:
  "current_path st key \<noteq> previous_path st key" "previous_path st key \<noteq> current_path st key"
  "current_path st key \<noteq> writer_lock_path st" "previous_path st key \<noteq> writer_lock_path st"
  "current_path st key \<noteq> []" "previous_path st key \<noteq> []"
  by (auto simp: current_path_def previous_path_def writer_lock_path_def input_directory_def
      CURRENT_FILE_def PREVIOUS_FILE_def)

lemma staged_tmp: "staged p q \<Longrightarrow> last q \<noteq> [] \<and> last (last q) = CHR ''p''"
  by (auto simp: staged_def staging_name_def)

lemma store_paths_not_staged [simp]:
  "\<not> staged p (current_path st key)" "\<not> staged p (previous_path st key)" "\<not> staged p (writer_lock_path st)"
  using staged_tmp [of p "current_path st key"] staged_tmp [of p "previous_path st key"]
    staged_tmp [of p "writer_lock_path st"]
  by (auto simp: current_path_def previous_path_def writer_lock_path_def CURRENT_FILE_def
      PREVIOUS_FILE_def WRITER_LOCK_FILE_def)

lemma elsewhere_replaced:
  "replaced (current_path st key) n L L' \<Longrightarrow> elsewhere st key L L'"
  "replaced (previous_path st key) n L L' \<Longrightarrow> elsewhere st key L L'"
  by (auto simp: replaced_def elsewhere_def)

lemma elsewhere_update:
  "elsewhere st key L (L(current_path st key := x))" "elsewhere st key L (L(previous_path st key := x))"
  by (simp_all add: elsewhere_def)

text \<open>Only the lock file differs after the lock has been taken.\<close>

definition locked :: "checkpoint_store \<Rightarrow> (path \<Rightarrow> node option) \<Rightarrow> (path \<Rightarrow> node option) \<Rightarrow> bool" where
  "locked st L L' \<longleftrightarrow> (\<forall>q. q \<noteq> writer_lock_path st \<longrightarrow> L' q = L q)"

abbreviation somehow ::
    "((path \<Rightarrow> node option) \<Rightarrow> bool) \<Rightarrow> path set \<Rightarrow> host \<Rightarrow> bool" where
  "somehow \<phi> D h \<equiv> \<exists>L'. \<phi> L' \<and> holds L' D h"

lemma hoare_somehow:
  "(\<And>L'. \<phi> L' \<Longrightarrow> hoare (holds L' D) m Q E) \<Longrightarrow> hoare (somehow \<phi> D) m Q E"
  by (rule hoare_assume)

lemma hoare_in_somehow:
  assumes "\<phi> L" "hoare (holds L D) m (\<lambda>_. holds L D) (\<lambda>_. holds L D)"
  shows "hoare (holds L D) m (\<lambda>_. somehow \<phi> D) (\<lambda>_. somehow \<phi> D)"
  by (rule hoare_weaken [OF assms(2)]) (use assms(1) in auto)

lemma hoare_keeps_somehow:
  assumes "\<And>L. hoare (holds L D) m (\<lambda>_. holds L D) (\<lambda>_. holds L D)"
  shows "hoare (somehow \<phi> D) m (\<lambda>_. somehow \<phi> D) (\<lambda>_. somehow \<phi> D)"
  by (rule hoare_somehow, rule hoare_in_somehow [OF _ assms])

lemma hoare_create_lock_file:
  "hoare (somehow (locked st L) D) (create_lock_file (writer_lock_path st))
     (\<lambda>_. somehow (locked st L) D) (\<lambda>_. somehow (locked st L) D)"
proof (rule hoare_somehow)
  fix L' assume L': "locked st L L'"
  have "hoare (holds L' D) (write_new (writer_lock_path st) [] 0x180)
      (\<lambda>_. somehow (locked st L) D) (\<lambda>_. somehow (locked st L) D)"
    by (rule hoare_weaken [OF hoare_write_new [of L' D]])
      (use L' in \<open>auto simp: locked_def\<close>, metis fun_upd_apply)
  then show "hoare (holds L' D) (create_lock_file (writer_lock_path st))
      (\<lambda>_. somehow (locked st L) D) (\<lambda>_. somehow (locked st L) D)"
    unfolding create_lock_file_def by (rule hoare_handle) (intro hoare_if hoare_ret hoare_throw)
qed

lemma hoare_sys_flock: "hoare (holds L D) (sys_flock q) (\<lambda>_. holds L D) (\<lambda>_. holds L D)"
  unfolding sys_flock_def by (rule hoare_syscall) (auto simp: hoare_def)

lemma hoare_plain_post:
  "hoare P m (\<lambda>a h. \<phi> a \<and> R h) E \<Longrightarrow> hoare P m (\<lambda>_. R) E"
  "hoare P m (\<lambda>a h. R h \<and> \<psi> a h) E \<Longrightarrow> hoare P m (\<lambda>_. R) E"
  by (auto elim: hoare_weaken)

lemmas hoare_steps =
  hoare_plain_post(1) [OF hoare_inspect_file] hoare_check_private hoare_ensure_directory hoare_sys_flock
  hoare_sys_open_write hoare_plain_post(2) [OF hoare_sys_fstat]

lemma hoare_acquire_writer_lock:
  "hoare (holds L D) (acquire_writer_lock st) (\<lambda>_. somehow (locked st L) D) (\<lambda>_. somehow (locked st L) D)"
proof -
  let ?S = "somehow (locked st L) D"
  have tail: "hoare ?S
      (case m2 of
       None \<Rightarrow> throw St_Filesystem
     | Some n \<Rightarrow>
         bnd (check_private n) (\<lambda>_.
         bnd (map_fail (\<lambda>_. St_Filesystem) (sys_open_write (writer_lock_path st))) (\<lambda>file.
         bnd (map_fail (\<lambda>_. St_Filesystem) (sys_fstat file)) (\<lambda>n2.
         if \<not> is_file n2 then throw St_InvalidPathType
         else
         bnd (check_private n2) (\<lambda>_.
           map_fail (\<lambda>_. St_WriterLockUnavailable) (sys_flock file)))))) (\<lambda>_. ?S) (\<lambda>_. ?S)" for m2
    by (cases m2)
      (auto intro!: hoare_throw hoare_if hoare_map_fail_const hoare_keeps_somehow hoare_steps
        hoare_bnd [OF hoare_check_private]
        hoare_bnd [OF hoare_map_fail_const [OF hoare_keeps_somehow [OF hoare_sys_open_write]]]
        hoare_bnd [OF hoare_map_fail_const [OF hoare_keeps_somehow [OF hoare_plain_post(2) [OF hoare_sys_fstat]]]])
  have inspect: "hoare ?S (inspect_file p) (\<lambda>_. ?S) (\<lambda>_. ?S)" for p
    by (rule hoare_keeps_somehow [OF hoare_plain_post(1) [OF hoare_inspect_file]])
  have create: "hoare ?S (if b then create_lock_file (writer_lock_path st) else ret ()) (\<lambda>_. ?S) (\<lambda>_. ?S)" for b
    by (auto intro: hoare_create_lock_file hoare_ret)
  have dir: "hoare (holds L D) (ensure_directory (store_root st)) (\<lambda>_. ?S) (\<lambda>_. ?S)"
    by (rule hoare_in_somehow [OF _ hoare_ensure_directory]) (simp add: locked_def)
  show ?thesis
    unfolding acquire_writer_lock_def Let_def
    by (rule hoare_bnd [OF dir], rule hoare_bnd [OF inspect], rule hoare_bnd [OF create],
        rule hoare_bnd [OF inspect], rule tail)
qed

section \<open>Replacing the current envelope\<close>

definition exchanged ::
    "state_env \<Rightarrow> checkpoint_store \<Rightarrow> state_key \<Rightarrow> stored_state \<Rightarrow> durable_state
       \<Rightarrow> (path \<Rightarrow> node option) \<Rightarrow> stored_state \<Rightarrow> bool" where
  "exchanged env st key cur v L' nxt \<longleftrightarrow>
     (\<exists>rv bs. checked_add (revision (stored_token cur)) 1 = Some rv \<and>
        encode_envelope (env_sha env) (env_to_json env) v rv = Inr bs \<and>
        decode_envelope (env_sha env) (env_from_json env) bs = Inr nxt \<and>
        L' (current_path st key) = Some (File bs 0x180))"

lemma hoare_replace_current:
  "hoare (holds L D) (replace_current_unlocked env st key current_bytes cur v)
     (\<lambda>nxt. somehow (\<lambda>L'. exchanged env st key cur v L' nxt \<and>
        L' (previous_path st key) = Some (File current_bytes 0x180) \<and> elsewhere st key L L') D)
     (\<lambda>_. somehow (\<lambda>L'. (L' (current_path st key) = L (current_path st key) \<or>
        (\<exists>nxt. exchanged env st key cur v L' nxt)) \<and> elsewhere st key L L') D)"
  (is "hoare _ _ ?Q ?E")
proof -
  let ?c = "current_path st key" and ?p = "previous_path st key"
  have err: "holds L D h \<Longrightarrow> ?E e h" for e h by (intro exI [of _ L]) simp
  have bad0: "?E e h" if "replaced ?p (File current_bytes 0x180) L L'" "holds L' D h" for e h L'
    using that elsewhere_replaced(2) [OF that(1)]
    by (intro exI [of _ L']) (auto simp: replaced_def)
  have prev: "hoare (holds L D) (atomic_write ?p current_bytes 0x180)
      (\<lambda>_. holds (L(?p \<mapsto> File current_bytes 0x180)) D) (\<lambda>_. ?E e)" for e
    by (rule hoare_weaken [OF hoare_atomic_write [of L D]]) (assumption, assumption, elim exE conjE, erule (1) bad0)
  have cur: "hoare (holds (L(?p \<mapsto> File current_bytes 0x180)) D)
      (bnd (map_fail (\<lambda>_. St_Filesystem) (atomic_write ?c bs 0x180)) (\<lambda>_. ret nxt)) ?Q ?E"
    if enc: "checked_add (revision (stored_token cur)) 1 = Some rv"
      "encode_envelope (env_sha env) (env_to_json env) v rv = Inr bs"
      "decode_envelope (env_sha env) (env_from_json env) bs = Inr nxt" for rv bs nxt
  proof -
    let ?L = "L(?p \<mapsto> File current_bytes 0x180)"
    have new: "exchanged env st key cur v L' nxt" if "L' ?c = Some (File bs 0x180)" for L'
      using enc that by (auto simp: exchanged_def)
    have good: "?Q nxt h" if "holds (?L(?c \<mapsto> File bs 0x180)) D h" for h
      using that by (intro exI [of _ "?L(?c \<mapsto> File bs 0x180)"]) (auto simp: new elsewhere_def)
    have bad: "?E e h" if "replaced ?c (File bs 0x180) ?L L'" "holds L' D h" for e h L'
      using that new [of L'] elsewhere_trans [OF elsewhere_update(2) elsewhere_replaced(1) [OF that(1)]]
      by (intro exI [of _ L']) (auto simp: replaced_def)
    have store: "hoare (holds ?L D) (atomic_write ?c bs 0x180)
        (\<lambda>_. holds (?L(?c \<mapsto> File bs 0x180)) D) (\<lambda>_. ?E e)" for e
      by (rule hoare_weaken [OF hoare_atomic_write [of ?L D]]) (assumption, assumption, elim exE conjE, erule (1) bad)
    show ?thesis
      by (rule hoare_bnd [OF hoare_map_fail_const [OF store]], rule hoare_ret, rule good)
  qed
  show ?thesis
    unfolding replace_current_unlocked_def
  proof (rule hoare_bnd)
    show "hoare (holds L D) (lift_res (ok_or St_RevisionOverflow (checked_add (revision (stored_token cur)) 1)))
        (\<lambda>rv h. checked_add (revision (stored_token cur)) 1 = Some rv \<and> holds L D h) ?E"
      by (rule hoare_lift_res) (auto intro: err)
  next
    fix rv
    show "hoare (\<lambda>h. checked_add (revision (stored_token cur)) 1 = Some rv \<and> holds L D h)
      (bnd (lift_res (encode_envelope (env_sha env) (env_to_json env) v rv)) (\<lambda>next_bytes.
       bnd (lift_res (decode_envelope (env_sha env) (env_from_json env) next_bytes)) (\<lambda>nxt.
       bnd (map_fail (\<lambda>_. St_Filesystem) (atomic_write ?p current_bytes 0x180)) (\<lambda>_.
       bnd (map_fail (\<lambda>_. St_Filesystem) (atomic_write ?c next_bytes 0x180)) (\<lambda>_. ret nxt))))) ?Q ?E"
    proof (cases "encode_envelope (env_sha env) (env_to_json env) v rv")
      case (Inr bs)
      show ?thesis
      proof (cases "decode_envelope (env_sha env) (env_from_json env) bs")
        case dec: (Inr nxt)
        have "hoare (holds L D)
            (bnd (map_fail (\<lambda>_. St_Filesystem) (atomic_write ?p current_bytes 0x180)) (\<lambda>_.
             bnd (map_fail (\<lambda>_. St_Filesystem) (atomic_write ?c bs 0x180)) (\<lambda>_. ret nxt))) ?Q ?E"
          if "checked_add (revision (stored_token cur)) 1 = Some rv"
          by (rule hoare_bnd [OF hoare_map_fail_const [OF prev]], rule cur [OF that Inr dec])
        then show ?thesis using Inr dec by (auto simp: hoare_def bnd_def)
      qed (use Inr err in \<open>auto simp: hoare_def bnd_def\<close>)
    qed (use err in \<open>auto simp: hoare_def bnd_def\<close>)
  qed
qed

section \<open>A locked exchange\<close>

text \<open>
  \<open>rule prev cur v\<close> says which states \<open>v\<close> may follow the current one, given the file at the backup
  path; \<open>advanced\<close> that the current envelope is now the encoding of such a state.
\<close>

definition advanced ::
    "state_env \<Rightarrow> checkpoint_store \<Rightarrow> state_key \<Rightarrow> (node option \<Rightarrow> stored_state \<Rightarrow> durable_state \<Rightarrow> bool)
       \<Rightarrow> (path \<Rightarrow> node option) \<Rightarrow> (path \<Rightarrow> node option) \<Rightarrow> bytes \<Rightarrow> stored_state \<Rightarrow> bool" where
  "advanced env st key rel L L' bs nxt \<longleftrightarrow>
     (\<exists>cur v. found env st key L bs cur \<and> rel (L (previous_path st key)) cur v \<and>
        exchanged env st key cur v L' nxt)"

definition replaced_ok ::
    "state_env \<Rightarrow> checkpoint_store \<Rightarrow> state_key \<Rightarrow> (node option \<Rightarrow> stored_state \<Rightarrow> durable_state \<Rightarrow> bool)
       \<Rightarrow> (path \<Rightarrow> node option) \<Rightarrow> stored_state \<Rightarrow> (path \<Rightarrow> node option) \<Rightarrow> bool" where
  "replaced_ok env st key rel L nxt L' \<longleftrightarrow>
     (\<exists>bs. advanced env st key rel L L' bs nxt \<and>
        L' (previous_path st key) = Some (File bs 0x180)) \<and> elsewhere st key L L'"

definition replaced_err ::
    "state_env \<Rightarrow> checkpoint_store \<Rightarrow> state_key \<Rightarrow> (node option \<Rightarrow> stored_state \<Rightarrow> durable_state \<Rightarrow> bool)
       \<Rightarrow> (path \<Rightarrow> node option) \<Rightarrow> (path \<Rightarrow> node option) \<Rightarrow> bool" where
  "replaced_err env st key rel L L' \<longleftrightarrow>
     (L' (current_path st key) = L (current_path st key) \<or>
        (\<exists>bs nxt. advanced env st key rel L L' bs nxt)) \<and> elsewhere st key L L'"

lemma locked_same:
  assumes "locked st L M"
  shows "M (current_path st key) = L (current_path st key)"
    "M (previous_path st key) = L (previous_path st key)" "elsewhere st key L M"
    "found env st key M bs cur = found env st key L bs cur"
  using assms store_paths_distinct [of st key]
  by (simp_all add: locked_def elsewhere_def found_def)

lemma locked_then:
  assumes "locked st L M"
  shows "replaced_ok env st key rel M nxt N \<Longrightarrow> replaced_ok env st key rel L nxt N"
    "replaced_err env st key rel M N \<Longrightarrow> replaced_err env st key rel L N"
  using locked_same [OF assms] elsewhere_trans [of st key L M N]
  by (auto simp: replaced_ok_def replaced_err_def advanced_def)

lemma locked_err: "locked st L M \<Longrightarrow> replaced_err env st key rel L M"
  by (simp add: replaced_err_def locked_same)

lemma verify_expected_Ok: "verify_expected t t' = Inr () \<longleftrightarrow> t = t'"
  by (cases t; cases t') (auto simp: verify_expected_def)

lemma hoare_replace_found:
  assumes "found env st key L bs cur" "rel (L (previous_path st key)) cur v"
  shows "hoare (holds L D) (replace_current_unlocked env st key bs cur v)
    (\<lambda>nxt. somehow (replaced_ok env st key rel L nxt) D)
    (\<lambda>_. somehow (replaced_err env st key rel L) D)"
proof (rule hoare_weaken [OF hoare_replace_current])
  fix nxt h
  assume "somehow (\<lambda>L'. exchanged env st key cur v L' nxt \<and>
    L' (previous_path st key) = Some (File bs 0x180) \<and> elsewhere st key L L') D h"
  with assms show "somehow (replaced_ok env st key rel L nxt) D h"
    by (auto simp: replaced_ok_def advanced_def)
next
  fix h
  assume "somehow (\<lambda>L'. (L' (current_path st key) = L (current_path st key) \<or>
    (\<exists>nxt. exchanged env st key cur v L' nxt)) \<and> elsewhere st key L L') D h"
  with assms show "somehow (replaced_err env st key rel L) D h"
    unfolding replaced_err_def advanced_def by blast
qed

lemma hoare_err_start: "hoare (holds L D) m (\<lambda>_. holds L D) (\<lambda>_. holds L D) \<Longrightarrow>
  hoare (holds L D) m (\<lambda>_. holds L D) (\<lambda>_. somehow (replaced_err env st key rel L) D)"
  by (erule hoare_weaken) (auto simp: replaced_err_def)

text \<open>The three replacing operations differ only in what they do with the envelope they found.\<close>

lemma hoare_with_current:
  assumes k: "\<And>M bs cur. found env st key M bs cur \<Longrightarrow> stored_token cur = expected \<Longrightarrow>
      hoare (holds M D) (k bs cur) (\<lambda>nxt. somehow (replaced_ok env st key rel M nxt) D)
        (\<lambda>_. somehow (replaced_err env st key rel M) D)"
  shows "hoare (holds L D) (with_current env st key expected k)
    (\<lambda>nxt. somehow (replaced_ok env st key rel L nxt) D)
    (\<lambda>_. somehow (replaced_err env st key rel L) D)" (is "hoare _ _ ?Q ?E")
proof -
  have start: "hoare (holds L D) (lock_writer st) (\<lambda>_. holds L D) ?E"
    by (rule hoare_weaken [OF hoare_lock_writer [of "holds L D"]]) (auto simp: replaced_err_def)
  have lock: "hoare (holds L D) (acquire_writer_lock st) (\<lambda>_. somehow (locked st L) D) ?E"
    by (rule hoare_weaken [OF hoare_acquire_writer_lock]) (auto dest: locked_err)
  have body: "hoare (holds M D)
      (bnd (read_current_unlocked env st key) (\<lambda>c.
       case c of
         None \<Rightarrow> throw St_MissingCurrent
       | Some (current_bytes, cur) \<Rightarrow>
           bnd (lift_res (verify_expected (stored_token cur) expected)) (\<lambda>_.
             k current_bytes cur))) ?Q ?E" if M: "locked st L M" for M
  proof (rule hoare_bnd)
    note err = locked_err [OF M, of env key rel]
    show "hoare (holds M D) (read_current_unlocked env st key)
        (\<lambda>c h. (case c of None \<Rightarrow> M (current_path st key) = None
          | Some (bs, s) \<Rightarrow> found env st key M bs s) \<and> holds M D h) ?E"
      by (rule hoare_weaken [OF hoare_read_current [of M D env st key]]) (use err in auto)
    fix c
    show "hoare (\<lambda>h. (case c of None \<Rightarrow> M (current_path st key) = None
        | Some (bs, s) \<Rightarrow> found env st key M bs s) \<and> holds M D h)
      (case c of
         None \<Rightarrow> throw St_MissingCurrent
       | Some (current_bytes, cur) \<Rightarrow>
           bnd (lift_res (verify_expected (stored_token cur) expected)) (\<lambda>_.
             k current_bytes cur)) ?Q ?E"
    proof (cases c)
      case None
      then show ?thesis using err by (auto intro!: hoare_throw)
    next
      case (Some x)
      obtain bs cur where x: "x = (bs, cur)" by force
      show ?thesis
      proof (cases "verify_expected (stored_token cur) expected")
        case (Inl e)
        with Some x err show ?thesis by (auto simp: hoare_def bnd_def)
      next
        case (Inr u)
        then have "stored_token cur = expected" by (cases u) (simp add: verify_expected_Ok)
        then have "hoare (holds M D) (k bs cur) ?Q ?E" if "found env st key M bs cur"
          by (rule hoare_weaken [OF k [OF that]]) (auto dest: locked_then [OF M, of env key rel])
        with Some x Inr show ?thesis by (auto simp: hoare_def bnd_def)
      qed
    qed
  qed
  show ?thesis
    unfolding with_current_def
    by (rule hoare_bnd [OF start], rule hoare_bnd [OF lock], rule hoare_somehow, rule body)
qed

end
