(* ===== verification/Host_Quiet.thy ===== *)
theory Host_Quiet
  imports Secure_Fs
begin

text \<open>
  Hosts on which nothing goes wrong: no fault is pending and the process runs. There the system calls are
  functions of the tree, so that an operation can be shown to succeed and not only to be safe when it
  does.
\<close>

definition quiet :: "host \<Rightarrow> bool" where
  "quiet h \<longleftrightarrow> faults h = [] \<and> \<not> stopped h"

lemma quiet_put [simp]: "quiet (put_node p n h) = quiet h" "quiet (drop_node p h) = quiet h"
  "quiet (h\<lparr>next_temp_file := i\<rparr>) = quiet h"
  by (simp_all add: quiet_def put_node_def drop_node_def)

lemma syscall_quiet: "quiet h \<Longrightarrow> syscall m h = m h"
  by (simp add: syscall_def quiet_def)

text \<open>A directory only its owner can use.\<close>

definition private_directory :: "host \<Rightarrow> path \<Rightarrow> bool" where
  "private_directory h p \<longleftrightarrow> (case node_at h p of Some (Dir m) \<Rightarrow> \<not> too_open m | _ \<Rightarrow> False)"

section \<open>Paths that are there\<close>

lemma dir_plain: "tree_ok h \<Longrightarrow> dir_at h d \<Longrightarrow> plain h d"
  by (simp add: plain_in_def dir_not_leaf tree_ok_prefix)

lemma parent_plain: "tree_ok h \<Longrightarrow> node_at h p = Some n \<Longrightarrow> p = [] \<or> dir_at h (butlast p) \<and> plain h (butlast p)"
  using tree_okD dir_plain by blast

lemma there_plain:
  assumes "tree_ok h" "node_at h p = Some n" "\<not> is_symlink n"
  shows "plain h p"
  unfolding plain_in_def
proof (intro allI impI)
  fix k assume "k \<le> length p"
  show "case leaf h (take k p) of None \<Rightarrow> True | Some n \<Rightarrow> \<not> is_symlink n"
  proof (cases "k = length p")
    case True
    then show ?thesis using assms(2,3) by (simp add: leaf_def)
  next
    case False
    with \<open>k \<le> length p\<close> have "take k p = take k (butlast p)" "p \<noteq> []" by (auto simp: take_butlast)
    with tree_ok_prefix [OF assms(1)] tree_okD [OF assms(1,2)] show ?thesis by (simp add: dir_not_leaf)
  qed
qed

lemma resolve_there:
  assumes "tree_ok h" "node_at h p = Some n" "\<not> is_symlink n"
  shows "resolve_path h p = Inr p"
  using tree_okD [OF assms(1,2)] by (intro resolve_path_complete [OF assms(1) there_plain [OF assms]]) auto

lemma entry_there:
  assumes "tree_ok h" "node_at h p = Some n"
  shows "resolve_entry h p = Inr p"
  using parent_plain [OF assms] resolve_entry_complete [OF assms(1), of p] by (auto simp: resolve_entry_def)

lemma entry_in_dir:
  assumes "tree_ok h" "dir_at h d"
  shows "resolve_entry h (d @ [x]) = Inr (d @ [x])"
proof -
  from dir_plain [OF assms] assms show ?thesis by (intro resolve_entry_complete) auto
qed

section \<open>Calls that read\<close>

lemma lstat_quiet: "quiet h \<Longrightarrow> tree_ok h \<Longrightarrow> node_at h p = Some n \<Longrightarrow> sys_lstat p h = (Inr n, h)"
  by (simp add: sys_lstat_def syscall_quiet entry_there bindr_def ok_or_def)

lemma stat_quiet:
  "quiet h \<Longrightarrow> tree_ok h \<Longrightarrow> node_at h p = Some n \<Longrightarrow> \<not> is_symlink n \<Longrightarrow> sys_stat p h = (Inr n, h)"
  by (simp add: sys_stat_def syscall_quiet resolve_there bindr_def ok_or_def)

lemma open_quiet:
  "quiet h \<Longrightarrow> tree_ok h \<Longrightarrow> node_at h p = Some n \<Longrightarrow> \<not> is_symlink n \<Longrightarrow> sys_open p h = (Inr p, h)"
  by (simp add: sys_open_def syscall_quiet resolve_there bindr_def ok_or_def)

lemma fstat_quiet: "quiet h \<Longrightarrow> node_at h p = Some n \<Longrightarrow> sys_fstat p h = (Inr n, h)"
  by (simp add: sys_fstat_def syscall_quiet ok_or_def)

lemma reader_quiet:
  "quiet h \<Longrightarrow> node_at h p = Some (File bs m) \<Longrightarrow> sys_reader p h = (Inr \<lparr>unread = bs, broken = None\<rparr>, h)"
  by (simp add: sys_reader_def syscall_quiet file_bytes_def quiet_def syscall_def)

lemma read_quiet:
  "quiet h \<Longrightarrow> node_at h p = Some (File bs m) \<Longrightarrow> sys_read p k h = (Inr (take k bs), h)"
  by (simp add: sys_read_def syscall_quiet)

lemma ancestor_there:
  assumes "tree_ok h" "node_at h p = Some n" "a \<in> set (ancestors p)" "\<not> is_symlink n"
  shows "\<exists>m. node_at h a = Some m \<and> \<not> is_symlink m"
proof -
  from assms(3) obtain k where k: "a = take k p" "k \<le> length p"
    by (auto simp: ancestors_def simp del: upt_Suc)
  show ?thesis
  proof (cases "k = length p")
    case False
    then have "a = take k (butlast p)" "p \<noteq> []" using k by (auto simp: take_butlast)
    with tree_ok_prefix [OF assms(1), of "butlast p" k] tree_okD [OF assms(1,2)] have "dir_at h a" by simp
    then obtain m where "node_at h a = Some m" "is_dir m" by (auto simp: dir_at_def split: option.split_asm)
    then show ?thesis by (cases m) auto
  next
    case True
    with k assms(2,4) show ?thesis by simp
  qed
qed

lemma reject_links_quiet:
  assumes "quiet h" "tree_ok h" "\<And>a. a \<in> set as \<Longrightarrow> \<exists>m. node_at h a = Some m \<and> \<not> is_symlink m"
  shows "reject_links as h = (Inr (), h)"
  using assms(3)
proof (induction as)
  case (Cons a as)
  then obtain m where "node_at h a = Some m" "\<not> is_symlink m" by auto
  with Cons show ?case
    by (simp add: bnd_def attempt_def lstat_quiet [OF assms(1,2)])
qed (simp add: ret_def)

lemma reject_quiet:
  assumes "quiet h" "tree_ok h" "node_at h p = Some n" "\<not> is_symlink n"
  shows "reject_existing_ancestor_symlinks p h = (Inr (), h)"
  unfolding reject_existing_ancestor_symlinks_def
  using ancestor_there [OF assms(2,3) _ assms(4)] by (intro reject_links_quiet [OF assms(1,2)])

lemma read_limited_quiet:
  assumes "quiet h" "tree_ok h" "node_at h p = Some (File bs m)" "length bs \<le> n"
  shows "read_limited p n h = (Inr bs, h)"
  using assms(4)
  by (simp add: read_limited_def read_limited_inner_def bnd_def map_fail_def lift_res_def ret_def
      reject_quiet [OF assms(1-3)] open_quiet [OF assms(1-3)] fstat_quiet [OF assms(1,3)]
      read_quiet [OF assms(1,3)])

section \<open>Calls that write\<close>

lemma mkdir_quiet:
  assumes "quiet h" "tree_ok h" "node_at h p = Some n"
  shows "sys_mkdir p h = (Inl AlreadyExists, h)"
  using assms by (simp add: sys_mkdir_def syscall_quiet entry_there)

lemma chmod_quiet:
  assumes "quiet h" "tree_ok h" "node_at h p = Some n" "\<not> is_symlink n"
  shows "sys_chmod p m h = (Inr (), put_node p (with_mode m n) h)"
  using assms by (simp add: sys_chmod_def syscall_quiet resolve_there bindr_def ok_or_def)

lemma create_new_quiet:
  assumes "quiet h" "tree_ok h" "dir_at h d" "node_at h (d @ [x]) = None"
  shows "sys_create_new (d @ [x]) m h = (Inr (d @ [x]), put_node (d @ [x]) (File [] (m AND NOT (umask h))) h)"
  using assms by (simp add: sys_create_new_def syscall_quiet entry_in_dir)

lemma write_quiet:
  assumes "quiet h" "node_at h p = Some (File old m)"
  shows "sys_write p bs h = (Inr (), put_node p (File (old @ bs) m) h)"
  using assms by (simp add: sys_write_def syscall_quiet append_bytes_def quiet_def syscall_def)

lemma fsync_quiet: "quiet h \<Longrightarrow> sys_fsync p h = (Inr (), h)"
  by (simp add: sys_fsync_def syscall_quiet)

lemma rename_quiet:
  assumes "quiet h" "tree_ok h" "node_at h (d @ [x]) = Some n" "\<not> is_dir n" "\<not> dir_at h (d @ [y])"
  shows "sys_rename (d @ [x]) (d @ [y]) h = (Inr (), put_node (d @ [y]) n (drop_node (d @ [x]) h))"
proof -
  from tree_okD [OF assms(2,3)] have "dir_at h d" by simp
  with assms show ?thesis
    by (auto simp: sys_rename_def syscall_quiet entry_there entry_in_dir bindr_def ok_or_def dir_at_def
        split: option.splits)
qed

lemma create_dir_all_quiet:
  assumes "quiet h" "tree_ok h" "node_at h p = Some (Dir m)"
  shows "create_dir_all p h = (Inr (), h)"
proof (cases p rule: rev_cases)
  case Nil
  then show ?thesis by (simp add: create_dir_all_def ret_def)
next
  case (snoc d x)
  note there = assms [unfolded snoc]
  show ?thesis unfolding snoc
    by (simp add: create_dir_all_def handle_def mkdir_quiet [OF there] dir_or_def bnd_def path_is_dir_def
        stat_quiet [OF there] ret_def)
qed

lemma ensure_private_dir_quiet:
  assumes "quiet h" "tree_ok h" "node_at h p = Some (Dir m)"
  shows "ensure_private_dir p h = (Inr (), put_node p (Dir 0x1C0) h)"
  by (simp add: ensure_private_dir_def bnd_def map_fail_def set_mode_def reject_quiet [OF assms]
      create_dir_all_quiet [OF assms] chmod_quiet [OF assms])

text \<open>Writing a file whole in a directory that is there, with a free staging name.\<close>

definition free_staging :: "host \<Rightarrow> path \<Rightarrow> string \<Rightarrow> bool" where
  "free_staging h d x \<longleftrightarrow> (\<forall>pid seq. node_at h (d @ [staging_name x pid seq]) = None)"

lemma staging_differs: "staging_name x pid seq \<noteq> x"
proof
  assume "staging_name x pid seq = x"
  then have "length (staging_name x pid seq) = length x" by simp
  then show False by (simp add: staging_name_def)
qed

lemma atomic_write_quiet:
  assumes "quiet h" "tree_ok h" "node_at h d = Some (Dir m)" "\<not> dir_at h (d @ [x])" "free_staging h d x"
  shows "\<exists>t. atomic_write (d @ [x]) bs mode h = (Inr (), t) \<and> quiet t \<and> tree_ok t \<and>
    node_at t = (node_at h)(d \<mapsto> Dir 0x1C0, d @ [x] \<mapsto> File bs mode)"
proof -
  define h1 where "h1 = put_node d (Dir 0x1C0) h"
  define h2 where "h2 = h1\<lparr>next_temp_file := next_temp_file h1 + 1\<rparr>"
  define y where "y = staging_name x (process_id h1) (next_temp_file h1)"
  have d: "dir_at h d" using assms(3) by (simp add: dir_at_def)
  have h1: "quiet h1" "tree_ok h1" unfolding h1_def
    using assms(1,2) tree_okD [OF assms(2,3)] by (auto intro!: tree_ok_put)
  have h2: "quiet h2" "tree_ok h2" "node_at h2 = (node_at h)(d \<mapsto> Dir 0x1C0)"
    using h1 by (auto simp: h2_def h1_def)
  have y: "node_at h2 (d @ [y]) = None" "y \<noteq> x"
    using assms(5) staging_differs [of x] by (auto simp: h2(3) free_staging_def y_def)
  have d2: "dir_at h2 d" by (simp add: dir_at_def h2(3))
  let ?f = "d @ [y]"
  define h3 where "h3 = put_node ?f (File [] (mode AND NOT (umask h2))) h2"
  define h4 where "h4 = put_node ?f (File bs (mode AND NOT (umask h2))) h3"
  define h5 where "h5 = put_node ?f (File bs mode) h4"
  define t where "t = put_node (d @ [x]) (File bs mode) (drop_node ?f h5)"
  note h3 = create_new_quiet [OF h2(1,2) d2 y(1), of mode, folded h3_def]
  have q: "quiet h3" "quiet h4" "quiet h5" "quiet t"
    using h2(1) by (simp_all add: h3_def h4_def h5_def t_def)
  have notdir: "\<not> dir_at h2 ?f" using y(1) by (simp add: dir_at_def)
  have ok: "tree_ok h3" "tree_ok h4" "tree_ok h5" unfolding h3_def h4_def h5_def
    using h2(2) d2 notdir by (auto intro!: tree_ok_put simp: dir_at_put)
  have f: "node_at h3 ?f = Some (File [] (mode AND NOT (umask h2)))"
    "node_at h4 ?f = Some (File bs (mode AND NOT (umask h2)))" "node_at h5 ?f = Some (File bs mode)"
    by (simp_all add: h3_def h4_def h5_def)
  have d5: "dir_at h5 d" "\<not> dir_at h5 (d @ [x])" "\<not> dir_at h5 ?f"
    using d2 assms(4) y(2) by (auto simp: h5_def h4_def h3_def h2(3) dir_at_def split: if_splits)
  have ok_t: "tree_ok t" unfolding t_def
    using ok(3) d5 by (auto intro!: tree_ok_put tree_ok_drop simp: dir_at_drop dir_at_put)
  have nodes: "node_at t = (node_at h)(d \<mapsto> Dir 0x1C0, d @ [x] \<mapsto> File bs mode)"
    using y(1) y(2) by (auto simp: t_def h5_def h4_def h3_def h2(3) fun_eq_iff)
  then have td: "node_at t d = Some (Dir 0x1C0)" by simp
  have "publish ?f (d @ [x]) bs mode h2 = (Inr (), t)"
    using write_quiet [OF q(1) f(1), of bs] chmod_quiet [OF q(2) ok(2) f(2), of mode] fsync_quiet [OF q(2)]
      rename_quiet [OF q(3) ok(3) f(3) _ d5(2)] open_quiet [OF q(4) ok_t td] fsync_quiet [OF q(4)]
    by (simp add: publish_def bnd_def map_fail_def write_and_sync_def set_mode_def sync_parent_def h3
        flip: h4_def h5_def t_def)
  then have "atomic_write (d @ [x]) bs mode h = (Inr (), t)"
    by (simp add: atomic_write_def bnd_def ensure_private_dir_quiet [OF assms(1-3), folded h1_def]
        next_temp_def process_id_of_def handle_def Let_def flip: h2_def y_def)
  with q(4) ok_t nodes show ?thesis by blast
qed


section \<open>Quiet hosts stay quiet\<close>

named_theorems keeps_rules "operations that leave a predicate alone, by their structure"

lemma keepsI: "(\<And>h r t. P h \<Longrightarrow> m h = (r, t) \<Longrightarrow> P t) \<Longrightarrow> keeps P m"
  by (rule hoareI) blast+

lemma keeps_steps [keeps_rules]:
  "keeps P m \<Longrightarrow> (\<And>a. keeps P (k a)) \<Longrightarrow> keeps P (bnd m k)"
  "keeps P m \<Longrightarrow> (\<And>e. keeps P (f e)) \<Longrightarrow> keeps P (handle m f)"
  "keeps P m \<Longrightarrow> keeps P (attempt m)" "keeps P m \<Longrightarrow> keeps P (map_fail g m)"
  "keeps P (ret a)" "keeps P (throw e)" "keeps P (lift_res r)"
  by (auto intro!: hoare_bnd hoare_handle hoare_attempt hoare_map_fail hoare_ret hoare_throw hoare_lift_res)

lemma keeps_cases [keeps_rules]:
  "keeps P m \<Longrightarrow> keeps P n \<Longrightarrow> keeps P (if b then m else n)"
  "(\<And>e. keeps P (f e)) \<Longrightarrow> (\<And>a. keeps P (g a)) \<Longrightarrow> keeps P (case r of Inl e \<Rightarrow> f e | Inr a \<Rightarrow> g a)"
  "keeps P m \<Longrightarrow> (\<And>a. keeps P (k a)) \<Longrightarrow> keeps P (case x of None \<Rightarrow> m | Some a \<Rightarrow> k a)"
  "(\<And>a b. keeps P (j a b)) \<Longrightarrow> keeps P (case y of (a, b) \<Rightarrow> j a b)"
  by (auto split: if_split sum.split option.split prod.split)

lemma keeps_quiet_syscall:
  assumes "\<And>h r t. quiet h \<Longrightarrow> m h = (r, t) \<Longrightarrow> quiet t"
  shows "keeps quiet (syscall m)"
proof -
  have "quiet t" if "quiet h" "syscall m h = (r, t)" for h r t
    using that assms by (simp add: syscall_quiet)
  then show ?thesis by (rule keepsI)
qed

lemma keeps_quiet_calls [keeps_rules]:
  "keeps quiet (sys_lstat p)" "keeps quiet (sys_stat p)" "keeps quiet (sys_open p)" "keeps quiet (sys_fstat p)"
  "keeps quiet (sys_fsync p)" "keeps quiet (sys_chmod p mode)" "keeps quiet (sys_mkdir p)" "keeps quiet (sys_rename p q)"
  "keeps quiet (sys_read_dir p)" "keeps quiet (syscall (\<lambda>h. (Ok (), h)))"
  unfolding sys_lstat_def sys_stat_def sys_open_def sys_fstat_def sys_fsync_def sys_chmod_def sys_mkdir_def
    sys_rename_def sys_read_dir_def
  by (rule keeps_quiet_syscall, auto split: sum.split_asm prod.split_asm if_split_asm)+

lemma keeps_quiet_reader [keeps_rules]: "keeps quiet (sys_reader p)"
proof -
  have "quiet t" if "quiet h" "sys_reader p h = (r, t)" for h t and r :: "'a + reader"
    using that by (auto simp: sys_reader_def syscall_quiet quiet_def syscall_def split: sum.split_asm)
  then show ?thesis by (rule keepsI)
qed

lemma keeps_quiet_is_dir [keeps_rules]: "keeps quiet (path_is_dir p)"
proof -
  have "quiet t" if "quiet h" "path_is_dir p h = (r, t)" for h r t
    using that by (auto simp: path_is_dir_def sys_stat_def syscall_quiet)
  then show ?thesis by (rule keepsI)
qed

lemma keeps_quiet_create_dirs [keeps_rules]: "keeps quiet (create_dirs cs)"
  by (induction cs) (simp_all only: create_dirs.simps dir_or_def, (intro keeps_rules; assumption)+)

lemma keeps_quiet_reject [keeps_rules]: "keeps quiet (reject_links as)"
  by (induction as) (simp_all only: reject_links.simps, (intro keeps_rules; assumption)+)

lemma keeps_quiet_ensure [keeps_rules]: "keeps quiet (ensure_private_dir p)"
  unfolding ensure_private_dir_def reject_existing_ancestor_symlinks_def create_dir_all_def set_mode_def
  by (intro keeps_rules)

text \<open>A file that every operation on the leaves leaves alone, on a quiet host.\<close>

definition quiet_file :: "path \<Rightarrow> node \<Rightarrow> host \<Rightarrow> bool" where
  "quiet_file q n h \<longleftrightarrow> quiet h \<and> tree_ok h \<and> leaf h q = Some n"

lemma keeps_quiet_file:
  assumes "\<And>L. keeps (holds L {}) m" "keeps quiet m"
  shows "keeps (quiet_file q n) m"
proof -
  have "quiet_file q n t" if h: "quiet_file q n h" and run: "m h = (r, t)" for h r t
  proof -
    from h have "holds (leaf h) {} h" "quiet h" by (simp_all add: quiet_file_def holds_def)
    with assms run have "holds (leaf h) {} t" "quiet t"
      by (cases r; auto dest: hoare_Inr hoare_Inl)+
    with h show ?thesis by (simp add: quiet_file_def holds_def)
  qed
  then show ?thesis by (rule keepsI)
qed

end
