(* ===== verification/Store_History.thy ===== *)
theory Store_History
  imports State_Store Host_Quiet
begin

text \<open>
  What the operations of the checkpoint store guarantee to their callers, whatever system calls fail
  or the process dies in: the stored state at an input's path changes only by one permitted exchange.
  The locale \<open>exchange_store\<close> is the interface its clients rely on; the model of
  \<open>compare_exchange\<close> interprets it.
\<close>

section \<open>The stored state of an input\<close>

definition stored_view :: "state_env \<Rightarrow> checkpoint_store \<Rightarrow> state_key \<Rightarrow> host \<Rightarrow> stored_state option" where
  "stored_view env st key h =
     (case leaf h (current_path st key) of
        Some (File bs m) \<Rightarrow>
          (case decode_envelope (env_sha env) (env_from_json env) bs of
             Inr s \<Rightarrow> if validate_key (env_sha env) key (stored_value s) = Inr () then Some s else None
           | Inl _ \<Rightarrow> None)
      | _ \<Rightarrow> None)"

text \<open>The same for the backup path.\<close>

definition backup_view :: "state_env \<Rightarrow> checkpoint_store \<Rightarrow> state_key \<Rightarrow> host \<Rightarrow> stored_state option" where
  "backup_view env st key h =
     (case leaf h (previous_path st key) of
        Some (File bs m) \<Rightarrow>
          (case decode_envelope (env_sha env) (env_from_json env) bs of
             Inr s \<Rightarrow> if validate_key (env_sha env) key (stored_value s) = Inr () then Some s else None
           | Inl _ \<Rightarrow> None)
      | _ \<Rightarrow> None)"

lemma found_backup:
  "found env st key L bs s \<Longrightarrow> leaf t (previous_path st key) = Some (File bs m) \<Longrightarrow>
   backup_view env st key t = Some s"
  by (auto simp: found_def backup_view_def)

lemma found_view: "found env st key (leaf h) bs s \<Longrightarrow> stored_view env st key h = Some s"
  by (auto simp: found_def stored_view_def)

lemma view_found:
  "stored_view env st key h = Some s \<Longrightarrow> \<exists>bs. found env st key (leaf h) bs s"
  by (auto simp: found_def stored_view_def split: option.split_asm node.split_asm sum.split_asm if_split_asm)

lemma view_cong: "leaf t (current_path st key) = leaf h (current_path st key) \<Longrightarrow>
  stored_view env st key t = stored_view env st key h"
  by (simp add: stored_view_def)

lemma view_valid:
  "stored_view env st key h = Some s \<Longrightarrow> state_validate (env_sha env) (stored_value s) = Inr ()"
  by (auto dest!: view_found simp: found_def dest: decoded_valid)

text \<open>The stored state moves from \<open>cur\<close> to a state holding \<open>v\<close> at the next revision.\<close>

definition exchange_to ::
    "state_env \<Rightarrow> checkpoint_store \<Rightarrow> state_key \<Rightarrow> stored_state \<Rightarrow> durable_state \<Rightarrow> host \<Rightarrow> bool" where
  "exchange_to env st key cur v t \<longleftrightarrow>
     (\<exists>nxt. stored_view env st key t = Some nxt \<and> stored_value nxt = v \<and>
        unat (revision (stored_token nxt)) = Suc (unat (revision (stored_token cur))))"

lemma exchanged_view:
  assumes "sha_sized (env_sha env)" "json_roundtrip (env_to_json env) (env_from_json env) v"
    and "validate_key (env_sha env) key v = Inr ()"
    and "exchanged env st key cur v (leaf t) nxt"
  shows "stored_view env st key t = Some nxt" "exchange_to env st key cur v t"
proof -
  from assms(4) obtain rv bs where
      rv: "checked_add (revision (stored_token cur)) 1 = Some rv"
    and enc: "encode_envelope (env_sha env) (env_to_json env) v rv = Inr bs"
    and dec: "decode_envelope (env_sha env) (env_from_json env) bs = Inr nxt"
    and leaf: "leaf t (current_path st key) = Some (File bs 0x180)"
    by (auto simp: exchanged_def)
  obtain d where "decode_envelope (env_sha env) (env_from_json env) bs =
      Inr \<lparr>stored_value = v, stored_token = \<lparr>revision = rv, digest = d\<rparr>\<rparr>"
    by (rule encode_envelope_decodes [OF assms(1,2) enc])
  with dec have nxt: "stored_value nxt = v" "revision (stored_token nxt) = rv" by auto
  with leaf dec assms(3) show view: "stored_view env st key t = Some nxt"
    by (simp add: stored_view_def)
  from unat_checked_add [OF rv] view nxt show "exchange_to env st key cur v t" by (simp add: exchange_to_def)
qed

section \<open>The three replacing operations\<close>

definition exchange_rel ::
    "state_env \<Rightarrow> state_key \<Rightarrow> state_token \<Rightarrow> durable_state
       \<Rightarrow> node option \<Rightarrow> stored_state \<Rightarrow> durable_state \<Rightarrow> bool" where
  "exchange_rel env key expected v prev cur v' \<longleftrightarrow>
     stored_token cur = expected \<and> validate_key (env_sha env) key v = Inr () \<and>
     state_validate (env_sha env) v = Inr () \<and>
     validate_transition (stored_value cur) v = Inr () \<and> v' = v"

definition activate_rel ::
    "state_env \<Rightarrow> state_token \<Rightarrow> fingerprint \<Rightarrow> node option \<Rightarrow> stored_state \<Rightarrow> durable_state \<Rightarrow> bool" where
  "activate_rel env expected fp prev cur v \<longleftrightarrow>
     stored_token cur = expected \<and> activated (env_sha env) (stored_value cur) fp = Inr v"

definition restore_rel ::
    "state_env \<Rightarrow> state_key \<Rightarrow> state_token \<Rightarrow> node option \<Rightarrow> stored_state \<Rightarrow> durable_state \<Rightarrow> bool" where
  "restore_rel env key expected prev cur v \<longleftrightarrow>
     stored_token cur = expected \<and>
     (\<exists>bs m s. prev = Some (File bs m) \<and>
        decode_envelope (env_sha env) (env_from_json env) bs = Inr s \<and>
        validate_key (env_sha env) key v = Inr () \<and> v = stored_value s)"

lemma hoare_pure_steps:
  assumes "\<And>a. r = Inr a \<Longrightarrow> hoare (holds L D) (k a) Q (\<lambda>_. somehow (replaced_err env st key rel L) D)"
  shows "hoare (holds L D) (bnd (lift_res r) k) Q (\<lambda>_. somehow (replaced_err env st key rel L) D)"
  using assms by (cases r) (auto simp: hoare_def bnd_def replaced_err_def)

lemma hoare_compare_exchange:
  "hoare (holds L D) (compare_exchange env st key expected v)
    (\<lambda>nxt. somehow (replaced_ok env st key (exchange_rel env key expected v) L nxt) D)
    (\<lambda>_. somehow (replaced_err env st key (exchange_rel env key expected v) L) D)"
  unfolding compare_exchange_def
  by (intro hoare_pure_steps hoare_with_current hoare_replace_found) (auto simp: exchange_rel_def)

lemma hoare_activate_configuration:
  "hoare (holds L D) (activate_configuration env st key expected fp)
    (\<lambda>nxt. somehow (replaced_ok env st key (activate_rel env expected fp) L nxt) D)
    (\<lambda>_. somehow (replaced_err env st key (activate_rel env expected fp) L) D)"
  unfolding activate_configuration_def
  by (intro hoare_pure_steps hoare_with_current hoare_replace_found) (auto simp: activate_rel_def)

lemma hoare_restore_previous:
  "hoare (holds L D) (restore_previous env st key expected)
    (\<lambda>nxt. somehow (replaced_ok env st key (restore_rel env key expected) L nxt) D)
    (\<lambda>_. somehow (replaced_err env st key (restore_rel env key expected) L) D)"
  unfolding restore_previous_def
proof (rule hoare_with_current)
  fix M :: "path \<Rightarrow> node option" and bs cur
  assume found: "found env st key M bs cur" "stored_token cur = expected"
  let ?E = "\<lambda>_. somehow (replaced_err env st key (restore_rel env key expected) M) D"
  have read: "hoare (holds M D) (read_envelope env (previous_path st key))
     (\<lambda>r h. (case r of None \<Rightarrow> M (previous_path st key) = None
        | Some (bs, s) \<Rightarrow> (\<exists>m. M (previous_path st key) = Some (File bs m)) \<and>
            decode_envelope (env_sha env) (env_from_json env) bs = Inr s) \<and> holds M D h) ?E"
    by (rule hoare_weaken [OF hoare_read_envelope [of M D]]) (auto simp: replaced_err_def)
  have step: "hoare (holds M D)
      (bnd (lift_res (validate_key (env_sha env) key (stored_value s))) (\<lambda>_.
        replace_current_unlocked env st key bs cur (stored_value s)))
      (\<lambda>nxt. somehow (replaced_ok env st key (restore_rel env key expected) M nxt) D) ?E"
    if "M (previous_path st key) = Some (File pb m)"
      "decode_envelope (env_sha env) (env_from_json env) pb = Inr s" for pb m s
    by (intro hoare_pure_steps hoare_replace_found [OF found(1)])
      (use that found(2) in \<open>auto simp: restore_rel_def\<close>)
  have all: "hoare (\<lambda>h. (case r of None \<Rightarrow> M (previous_path st key) = None
        | Some (bs, s) \<Rightarrow> (\<exists>m. M (previous_path st key) = Some (File bs m)) \<and>
            decode_envelope (env_sha env) (env_from_json env) bs = Inr s) \<and> holds M D h)
      (case r of
         None \<Rightarrow> throw St_MissingBackup
       | Some (_, previous) \<Rightarrow>
           bnd (lift_res (validate_key (env_sha env) key (stored_value previous))) (\<lambda>_.
             replace_current_unlocked env st key bs cur (stored_value previous)))
      (\<lambda>nxt. somehow (replaced_ok env st key (restore_rel env key expected) M nxt) D) ?E" for r
  proof (cases r)
    case None
    then show ?thesis by (auto intro!: hoare_throw simp: replaced_err_def)
  next
    case (Some x)
    obtain pb s where x: "x = (pb, s)" by force
    show ?thesis
      unfolding Some x option.case prod.case by (rule hoare_when) (elim conjE exE, rule step)
  qed
  show "hoare (holds M D)
      (bnd (read_envelope env (previous_path st key)) (\<lambda>p. case p of
         None \<Rightarrow> throw St_MissingBackup
       | Some (_, previous) \<Rightarrow>
           bnd (lift_res (validate_key (env_sha env) key (stored_value previous))) (\<lambda>_.
             replace_current_unlocked env st key bs cur (stored_value previous))))
      (\<lambda>nxt. somehow (replaced_ok env st key (restore_rel env key expected) M nxt) D) ?E"
    by (rule hoare_bnd [OF read all])
qed

section \<open>Creation\<close>

definition created_err :: "checkpoint_store \<Rightarrow> state_key \<Rightarrow> bytes \<Rightarrow> (path \<Rightarrow> node option)
    \<Rightarrow> (path \<Rightarrow> node option) \<Rightarrow> bool" where
  "created_err st key envelope L L' \<longleftrightarrow> elsewhere st key L L' \<and>
     L' (previous_path st key) = L (previous_path st key) \<and>
     (L' (current_path st key) = L (current_path st key) \<or>
        L (current_path st key) = None \<and> L (previous_path st key) = None \<and>
        L' (current_path st key) = Some (File envelope 0x180))"

definition created_ok :: "checkpoint_store \<Rightarrow> state_key \<Rightarrow> bytes \<Rightarrow> (path \<Rightarrow> node option)
    \<Rightarrow> (path \<Rightarrow> node option) \<Rightarrow> bool" where
  "created_ok st key envelope L L' \<longleftrightarrow> elsewhere st key L L' \<and>
     L' (previous_path st key) = L (previous_path st key) \<and>
     L (current_path st key) = None \<and> L (previous_path st key) = None \<and>
     L' (current_path st key) = Some (File envelope 0x180)"

lemma created_unchanged: "created_err st key envelope L L"
  by (simp add: created_err_def)

lemma created_locked:
  assumes "locked st L M"
  shows "created_err st key envelope M N \<Longrightarrow> created_err st key envelope L N"
    "created_ok st key envelope M N \<Longrightarrow> created_ok st key envelope L N"
  using locked_same(1-3) [OF assms, of key] elsewhere_trans [of st key L M N]
  by (simp_all add: created_err_def created_ok_def)

lemma hoare_create_write:
  assumes "M (current_path st key) = None" "M (previous_path st key) = None"
  shows "hoare (holds M D)
    (bnd (map_fail (\<lambda>_. St_Filesystem) (atomic_write (current_path st key) envelope 0x180)) (\<lambda>_. ret stored))
    (\<lambda>s. somehow (\<lambda>L'. s = stored \<and> created_ok st key envelope M L') D)
    (\<lambda>_. somehow (created_err st key envelope M) D)"
proof -
  let ?c = "current_path st key"
  have bad: "somehow (created_err st key envelope M) D h"
    if "replaced ?c (File envelope 0x180) M L'" "holds L' D h" for L' h
    using that elsewhere_replaced(1) [OF that(1)] assms
    by (intro exI [of _ L']) (auto simp: created_err_def replaced_def)
  have store: "hoare (holds M D) (atomic_write ?c envelope 0x180)
      (\<lambda>_. holds (M(?c \<mapsto> File envelope 0x180)) D) (\<lambda>_. somehow (created_err st key envelope M) D)"
    by (rule hoare_weaken [OF hoare_atomic_write [of M D]]) (assumption, assumption, elim exE conjE, erule (1) bad)
  have good: "somehow (\<lambda>L'. stored = stored \<and> created_ok st key envelope M L') D h"
    if "holds (M(?c \<mapsto> File envelope 0x180)) D h" for h
    using that assms by (intro exI [of _ "M(?c \<mapsto> File envelope 0x180)"])
      (auto simp: created_ok_def elsewhere_update)
  show ?thesis
    by (rule hoare_bnd [OF hoare_map_fail_const [OF store]], rule hoare_ret, rule good)
qed

lemma hoare_created_pure:
  assumes "\<And>a. r = Inr a \<Longrightarrow> hoare (holds L D) (k a) Q (\<lambda>_. somehow (created_err st key bs L) D)"
  shows "hoare (holds L D) (bnd (lift_res r) k) Q (\<lambda>_. somehow (created_err st key bs L) D)"
  using assms by (cases r) (auto simp: hoare_def bnd_def intro: created_unchanged)

lemma hoare_create_body:
  "hoare (holds M D)
    (bnd (ensure_input_directory st key) (\<lambda>_.
     bnd (read_envelope env (current_path st key)) (\<lambda>c.
     if c \<noteq> None then throw St_AlreadyExists
     else
     bnd (inspect_file (previous_path st key)) (\<lambda>p.
     if p \<noteq> None then throw St_OrphanedBackup
     else
     bnd (map_fail (\<lambda>_. St_Filesystem) (atomic_write (current_path st key) envelope 0x180)) (\<lambda>_.
       ret stored)))))
    (\<lambda>s. somehow (\<lambda>L'. s = stored \<and> created_ok st key envelope M L') D)
    (\<lambda>_. somehow (created_err st key envelope M) D)" (is "hoare _ _ ?Q ?E")
proof -
  have err: "hoare P m R (\<lambda>_. holds M D) \<Longrightarrow> hoare P m R ?E" for P R and m :: "'b store_io"
    by (erule hoare_weaken) (auto intro: created_unchanged)
  have fail: "hoare (\<lambda>h. \<phi> \<and> holds M D h) (throw e) ?Q ?E" for \<phi> e
    by (rule hoare_throw) (auto intro: created_unchanged)
  have read: "hoare (holds M D) (read_envelope env (current_path st key))
      (\<lambda>c h. (c = None \<longrightarrow> M (current_path st key) = None) \<and> holds M D h) (\<lambda>_. holds M D)"
    by (rule hoare_weaken [OF hoare_read_envelope [of M D]]) auto
  have last: "hoare (\<lambda>h. (p = None \<longrightarrow> M (previous_path st key) = None) \<and> holds M D h)
      (if p \<noteq> None then throw St_OrphanedBackup
       else bnd (map_fail (\<lambda>_. St_Filesystem) (atomic_write (current_path st key) envelope 0x180))
         (\<lambda>_. ret stored)) ?Q ?E" if "M (current_path st key) = None" for p
    by (rule hoare_if [OF fail], rule hoare_when, rule hoare_create_write) (use that in auto)
  have mid: "hoare (\<lambda>h. (c = None \<longrightarrow> M (current_path st key) = None) \<and> holds M D h)
     (if c \<noteq> None then throw St_AlreadyExists
      else
      bnd (inspect_file (previous_path st key)) (\<lambda>p.
      if p \<noteq> None then throw St_OrphanedBackup
      else
      bnd (map_fail (\<lambda>_. St_Filesystem) (atomic_write (current_path st key) envelope 0x180)) (\<lambda>_.
        ret stored))) ?Q ?E" for c
    by (rule hoare_if [OF fail], rule hoare_when, rule hoare_bnd [OF err [OF hoare_inspect_file]], rule last) auto
  show ?thesis
    by (rule hoare_bnd [OF err [OF hoare_ensure_input_directory]], rule hoare_bnd [OF err [OF read]], rule mid)
qed

lemma hoare_create:
  "hoare (holds L D) (create env st key v)
    (\<lambda>s. somehow (\<lambda>L'. \<exists>bs. encode_envelope (env_sha env) (env_to_json env) v 1 = Inr bs \<and>
        decode_envelope (env_sha env) (env_from_json env) bs = Inr s \<and>
        validate_key (env_sha env) key v = Inr () \<and> created_ok st key bs L L') D)
    (\<lambda>_. somehow (\<lambda>L'. L' = L \<or> (\<exists>bs. encode_envelope (env_sha env) (env_to_json env) v 1 = Inr bs \<and>
        validate_key (env_sha env) key v = Inr () \<and> created_err st key bs L L')) D)"
    (is "hoare _ _ ?Q ?E")
proof -
  have pure: "hoare (holds L D) (bnd (lift_res r) k) ?Q ?E"
    if "\<And>a. r = Inr a \<Longrightarrow> hoare (holds L D) (k a) ?Q ?E" for r and k :: "'x \<Rightarrow> stored_state store_io"
    using that by (cases r) (auto simp: hoare_def bnd_def)
  have body: "hoare (holds L D)
      (bnd (lock_writer st) (\<lambda>_. bnd (acquire_writer_lock st) (\<lambda>_.
       bnd (ensure_input_directory st key) (\<lambda>_.
       bnd (read_envelope env (current_path st key)) (\<lambda>c.
       if c \<noteq> None then throw St_AlreadyExists
       else
       bnd (inspect_file (previous_path st key)) (\<lambda>p.
       if p \<noteq> None then throw St_OrphanedBackup
       else
       bnd (map_fail (\<lambda>_. St_Filesystem) (atomic_write (current_path st key) bs 0x180)) (\<lambda>_.
         ret s))))))) ?Q ?E"
    if facts: "validate_key (env_sha env) key v = Inr ()"
      "encode_envelope (env_sha env) (env_to_json env) v 1 = Inr bs"
      "decode_envelope (env_sha env) (env_from_json env) bs = Inr s" for bs s
  proof -
    have errI: "?E e h" if "created_err st key bs L L'" "holds L' D h" for e h L'
      using that facts(1,2) by (intro exI [of _ L']) simp
    have okI: "?Q s h" if "created_ok st key bs L L'" "holds L' D h" for h L'
      using that facts by (intro exI [of _ L']) simp
    have start: "hoare (holds L D) (lock_writer st) (\<lambda>_. holds L D) ?E"
      by (rule hoare_weaken [OF hoare_lock_writer [of "holds L D"]]) auto
    have lock: "hoare (holds L D) (acquire_writer_lock st) (\<lambda>_. somehow (locked st L) D) ?E"
      by (rule hoare_weaken [OF hoare_acquire_writer_lock], assumption, assumption)
        (elim exE conjE, rule errI [OF created_locked(1) [OF _ created_unchanged]])
    show ?thesis
      by (rule hoare_bnd [OF start], rule hoare_bnd [OF lock], rule hoare_somehow,
          rule hoare_weaken [OF hoare_create_body], assumption)
        (elim exE conjE, simp only:, rule okI [OF created_locked(2)], assumption+,
         elim exE conjE, rule errI [OF created_locked(1)], assumption+)
  qed
  show ?thesis
    unfolding create_def by (intro pure body) (auto intro: body)
qed

section \<open>Outcomes\<close>

lemma replace_outcome:
  assumes "hoare (holds (leaf h) {}) m (\<lambda>nxt. somehow (replaced_ok env st key rel (leaf h) nxt) {})
      (\<lambda>_. somehow (replaced_err env st key rel (leaf h)) {})"
    and "tree_ok h" "m h = (r, t)"
  shows "tree_ok t" "elsewhere st key (leaf h) (leaf t)"
    "leaf t (current_path st key) = leaf h (current_path st key) \<or>
      (\<exists>bs nxt. advanced env st key rel (leaf h) (leaf t) bs nxt)"
    "r = Inr nxt \<Longrightarrow> \<exists>bs. advanced env st key rel (leaf h) (leaf t) bs nxt \<and>
      leaf t (previous_path st key) = Some (File bs 0x180)"
proof -
  consider (ok) s where "r = Inr s" "replaced_ok env st key rel (leaf h) s (leaf t)" "tree_ok t"
    | (err) e where "r = Inl e" "replaced_err env st key rel (leaf h) (leaf t)" "tree_ok t"
    using hoare_Inr [OF assms(1) holds_start [OF assms(2)]] hoare_Inl [OF assms(1) holds_start [OF assms(2)]]
      assms(3) by (cases r) (auto simp: holds_def)
  then show "tree_ok t" "elsewhere st key (leaf h) (leaf t)"
    "leaf t (current_path st key) = leaf h (current_path st key) \<or>
      (\<exists>bs nxt. advanced env st key rel (leaf h) (leaf t) bs nxt)"
    "r = Inr nxt \<Longrightarrow> \<exists>bs. advanced env st key rel (leaf h) (leaf t) bs nxt \<and>
      leaf t (previous_path st key) = Some (File bs 0x180)"
    by (cases; auto simp: replaced_ok_def replaced_err_def)+
qed

lemma advanced_view:
  assumes "advanced env st key rel (leaf h) (leaf t) bs nxt" "sha_sized (env_sha env)"
    and "\<And>cur v. stored_view env st key h = Some cur \<Longrightarrow> rel (leaf h (previous_path st key)) cur v \<Longrightarrow>
      json_roundtrip (env_to_json env) (env_from_json env) v \<and> validate_key (env_sha env) key v = Inr ()"
  obtains cur v where "stored_view env st key h = Some cur" "rel (leaf h (previous_path st key)) cur v"
    "exchange_to env st key cur v t" "stored_view env st key t = Some nxt"
    "found env st key (leaf h) bs cur"
proof -
  from assms(1) obtain cur v where found: "found env st key (leaf h) bs cur"
      and rel: "rel (leaf h (previous_path st key)) cur v" and ex: "exchanged env st key cur v (leaf t) nxt"
    by (auto simp: advanced_def)
  from assms(3) [OF found_view [OF found] rel] have "json_roundtrip (env_to_json env) (env_from_json env) v"
      "validate_key (env_sha env) key v = Inr ()" by simp_all
  from exchanged_view [OF assms(2) this ex] show thesis
    by (intro that [OF found_view [OF found] rel]) (simp_all add: found)
qed

section \<open>Activation and restore\<close>

text \<open>
  What an activation may do to a state: only an idle input takes a new configuration; the durable
  progress and the identity of the input, its source and its cursor stay.
\<close>

definition activation_step :: "hash \<Rightarrow> fingerprint \<Rightarrow> durable_state \<Rightarrow> durable_state \<Rightarrow> bool" where
  "activation_step sha fp cur nxt \<longleftrightarrow>
     scan cur = None \<and> active (coordinator cur) = None \<and> configuration_fingerprint cur \<noteq> fp \<and>
     state_validate sha nxt = Inr () \<and>
     configuration_fingerprint nxt = fp \<and>
     unat (configuration_generation nxt) = Suc (unat (configuration_generation cur)) \<and>
     committed (coordinator nxt) = committed (coordinator cur) \<and>
     generation (coordinator nxt) = generation (coordinator cur) \<and>
     active (coordinator nxt) = None \<and> scan nxt = None \<and>
     state_input_id nxt = state_input_id cur \<and>
     source_lineage_fingerprint nxt = source_lineage_fingerprint cur \<and>
     cursor_identity_fingerprint nxt = cursor_identity_fingerprint cur"

lemma activated_step: "activated sha cur fp = Inr nxt \<Longrightarrow> activation_step sha fp cur nxt"
  by (auto simp: activated_def activation_step_def Let_def new_snapshot_def
      dest: unat_checked_add split: if_split_asm)

lemma activate_advanced:
  assumes "sha_sized (env_sha env)"
    and "\<And>cur w. stored_view env st key h = Some cur \<Longrightarrow>
      activated (env_sha env) (stored_value cur) fp = Inr w \<Longrightarrow>
      json_roundtrip (env_to_json env) (env_from_json env) w"
    and "advanced env st key (activate_rel env expected fp) (leaf h) (leaf t) bs nxt"
  shows "\<exists>cur w. stored_view env st key h = Some cur \<and> stored_token cur = expected \<and>
    found env st key (leaf h) bs cur \<and> activation_step (env_sha env) fp (stored_value cur) w \<and>
    exchange_to env st key cur w t \<and> stored_view env st key t = Some nxt"
proof (rule advanced_view [OF assms(3,1)])
  fix cur w
  assume view: "stored_view env st key h = Some cur"
    and rel: "activate_rel env expected fp (leaf h (previous_path st key)) cur w"
  then have act: "activated (env_sha env) (stored_value cur) fp = Inr w" by (simp add: activate_rel_def)
  from view have "validate_key (env_sha env) key (stored_value cur) = Inr ()"
    by (auto dest: view_found simp: found_def)
  with activated_step [OF act] have "validate_key (env_sha env) key w = Inr ()"
    by (simp add: validate_key_def activation_step_def)
  with assms(2) [OF view act] show "json_roundtrip (env_to_json env) (env_from_json env) w \<and>
      validate_key (env_sha env) key w = Inr ()" by simp
next
  fix cur w
  assume "stored_view env st key h = Some cur" "exchange_to env st key cur w t"
    "stored_view env st key t = Some nxt" "found env st key (leaf h) bs cur"
    and rel: "activate_rel env expected fp (leaf h (previous_path st key)) cur w"
  then show ?thesis using activated_step by (fastforce simp: activate_rel_def)
qed

lemma restore_advanced:
  assumes "sha_sized (env_sha env)"
    and "\<And>p. backup_view env st key h = Some p \<Longrightarrow>
      json_roundtrip (env_to_json env) (env_from_json env) (stored_value p)"
    and "advanced env st key (restore_rel env key expected) (leaf h) (leaf t) bs nxt"
  shows "\<exists>cur p. stored_view env st key h = Some cur \<and> stored_token cur = expected \<and>
    found env st key (leaf h) bs cur \<and> backup_view env st key h = Some p \<and>
    exchange_to env st key cur (stored_value p) t \<and> stored_view env st key t = Some nxt"
proof -
  have bak: "\<exists>p. backup_view env st key h = Some p \<and> w = stored_value p \<and>
      validate_key (env_sha env) key w = Inr ()"
    if "restore_rel env key expected (leaf h (previous_path st key)) cur w" for cur w
    using that by (auto simp: restore_rel_def backup_view_def)
  show ?thesis
  proof (rule advanced_view [OF assms(3,1)])
    fix cur w
    assume "restore_rel env key expected (leaf h (previous_path st key)) cur w"
    from bak [OF this] assms(2) show "json_roundtrip (env_to_json env) (env_from_json env) w \<and>
      validate_key (env_sha env) key w = Inr ()" by blast
  next
    fix cur w
    assume "stored_view env st key h = Some cur" "exchange_to env st key cur w t"
      "stored_view env st key t = Some nxt" "found env st key (leaf h) bs cur"
      and rel: "restore_rel env key expected (leaf h (previous_path st key)) cur w"
    with bak [OF rel] show ?thesis by (auto simp: restore_rel_def)
  qed
qed

section \<open>The interface the store's clients rely on\<close>

text \<open>
  \<open>view\<close> is the visible token and value, \<open>cas\<close> the exchange, \<open>permitted\<close> the writes a
  value allows; \<open>sound\<close> marks the values the provider can store.
\<close>

locale exchange_store =
  fixes inv :: "'s \<Rightarrow> bool"
    and view :: "'s \<Rightarrow> ('k \<times> 'v) option"
    and cas :: "'k \<times> 'v \<Rightarrow> ('s, 'e, 'o) op"
    and rank :: "'k \<Rightarrow> nat"
    and permitted :: "'v \<Rightarrow> 'v \<Rightarrow> bool"
    and sound :: "'v \<Rightarrow> bool"
  assumes cas_inv: "inv s \<Longrightarrow> cas c s = (r, t) \<Longrightarrow> inv t"
    and cas_view: "inv s \<Longrightarrow> sound (snd c) \<Longrightarrow> cas c s = (r, t) \<Longrightarrow>
      view t = view s \<or> (\<exists>cur k. view s = Some (fst c, cur) \<and> permitted cur (snd c) \<and>
        view t = Some (k, snd c) \<and> rank k = Suc (rank (fst c)))"
    and cas_ok: "inv s \<Longrightarrow> sound (snd c) \<Longrightarrow> cas c s = (Inr x, t) \<Longrightarrow>
      \<exists>cur k. view s = Some (fst c, cur) \<and> permitted cur (snd c) \<and>
        view t = Some (k, snd c) \<and> rank k = Suc (rank (fst c))"
begin

lemma cas_run_inv: "inv s \<Longrightarrow> inv (run_ops cas cs s)"
  by (induction cs arbitrary: s) (auto dest: cas_inv [OF _ surjective_pairing])

lemma view_after_run:
  assumes "inv s" "\<forall>c \<in> set cs. sound (snd c)" "view s = Some (k, v)"
  shows "\<exists>k' v'. view (run_ops cas cs s) = Some (k', v') \<and> permitted\<^sup>*\<^sup>* v v' \<and> rank k \<le> rank k' \<and>
    (rank k' = rank k \<longrightarrow> k' = k \<and> v' = v)"
  using assms
proof (induction cs arbitrary: s k v)
  case (Cons c cs)
  obtain r t where c: "cas c s = (r, t)" by force
  from Cons.prems c have t: "inv t" by (auto dest: cas_inv)
  from cas_view [OF Cons.prems(1) _ c] Cons.prems(2,3) consider
      "view t = Some (k, v)"
    | k' where "permitted v (snd c)" "view t = Some (k', snd c)" "rank k' = Suc (rank k)"
    by auto
  then show ?case
  proof cases
    case 1
    with Cons.IH [OF t] Cons.prems(2) c show ?thesis by simp
  next
    case 2
    with Cons.IH [OF t] Cons.prems(2) c show ?thesis
      by (fastforce intro: converse_rtranclp_into_rtranclp)
  qed
qed simp

end

text \<open>
  The same store with every operation it offers: whatever is called, a visible state stays visible,
  and its revision grows whenever it changes. \<open>expects\<close> is the token a call names.
\<close>

locale token_store = exchange_store +
  fixes call :: "'c \<Rightarrow> ('a, 'f, 'p) op"
    and expects :: "'c \<Rightarrow> 'b option"
  assumes call_inv: "inv s \<Longrightarrow> call c s = (r', t) \<Longrightarrow> inv t"
    and call_view: "inv s \<Longrightarrow> call c s = (r', t) \<Longrightarrow> view s = Some (k, v) \<Longrightarrow>
      \<exists>k' v'. view t = Some (k', v') \<and> (k' = k \<and> v' = v \<or> rank k < rank k')"
    and call_token: "inv s \<Longrightarrow> call c s = (Inr y, t) \<Longrightarrow> expects c = Some k \<Longrightarrow>
      \<exists>v k' v'. view s = Some (k, v) \<and> view t = Some (k', v') \<and> rank k < rank k'"
begin

lemma calls_inv: "inv s \<Longrightarrow> inv (run_ops call cs s)"
  by (induction cs arbitrary: s) (auto dest: call_inv [OF _ surjective_pairing])

lemma calls_view:
  assumes "inv s" "view s = Some (k, v)"
  shows "\<exists>k' v'. view (run_ops call cs s) = Some (k', v') \<and> (k' = k \<and> v' = v \<or> rank k < rank k')"
  using assms
proof (induction cs arbitrary: s k v)
  case (Cons c cs)
  obtain r t where c: "call c s = (r, t)" by force
  from call_view [OF Cons.prems(1) c Cons.prems(2)] obtain k' v' where
      t: "view t = Some (k', v')" "k' = k \<and> v' = v \<or> rank k < rank k'" by blast
  from Cons.IH [OF call_inv [OF Cons.prems(1) c] t(1)] t(2) c show ?case by fastforce
qed simp

lemma token_used_once:
  assumes "inv s" "call a s = (Inr x, t)" "expects a = Some k" "expects b = Some k"
    and "call b (run_ops call cs t) = (r, u)"
  shows "\<not> is_ok r"
proof
  assume "is_ok r"
  then obtain y where r: "r = Inr y" by (auto simp: is_ok_iff)
  obtain k' v' where k': "view t = Some (k', v')" "rank k < rank k'"
    using call_token [OF assms(1,2,3)] by blast
  note t = call_inv [OF assms(1,2)]
  from calls_view [OF t k'(1), of cs] obtain k2 v2
    where "view (run_ops call cs t) = Some (k2, v2)" "k2 = k' \<or> rank k' < rank k2" by blast
  with call_token [OF calls_inv [OF t] assms(5) [unfolded r] assms(4)] k'(2) show False by auto
qed

end

definition visible :: "state_env \<Rightarrow> checkpoint_store \<Rightarrow> state_key \<Rightarrow> host \<Rightarrow> (state_token \<times> durable_state) option"
where
  "visible env st key h = map_option (\<lambda>s. (stored_token s, stored_value s)) (stored_view env st key h)"

definition storable :: "state_env \<Rightarrow> durable_state \<Rightarrow> bool" where
  "storable env v \<longleftrightarrow> sha_sized (env_sha env) \<and> json_roundtrip (env_to_json env) (env_from_json env) v"

definition exchange_call ::
    "state_env \<Rightarrow> checkpoint_store \<Rightarrow> state_key \<Rightarrow> state_token \<times> durable_state \<Rightarrow> stored_state store_io" where
  "exchange_call env st key c = compare_exchange env st key (fst c) (snd c)"

lemma exchange_advanced:
  assumes "storable env v" "advanced env st key (exchange_rel env key expected v) (leaf h) (leaf t) bs nxt"
  shows "\<exists>cur. stored_view env st key h = Some cur \<and> stored_token cur = expected \<and>
    found env st key (leaf h) bs cur \<and> validate_transition (stored_value cur) v = Inr () \<and>
    durable_step (stored_value cur) v \<and> exchange_to env st key cur v t \<and> stored_view env st key t = Some nxt"
proof -
  from assms(1) have sound: "sha_sized (env_sha env)"
    "json_roundtrip (env_to_json env) (env_from_json env) v" by (simp_all add: storable_def)
  show ?thesis
  proof (rule advanced_view [OF assms(2) sound(1)])
    fix cur w
    assume rel: "exchange_rel env key expected v (leaf h (previous_path st key)) cur w"
    then show "json_roundtrip (env_to_json env) (env_from_json env) w \<and> validate_key (env_sha env) key w = Inr ()"
      using sound by (simp add: exchange_rel_def)
    assume view: "stored_view env st key h = Some cur" "exchange_to env st key cur w t"
      "stored_view env st key t = Some nxt" "found env st key (leaf h) bs cur"
    with rel have "durable_step (stored_value cur) v"
      by (auto simp: exchange_rel_def intro: durable_step_sound view_valid)
    with rel view show ?thesis by (auto simp: exchange_rel_def)
  qed
qed

lemmas exchange_outcome = replace_outcome [OF hoare_compare_exchange]

lemma exchange_visible:
  assumes "storable env v" "tree_ok h" "compare_exchange env st key expected v h = (r, t)"
  shows "visible env st key t = visible env st key h \<or>
      (\<exists>cur k. visible env st key h = Some (expected, cur) \<and> durable_step cur v \<and>
        visible env st key t = Some (k, v) \<and> unat (revision k) = Suc (unat (revision expected)))"
    "r = Inr x \<Longrightarrow> \<exists>cur k. visible env st key h = Some (expected, cur) \<and> durable_step cur v \<and>
        visible env st key t = Some (k, v) \<and> unat (revision k) = Suc (unat (revision expected))"
proof -
  have step: "\<exists>cur k. visible env st key h = Some (expected, cur) \<and> durable_step cur v \<and>
        visible env st key t = Some (k, v) \<and> unat (revision k) = Suc (unat (revision expected))"
    if "advanced env st key (exchange_rel env key expected v) (leaf h) (leaf t) bs nxt" for bs nxt
    using exchange_advanced [OF assms(1) that] by (auto simp: visible_def exchange_to_def)
  show "visible env st key t = visible env st key h \<or>
      (\<exists>cur k. visible env st key h = Some (expected, cur) \<and> durable_step cur v \<and>
        visible env st key t = Some (k, v) \<and> unat (revision k) = Suc (unat (revision expected)))"
    using exchange_outcome(3) [OF assms(2,3)] step view_cong [of t st key h env]
    by (auto simp: visible_def)
  show "r = Inr x \<Longrightarrow> \<exists>cur k. visible env st key h = Some (expected, cur) \<and> durable_step cur v \<and>
        visible env st key t = Some (k, v) \<and> unat (revision k) = Suc (unat (revision expected))"
    using exchange_outcome(4) [OF assms(2,3)] step by blast
qed

interpretation store: exchange_store tree_ok "visible env st key" "exchange_call env st key"
    "\<lambda>k. unat (revision k)" durable_step "storable env" for env st key
proof
  fix s c r t x
  assume s: "tree_ok s"
  show "exchange_call env st key c s = (r, t) \<Longrightarrow> tree_ok t"
    using exchange_outcome(1) [OF s] by (simp add: exchange_call_def)
  assume c: "storable env (snd c)"
  show "exchange_call env st key c s = (r, t) \<Longrightarrow> visible env st key t = visible env st key s \<or>
      (\<exists>cur k. visible env st key s = Some (fst c, cur) \<and> durable_step cur (snd c) \<and>
        visible env st key t = Some (k, snd c) \<and> unat (revision k) = Suc (unat (revision (fst c))))"
    unfolding exchange_call_def by (rule exchange_visible(1) [OF c s])
  show "exchange_call env st key c s = (Inr x, t) \<Longrightarrow>
      \<exists>cur k. visible env st key s = Some (fst c, cur) \<and> durable_step cur (snd c) \<and>
        visible env st key t = Some (k, snd c) \<and> unat (revision k) = Suc (unat (revision (fst c)))"
    unfolding exchange_call_def by (rule exchange_visible(2) [OF c s]) simp_all
qed

section \<open>Every operation of the store\<close>

datatype store_op =
    Op_Load
  | Op_InputIds
  | Op_Create durable_state
  | Op_Exchange state_token durable_state
  | Op_Activate state_token fingerprint
  | Op_Restore state_token

definition without_result :: "'a store_io \<Rightarrow> unit store_io" where
  "without_result m = bnd m (\<lambda>_. ret ())"

fun store_call :: "state_env \<Rightarrow> checkpoint_store \<Rightarrow> state_key \<times> store_op \<Rightarrow> unit store_io" where
  "store_call env st (key, Op_Load) = without_result (load env st key)"
| "store_call env st (key, Op_InputIds) = without_result (input_ids env st)"
| "store_call env st (key, Op_Create v) = without_result (create env st key v)"
| "store_call env st (key, Op_Exchange tok v) = without_result (compare_exchange env st key tok v)"
| "store_call env st (key, Op_Activate tok fp) = without_result (activate_configuration env st key tok fp)"
| "store_call env st (key, Op_Restore tok) = without_result (restore_previous env st key tok)"

fun expected_token :: "store_op \<Rightarrow> state_token option" where
  "expected_token (Op_Exchange tok _) = Some tok"
| "expected_token (Op_Activate tok _) = Some tok"
| "expected_token (Op_Restore tok) = Some tok"
| "expected_token _ = None"

definition names_token :: "state_key \<Rightarrow> state_key \<times> store_op \<Rightarrow> state_token option" where
  "names_token key c = (if fst c = key then expected_token (snd c) else None)"

lemma without_result_eq: "without_result m h = (r, t) \<Longrightarrow>
  \<exists>r'. m h = (r', t) \<and> is_ok r' = is_ok r"
  by (cases "m h"; cases "fst (m h)") (auto simp: without_result_def bnd_def is_ok_iff ret_def)

text \<open>Two inputs have different directories.\<close>

lemma hex_digit_inj: "m < 16 \<Longrightarrow> n < 16 \<Longrightarrow> hex_digit m = hex_digit n \<Longrightarrow> m = n"
proof -
  assume "m < 16" "n < 16" "hex_digit m = hex_digit n"
  moreover have "distinct ''0123456789abcdef''" by simp
  ultimately have "unat m = unat n"
    by (subst (asm) hex_digit_def, subst (asm) hex_digit_def)
      (simp add: nth_eq_iff_index_eq word_less_nat_alt)
  then show "m = n" by (rule unsigned_word_eqI)
qed

lemma hex_byte_inj: "hex_byte a = hex_byte b \<longleftrightarrow> a = b"
proof
  assume eq: "hex_byte a = hex_byte b"
  have byte: "unat x < 256" for x :: u8
    by (rule order_less_le_trans [OF unsigned_less]) simp
  have hi: "unat (drop_bit 4 x) = unat x div 16" for x :: u8
    unfolding unsigned_drop_bit_eq using byte [of x]
    by (simp add: drop_bit_eq_div take_bit_nat_eq_self)
  have hi_less: "drop_bit 4 x < 16" for x :: u8
    using byte [of x] unfolding word_less_nat_alt hi by simp
  have lo: "unat (x AND 15) = unat x mod 16" for x :: u8
  proof -
    have "unat (x AND 15) = take_bit 4 (unat x)"
      by (simp add: unsigned_and_eq take_bit_eq_mask mask_eq_exp_minus_1)
    then show ?thesis by (simp add: take_bit_eq_mod)
  qed
  have lo_less: "x AND 15 < 16" for x :: u8
    by (simp add: word_less_nat_alt lo)
  from eq have "drop_bit 4 a = drop_bit 4 b" "a AND 15 = b AND 15"
    by (auto simp: hex_byte_def intro: hex_digit_inj hi_less lo_less)
  then have "unat a div 16 = unat b div 16" "unat a mod 16 = unat b mod 16"
    by (metis hi, metis lo)
  then show "a = b" by (metis div_mult_mod_eq unsigned_word_eqI)
qed simp

lemma directory_name_inj: "directory_name k = directory_name k' \<longleftrightarrow> k = k'"
proof
  assume "directory_name k = directory_name k'"
  moreover have "concat (map hex_byte as) = concat (map hex_byte bs) \<Longrightarrow> as = bs" for as bs
  proof (induction as arbitrary: bs)
    case (Cons a as)
    then show ?case by (cases bs) (auto simp: hex_byte_def simp flip: hex_byte_inj)
  next
    case Nil
    then show ?case by (cases bs) (auto simp: hex_byte_def)
  qed
  ultimately show "k = k'" by (simp add: directory_name_def state_key.expand)
qed simp

lemma elsewhere_other:
  assumes "elsewhere st key L L'" "key' \<noteq> key"
  shows "L' (current_path st key') = L (current_path st key')"
proof -
  have "current_path st key' \<noteq> current_path st key" "current_path st key' \<noteq> previous_path st key"
    "current_path st key' \<noteq> writer_lock_path st"
    using assms(2) by (simp_all add: current_path_def previous_path_def writer_lock_path_def
        input_directory_def directory_name_inj)
  then show ?thesis using assms(1) by (simp add: elsewhere_def)
qed

definition codec_sound :: "state_env \<Rightarrow> bool" where
  "codec_sound env \<longleftrightarrow> (\<forall>v. storable env v)"

lemma hoare_collect_inputs:
  "hoare (holds L D) (collect_inputs env p names) (\<lambda>_. holds L D) (\<lambda>_. holds L D)"
proof (induction names)
  case (Cons n names)
  have rest: "hoare (holds L D)
     (case v of None \<Rightarrow> throw St_MissingCurrent
      | Some (_, s) \<Rightarrow>
         if n \<noteq> directory_name (state_key_for_input (env_sha env) (state_input_id (stored_value s)))
         then throw St_StateKeyMismatch
         else bnd (collect_inputs env p names) (\<lambda>ids. ret (state_input_id (stored_value s) # ids)))
     (\<lambda>_. holds L D) (\<lambda>_. holds L D)" for v
    by (cases v) (auto intro!: hoare_throw hoare_if hoare_bnd [OF Cons] hoare_ret)
  have entry: "keeps (holds L D) next_input"
    unfolding next_input_def by (rule hoare_map_fail_const, rule hoare_syscall) (auto simp: hoare_def)
  have read: "hoare (holds L D) (read_envelope env q) (\<lambda>_. holds L D) (\<lambda>_. holds L D)" for q
    by (rule hoare_weaken [OF hoare_read_envelope [of L D]]) auto
  show ?case
    unfolding collect_inputs.simps by (rule hoare_bnd [OF entry hoare_bnd [OF hoare_validate_directory hoare_bnd [OF read rest]]])
qed (auto simp only: collect_inputs.simps intro: hoare_ret)

lemma hoare_input_ids: "hoare (holds L D) (input_ids env st) (\<lambda>_. holds L D) (\<lambda>_. holds L D)"
proof -
  have dir: "hoare (holds L D) (attempt (sys_read_dir p)) (\<lambda>_. holds L D) (\<lambda>_. holds L D)" for p
    by (rule hoare_attempt, rule hoare_weaken [OF hoare_sys_read_dir]) auto
  show ?thesis
    unfolding input_ids_def Let_def
    by (rule hoare_bnd hoare_lock_writer hoare_validate_directory dir)+
      (auto intro!: hoare_case_sum hoare_if hoare_ret hoare_throw hoare_bnd [OF hoare_collect_inputs])
qed

lemma hoare_load: "hoare (holds L D) (load env st key) (\<lambda>_. holds L D) (\<lambda>_. holds L D)"
  unfolding load_def load_unlocked_def
  by (rule hoare_bnd [OF hoare_lock_writer], rule hoare_bnd [OF hoare_read_current])
    (auto simp: hoare_def split: option.split)

text \<open>What one call does to what is visible at one input.\<close>

definition call_law :: "state_env \<Rightarrow> checkpoint_store \<Rightarrow> state_key \<Rightarrow> state_token option
    \<Rightarrow> 'e + 'a \<Rightarrow> host \<Rightarrow> host \<Rightarrow> bool" where
  "call_law env st key names r h t \<longleftrightarrow> tree_ok t \<and>
     (\<forall>k v. visible env st key h = Some (k, v) \<longrightarrow>
        (\<exists>k' v'. visible env st key t = Some (k', v') \<and>
           (k' = k \<and> v' = v \<or> unat (revision k) < unat (revision k')))) \<and>
     (\<forall>k. is_ok r \<longrightarrow> names = Some k \<longrightarrow>
        (\<exists>v k' v'. visible env st key h = Some (k, v) \<and> visible env st key t = Some (k', v') \<and>
           unat (revision k) < unat (revision k')))"

lemma call_law_same:
  assumes "tree_ok t" "leaf t (current_path st key) = leaf h (current_path st key)"
  shows "call_law env st key None r h t"
proof -
  have "visible env st key t = visible env st key h"
    unfolding visible_def view_cong [OF assms(2)] ..
  with assms(1) show ?thesis by (simp add: call_law_def)
qed

lemma call_law_other:
  assumes "tree_ok t" "elsewhere st key' (leaf h) (leaf t)"
    and "key' = key \<Longrightarrow> call_law env st key names r h t"
  shows "call_law env st key (if key' = key then names else None) r h t"
  using call_law_same [OF assms(1), of st key h] elsewhere_other [OF assms(2), of key] assms(3)
  by (cases "key' = key") auto

lemma call_law_replace:
  assumes "hoare (holds (leaf h) {}) m (\<lambda>nxt. somehow (replaced_ok env st key' rel (leaf h) nxt) {})
      (\<lambda>_. somehow (replaced_err env st key' rel (leaf h)) {})"
    and "tree_ok h" "m h = (r, t)"
    and adv: "\<And>bs nxt. advanced env st key' rel (leaf h) (leaf t) bs nxt \<Longrightarrow>
      \<exists>cur w. stored_view env st key' h = Some cur \<and> stored_token cur = expected \<and> exchange_to env st key' cur w t"
  shows "call_law env st key (if key' = key then Some expected else None) r h t"
proof (rule call_law_other)
  note out = replace_outcome [OF assms(1-3)]
  show "tree_ok t" "elsewhere st key' (leaf h) (leaf t)" by (fact out)+
  assume [simp]: "key' = key"
  have step: "\<exists>v k' v'. visible env st key h = Some (expected, v) \<and> visible env st key t = Some (k', v') \<and>
      unat (revision expected) < unat (revision k')"
    if "advanced env st key' rel (leaf h) (leaf t) bs nxt" for bs nxt
    using adv [OF that] by (auto simp: visible_def exchange_to_def)
  have ok: "\<exists>v k' v'. visible env st key h = Some (expected, v) \<and> visible env st key t = Some (k', v') \<and>
      unat (revision expected) < unat (revision k')" if "is_ok r"
    using that out(4) step by (auto simp: is_ok_iff)
  from out(3) view_cong [of t st key h env] step
  have "visible env st key t = visible env st key h \<or>
    (\<exists>v k' v'. visible env st key h = Some (expected, v) \<and> visible env st key t = Some (k', v') \<and>
      unat (revision expected) < unat (revision k'))"
    by (auto simp: visible_def)
  with ok out(1) show "call_law env st key (Some expected) r h t" by (auto simp: call_law_def)
qed

lemma call_law_keeps:
  assumes "hoare (holds (leaf h) {}) m (\<lambda>_. holds (leaf h) {}) (\<lambda>_. holds (leaf h) {})" "tree_ok h" "m h = (r, t)"
  shows "call_law env st key None r h t"
  using hoare_Inr [OF assms(1) holds_start [OF assms(2)]] hoare_Inl [OF assms(1) holds_start [OF assms(2)]] assms(3)
  by (cases r) (auto simp: holds_def intro!: call_law_same)

lemma call_law_create:
  assumes "tree_ok h" "create env st key' v h = (r, t)"
  shows "call_law env st key None r h t"
proof -
  note start = holds_start [OF assms(1)]
  have "tree_ok t \<and> elsewhere st key' (leaf h) (leaf t) \<and>
      (leaf h (current_path st key') \<noteq> None \<longrightarrow> leaf t (current_path st key') = leaf h (current_path st key'))"
    using hoare_Inr [OF hoare_create start] hoare_Inl [OF hoare_create start] assms(2)
    by (cases r) (fastforce simp: holds_def created_ok_def created_err_def)+
  then have t: "tree_ok t" "elsewhere st key' (leaf h) (leaf t)"
    and same: "leaf h (current_path st key') \<noteq> None \<Longrightarrow>
      leaf t (current_path st key') = leaf h (current_path st key')" by blast+
  have "call_law env st key None r h t" if "key' = key"
  proof (cases "leaf h (current_path st key)")
    case None
    then have "visible env st key h = None" by (simp add: visible_def stored_view_def)
    with t(1) show ?thesis by (simp add: call_law_def)
  next
    case (Some n)
    with same that t(1) show ?thesis by (auto intro: call_law_same)
  qed
  from call_law_other [OF t this] show ?thesis by (simp split: if_split_asm)
qed

lemma store_call_law:
  assumes "tree_ok h" "codec_sound env" "store_call env st c h = (r, t)"
  shows "call_law env st key (names_token key c) r h t"
proof -
  from assms(2) have env: "sha_sized (env_sha env)" "\<And>v. json_roundtrip (env_to_json env) (env_from_json env) v"
      "\<And>v. storable env v"
    by (auto simp: codec_sound_def storable_def)
  have law: "call_law env st key n r' h t \<Longrightarrow> is_ok r' = is_ok r \<Longrightarrow> names_token key c = n \<Longrightarrow> ?thesis"
    for n and r' :: "state_store_error + 'b" by (simp add: call_law_def)
  obtain key' q where c: "c = (key', q)" by force
  show ?thesis
  proof (cases q)
    case q: (Op_Exchange tok v)
    with c assms(3) obtain r' where run: "compare_exchange env st key' tok v h = (r', t)" and ok: "is_ok r' = is_ok r"
      by (auto dest: without_result_eq)
    have "call_law env st key (if key' = key then Some tok else None) r' h t"
      by (rule call_law_replace [OF hoare_compare_exchange assms(1) run])
        (use exchange_advanced [OF env(3)] in blast)
    then show ?thesis by (rule law [OF _ ok]) (simp add: names_token_def c q)
  next
    case q: (Op_Activate tok fp)
    with c assms(3) obtain r' where run: "activate_configuration env st key' tok fp h = (r', t)" and ok: "is_ok r' = is_ok r"
      by (auto dest: without_result_eq)
    have "call_law env st key (if key' = key then Some tok else None) r' h t"
      by (rule call_law_replace [OF hoare_activate_configuration assms(1) run])
        (use activate_advanced [OF env(1) env(2)] in blast)
    then show ?thesis by (rule law [OF _ ok]) (simp add: names_token_def c q)
  next
    case q: (Op_Restore tok)
    with c assms(3) obtain r' where run: "restore_previous env st key' tok h = (r', t)" and ok: "is_ok r' = is_ok r"
      by (auto dest: without_result_eq)
    have "call_law env st key (if key' = key then Some tok else None) r' h t"
      by (rule call_law_replace [OF hoare_restore_previous assms(1) run])
        (use restore_advanced [OF env(1) env(2)] in blast)
    then show ?thesis by (rule law [OF _ ok]) (simp add: names_token_def c q)
  next
    case q: (Op_Create v)
    with c assms(3) obtain r' where run: "create env st key' v h = (r', t)" and ok: "is_ok r' = is_ok r"
      by (auto dest: without_result_eq)
    show ?thesis by (rule law [OF call_law_create [OF assms(1) run] ok]) (simp add: names_token_def c q)
  next
    case q: Op_Load
    with c assms(3) obtain r' where run: "load env st key' h = (r', t)" and ok: "is_ok r' = is_ok r"
      by (auto dest: without_result_eq)
    show ?thesis by (rule law [OF call_law_keeps [OF hoare_load assms(1) run] ok]) (simp add: names_token_def c q)
  next
    case q: Op_InputIds
    with c assms(3) obtain r' where run: "input_ids env st h = (r', t)" and ok: "is_ok r' = is_ok r"
      by (auto dest: without_result_eq)
    show ?thesis by (rule law [OF call_law_keeps [OF hoare_input_ids assms(1) run] ok]) (simp add: names_token_def c q)
  qed
qed

interpretation calls: token_store "\<lambda>h. tree_ok h \<and> codec_sound env" "visible env st key"
    "exchange_call env st key" "\<lambda>k. unat (revision k)" durable_step "storable env"
    "store_call env st" "names_token key" for env st key
proof
  fix s c t x k v y and r :: "state_store_error + stored_state" and r' :: "state_store_error + unit"
  assume s: "tree_ok s \<and> codec_sound env"
  then have law: "store_call env st c s = (r', t) \<Longrightarrow> call_law env st key (names_token key c) r' s t" for c r' t
    by (auto intro: store_call_law)
  show "exchange_call env st key c s = (r, t) \<Longrightarrow> tree_ok t \<and> codec_sound env" for c
    using store.cas_inv s by blast
  show "storable env (snd c) \<Longrightarrow> exchange_call env st key c s = (r, t) \<Longrightarrow>
      visible env st key t = visible env st key s \<or>
      (\<exists>cur k. visible env st key s = Some (fst c, cur) \<and> durable_step cur (snd c) \<and>
        visible env st key t = Some (k, snd c) \<and> unat (revision k) = Suc (unat (revision (fst c))))" for c
    using store.cas_view s by blast
  show "storable env (snd c) \<Longrightarrow> exchange_call env st key c s = (Inr x, t) \<Longrightarrow>
      \<exists>cur k. visible env st key s = Some (fst c, cur) \<and> durable_step cur (snd c) \<and>
        visible env st key t = Some (k, snd c) \<and> unat (revision k) = Suc (unat (revision (fst c)))" for c
    using store.cas_ok s by blast
  show "store_call env st c s = (r', t) \<Longrightarrow> tree_ok t \<and> codec_sound env"
    using law s by (auto simp: call_law_def)
  show "store_call env st c s = (r', t) \<Longrightarrow> visible env st key s = Some (k, v) \<Longrightarrow>
      \<exists>k' v'. visible env st key t = Some (k', v') \<and> (k' = k \<and> v' = v \<or> unat (revision k) < unat (revision k'))"
    using law by (auto simp: call_law_def)
  show "store_call env st c s = (Inr y, t) \<Longrightarrow> names_token key c = Some k \<Longrightarrow>
      \<exists>v k' v'. visible env st key s = Some (k, v) \<and> visible env st key t = Some (k', v') \<and>
        unat (revision k) < unat (revision k')"
    using law by (auto simp: call_law_def)
qed

section \<open>An exchange that nothing disturbs\<close>

lemma private_directoryD:
  "private_directory h p \<Longrightarrow> \<exists>m. node_at h p = Some (Dir m) \<and> \<not> too_open m"
  by (auto simp: private_directory_def split: option.split_asm node.split_asm)

lemma directory_valid_quiet:
  assumes "quiet h" "tree_ok h" "private_directory h p"
  shows "validate_directory_if_exists p h = (Inr (), h)"
proof -
  from private_directoryD [OF assms(3)] obtain m where "node_at h p = Some (Dir m)" "\<not> too_open m" by blast
  then show ?thesis
    by (simp add: validate_directory_if_exists_def bnd_def attempt_def lstat_quiet [OF assms(1,2)]
        check_private_def ret_def)
qed

lemma ensure_directory_quiet:
  assumes "quiet h" "tree_ok h" "private_directory h p"
  shows "ensure_directory p h = (Inr (), h)"
proof -
  from private_directoryD [OF assms(3)] obtain m where "node_at h p = Some (Dir m)" by blast
  then show ?thesis
    by (simp add: ensure_directory_def bnd_def attempt_def lstat_quiet [OF assms(1,2)] directory_valid_quiet [OF assms])
qed

definition private_file :: "host \<Rightarrow> path \<Rightarrow> bytes \<Rightarrow> bool" where
  "private_file h p bs \<longleftrightarrow> (\<exists>m. node_at h p = Some (File bs m) \<and> \<not> too_open m)"

lemma inspect_quiet:
  assumes "quiet h" "tree_ok h" "node_at h p = Some (File bs m)"
  shows "inspect_file p h = (Inr (Some (File bs m)), h)"
  by (simp add: inspect_file_def bnd_def attempt_def lstat_quiet [OF assms] ret_def)

lemma read_envelope_quiet:
  assumes "quiet h" "tree_ok h" "private_file h p bs" "length bs \<le> MAX_ENVELOPE_BYTES"
    and "decode_envelope (env_sha env) (env_from_json env) bs = Inr s"
  shows "read_envelope env p h = (Inr (Some (bs, s)), h)"
proof -
  from assms(3) obtain m where m: "node_at h p = Some (File bs m)" "\<not> too_open m" by (auto simp: private_file_def)
  then show ?thesis
    using assms(4,5) by (simp add: read_envelope_def bnd_def inspect_quiet [OF assms(1,2) m(1)] check_private_def ret_def
        map_fail_def read_limited_quiet [OF assms(1,2) m(1) assms(4)] lift_res_def)
qed

lemma writer_lock_quiet:
  assumes "quiet h" "tree_ok h" "private_directory h (store_root st)" "private_file h (writer_lock_path st) bs"
  shows "acquire_writer_lock st h = (Inr (), h)"
proof -
  from assms(4) obtain m where m: "node_at h (writer_lock_path st) = Some (File bs m)" "\<not> too_open m"
    by (auto simp: private_file_def)
  have "sys_open_write (writer_lock_path st) h = (Inr (writer_lock_path st), h)"
    using resolve_there [OF assms(2) m(1)] m(1)
    by (simp add: sys_open_write_def syscall_quiet [OF assms(1)] bindr_def ok_or_def)
  then show ?thesis
    using m(2) by (simp add: acquire_writer_lock_def bnd_def ensure_directory_quiet [OF assms(1-3)] Let_def
        inspect_quiet [OF assms(1,2) m(1)] check_private_def ret_def map_fail_def fstat_quiet [OF assms(1) m(1)]
        sys_flock_def syscall_quiet [OF assms(1)])
qed

text \<open>An input of the store at rest: private directories, the lock file, the current envelope, no debris.\<close>

definition at_rest :: "state_env \<Rightarrow> checkpoint_store \<Rightarrow> state_key \<Rightarrow> bytes \<Rightarrow> stored_state \<Rightarrow> host \<Rightarrow> bool" where
  "at_rest env st key bs cur h \<longleftrightarrow> quiet h \<and> tree_ok h \<and> \<not> writer_poisoned st \<and>
     private_directory h (store_root st) \<and> private_directory h (store_root st @ [''inputs'']) \<and>
     private_directory h (input_directory st key) \<and> (\<exists>lock. private_file h (writer_lock_path st) lock) \<and>
     private_file h (current_path st key) bs \<and> length bs \<le> MAX_ENVELOPE_BYTES \<and>
     decode_envelope (env_sha env) (env_from_json env) bs = Inr cur \<and>
     validate_key (env_sha env) key (stored_value cur) = Inr () \<and>
     \<not> dir_at h (previous_path st key) \<and>
     free_staging h (input_directory st key) CURRENT_FILE \<and> free_staging h (input_directory st key) PREVIOUS_FILE"

lemma replace_quiet:
  assumes "at_rest env st key bs cur h" "checked_add (revision (stored_token cur)) 1 = Some rv"
    and "encode_envelope (env_sha env) (env_to_json env) v rv = Inr nb"
    and "decode_envelope (env_sha env) (env_from_json env) nb = Inr nxt"
  shows "\<exists>t. replace_current_unlocked env st key bs cur v h = (Inr nxt, t)"
proof -
  let ?d = "input_directory st key"
  from assms(1) have h: "quiet h" "tree_ok h" "\<not> dir_at h (?d @ [PREVIOUS_FILE])"
    "free_staging h ?d CURRENT_FILE" "free_staging h ?d PREVIOUS_FILE" "private_file h (?d @ [CURRENT_FILE]) bs"
    by (simp_all add: at_rest_def current_path_def previous_path_def)
  from assms(1) obtain m where d: "node_at h ?d = Some (Dir m)"
    by (auto simp: at_rest_def dest: private_directoryD)
  from atomic_write_quiet [OF h(1,2) d h(3,5)] obtain t where
    t: "atomic_write (?d @ [PREVIOUS_FILE]) bs 0x180 h = (Inr (), t)" "quiet t" "tree_ok t"
      "node_at t = (node_at h)(?d \<mapsto> Dir 0x1C0, ?d @ [PREVIOUS_FILE] \<mapsto> File bs 0x180)" by blast
  have d': "node_at t ?d = Some (Dir 0x1C0)" by (simp add: t(4))
  have notdir: "\<not> dir_at t (?d @ [CURRENT_FILE])"
    using h(6) by (auto simp: dir_at_def t(4) private_file_def)
  have "staging_name CURRENT_FILE i k \<noteq> PREVIOUS_FILE" for i k
    by (simp add: staging_name_def PREVIOUS_FILE_def)
  then have free: "free_staging t ?d CURRENT_FILE"
    using h(4) by (auto simp: free_staging_def t(4))
  from atomic_write_quiet [OF t(2,3) d' notdir free] obtain u where
    "atomic_write (?d @ [CURRENT_FILE]) nb 0x180 t = (Inr (), u)" by blast
  with t(1) show ?thesis
    using assms(2-4) by (simp add: replace_current_unlocked_def bnd_def lift_res_def ok_or_def map_fail_def ret_def
        current_path_def previous_path_def)
qed

lemma exchange_quiet:
  assumes "at_rest env st key bs cur h" "checked_add (revision (stored_token cur)) 1 = Some rv"
    and "encode_envelope (env_sha env) (env_to_json env) v rv = Inr nb"
    and "decode_envelope (env_sha env) (env_from_json env) nb = Inr nxt"
    and "validate_key (env_sha env) key v = Inr ()" "state_validate (env_sha env) v = Inr ()"
    and "validate_transition (stored_value cur) v = Inr ()"
  shows "\<exists>t. compare_exchange env st key (stored_token cur) v h = (Inr nxt, t)"
proof -
  from assms(1) have h: "quiet h" "tree_ok h" "\<not> writer_poisoned st" "private_directory h (store_root st)"
    "private_directory h (store_root st @ [''inputs''])" "private_directory h (input_directory st key)"
    "private_file h (current_path st key) bs" "length bs \<le> MAX_ENVELOPE_BYTES"
    "decode_envelope (env_sha env) (env_from_json env) bs = Inr cur"
    "validate_key (env_sha env) key (stored_value cur) = Inr ()" by (simp_all add: at_rest_def)
  from assms(1) obtain lock where lock: "private_file h (writer_lock_path st) lock" by (auto simp: at_rest_def)
  have read: "read_current_unlocked env st key h = (Inr (Some (bs, cur)), h)"
    using h(10) by (simp add: read_current_unlocked_def validate_input_directories_def bnd_def lift_res_def ret_def
        directory_valid_quiet [OF h(1,2,4)] directory_valid_quiet [OF h(1,2,5)] directory_valid_quiet [OF h(1,2,6)]
        read_envelope_quiet [OF h(1,2,7,8,9)])
  from replace_quiet [OF assms(1-4)] show ?thesis
    using assms(5-7) h(3)
    by (simp add: compare_exchange_def with_current_def bnd_def lift_res_def map_err_def lock_writer_def ret_def
        writer_lock_quiet [OF h(1,2,4) lock] read verify_expected_def)
qed



section \<open>Properties\<close>

text \<open>
  A demonstration store: one input whose current envelope, at revision 1, holds the state with a page
  not yet acknowledged. A stand-in codec writes one byte per state.
\<close>

definition demo_env :: state_env where
  "demo_env = \<lparr>env_sha = demo_sha,
     env_to_json = (\<lambda>v. Some (if v = demo_acked then [49] else [48])),
     env_from_json = (\<lambda>bs. Some (if bs = [49] then demo_acked else demo_pending))\<rparr>"

definition demo_store :: checkpoint_store where
  "demo_store = \<lparr>store_root = [''r''], writer_poisoned = False\<rparr>"

definition demo_key :: state_key where
  "demo_key = state_key_for_input demo_sha (state_input_id demo_pending)"

definition demo_token :: state_token where
  "demo_token = \<lparr>revision = 1, digest = replicate 32 49\<rparr>"

definition demo_envelope :: bytes where
  "demo_envelope = envelope_prefix 1 1 @ replicate 32 49 @ [48]"

definition demo_state_host :: host where
  "demo_state_host = \<lparr>nodes = [([], Dir 0x1ED), ([''r''], Dir 0x1C0), ([''r'', ''inputs''], Dir 0x1C0),
      (input_directory demo_store demo_key, Dir 0x1C0),
      (current_path demo_store demo_key, File demo_envelope 0x180)],
     umask = 0x12, process_id = 7, next_temp_file = 3, entropy = [], faults = [], stopped = False\<rparr>"

lemma demo_state_tree: "tree_ok demo_state_host"
  by (simp add: tree_ok_def demo_state_host_def node_at_def input_directory_def current_path_def
      demo_store_def CURRENT_FILE_def butlast_append)

lemma demo_storable: "storable demo_env demo_acked"
  by (simp add: storable_def json_roundtrip_def demo_env_def demo_sha_sized)

lemma demo_decodes:
  assumes "env_sha env = demo_sha" "env_from_json env [48] = Some v" "state_validate demo_sha v = Inr ()"
  shows "decode_envelope demo_sha (env_from_json env) demo_envelope =
    Inr \<lparr>stored_value = v, stored_token = demo_token\<rparr>"
proof -
  have "encode_payload demo_sha [48] 1 = Inr demo_envelope"
    by (simp add: encode_payload_Ok envelope_sizes demo_envelope_def)
  from decode_encoded [OF demo_sha_sized this, of "env_from_json env"] assms show ?thesis
    by (simp add: demo_token_def)
qed

lemma demo_view:
  assumes "env_sha env = demo_sha" "env_from_json env [48] = Some v" "state_validate demo_sha v = Inr ()"
  shows "stored_view env demo_store demo_key demo_state_host =
    Some \<lparr>stored_value = v, stored_token = demo_token\<rparr>"
proof -
  have "leaf demo_state_host (current_path demo_store demo_key) = Some (File demo_envelope 0x180)"
    by (simp add: leaf_def demo_state_host_def node_at_def input_directory_def current_path_def
        demo_store_def)
  then show ?thesis
    using demo_decodes [OF assms] assms(1)
    by (simp add: stored_view_def validate_key_def demo_key_def state_key_for_input_def demo_sha_def)
qed

lemma demo_pending_view:
  "stored_view demo_env demo_store demo_key demo_state_host =
    Some \<lparr>stored_value = demo_pending, stored_token = demo_token\<rparr>"
  by (rule demo_view) (simp_all add: demo_env_def demo_pending_valid)

text \<open>
  C16. The exchange is atomic. Whatever system calls fail, are torn or never happen, a
  \<open>compare_exchange\<close> leaves the input's stored state as it was, or replaces a state that carried
  the expected token by the proposed one, which is one step of the durable state machine from it, at
  the next revision. If it reports success it did so, the replaced state is now the backup, and the
  result is what is stored. No path outside the input's two envelopes, their staging names and the
  writer lock changes.
\<close>
theorem compare_exchange_atomic:
  assumes "storable env v" "tree_ok h" "compare_exchange env st key expected v h = (r, t)"
  shows "tree_ok t \<and> elsewhere st key (leaf h) (leaf t) \<and>
    (stored_view env st key t = stored_view env st key h \<or>
      (\<exists>cur. stored_view env st key h = Some cur \<and> stored_token cur = expected \<and>
        durable_step (stored_value cur) v \<and> exchange_to env st key cur v t)) \<and>
    (\<forall>x. r = Inr x \<longrightarrow> stored_view env st key t = Some x \<and>
      (\<exists>cur. stored_view env st key h = Some cur \<and> stored_token cur = expected \<and>
        durable_step (stored_value cur) v \<and> exchange_to env st key cur v t \<and>
        backup_view env st key t = Some cur))"
proof (intro conjI allI impI)
  note out = exchange_outcome [OF assms(2,3)] and adv = exchange_advanced [OF assms(1)]
  show "tree_ok t" "elsewhere st key (leaf h) (leaf t)" by (fact out)+
  show "stored_view env st key t = stored_view env st key h \<or>
      (\<exists>cur. stored_view env st key h = Some cur \<and> stored_token cur = expected \<and>
        durable_step (stored_value cur) v \<and> exchange_to env st key cur v t)"
    using out(3) adv view_cong by meson
  fix x assume "r = Inr x"
  with out(4) obtain bs where bs: "leaf t (previous_path st key) = Some (File bs 0x180)"
      "advanced env st key (exchange_rel env key expected v) (leaf h) (leaf t) bs x" by blast
  from adv [OF bs(2)] show "stored_view env st key t = Some x" by blast
  from adv [OF bs(2)] found_backup [OF _ bs(1)] show "\<exists>cur. stored_view env st key h = Some cur \<and>
        stored_token cur = expected \<and> durable_step (stored_value cur) v \<and>
        exchange_to env st key cur v t \<and> backup_view env st key t = Some cur" by blast
qed

lemma compare_exchange_atomic_witness:
  "\<exists>r t. compare_exchange demo_env demo_store demo_key demo_token demo_acked demo_state_host = (r, t) \<and>
     (stored_view demo_env demo_store demo_key t =
        Some \<lparr>stored_value = demo_pending, stored_token = demo_token\<rparr> \<or>
      exchange_to demo_env demo_store demo_key
        \<lparr>stored_value = demo_pending, stored_token = demo_token\<rparr> demo_acked t)"
proof -
  obtain r t where run:
    "compare_exchange demo_env demo_store demo_key demo_token demo_acked demo_state_host = (r, t)"
    by force
  from compare_exchange_atomic [OF demo_storable demo_state_tree run] run show ?thesis
    by (auto simp: demo_pending_view)
qed

text \<open>
  C17. Histories. However many exchanges are attempted, by however many callers, whatever fails in
  them: the stored state is reached from the first one by steps of the durable state machine, so its
  checkpoint generation and committed cursor never move back, and the revision grows with every
  change.
\<close>
theorem store_history_monotone:
  assumes "tree_ok h" "\<forall>c \<in> set cs. storable env (snd c)" "visible env st key h = Some (k, v)"
  shows "\<exists>k' v'. visible env st key (run_ops (exchange_call env st key) cs h) = Some (k', v') \<and>
    durable_step\<^sup>*\<^sup>* v v' \<and> checkpoint_below (coordinator v) (coordinator v') \<and>
    revision k \<le> revision k' \<and> (revision k' = revision k \<longrightarrow> v' = v)"
proof -
  obtain k' v' where final: "visible env st key (run_ops (exchange_call env st key) cs h) = Some (k', v')"
      "durable_step\<^sup>*\<^sup>* v v'" "unat (revision k) \<le> unat (revision k')"
      "unat (revision k') = unat (revision k) \<longrightarrow> k' = k \<and> v' = v"
    using store.view_after_run [OF assms] by blast
  from final(2) have "checkpoint_below (coordinator v) (coordinator v')"
    by (induction rule: rtranclp_induct) (auto dest: durable_step_below intro: coordinator.below_trans)
  with final show ?thesis by (auto simp: word_le_nat_alt)
qed

lemma store_history_monotone_witness:
  "\<exists>k' v'. visible demo_env demo_store demo_key
     (run_ops (exchange_call demo_env demo_store demo_key) [(demo_token, demo_acked), (demo_token, demo_acked)]
       demo_state_host) = Some (k', v') \<and> durable_step\<^sup>*\<^sup>* demo_pending v' \<and> revision demo_token \<le> revision k'"
  using store_history_monotone [OF demo_state_tree, of "[(demo_token, demo_acked), (demo_token, demo_acked)]"
      demo_env demo_store demo_key demo_token demo_pending] demo_storable
  by (auto simp: visible_def demo_pending_view)

text \<open>
  A demonstration in which the first exchange really succeeds: the store at rest, with its lock file, and
  a codec that knows two states.
\<close>

definition demo_codec_env :: state_env where
  "demo_codec_env = \<lparr>env_sha = demo_sha,
     env_to_json = (\<lambda>v. if v = demo_acked then Some [49] else if v = demo_pending then Some [48] else None),
     env_from_json = (\<lambda>bs. Some (if bs = [49] then demo_acked else demo_pending))\<rparr>"

definition demo_rest_host :: host where
  "demo_rest_host = demo_state_host\<lparr>nodes := nodes demo_state_host @
     [(writer_lock_path demo_store, File [] 0x180)]\<rparr>"

lemma demo_codec_sound: "codec_sound demo_codec_env"
  by (simp add: codec_sound_def storable_def json_roundtrip_def demo_codec_env_def demo_sha_sized)

lemma demo_rest:
  "at_rest demo_codec_env demo_store demo_key demo_envelope
     \<lparr>stored_value = demo_pending, stored_token = demo_token\<rparr> demo_rest_host"
proof -
  have decode: "decode_envelope (env_sha demo_codec_env) (env_from_json demo_codec_env) demo_envelope =
      Inr \<lparr>stored_value = demo_pending, stored_token = demo_token\<rparr>"
    using demo_decodes [of demo_codec_env demo_pending] demo_pending_valid by (simp add: demo_codec_env_def)
  have tree: "tree_ok demo_rest_host"
    by (simp add: tree_ok_def demo_rest_host_def demo_state_host_def node_at_def input_directory_def
        current_path_def writer_lock_path_def demo_store_def CURRENT_FILE_def WRITER_LOCK_FILE_def butlast_append)
  have staging: "staging_name x i k \<noteq> CURRENT_FILE" for x i k
    by (simp add: staging_name_def CURRENT_FILE_def)
  have size: "length demo_envelope \<le> MAX_ENVELOPE_BYTES"
    by (simp add: demo_envelope_def envelope_sizes)
  show ?thesis
    unfolding at_rest_def
    using decode tree staging size
    by (auto simp: demo_rest_host_def demo_state_host_def quiet_def demo_store_def private_directory_def node_at_def
        input_directory_def current_path_def previous_path_def writer_lock_path_def private_file_def too_open_def
        dir_at_def free_staging_def CURRENT_FILE_def PREVIOUS_FILE_def WRITER_LOCK_FILE_def
        validate_key_def demo_key_def state_key_for_input_def demo_sha_def demo_codec_env_def)
qed

lemma demo_exchange_succeeds:
  "is_ok (fst (store_call demo_codec_env demo_store (demo_key, Op_Exchange demo_token demo_acked) demo_rest_host))"
proof -
  have key: "validate_key demo_sha demo_key demo_acked = Inr ()"
    by (simp add: validate_key_def demo_key_def state_key_for_input_def demo_sha_def)
  define nb where "nb = envelope_prefix 1 2 @ replicate 32 49 @ [49]"
  have enc: "encode_payload demo_sha [49] 2 = Inr nb"
    by (simp add: encode_payload_Ok envelope_sizes nb_def)
  have e: "encode_envelope (env_sha demo_codec_env) (env_to_json demo_codec_env) demo_acked 2 = Inr nb"
    using demo_pending_valid enc
    by (simp add: encode_envelope_def demo_codec_env_def bindr_def map_err_def ok_or_def)
  from decode_encoded [OF demo_sha_sized enc, of "env_from_json demo_codec_env"] demo_pending_valid
  obtain nxt where d: "decode_envelope (env_sha demo_codec_env) (env_from_json demo_codec_env) nb = Inr nxt"
    by (simp add: demo_codec_env_def bindr_def map_err_def ok_or_def)
  have r: "checked_add (revision (stored_token \<lparr>stored_value = demo_pending, stored_token = demo_token\<rparr>)) 1 = Some 2"
    by (simp add: demo_token_def checked_add_def)
  have "env_sha demo_codec_env = demo_sha" by (simp add: demo_codec_env_def)
  with exchange_quiet [OF demo_rest r e d] key demo_pending_valid demo_receipt_step obtain t where
    "compare_exchange demo_codec_env demo_store demo_key demo_token demo_acked demo_rest_host = (Inr nxt, t)"
    by auto
  then show ?thesis by (simp add: without_result_def bnd_def ret_def is_ok_def)
qed

text \<open>
  C18. No lost update. Once an exchange, an activation or a restore with a token has reported success, no
  later one with the same token succeeds on that input, whatever operations of the store are called in
  between, on this input or another, and whatever fails in them.
\<close>
theorem token_exchanged_once:
  assumes "tree_ok h" "codec_sound env"
    and "expected_token a = Some tok" "expected_token b = Some tok"
    and "store_call env st (key, a) h = (Inr (), t)"
    and "store_call env st (key, b) (run_ops (store_call env st) cs t) = (r, u)"
  shows "\<not> is_ok r"
  using calls.token_used_once [of h env st "(key, a)" "()" t key tok "(key, b)" cs r u] assms
  by (simp add: names_token_def)

lemma token_exchanged_once_witness:
  "\<exists>t. store_call demo_codec_env demo_store (demo_key, Op_Exchange demo_token demo_acked) demo_rest_host = (Inr (), t) \<and>
     \<not> is_ok (fst (store_call demo_codec_env demo_store (demo_key, Op_Exchange demo_token demo_acked)
       (run_ops (store_call demo_codec_env demo_store) [(demo_key, Op_Restore demo_token), (demo_key, Op_Load)] t)))"
proof -
  obtain t where t: "store_call demo_codec_env demo_store (demo_key, Op_Exchange demo_token demo_acked) demo_rest_host
      = (Inr (), t)"
    using demo_exchange_succeeds by (metis is_ok_iff old.unit.exhaust prod.collapse)
  have "tree_ok demo_rest_host" using demo_rest by (simp add: at_rest_def)
  from token_exchanged_once [OF this demo_codec_sound expected_token.simps(1) expected_token.simps(1) t surjective_pairing]
  have "\<not> is_ok (fst (store_call demo_codec_env demo_store (demo_key, Op_Exchange demo_token demo_acked)
       (run_ops (store_call demo_codec_env demo_store) cs t)))" for cs .
  with t show ?thesis by blast
qed

text \<open>
  C20. Creation is exclusive. \<open>create\<close> never touches an existing envelope or backup, whatever fails in
  it: where there is a current envelope or a backup it fails and leaves the current path as it is; where
  there is neither, the current path stays empty or holds the new envelope, complete and at revision 1;
  and after success exactly that is stored.
\<close>
theorem create_exclusive:
  assumes "storable env v" "tree_ok h" "create env st key v h = (r, t)"
  shows "tree_ok t \<and> elsewhere st key (leaf h) (leaf t) \<and>
    leaf t (previous_path st key) = leaf h (previous_path st key) \<and>
    (leaf h (current_path st key) \<noteq> None \<or> leaf h (previous_path st key) \<noteq> None \<longrightarrow>
      leaf t (current_path st key) = leaf h (current_path st key) \<and> \<not> is_ok r) \<and>
    (leaf h (current_path st key) = None \<longrightarrow> leaf t (current_path st key) = None \<or>
      (\<exists>s. stored_view env st key t = Some s \<and> stored_value s = v \<and> revision (stored_token s) = 1)) \<and>
    (\<forall>x. r = Inr x \<longrightarrow> leaf h (current_path st key) = None \<and> leaf h (previous_path st key) = None \<and>
      stored_view env st key t = Some x \<and> stored_value x = v \<and> revision (stored_token x) = 1)"
proof -
  note start = holds_start [OF assms(2)]
  have written: "\<exists>s. decode_envelope (env_sha env) (env_from_json env) bs = Inr s \<and>
      stored_view env st key t = Some s \<and> stored_value s = v \<and> revision (stored_token s) = 1"
    if bs: "encode_envelope (env_sha env) (env_to_json env) v 1 = Inr bs"
      and key: "validate_key (env_sha env) key v = Inr ()"
      and leaf: "leaf t (current_path st key) = Some (File bs 0x180)" for bs
  proof -
    from assms(1) have "sha_sized (env_sha env)"
      "json_roundtrip (env_to_json env) (env_from_json env) v" by (simp_all add: storable_def)
    from encode_envelope_decodes [OF this bs] key leaf show ?thesis
      by (force simp: stored_view_def)
  qed
  show ?thesis
  proof (cases r)
    case (Inl e)
    from hoare_Inl [OF hoare_create start assms(3) [unfolded Inl]] consider
        (same) "leaf t = leaf h" "tree_ok t"
      | (new) bs where "encode_envelope (env_sha env) (env_to_json env) v 1 = Inr bs"
          "validate_key (env_sha env) key v = Inr ()" "created_err st key bs (leaf h) (leaf t)" "tree_ok t"
      by (auto simp: holds_def)
    then show ?thesis
    proof cases
      case same
      with Inl show ?thesis by simp
    next
      case new
      with Inl written [OF new(1,2)] show ?thesis by (auto simp: created_err_def)
    qed
  next
    case (Inr x)
    from hoare_Inr [OF hoare_create start assms(3) [unfolded Inr]] obtain bs where
        new: "encode_envelope (env_sha env) (env_to_json env) v 1 = Inr bs"
          "validate_key (env_sha env) key v = Inr ()" "created_ok st key bs (leaf h) (leaf t)" "tree_ok t"
          "decode_envelope (env_sha env) (env_from_json env) bs = Inr x"
      by (auto simp: holds_def)
    with Inr written [OF new(1,2)] show ?thesis by (auto simp: created_ok_def)
  qed
qed

lemma create_exclusive_witness:
  "\<exists>r t. create demo_env demo_store demo_key demo_acked demo_state_host = (r, t) \<and> \<not> is_ok r \<and>
     leaf t (current_path demo_store demo_key) = Some (File demo_envelope 0x180)"
proof -
  have there: "leaf demo_state_host (current_path demo_store demo_key) = Some (File demo_envelope 0x180)"
    by (simp add: leaf_def demo_state_host_def node_at_def input_directory_def current_path_def
        demo_store_def)
  obtain r t where "create demo_env demo_store demo_key demo_acked demo_state_host = (r, t)" by force
  with create_exclusive [OF demo_storable demo_state_tree this] there show ?thesis by auto
qed

text \<open>
  C21. Activation keeps the progress. An activation moves only an idle input, seen with the expected
  token, to the new configuration at the next configuration generation; the committed cursor, the
  checkpoint generation and the identities stay, and the state it replaces becomes the backup.
\<close>
theorem activation_keeps_progress:
  assumes "sha_sized (env_sha env)" "tree_ok h"
    and "\<forall>cur w. stored_view env st key h = Some cur \<longrightarrow>
      activated (env_sha env) (stored_value cur) fp = Inr w \<longrightarrow>
      json_roundtrip (env_to_json env) (env_from_json env) w"
    and "activate_configuration env st key expected fp h = (r, t)"
  shows "tree_ok t \<and> elsewhere st key (leaf h) (leaf t) \<and>
    (stored_view env st key t = stored_view env st key h \<or>
      (\<exists>cur w. stored_view env st key h = Some cur \<and> stored_token cur = expected \<and>
        activation_step (env_sha env) fp (stored_value cur) w \<and> exchange_to env st key cur w t)) \<and>
    (\<forall>x. r = Inr x \<longrightarrow> stored_view env st key t = Some x \<and>
      (\<exists>cur w. stored_view env st key h = Some cur \<and> stored_token cur = expected \<and>
        activation_step (env_sha env) fp (stored_value cur) w \<and> exchange_to env st key cur w t \<and>
        backup_view env st key t = Some cur))"
proof (intro conjI allI impI)
  note out = replace_outcome [OF hoare_activate_configuration assms(2,4)]
  have adv: "\<exists>cur w. stored_view env st key h = Some cur \<and> stored_token cur = expected \<and>
      found env st key (leaf h) bs cur \<and> activation_step (env_sha env) fp (stored_value cur) w \<and>
      exchange_to env st key cur w t \<and> stored_view env st key t = Some nxt"
    if "advanced env st key (activate_rel env expected fp) (leaf h) (leaf t) bs nxt" for bs nxt
    by (rule activate_advanced [OF assms(1) _ that]) (use assms(3) in blast)
  show "tree_ok t" "elsewhere st key (leaf h) (leaf t)" by (fact out)+
  show "stored_view env st key t = stored_view env st key h \<or>
      (\<exists>cur w. stored_view env st key h = Some cur \<and> stored_token cur = expected \<and>
        activation_step (env_sha env) fp (stored_value cur) w \<and> exchange_to env st key cur w t)"
    using out(3) adv view_cong [of t st key h env] by blast
  fix x assume "r = Inr x"
  with out(4) obtain bs where bs: "leaf t (previous_path st key) = Some (File bs 0x180)"
      "advanced env st key (activate_rel env expected fp) (leaf h) (leaf t) bs x" by blast
  from adv [OF bs(2)] show "stored_view env st key t = Some x" by blast
  from adv [OF bs(2)] found_backup [OF _ bs(1)] show "\<exists>cur w. stored_view env st key h = Some cur \<and>
      stored_token cur = expected \<and> activation_step (env_sha env) fp (stored_value cur) w \<and>
      exchange_to env st key cur w t \<and> backup_view env st key t = Some cur" by blast
qed

definition demo_fingerprint :: fingerprint where
  "demo_fingerprint = Fingerprint (replicate 32 7)"

definition demo_activated :: durable_state where
  "demo_activated = (case activated demo_sha demo_committed demo_fingerprint of
     Inr w \<Rightarrow> w | Inl _ \<Rightarrow> demo_committed)"

definition demo_idle_env :: state_env where
  "demo_idle_env = \<lparr>env_sha = demo_sha,
     env_to_json = (\<lambda>v. Some (if v = demo_committed then [48] else [49])),
     env_from_json = (\<lambda>bs. Some (if bs = [48] then demo_committed else demo_activated))\<rparr>"

lemma demo_idle_view:
  "stored_view demo_idle_env demo_store demo_key demo_state_host =
    Some \<lparr>stored_value = demo_committed, stored_token = demo_token\<rparr>"
  by (rule demo_view) (simp_all add: demo_idle_env_def demo_committed_valid)

lemma demo_activated_json:
  assumes "activated demo_sha demo_committed demo_fingerprint = Inr w"
  shows "json_roundtrip (env_to_json demo_idle_env) (env_from_json demo_idle_env) w"
  using assms activated_step [OF assms]
  by (auto simp: json_roundtrip_def demo_idle_env_def demo_activated_def activation_step_def)

lemma activation_keeps_progress_witness:
  "\<exists>r t s. activate_configuration demo_idle_env demo_store demo_key demo_token demo_fingerprint
      demo_state_host = (r, t) \<and> stored_view demo_idle_env demo_store demo_key t = Some s \<and>
     committed (coordinator (stored_value s)) = committed (coordinator demo_committed)"
proof -
  obtain r t where run: "activate_configuration demo_idle_env demo_store demo_key demo_token
      demo_fingerprint demo_state_host = (r, t)" by force
  have "sha_sized (env_sha demo_idle_env)" by (simp add: demo_idle_env_def demo_sha_sized)
  from activation_keeps_progress [OF this demo_state_tree _ run] run demo_activated_json
  show ?thesis
    by (fastforce simp: demo_idle_view demo_idle_env_def [THEN arg_cong, of env_sha]
        exchange_to_def activation_step_def)
qed

text \<open>
  C22. Restoring the backup. An explicit restore puts the previous state back under a new revision,
  never an old one, and only over the state the caller saw; what it replaces becomes the backup, so
  that a restore can itself be undone.
\<close>
theorem restore_swaps_backup:
  assumes "sha_sized (env_sha env)" "tree_ok h"
    and "\<forall>p. backup_view env st key h = Some p \<longrightarrow>
      json_roundtrip (env_to_json env) (env_from_json env) (stored_value p)"
    and "restore_previous env st key expected h = (r, t)"
  shows "tree_ok t \<and> elsewhere st key (leaf h) (leaf t) \<and>
    (stored_view env st key t = stored_view env st key h \<or>
      (\<exists>cur p. stored_view env st key h = Some cur \<and> stored_token cur = expected \<and>
        backup_view env st key h = Some p \<and> exchange_to env st key cur (stored_value p) t)) \<and>
    (\<forall>x. r = Inr x \<longrightarrow> stored_view env st key t = Some x \<and>
      (\<exists>cur p. stored_view env st key h = Some cur \<and> stored_token cur = expected \<and>
        backup_view env st key h = Some p \<and> exchange_to env st key cur (stored_value p) t \<and>
        backup_view env st key t = Some cur))"
proof (intro conjI allI impI)
  note out = replace_outcome [OF hoare_restore_previous assms(2,4)]
  have adv: "\<exists>cur p. stored_view env st key h = Some cur \<and> stored_token cur = expected \<and>
      found env st key (leaf h) bs cur \<and> backup_view env st key h = Some p \<and>
      exchange_to env st key cur (stored_value p) t \<and> stored_view env st key t = Some nxt"
    if "advanced env st key (restore_rel env key expected) (leaf h) (leaf t) bs nxt" for bs nxt
    by (rule restore_advanced [OF assms(1) _ that]) (use assms(3) in blast)
  show "tree_ok t" "elsewhere st key (leaf h) (leaf t)" by (fact out)+
  show "stored_view env st key t = stored_view env st key h \<or>
      (\<exists>cur p. stored_view env st key h = Some cur \<and> stored_token cur = expected \<and>
        backup_view env st key h = Some p \<and> exchange_to env st key cur (stored_value p) t)"
    using out(3) adv view_cong [of t st key h env] by blast
  fix x assume "r = Inr x"
  with out(4) obtain bs where bs: "leaf t (previous_path st key) = Some (File bs 0x180)"
      "advanced env st key (restore_rel env key expected) (leaf h) (leaf t) bs x" by blast
  from adv [OF bs(2)] show "stored_view env st key t = Some x" by blast
  from adv [OF bs(2)] found_backup [OF _ bs(1)] show "\<exists>cur p. stored_view env st key h = Some cur \<and>
      stored_token cur = expected \<and> backup_view env st key h = Some p \<and>
      exchange_to env st key cur (stored_value p) t \<and> backup_view env st key t = Some cur" by blast
qed

definition demo_backup_host :: host where
  "demo_backup_host = demo_state_host\<lparr>nodes := nodes demo_state_host @
     [(previous_path demo_store demo_key, File (envelope_prefix 1 1 @ replicate 32 49 @ [49]) 0x180)]\<rparr>"

lemma demo_backup_tree: "tree_ok demo_backup_host"
  by (simp add: tree_ok_def demo_backup_host_def demo_state_host_def node_at_def input_directory_def
      current_path_def previous_path_def demo_store_def CURRENT_FILE_def PREVIOUS_FILE_def butlast_append)

lemma demo_backup_json:
  "backup_view demo_env st key h = Some p \<Longrightarrow>
   json_roundtrip (env_to_json demo_env) (env_from_json demo_env) (stored_value p)"
  by (auto simp: backup_view_def json_roundtrip_def demo_env_def
      split: option.split_asm node.split_asm sum.split_asm if_split_asm
      dest!: decode_is_encoded)

lemma restore_swaps_backup_witness:
  "\<exists>r t. restore_previous demo_env demo_store demo_key demo_token demo_backup_host = (r, t) \<and>
     tree_ok t \<and> elsewhere demo_store demo_key (leaf demo_backup_host) (leaf t)"
proof -
  obtain r t where run: "restore_previous demo_env demo_store demo_key demo_token demo_backup_host = (r, t)"
    by force
  have "sha_sized (env_sha demo_env)" by (simp add: demo_env_def demo_sha_sized)
  from restore_swaps_backup [OF this demo_backup_tree _ run] run demo_backup_json
  show ?thesis by blast
qed

text \<open>
  Loading. \<open>load\<close> changes no file; what it returns is exactly the stored state of the input, and
  it reports a missing state only where there is no file.
\<close>
theorem load_faithful:
  assumes "tree_ok h" "load env st key h = (r, t)"
  shows "leaf t = leaf h \<and> (\<forall>s. r = Inr (Current s) \<longrightarrow> stored_view env st key h = Some s) \<and>
    (r = Inr Missing \<longrightarrow> leaf h (current_path st key) = None)"
proof -
  have "hoare (holds (leaf h) {}) (load env st key)
      (\<lambda>x t. (case x of Current s \<Rightarrow> stored_view env st key h = Some s
         | Missing \<Rightarrow> leaf h (current_path st key) = None) \<and> holds (leaf h) {} t)
      (\<lambda>_. holds (leaf h) {})"
    unfolding load_def load_unlocked_def
    by (rule hoare_bnd [OF hoare_lock_writer], rule hoare_bnd [OF hoare_read_current])
      (auto simp: hoare_def found_view split: option.split)
  from hoare_Inr [OF this holds_start [OF assms(1)]] hoare_Inl [OF this holds_start [OF assms(1)]] assms(2)
  show ?thesis by (cases r) (auto simp: holds_def split: load_result.split_asm)
qed

lemma load_faithful_witness:
  "\<exists>r t. load demo_env demo_store demo_key demo_state_host = (r, t) \<and> leaf t = leaf demo_state_host \<and>
     r \<noteq> Inr Missing"
proof -
  obtain r t where run: "load demo_env demo_store demo_key demo_state_host = (r, t)" by force
  have "leaf demo_state_host (current_path demo_store demo_key) \<noteq> None"
    using view_found [OF demo_pending_view] by (auto simp: found_def)
  with load_faithful [OF demo_state_tree run] run show ?thesis by blast
qed

end
