(* ===== verification/Spool_Format.thy ===== *)
theory Spool_Format
  imports Secure_Fs
begin

text \<open>
  The segment format of \<open>crates/dbx-rs-spool/src\<close>: identities and their hexadecimal names
  (\<open>identity.rs\<close>), limits, headers, summaries and recovery metadata (\<open>model.rs\<close>), and the reading half
  of \<open>format.rs\<close>. A segment is a clear prefix and a sequence of numbered frames, each sealed with an
  authenticated cipher over the prefix, its length and its number. The cipher, the key derivation and
  SHA-256 are parameters; \<open>cipher_ok\<close> is what is documented of the cipher.
\<close>

section \<open>Errors and identities\<close>

record spool_error =
  sp_code :: string
  sp_stage :: string
  sp_message :: string
  sp_io_kind :: "io_kind option"

definition sp_error :: "string \<Rightarrow> string \<Rightarrow> string \<Rightarrow> spool_error" where
  "sp_error code stage message =
     \<lparr>sp_code = code, sp_stage = stage, sp_message = message, sp_io_kind = None\<rparr>"

definition sp_io_error :: "string \<Rightarrow> string \<Rightarrow> string \<Rightarrow> io_kind \<Rightarrow> spool_error" where
  "sp_io_error code stage message kind =
     \<lparr>sp_code = code, sp_stage = stage, sp_message = message, sp_io_kind = Some kind\<rparr>"

definition from_secure_store :: "secure_store_error \<Rightarrow> spool_error" where
  "from_secure_store e =
     \<lparr>sp_code = ''DBX-RS-SPOOL-0001'', sp_stage = ''protected_storage'',
       sp_message = ''protected storage operation failed'', sp_io_kind = err_io_kind e\<rparr>"

datatype input_key = InputKey (input_key_bytes: bytes)
datatype spool_fingerprint = SpoolFingerprint (spool_fingerprint_bytes: bytes)
datatype batch_id = BatchId (batch_id_bytes: bytes)
datatype segment_id = SegmentId (segment_id_bytes: bytes)

definition encode_hex :: "bytes \<Rightarrow> string" where
  "encode_hex bs = concat (map hex_byte bs)"

definition is_lower_hex :: "char \<Rightarrow> bool" where
  "is_lower_hex c \<longleftrightarrow> (of_char c :: nat) \<in> {48..57} \<union> {97..102}"

definition hex_value :: "char \<Rightarrow> u8 option" where
  "hex_value c =
     (let b = of_char c :: u8 in
      if 48 \<le> b \<and> b \<le> 57 then Some (b - 48)
      else if 97 \<le> b \<and> b \<le> 102 then Some (b - 97 + 10)
      else None)"

fun decode_pairs :: "string \<Rightarrow> bytes option" where
  "decode_pairs (h # l # cs) =
     (case (hex_value h, hex_value l) of
        (Some high, Some low) \<Rightarrow> map_option ((#) (push_bit 4 high OR low)) (decode_pairs cs)
      | _ \<Rightarrow> None)"
| "decode_pairs _ = Some []"

definition decode_hex :: "nat \<Rightarrow> string \<Rightarrow> bytes option" where
  "decode_hex n value =
     (if length value \<noteq> n * 2 \<or> \<not> list_all is_lower_hex value then None else decode_pairs value)"

section \<open>Limits, headers and metadata\<close>

definition MIN_SEGMENT_BYTES :: u64 where "MIN_SEGMENT_BYTES = 512"
definition MAX_RECOVERY_METADATA_BYTES :: nat where "MAX_RECOVERY_METADATA_BYTES = 128"

definition new_recovery_metadata :: "bytes \<Rightarrow> spool_error + bytes" where
  "new_recovery_metadata bs =
     (if length bs > MAX_RECOVERY_METADATA_BYTES
      then Err (sp_error ''DBX-RS-SPOOL-LIMIT-0015'' ''recovery_metadata''
        ''spool recovery metadata exceeds the hard limit'')
      else Ok bs)"

record spool_limits =
  lim_segment :: u64
  lim_input :: u64
  lim_global :: u64

definition new_limits :: "u64 \<Rightarrow> u64 \<Rightarrow> u64 \<Rightarrow> spool_error + spool_limits" where
  "new_limits seg inp glob =
     (if seg < MIN_SEGMENT_BYTES \<or> seg > inp \<or> inp > glob
      then Err (sp_error ''DBX-RS-SPOOL-LIMIT-0001'' ''limit_validate'' ''spool limits are invalid'')
      else Ok \<lparr>lim_segment = seg, lim_input = inp, lim_global = glob\<rparr>)"

record segment_header =
  hdr_input_key :: input_key
  hdr_fingerprint :: spool_fingerprint
  hdr_generation :: u64
  hdr_batch_id :: batch_id
  hdr_batch_sequence :: u64
  hdr_segment_sequence :: u64
  hdr_created :: u64

record segment_summary =
  sum_events :: u64
  sum_plaintext :: u64
  sum_digest :: bytes

section \<open>The cipher and the derived key\<close>

text \<open>
  ChaCha20-Poly1305 seals a plaintext into a ciphertext sixteen bytes longer and opens exactly what it
  sealed under the same key, nonce and associated data: the tag is recomputed and compared.
\<close>

record spool_crypto =
  seal :: "bytes \<Rightarrow> bytes \<Rightarrow> bytes \<Rightarrow> bytes \<Rightarrow> bytes option"
  unseal :: "bytes \<Rightarrow> bytes \<Rightarrow> bytes \<Rightarrow> bytes \<Rightarrow> bytes option"
  hkdf :: "bytes \<Rightarrow> bytes \<Rightarrow> bytes \<Rightarrow> bytes option"
  unbound_key :: "bytes \<Rightarrow> bytes option"
  sha256 :: "bytes \<Rightarrow> bytes"

definition TAG_LEN :: nat where "TAG_LEN = 16"

definition cipher_ok :: "spool_crypto \<Rightarrow> bool" where
  "cipher_ok C \<longleftrightarrow>
     (\<forall>k n a p c. seal C k n a p = Some c \<longrightarrow> length c = length p + TAG_LEN \<and> unseal C k n a c = Some p) \<and>
     (\<forall>k n a p c. unseal C k n a c = Some p \<longrightarrow> seal C k n a p = Some c) \<and>
     (\<forall>x. length (sha256 C x) = 32)"

record spool_key =
  master :: bytes
  key_id :: bytes

definition derive_segment_key :: "spool_crypto \<Rightarrow> bytes \<Rightarrow> bytes \<Rightarrow> segment_id \<Rightarrow> spool_error + bytes" where
  "derive_segment_key C master_key salt sid =
     bindr (ok_or (sp_error ''DBX-RS-SPOOL-CRYPTO-0004'' ''key_derive'' ''spool segment key derivation failed'')
       (hkdf C salt master_key (ascii ''dbx-rs-spool-segment-v1'' @ segment_id_bytes sid))) (\<lambda>derived.
     ok_or (sp_error ''DBX-RS-SPOOL-CRYPTO-0005'' ''key_initialize''
       ''spool segment key initialization failed'') (unbound_key C derived))"

section \<open>Layout\<close>

definition SPOOL_MAGIC :: bytes where "SPOOL_MAGIC = ascii ''DBXRSSPL''"
definition LEGACY_FORMAT_VERSION :: u16 where "LEGACY_FORMAT_VERSION = 1"
definition FORMAT_VERSION :: u16 where "FORMAT_VERSION = 2"
definition PREFIX_BYTES :: nat where "PREFIX_BYTES = 74"
definition FRAME_PREFIX_BYTES :: u64 where "FRAME_PREFIX_BYTES = 12"
definition HEADER_PAYLOAD_BYTES :: nat where "HEADER_PAYLOAD_BYTES = 112"
definition FOOTER_PAYLOAD_BYTES :: nat where "FOOTER_PAYLOAD_BYTES = 48"
definition FRAME_HEADER :: u8 where "FRAME_HEADER = 1"
definition FRAME_EVENT :: u8 where "FRAME_EVENT = 2"
definition FRAME_FOOTER :: u8 where "FRAME_FOOTER = 3"
definition FRAME_RECOVERY_METADATA :: u8 where "FRAME_RECOVERY_METADATA = 4"

lemmas spool_sizes = PREFIX_BYTES_def FRAME_PREFIX_BYTES_def HEADER_PAYLOAD_BYTES_def
  FOOTER_PAYLOAD_BYTES_def MAX_RECOVERY_METADATA_BYTES_def TAG_LEN_def
lemmas frame_types = FRAME_HEADER_def FRAME_EVENT_def FRAME_FOOTER_def FRAME_RECOVERY_METADATA_def
lemmas spool_versions = LEGACY_FORMAT_VERSION_def FORMAT_VERSION_def

definition invalid_version :: spool_error where
  "invalid_version = sp_error ''DBX-RS-SPOOL-FORMAT-0016'' ''version_validate''
     ''spool segment format version is unsupported''"

definition encode_prefix :: "bytes \<Rightarrow> bytes \<Rightarrow> segment_id \<Rightarrow> u16 \<Rightarrow> bytes" where
  "encode_prefix kid salt sid version =
     SPOOL_MAGIC @ be_bytes 2 version @ kid @ salt @ segment_id_bytes sid"

definition decode_prefix :: "bytes \<Rightarrow> spool_error + (u16 \<times> bytes \<times> bytes \<times> segment_id)" where
  "decode_prefix prefix =
     (if take 8 prefix \<noteq> SPOOL_MAGIC
      then Err (sp_error ''DBX-RS-SPOOL-FORMAT-0015'' ''prefix_validate'' ''spool segment magic is invalid'')
      else
        let version = from_be (take 2 (drop 8 prefix)) in
        if version \<noteq> LEGACY_FORMAT_VERSION \<and> version \<noteq> FORMAT_VERSION then Err invalid_version
        else Ok (version, take 16 (drop 10 prefix), take 32 (drop 26 prefix),
          SegmentId (take 16 (drop 58 prefix))))"

definition encode_header :: "segment_header \<Rightarrow> bytes" where
  "encode_header h =
     input_key_bytes (hdr_input_key h) @ spool_fingerprint_bytes (hdr_fingerprint h) @
     be_bytes 8 (hdr_generation h) @ batch_id_bytes (hdr_batch_id h) @
     be_bytes 8 (hdr_batch_sequence h) @ be_bytes 8 (hdr_segment_sequence h) @
     be_bytes 8 (hdr_created h)"

definition decode_header :: "bytes \<Rightarrow> spool_error + segment_header" where
  "decode_header payload =
     (if length payload \<noteq> HEADER_PAYLOAD_BYTES
      then Err (sp_error ''DBX-RS-SPOOL-FORMAT-0017'' ''header_decode''
        ''encrypted spool header length is invalid'')
      else Ok \<lparr>hdr_input_key = InputKey (take 32 payload),
        hdr_fingerprint = SpoolFingerprint (take 32 (drop 32 payload)),
        hdr_generation = from_be (take 8 (drop 64 payload)),
        hdr_batch_id = BatchId (take 16 (drop 72 payload)),
        hdr_batch_sequence = from_be (take 8 (drop 88 payload)),
        hdr_segment_sequence = from_be (take 8 (drop 96 payload)),
        hdr_created = from_be (take 8 (drop 104 payload))\<rparr>)"

definition encode_footer :: "segment_summary \<Rightarrow> bytes" where
  "encode_footer s = be_bytes 8 (sum_events s) @ be_bytes 8 (sum_plaintext s) @ sum_digest s"

definition decode_footer :: "bytes \<Rightarrow> spool_error + segment_summary" where
  "decode_footer payload =
     (if length payload \<noteq> FOOTER_PAYLOAD_BYTES
      then Err (sp_error ''DBX-RS-SPOOL-FORMAT-0018'' ''footer_decode''
        ''encrypted spool footer length is invalid'')
      else Ok \<lparr>sum_events = from_be (take 8 payload), sum_plaintext = from_be (take 8 (drop 8 payload)),
        sum_digest = take 32 (drop 16 payload)\<rparr>)"

definition frame_aad :: "bytes \<Rightarrow> u32 \<Rightarrow> u64 \<Rightarrow> bytes" where
  "frame_aad prefix cipher_length seq = prefix @ be_bytes 4 cipher_length @ be_bytes 8 seq"

definition nonce :: "u64 \<Rightarrow> bytes" where
  "nonce seq = replicate 4 0 @ be_bytes 8 seq"

section \<open>Sizes\<close>

definition frame_size_error :: spool_error where
  "frame_size_error = sp_error ''DBX-RS-SPOOL-LIMIT-0014'' ''frame_size'' ''spool frame length overflowed''"

definition encoded_frame_bytes :: "nat \<Rightarrow> spool_error + u64" where
  "encoded_frame_bytes plaintext_length =
     bindr (ok_or frame_size_error (u64_of_len (plaintext_length + TAG_LEN))) (\<lambda>cipher_length.
       ok_or frame_size_error (checked_add FRAME_PREFIX_BYTES cipher_length))"

definition unwrap_or_max :: "'e + u64 \<Rightarrow> u64" where
  "unwrap_or_max r = (case r of Inr n \<Rightarrow> n | Inl _ \<Rightarrow> - 1)"

definition footer_frame_bytes :: u64 where
  "footer_frame_bytes = unwrap_or_max (encoded_frame_bytes (FOOTER_PAYLOAD_BYTES + 1))"

definition maximum_recovery_metadata_frame_bytes :: u64 where
  "maximum_recovery_metadata_frame_bytes =
     unwrap_or_max (encoded_frame_bytes (MAX_RECOVERY_METADATA_BYTES + 1))"

definition terminal_frame_bytes :: "u16 \<Rightarrow> u64" where
  "terminal_frame_bytes version =
     (if version = LEGACY_FORMAT_VERSION then footer_frame_bytes
      else if version = FORMAT_VERSION
      then saturating_add maximum_recovery_metadata_frame_bytes footer_frame_bytes
      else - 1)"

definition maximum_ciphertext_frame_bytes :: "u64 \<Rightarrow> u16 \<Rightarrow> u64" where
  "maximum_ciphertext_frame_bytes limit version =
     (let header_frame_bytes = unwrap_or_max (encoded_frame_bytes (HEADER_PAYLOAD_BYTES + 1));
          fixed = Option.bind (checked_add (of_nat PREFIX_BYTES) header_frame_bytes) (\<lambda>n.
            Option.bind (checked_add n (terminal_frame_bytes version)) (\<lambda>n.
              checked_add n FRAME_PREFIX_BYTES));
          maximum_event = (case fixed of None \<Rightarrow> 0 | Some n \<Rightarrow> saturating_sub limit n)
      in if version = LEGACY_FORMAT_VERSION then maximum_event
         else if version = FORMAT_VERSION
         then max (max (max maximum_event (of_nat (HEADER_PAYLOAD_BYTES + 1 + TAG_LEN)))
           (of_nat (MAX_RECOVERY_METADATA_BYTES + 1 + TAG_LEN)))
           (of_nat (FOOTER_PAYLOAD_BYTES + 1 + TAG_LEN))
         else 0)"

section \<open>Reading a segment\<close>

definition truncated :: "string \<Rightarrow> spool_error" where
  "truncated stage = sp_error ''DBX-RS-SPOOL-FORMAT-0019'' stage ''spool segment is truncated''"

definition truncated_segment :: spool_error where
  "truncated_segment = truncated ''frame_read''"

definition read_exact :: "nat \<Rightarrow> string \<Rightarrow> (reader, spool_error, bytes) op" where
  "read_exact n stage r =
     (if n \<le> length (unread r) then (Ok (take n (unread r)), r\<lparr>unread := drop n (unread r)\<rparr>)
      else ((case broken r of
          None \<Rightarrow> Err (truncated stage)
        | Some kind \<Rightarrow> Err (sp_io_error ''DBX-RS-SPOOL-FORMAT-0020'' stage ''failed to read a spool segment'' kind)),
        r\<lparr>unread := []\<rparr>))"

record segment_decoder =
  d_reader :: reader
  d_key :: bytes
  d_prefix :: bytes
  d_segment_id :: segment_id
  d_next_sequence :: u64
  d_event_count :: u64
  d_plaintext :: u64
  d_digest :: bytes
  d_summary :: "segment_summary option"
  d_done :: bool
  d_limit :: u64
  d_remaining :: u64
  d_header :: segment_header
  d_version :: u16
  d_metadata :: "bytes option"

type_synonym 'a decoding = "(segment_decoder, spool_error, 'a) op"

definition decoder_read :: "nat \<Rightarrow> string \<Rightarrow> bytes decoding" where
  "decoder_read n stage d =
     (case read_exact n stage (d_reader d) of (r, rd) \<Rightarrow> (r, d\<lparr>d_reader := rd\<rparr>))"

definition invalid_frame_type :: spool_error where
  "invalid_frame_type = sp_error ''DBX-RS-SPOOL-FORMAT-0021'' ''frame_type'' ''spool frame type is invalid''"

definition missing_metadata_error :: spool_error where
  "missing_metadata_error = sp_error ''DBX-RS-SPOOL-FORMAT-0025'' ''recovery_metadata''
     ''version 2 spool segment has no recovery metadata frame''"

definition repeated_metadata_error :: spool_error where
  "repeated_metadata_error = sp_error ''DBX-RS-SPOOL-FORMAT-0026'' ''recovery_metadata''
     ''spool segment contains repeated recovery metadata''"

definition metadata_order_error :: spool_error where
  "metadata_order_error = sp_error ''DBX-RS-SPOOL-FORMAT-0027'' ''frame_order''
     ''spool recovery metadata is not the final frame before the footer''"

definition invalid_length_error :: spool_error where
  "invalid_length_error = sp_error ''DBX-RS-SPOOL-FORMAT-0013'' ''frame_read''
     ''encrypted spool frame length is invalid''"

text \<open>
  One frame. The length and the number are checked before anything is allocated; a \<open>usize\<close> has 64
  bits, so the length always fits one. The parts of \<open>read_frame\<close> follow its body from the end.
\<close>

definition open_frame :: "spool_crypto \<Rightarrow> u32 \<Rightarrow> u64 \<Rightarrow> u64 \<Rightarrow> bytes \<Rightarrow> bytes decoding" where
  "open_frame C cipher_length seq remaining_ciphertext ciphertext d0 =
     (let d = d0\<lparr>d_remaining := remaining_ciphertext - ucast cipher_length\<rparr> in
      try_in (ok_or (sp_error ''DBX-RS-SPOOL-CRYPTO-0003'' ''frame_authenticate''
          ''spool frame authentication failed'')
        (unseal C (d_key d) (nonce seq) (frame_aad (d_prefix d) cipher_length seq) ciphertext)) d (\<lambda>plaintext.
      try_in (ok_or (sp_error ''DBX-RS-SPOOL-LIMIT-0013'' ''frame_sequence''
          ''spool frame sequence overflowed'') (checked_add (d_next_sequence d) 1)) d (\<lambda>n.
        (Ok plaintext, d\<lparr>d_next_sequence := n\<rparr>))))"

definition read_numbered :: "spool_crypto \<Rightarrow> u32 \<Rightarrow> u64 \<Rightarrow> bytes decoding" where
  "read_numbered C cipher_length seq d =
     (if seq \<noteq> d_next_sequence d
      then (Err (sp_error ''DBX-RS-SPOOL-FORMAT-0014'' ''frame_sequence'' ''spool frame sequence is invalid''), d)
      else
        let remaining_ciphertext = d_remaining d - FRAME_PREFIX_BYTES in
        if ucast cipher_length > remaining_ciphertext then (Err truncated_segment, d)
        else if ucast cipher_length > maximum_ciphertext_frame_bytes (d_limit d) (d_version d)
        then (Err invalid_length_error, d)
        else bnd (decoder_read (unat cipher_length) ''frame_read'')
          (open_frame C cipher_length seq remaining_ciphertext) d)"

definition read_sized :: "spool_crypto \<Rightarrow> u32 \<Rightarrow> bytes decoding" where
  "read_sized C cipher_length d =
     (if cipher_length < saturating_add 1 (of_nat TAG_LEN) \<or> ucast cipher_length > d_limit d
      then (Err invalid_length_error, d)
      else bnd (decoder_read 8 ''frame_read'') (\<lambda>sequence_bytes.
        read_numbered C cipher_length (from_be sequence_bytes)) d)"

definition read_frame :: "spool_crypto \<Rightarrow> bytes decoding" where
  "read_frame C d =
     (if d_remaining d < FRAME_PREFIX_BYTES then (Err truncated_segment, d)
      else bnd (decoder_read 4 ''frame_read'') (\<lambda>length_bytes. read_sized C (from_be length_bytes)) d)"

definition plaintext_overflow :: spool_error where
  "plaintext_overflow = sp_error ''DBX-RS-SPOOL-LIMIT-0010'' ''event_read''
     ''spool plaintext byte count overflowed''"

definition accept_event :: "bytes \<Rightarrow> bytes decoding" where
  "accept_event payload d =
     (if d_version d = FORMAT_VERSION \<and> d_metadata d \<noteq> None then (Err metadata_order_error, d)
      else if payload = []
      then (Err (sp_error ''DBX-RS-SPOOL-FORMAT-0008'' ''event_read'' ''spool event frame is empty''), d)
      else
        try_in (ok_or plaintext_overflow (u64_of_len (length payload))) d (\<lambda>event_bytes.
        try_in (ok_or (sp_error ''DBX-RS-SPOOL-LIMIT-0011'' ''event_read'' ''spool event count overflowed'')
          (checked_add (d_event_count d) 1)) d (\<lambda>n.
        let d = d\<lparr>d_event_count := n\<rparr> in
        try_in (ok_or plaintext_overflow (checked_add (d_plaintext d) event_bytes)) d (\<lambda>p.
          (Ok payload, d\<lparr>d_plaintext := p, d_digest := d_digest d @ be_bytes 8 event_bytes @ payload\<rparr>)))))"

definition mark_done :: "segment_summary \<Rightarrow> segment_decoder \<Rightarrow> segment_decoder" where
  "mark_done summary d =
     (if d_version d = LEGACY_FORMAT_VERSION then d\<lparr>d_metadata := Some []\<rparr> else d)
       \<lparr>d_summary := Some summary, d_done := True\<rparr>"

definition accept_footer :: "spool_crypto \<Rightarrow> bytes \<Rightarrow> unit decoding" where
  "accept_footer C payload d =
     (if d_version d = FORMAT_VERSION \<and> d_metadata d = None then (Err missing_metadata_error, d)
      else
        try_in (decode_footer payload) d (\<lambda>summary.
        if sum_events summary \<noteq> d_event_count d \<or> sum_plaintext summary \<noteq> d_plaintext d \<or>
           sum_digest summary \<noteq> sha256 C (d_digest d)
        then (Err (sp_error ''DBX-RS-SPOOL-FORMAT-0009'' ''footer_validate''
          ''spool footer accounting or digest is invalid''), d)
        else
          (case (unread (d_reader d), broken (d_reader d)) of
             ([], Some kind) \<Rightarrow> (Err (sp_io_error ''DBX-RS-SPOOL-FORMAT-0010'' ''trailing_validate''
                 ''failed to inspect the spool segment terminator'' kind), d)
           | (_ # rest, _) \<Rightarrow> (Err (sp_error ''DBX-RS-SPOOL-FORMAT-0011'' ''trailing_validate''
                 ''spool segment has trailing data''), d\<lparr>d_reader := (d_reader d)\<lparr>unread := rest\<rparr>\<rparr>)
           | ([], None) \<Rightarrow> (Ok (), mark_done summary d))))"

text \<open>A frame that was read consumed its number and length at least.\<close>

abbreviation pending :: "segment_decoder \<Rightarrow> nat" where
  "pending d \<equiv> length (unread (d_reader d))"

definition advanced_to :: "bytes \<Rightarrow> segment_decoder \<Rightarrow> segment_decoder" where
  "advanced_to rest d = d\<lparr>d_reader := (d_reader d)\<lparr>unread := rest\<rparr>\<rparr>"

lemma advanced_to_simps [simp]:
  "unread (d_reader (advanced_to r d)) = r" "broken (d_reader (advanced_to r d)) = broken (d_reader d)"
  "d_key (advanced_to r d) = d_key d" "d_prefix (advanced_to r d) = d_prefix d"
  "d_next_sequence (advanced_to r d) = d_next_sequence d" "d_remaining (advanced_to r d) = d_remaining d"
  "d_limit (advanced_to r d) = d_limit d" "d_version (advanced_to r d) = d_version d"
  "advanced_to r (advanced_to r' d) = advanced_to r d"
  by (simp_all add: advanced_to_def)

lemma decoder_read_Ok:
  "decoder_read n stage d = (Inr bs, d') \<longleftrightarrow>
     n \<le> pending d \<and> bs = take n (unread (d_reader d)) \<and> d' = advanced_to (drop n (unread (d_reader d))) d"
  by (auto simp: decoder_read_def read_exact_def advanced_to_def split: option.split)

definition frame_read ::
    "spool_crypto \<Rightarrow> segment_decoder \<Rightarrow> bytes \<Rightarrow> u32 \<Rightarrow> bytes \<Rightarrow> bytes \<Rightarrow> segment_decoder \<Rightarrow> bool" where
  "frame_read C d pt len c rest d' \<longleftrightarrow>
     unread (d_reader d) = be_bytes 4 len @ be_bytes 8 (d_next_sequence d) @ c @ rest \<and>
     length c = unat len \<and> 17 \<le> len \<and> ucast len \<le> d_limit d \<and>
     12 \<le> d_remaining d \<and> ucast len \<le> d_remaining d - 12 \<and>
     ucast len \<le> maximum_ciphertext_frame_bytes (d_limit d) (d_version d) \<and>
     unseal C (d_key d) (nonce (d_next_sequence d)) (frame_aad (d_prefix d) len (d_next_sequence d)) c = Some pt \<and>
     checked_add (d_next_sequence d) 1 \<noteq> None \<and>
     d' = (advanced_to rest d)\<lparr>d_remaining := d_remaining d - 12 - ucast len,
       d_next_sequence := d_next_sequence d + 1\<rparr>"

lemma open_frame_Ok:
  "open_frame C len seq rem c d = (Inr pt, d') \<longleftrightarrow>
     unseal C (d_key d) (nonce seq) (frame_aad (d_prefix d) len seq) c = Some pt \<and>
     checked_add (d_next_sequence d) 1 \<noteq> None \<and>
     d' = d\<lparr>d_remaining := rem - ucast len, d_next_sequence := d_next_sequence d + 1\<rparr>"
  by (auto simp: open_frame_def Let_def try_in_eq_Inr checked_add_Some)

lemma read_numbered_Ok:
  "read_numbered C len seq d = (Inr pt, d') \<longleftrightarrow>
     seq = d_next_sequence d \<and> ucast len \<le> d_remaining d - 12 \<and>
     ucast len \<le> maximum_ciphertext_frame_bytes (d_limit d) (d_version d) \<and> unat len \<le> pending d \<and>
     open_frame C len seq (d_remaining d - 12) (take (unat len) (unread (d_reader d)))
       (advanced_to (drop (unat len) (unread (d_reader d))) d) = (Inr pt, d')"
  by (auto simp: read_numbered_def Let_def bnd_eq_Inr decoder_read_Ok FRAME_PREFIX_BYTES_def not_less)

lemma read_sized_Ok:
  "read_sized C len d = (Inr pt, d') \<longleftrightarrow>
     17 \<le> len \<and> ucast len \<le> d_limit d \<and> 8 \<le> pending d \<and>
     read_numbered C len (from_be (take 8 (unread (d_reader d))))
       (advanced_to (drop 8 (unread (d_reader d))) d) = (Inr pt, d')"
  by (auto simp: read_sized_def bnd_eq_Inr decoder_read_Ok saturating_add_def TAG_LEN_def not_less)

lemma read_frame_Ok:
  "read_frame C d = (Inr pt, d') \<longleftrightarrow>
     12 \<le> d_remaining d \<and> 4 \<le> pending d \<and>
     read_sized C (from_be (take 4 (unread (d_reader d))))
       (advanced_to (drop 4 (unread (d_reader d))) d) = (Inr pt, d')"
  by (auto simp: read_frame_def bnd_eq_Inr decoder_read_Ok FRAME_PREFIX_BYTES_def not_less)

lemma split_fields:
  assumes "12 + n \<le> length u"
  shows "u = be_bytes 4 (from_be (take 4 u) :: u32) @ be_bytes 8 (from_be (take 8 (drop 4 u)) :: u64) @
    take n (drop 12 u) @ drop (12 + n) u"
proof -
  have "be_bytes 4 (from_be (take 4 u) :: u32) = take 4 u"
    "be_bytes 8 (from_be (take 8 (drop 4 u)) :: u64) = take 8 (drop 4 u)"
    using be_bytes_from_be [of "take 4 u", where 'a = 32] be_bytes_from_be [of "take 8 (drop 4 u)", where 'a = 64]
      assms by (simp_all del: be_bytes_numeral)
  moreover have "u = take 4 u @ take 8 (drop 4 u) @ take n (drop 12 u) @ drop (12 + n) u"
    using append_take_drop_id [of "12 + n" u] take_add [of 12 n u] take_add [of 4 8 u] by simp
  ultimately show ?thesis by simp
qed

lemma read_frame_iff:
  "read_frame C d = (Inr pt, d') \<longleftrightarrow> (\<exists>len c rest. frame_read C d pt len c rest d')"
  (is "?L \<longleftrightarrow> ?R")
proof
  let ?u = "unread (d_reader d)"
  assume ?L
  then have r: "12 \<le> d_remaining d" "4 \<le> pending d" and
    s: "read_sized C (from_be (take 4 ?u)) (advanced_to (drop 4 ?u) d) = (Inr pt, d')"
    unfolding read_frame_Ok by auto
  let ?len = "from_be (take 4 ?u) :: u32"
  from s have l: "17 \<le> ?len" "ucast ?len \<le> d_limit d" "8 \<le> length (drop 4 ?u)" and
    n: "read_numbered C ?len (from_be (take 8 (drop 4 ?u))) (advanced_to (drop 12 ?u) d) = (Inr pt, d')"
    unfolding read_sized_Ok by simp_all
  then have o1: "from_be (take 8 (drop 4 ?u)) = d_next_sequence d"
    unfolding read_numbered_Ok by simp
  with n l(3) have o: "ucast ?len \<le> d_remaining d - 12"
    "ucast ?len \<le> maximum_ciphertext_frame_bytes (d_limit d) (d_version d)"
    "unat ?len \<le> length (drop 12 ?u)"
    "open_frame C ?len (d_next_sequence d) (d_remaining d - 12) (take (unat ?len) (drop 12 ?u))
       (advanced_to (drop (12 + unat ?len) ?u) d) = (Inr pt, d')"
    unfolding read_numbered_Ok by (simp_all add: add.commute)
  have "12 + unat ?len \<le> length ?u" using l(3) o(3) by simp
  note f = split_fields [OF this]
  have "frame_read C d pt ?len (take (unat ?len) (drop 12 ?u)) (drop (12 + unat ?len) ?u) d'"
    using f l r o unfolding frame_read_def open_frame_Ok o1 by simp
  then show ?R by blast
next
  assume ?R
  then obtain len c rest where f: "frame_read C d pt len c rest d'" by blast
  let ?u = "unread (d_reader d)"
  from f have u: "?u = be_bytes 4 len @ be_bytes 8 (d_next_sequence d) @ c @ rest" "length c = unat len"
    by (simp_all add: frame_read_def del: be_bytes_numeral)
  have t: "take 4 ?u = be_bytes 4 len" "drop 4 ?u = be_bytes 8 (d_next_sequence d) @ c @ rest"
    "take 8 (be_bytes 8 (d_next_sequence d) @ c @ rest) = be_bytes 8 (d_next_sequence d)"
    "drop 8 (be_bytes 8 (d_next_sequence d) @ c @ rest) = c @ rest"
    using u(1) by (simp_all add: length_be_bytes del: be_bytes_numeral)
  show ?L
    using f u unfolding read_frame_Ok read_sized_Ok read_numbered_Ok open_frame_Ok advanced_to_simps t frame_read_def
    by (simp add: length_be_bytes del: be_bytes_numeral)
qed

section \<open>Events\<close>

lemma frame_read_shorter: "read_frame C d = (Inr pt, d') \<Longrightarrow> pending d' < pending d"
  by (auto simp: read_frame_iff frame_read_def length_be_bytes simp del: be_bytes_numeral)

function next_event :: "spool_crypto \<Rightarrow> bytes option decoding" where
  "next_event C d =
     (if d_done d then (Ok None, d)
      else
        (case read_frame C d of
           (Inl e, d') \<Rightarrow> (Err e, d')
         | (Inr [], d') \<Rightarrow> (Err invalid_frame_type, d')
         | (Inr (frame_type # payload), d') \<Rightarrow>
             if frame_type = FRAME_EVENT then bnd (accept_event payload) (\<lambda>e. ret (Some e)) d'
             else if frame_type = FRAME_RECOVERY_METADATA then
               (if d_version d' \<noteq> FORMAT_VERSION then (Err invalid_frame_type, d')
                else if d_metadata d' \<noteq> None then (Err repeated_metadata_error, d')
                else
                  (case new_recovery_metadata payload of
                     Inl e \<Rightarrow> (Err e, d')
                   | Inr m \<Rightarrow> next_event C (d'\<lparr>d_metadata := Some m\<rparr>)))
             else if frame_type = FRAME_FOOTER then bnd (accept_footer C payload) (\<lambda>_. ret None) d'
             else if frame_type = FRAME_HEADER
             then (Err (sp_error ''DBX-RS-SPOOL-FORMAT-0012'' ''frame_order''
               ''spool segment contains a repeated header''), d')
             else (Err invalid_frame_type, d')))"
  by pat_completeness auto

termination
  by (relation "measure (\<lambda>(C, d). pending d)") (auto dest: frame_read_shorter [OF sym])

declare next_event.simps [simp del]

section \<open>Opening a segment\<close>

definition open_reader ::
    "spool_crypto \<Rightarrow> spool_key \<Rightarrow> u64 \<Rightarrow> nat \<Rightarrow> reader \<Rightarrow> spool_error + segment_decoder" where
  "open_reader C key limit len rd =
     bindr (ok_or truncated_segment (checked_sub (of_nat len) (of_nat PREFIX_BYTES))) (\<lambda>remaining.
     case read_exact PREFIX_BYTES ''prefix_read'' rd of
       (Inl e, _) \<Rightarrow> Err e
     | (Inr prefix, rd') \<Rightarrow>
         bindr (decode_prefix prefix) (\<lambda>(version, kid, salt, sid).
         if kid \<noteq> key_id key
         then Err (sp_error ''DBX-RS-SPOOL-CRYPTO-0002'' ''key_match''
           ''spool segment belongs to a different key'')
         else
         bindr (derive_segment_key C (master key) salt sid) (\<lambda>k.
         case read_frame C
           \<lparr>d_reader = rd', d_key = k, d_prefix = prefix, d_segment_id = sid, d_next_sequence = 0,
            d_event_count = 0, d_plaintext = 0, d_digest = [], d_summary = None, d_done = False,
            d_limit = limit, d_remaining = remaining,
            d_header = \<lparr>hdr_input_key = InputKey (replicate 32 0),
              hdr_fingerprint = SpoolFingerprint (replicate 32 0), hdr_generation = 0,
              hdr_batch_id = BatchId (replicate 16 0), hdr_batch_sequence = 0,
              hdr_segment_sequence = 0, hdr_created = 0\<rparr>,
            d_version = version, d_metadata = None\<rparr> of
           (Inl e, _) \<Rightarrow> Err e
         | (Inr frame, d) \<Rightarrow>
             if frame = [] \<or> hd frame \<noteq> FRAME_HEADER then Err invalid_frame_type
             else bindr (decode_header (tl frame)) (\<lambda>h. Ok (d\<lparr>d_header := h\<rparr>)))))"

definition open_decoder ::
    "spool_crypto \<Rightarrow> path \<Rightarrow> spool_key \<Rightarrow> u64 \<Rightarrow> (host, spool_error, segment_decoder) op" where
  "open_decoder C file key limit =
     bnd (map_fail (sp_io_error ''DBX-RS-SPOOL-FORMAT-0006'' ''segment_read''
         ''failed to inspect a spool segment'') (sys_fstat file)) (\<lambda>n.
     if \<not> is_file n \<or> node_len n > unat limit
     then throw (sp_error ''DBX-RS-SPOOL-FORMAT-0007'' ''segment_read'' ''spool segment type or size is invalid'')
     else
     bnd (sys_reader file) (\<lambda>rd. lift_res (open_reader C key limit (node_len n) rd)))"

text \<open>\<open>while decoder.next_event()?.is_some() {}\<close>, with the events it passes.\<close>

lemma accept_event_pending: "accept_event p d = (r, d') \<Longrightarrow> pending d' = pending d"
  by (auto simp: accept_event_def try_in_def Let_def split: if_split_asm sum.split_asm)

lemma next_event_shorter: "next_event C d = (Inr (Some e), d') \<Longrightarrow> pending d' < pending d"
proof (induction C d rule: next_event.induct)
  case (1 C d)
  from 1(2) obtain ft payload u where u: "read_frame C d = (Inr (ft # payload), u)" "\<not> d_done d"
    by (auto simp: next_event.simps [of C d] split: if_split_asm prod.split_asm sum.split_asm list.split_asm)
  note less = frame_read_shorter [OF u(1)]
  show ?case
  proof (cases "ft = FRAME_EVENT")
    case True
    with 1(2) u have "bnd (accept_event payload) (\<lambda>e. ret (Some e)) u = (Inr (Some e), d')"
      by (simp add: next_event.simps [of C d])
    with less show ?thesis by (auto simp: bnd_eq_Inr dest: accept_event_pending)
  next
    case False
    with 1(2) u obtain m where "next_event C (u\<lparr>d_metadata := Some m\<rparr>) = (Inr (Some e), d')"
        "ft = FRAME_RECOVERY_METADATA" "d_version u = FORMAT_VERSION" "d_metadata u = None"
        "new_recovery_metadata payload = Inr m"
      by (auto simp: next_event.simps [of C d] bnd_eq_Inr split: if_split_asm sum.split_asm)
    with 1(1) [OF u(2) u(1) [symmetric]] False less show ?thesis by fastforce
  qed
qed

function drain :: "spool_crypto \<Rightarrow> bytes list decoding" where
  "drain C d =
     (case next_event C d of
        (Inl e, d') \<Rightarrow> (Err e, d')
      | (Inr None, d') \<Rightarrow> (Ok [], d')
      | (Inr (Some e), d') \<Rightarrow>
          (case drain C d' of (Inl x, t) \<Rightarrow> (Err x, t) | (Inr es, t) \<Rightarrow> (Ok (e # es), t)))"
  by pat_completeness auto

termination
  by (relation "measure (\<lambda>(C, d). pending d)") (auto dest: next_event_shorter [OF sym])

declare drain.simps [simp del]

end
