(* ===== verification/Spool_Codec.thy ===== *)
theory Spool_Codec
  imports Spool_Format
begin

text \<open>
  What a segment file is, as one declarative image, and the proof that the reading half accepts exactly
  the images: the field codecs are inverse to each other, every accepted file is the image of the
  events it delivers, and every image of the right size is accepted.
\<close>

section \<open>Field codecs\<close>

lemma nibble_cases:
  fixes n :: u8
  assumes "n < 16" "\<And>k :: nat. k \<in> set [0..<16] \<Longrightarrow> P (of_nat k)"
  shows "P n"
proof -
  have "unat n \<in> set [0..<16]" using assms(1) by (simp add: word_less_nat_alt)
  from assms(2) [OF this] show ?thesis by simp
qed

lemma hex_digit_value: "n < 16 \<Longrightarrow> hex_value (hex_digit n) = Some n \<and> is_lower_hex (hex_digit n)"
  by (erule nibble_cases) (auto simp: hex_digit_def hex_value_def is_lower_hex_def upt_rec Let_def)

lemma hex_alphabet:
  "list_all (\<lambda>k :: nat. case hex_value (char_of k) of
       Some n \<Rightarrow> n < 16 \<and> hex_digit n = char_of k | None \<Rightarrow> False) ([48..<58] @ [97..<103])"
  by code_simp

lemma hex_value_digit:
  "is_lower_hex c \<Longrightarrow> \<exists>n. hex_value c = Some n \<and> n < 16 \<and> hex_digit n = c"
proof -
  assume "is_lower_hex c"
  then have "(of_char c :: nat) \<in> {48..<58} \<union> {97..<103}" by (auto simp: is_lower_hex_def)
  then have "(of_char c :: nat) \<in> set ([48..<58] @ [97..<103])" by (simp only: set_append set_upt)
  moreover have "c = char_of (of_char c :: nat)" by simp
  ultimately obtain k where "k \<in> set ([48..<58] @ [97..<103])" "c = char_of (k :: nat)" by blast
  with hex_alphabet show ?thesis
    unfolding list_all_iff by (auto split: option.split_asm simp del: set_upt upt_rec_numeral)
qed

lemma nibbles:
  fixes b :: u8
  shows "drop_bit 4 b < 16" "b AND 15 < 16" "push_bit 4 (drop_bit 4 b) OR (b AND 15) = b"
proof -
  have "unat (drop_bit 4 b) = unat b div 16"
    by (simp add: drop_bit_eq_div unat_div)
  then show "drop_bit 4 b < 16"
    using unsigned_less [of b, where 'a = nat] by (simp add: word_less_nat_alt)
  have "unat (b AND 15) = take_bit 4 (unat b)"
    by (simp add: unsigned_and_eq take_bit_eq_mask mask_eq_exp_minus_1)
  then show "b AND 15 < 16" using take_bit_nat_less_exp [of 4 "unat b"] by (simp add: word_less_nat_alt)
  have m: "(15 :: u8) = mask 4" by (simp add: mask_eq_exp_minus_1)
  show "push_bit 4 (drop_bit 4 b) OR (b AND 15) = b"
    by (auto intro!: bit_word_eqI simp: m bit_or_iff bit_and_iff bit_push_bit_iff bit_drop_bit_eq bit_mask_iff)
qed

lemma join_nibbles:
  fixes x y :: u8
  assumes "x < 16" "y < 16"
  shows "drop_bit 4 (push_bit 4 x OR y) = x" "(push_bit 4 x OR y) AND 15 = y"
proof -
  have m: "(15 :: u8) = mask 4" by (simp add: mask_eq_exp_minus_1)
  have small: "\<not> bit z i" if "z < 16" "4 \<le> i" for z :: u8 and i
  proof -
    have "take_bit 4 z = z"
      using that(1) by (simp add: take_bit_eq_mod word_less_nat_alt mod_word_less)
    then have "bit z i \<Longrightarrow> i < 4" by (metis bit_take_bit_iff)
    with that(2) show ?thesis by linarith
  qed
  show "drop_bit 4 (push_bit 4 x OR y) = x" "(push_bit 4 x OR y) AND 15 = y"
    using small [OF assms(1)] small [OF assms(2)]
    by (auto intro!: bit_word_eqI simp: m bit_or_iff bit_and_iff bit_push_bit_iff bit_drop_bit_eq bit_mask_iff)
      (metis add.commute add_diff_cancel_left' le_add2 linorder_not_le)+
qed

lemma encode_hex_simps [simp]:
  "encode_hex [] = []" "encode_hex (b # bs) = hex_digit (drop_bit 4 b) # hex_digit (b AND 15) # encode_hex bs"
  by (simp_all add: encode_hex_def hex_byte_def)

lemma length_encode_hex [simp]: "length (encode_hex bs) = 2 * length bs"
  by (induction bs) simp_all

lemma decode_pairs_encode: "decode_pairs (encode_hex bs) = Some bs \<and> list_all is_lower_hex (encode_hex bs)"
  using hex_digit_value nibbles by (induction bs) auto

lemma encode_decode_pairs:
  "list_all is_lower_hex cs \<Longrightarrow> even (length cs) \<Longrightarrow> decode_pairs cs = Some bs \<Longrightarrow> encode_hex bs = cs"
proof (induction cs arbitrary: bs rule: decode_pairs.induct)
  case (1 h l cs)
  from 1(2) have digits: "is_lower_hex h" "is_lower_hex l" by simp_all
  obtain x where x: "hex_value h = Some x" "x < 16" "hex_digit x = h"
    using hex_value_digit [OF digits(1)] by blast
  obtain y where y: "hex_value l = Some y" "y < 16" "hex_digit y = l"
    using hex_value_digit [OF digits(2)] by blast
  from 1(4) x(1) y(1) obtain ds where ds: "decode_pairs cs = Some ds" "bs = (push_bit 4 x OR y) # ds" by auto
  have "encode_hex ds = cs" using 1(1) [OF refl x(1) y(1) _ _ ds(1)] 1(2,3) by simp
  moreover have "drop_bit 4 (push_bit 4 x OR y) = x" "(push_bit 4 x OR y) AND 15 = y"
    by (rule join_nibbles [OF x(2) y(2)])+
  ultimately show ?case using ds x y by simp
qed auto

lemma decode_hex_encode: "length bs = n \<Longrightarrow> decode_hex n (encode_hex bs) = Some bs"
  using decode_pairs_encode by (simp add: decode_hex_def)

lemma encode_hex_decode: "decode_hex n cs = Some bs \<Longrightarrow> encode_hex bs = cs \<and> length bs = n"
proof -
  assume dec: "decode_hex n cs = Some bs"
  then have c: "length cs = n * 2" "list_all is_lower_hex cs" "decode_pairs cs = Some bs"
    by (auto simp: decode_hex_def split: if_split_asm)
  then have e: "encode_hex bs = cs" by (intro encode_decode_pairs) auto
  with c(1) length_encode_hex [of bs] show ?thesis by simp
qed

text \<open>Fixed-width fields.\<close>

definition header_sized :: "segment_header \<Rightarrow> bool" where
  "header_sized h \<longleftrightarrow> length (input_key_bytes (hdr_input_key h)) = 32 \<and>
     length (spool_fingerprint_bytes (hdr_fingerprint h)) = 32 \<and>
     length (batch_id_bytes (hdr_batch_id h)) = 16"

lemma length_encode_header [simp]: "header_sized h \<Longrightarrow> length (encode_header h) = 112"
  by (simp add: header_sized_def encode_header_def length_be_bytes del: be_bytes_numeral)

lemma decode_header_encode: "header_sized h \<Longrightarrow> decode_header (encode_header h) = Inr h"
  unfolding decode_header_def HEADER_PAYLOAD_BYTES_def
  by (simp del: be_bytes_numeral)
    (cases h; simp add: header_sized_def encode_header_def length_be_bytes del: be_bytes_numeral)

lemma be_take: "n \<le> length bs \<Longrightarrow> 8 * n = LENGTH('a) \<Longrightarrow> be_bytes n (from_be (take n bs) :: 'a::len word) = take n bs"
  using be_bytes_from_be [of "take n bs", where 'a = 'a] by simp

lemma take_take_drop: "take n xs @ take m (drop n xs) = take (n + m) xs"
  by (simp add: take_add)

lemma encode_header_decode: "decode_header p = Inr h \<Longrightarrow> encode_header h = p \<and> header_sized h"
proof -
  assume "decode_header p = Inr h"
  then have len: "length p = 112" and h: "h = \<lparr>hdr_input_key = InputKey (take 32 p),
        hdr_fingerprint = SpoolFingerprint (take 32 (drop 32 p)),
        hdr_generation = from_be (take 8 (drop 64 p)),
        hdr_batch_id = BatchId (take 16 (drop 72 p)),
        hdr_batch_sequence = from_be (take 8 (drop 88 p)),
        hdr_segment_sequence = from_be (take 8 (drop 96 p)),
        hdr_created = from_be (take 8 (drop 104 p))\<rparr>"
    by (auto simp: decode_header_def HEADER_PAYLOAD_BYTES_def split: if_split_asm)
  have "encode_header h = take 32 p @ take 32 (drop 32 p) @ take 8 (drop 64 p) @ take 16 (drop 72 p) @
      take 8 (drop 88 p) @ take 8 (drop 96 p) @ take 8 (drop 104 p)"
    using be_bytes_from_be [of "drop 104 p", where 'a = 64]
    by (simp add: h encode_header_def be_take len del: be_bytes_numeral)
  also have "\<dots> = p"
    using take_add [of 32 32 p] take_add [of 64 8 p] take_add [of 72 16 p] take_add [of 88 8 p]
      take_add [of 96 8 p] take_add [of 104 8 p] len by simp
  finally show ?thesis by (simp add: h header_sized_def len)
qed

definition summary_sized :: "segment_summary \<Rightarrow> bool" where
  "summary_sized s \<longleftrightarrow> length (sum_digest s) = 32"

lemma length_encode_footer [simp]: "summary_sized s \<Longrightarrow> length (encode_footer s) = 48"
  by (simp add: summary_sized_def encode_footer_def length_be_bytes del: be_bytes_numeral)

lemma decode_footer_encode: "summary_sized s \<Longrightarrow> decode_footer (encode_footer s) = Inr s"
  unfolding decode_footer_def FOOTER_PAYLOAD_BYTES_def
  by (simp del: be_bytes_numeral)
    (cases s; simp add: summary_sized_def encode_footer_def length_be_bytes del: be_bytes_numeral)

lemma encode_footer_decode: "decode_footer p = Inr s \<Longrightarrow> encode_footer s = p \<and> summary_sized s"
proof -
  assume "decode_footer p = Inr s"
  then have len: "length p = 48" and s: "s = \<lparr>sum_events = from_be (take 8 p),
        sum_plaintext = from_be (take 8 (drop 8 p)), sum_digest = take 32 (drop 16 p)\<rparr>"
    by (auto simp: decode_footer_def FOOTER_PAYLOAD_BYTES_def split: if_split_asm)
  have "encode_footer s = take 8 p @ take 8 (drop 8 p) @ take 32 (drop 16 p)"
    by (simp add: s encode_footer_def be_take len del: be_bytes_numeral)
  also have "\<dots> = p" using take_add [of 8 8 p] take_add [of 16 32 p] len by simp
  finally show ?thesis by (simp add: s summary_sized_def len)
qed

definition prefix_sized :: "bytes \<Rightarrow> bytes \<Rightarrow> segment_id \<Rightarrow> u16 \<Rightarrow> bool" where
  "prefix_sized kid salt sid version \<longleftrightarrow> length kid = 16 \<and> length salt = 32 \<and>
     length (segment_id_bytes sid) = 16 \<and> (version = LEGACY_FORMAT_VERSION \<or> version = FORMAT_VERSION)"

lemma length_SPOOL_MAGIC [simp]: "length SPOOL_MAGIC = 8"
  by (simp add: SPOOL_MAGIC_def ascii_def)

lemma length_encode_prefix [simp]:
  "prefix_sized kid salt sid version \<Longrightarrow> length (encode_prefix kid salt sid version) = 74"
  by (simp add: prefix_sized_def encode_prefix_def length_be_bytes del: be_bytes_numeral)

lemma decode_prefix_encode:
  "prefix_sized kid salt sid version \<Longrightarrow>
   decode_prefix (encode_prefix kid salt sid version) = Inr (version, kid, salt, sid)"
  by (cases sid)
    (auto simp: decode_prefix_def prefix_sized_def encode_prefix_def length_be_bytes Let_def
      simp del: be_bytes_numeral)

lemma encode_prefix_decode:
  assumes "length p = 74" "decode_prefix p = Inr (version, kid, salt, sid)"
  shows "encode_prefix kid salt sid version = p \<and> prefix_sized kid salt sid version"
proof -
  from assms(2) have f: "take 8 p = SPOOL_MAGIC" "version = from_be (take 2 (drop 8 p))"
      "version = LEGACY_FORMAT_VERSION \<or> version = FORMAT_VERSION"
      "kid = take 16 (drop 10 p)" "salt = take 32 (drop 26 p)" "sid = SegmentId (take 16 (drop 58 p))"
    by (auto simp: decode_prefix_def Let_def split: if_split_asm)
  have "encode_prefix kid salt sid version =
      take 8 p @ take 2 (drop 8 p) @ take 16 (drop 10 p) @ take 32 (drop 26 p) @ take 16 (drop 58 p)"
    unfolding encode_prefix_def f(1) [symmetric] f(2,4,5,6)
    by (simp add: be_take assms(1) del: be_bytes_numeral)
  also have "\<dots> = p"
    using take_add [of 8 2 p] take_add [of 10 16 p] take_add [of 26 32 p] take_add [of 58 16 p] assms(1)
    by simp
  finally show ?thesis using f(3-6) assms(1) by (simp add: prefix_sized_def)
qed

interpretation header: codec encode_header decode_header header_sized
  by unfold_locales (auto dest: encode_header_decode intro: decode_header_encode)

interpretation footer: codec encode_footer decode_footer summary_sized
  by unfold_locales (auto dest: encode_footer_decode intro: decode_footer_encode)

interpretation hex: codec encode_hex "\<lambda>cs. ok_or () (decode_hex n cs)" "\<lambda>bs. length bs = n" for n
  by unfold_locales (auto dest: encode_hex_decode intro: decode_hex_encode)

section \<open>The image of a segment\<close>

text \<open>
  One sealed frame over the prefix, a run of frames numbered from a start, and the plaintexts of a
  complete segment of a version: the header, the events, the recovery metadata (version 2) and the
  footer with counts and digest.
\<close>

definition frame :: "spool_crypto \<Rightarrow> bytes \<Rightarrow> bytes \<Rightarrow> u64 \<Rightarrow> bytes \<Rightarrow> bytes option" where
  "frame C k prefix seq pt =
     (let len = of_nat (length pt + TAG_LEN) :: u32 in
      map_option (\<lambda>c. be_bytes 4 len @ be_bytes 8 seq @ c) (seal C k (nonce seq) (frame_aad prefix len seq) pt))"

fun frames :: "spool_crypto \<Rightarrow> bytes \<Rightarrow> bytes \<Rightarrow> u64 \<Rightarrow> bytes list \<Rightarrow> bytes option" where
  "frames C k prefix seq [] = Some []"
| "frames C k prefix seq (pt # pts) =
     Option.bind (frame C k prefix seq pt) (\<lambda>b. map_option ((@) b) (frames C k prefix (seq + 1) pts))"

definition event_stream :: "bytes list \<Rightarrow> bytes" where
  "event_stream es = concat (map (\<lambda>e. be_bytes 8 (of_nat (length e) :: u64) @ e) es)"

definition summary_of :: "spool_crypto \<Rightarrow> bytes list \<Rightarrow> segment_summary" where
  "summary_of C es = \<lparr>sum_events = of_nat (length es), sum_plaintext = of_nat (length (concat es)),
     sum_digest = sha256 C (event_stream es)\<rparr>"

definition closing :: "u16 \<Rightarrow> bytes \<Rightarrow> segment_summary \<Rightarrow> bytes list" where
  "closing version meta s =
     (if version = FORMAT_VERSION then [FRAME_RECOVERY_METADATA # meta] else []) @ [FRAME_FOOTER # encode_footer s]"

definition plaintexts :: "spool_crypto \<Rightarrow> u16 \<Rightarrow> segment_header \<Rightarrow> bytes list \<Rightarrow> bytes \<Rightarrow> bytes list" where
  "plaintexts C version h es meta =
     (FRAME_HEADER # encode_header h) # map ((#) FRAME_EVENT) es @ closing version meta (summary_of C es)"

definition segment_image ::
    "spool_crypto \<Rightarrow> spool_key \<Rightarrow> bytes \<Rightarrow> segment_id \<Rightarrow> u16 \<Rightarrow> segment_header \<Rightarrow> bytes list \<Rightarrow> bytes \<Rightarrow> bytes option" where
  "segment_image C key salt sid version h es meta =
     (case derive_segment_key C (master key) salt sid of
        Inl _ \<Rightarrow> None
      | Inr k \<Rightarrow>
          let prefix = encode_prefix (key_id key) salt sid version in
          map_option ((@) prefix) (frames C k prefix 0 (plaintexts C version h es meta)))"

lemma frames_append:
  "frames C k p s (xs @ ys) =
     Option.bind (frames C k p s xs) (\<lambda>a. map_option ((@) a) (frames C k p (s + of_nat (length xs)) ys))"
proof (induction xs arbitrary: s)
  case Nil
  show ?case by (cases "frames C k p s ys") simp_all
next
  case (Cons x xs)
  show ?case
    by (cases "frame C k p s x"; cases "frames C k p (s + 1) xs";
        cases "frames C k p (s + 1 + of_nat (length xs)) ys") (simp_all add: Cons add.assoc)
qed

lemma cipher_seal:
  "cipher_ok C \<Longrightarrow> seal C k n a p = Some c \<Longrightarrow> length c = length p + 16 \<and> unseal C k n a c = Some p"
  unfolding cipher_ok_def TAG_LEN_def by blast

lemma cipher_unseal: "cipher_ok C \<Longrightarrow> unseal C k n a c = Some p \<Longrightarrow> seal C k n a p = Some c"
  unfolding cipher_ok_def by blast

lemma cipher_sha [simp]: "cipher_ok C \<Longrightarrow> length (sha256 C x) = 32"
  unfolding cipher_ok_def by blast

lemma frame_Some:
  "frame C k prefix seq pt = Some b \<longleftrightarrow>
     (\<exists>c. seal C k (nonce seq) (frame_aad prefix (of_nat (length pt + 16)) seq) pt = Some c \<and>
       b = be_bytes 4 (of_nat (length pt + 16) :: u32) @ be_bytes 8 seq @ c)"
  by (auto simp: frame_def Let_def TAG_LEN_def simp del: be_bytes_numeral)

lemma frame_length: "cipher_ok C \<Longrightarrow> frame C k p s pt = Some b \<Longrightarrow> length b = length pt + 28"
  unfolding frame_Some by (auto dest: cipher_seal simp: length_be_bytes simp del: be_bytes_numeral)

lemma unat_ucast32: "unat (ucast (w :: u32) :: u64) = unat w"
  using unsigned_less [of w, where 'a = nat] by (simp add: unsigned_ucast_eq take_bit_nat_eq_self_iff)

text \<open>Reading one frame is undoing one frame.\<close>

lemma read_frame_sound:
  assumes "cipher_ok C" "read_frame C d = (Inr pt, d')"
  shows "\<exists>b rest. frame C (d_key d) (d_prefix d) (d_next_sequence d) pt = Some b \<and>
    unread (d_reader d) = b @ rest \<and> d_next_sequence d' = d_next_sequence d + 1 \<and> pt \<noteq> [] \<and>
    d' = (advanced_to rest d)\<lparr>d_remaining := d_remaining d', d_next_sequence := d_next_sequence d + 1\<rparr>"
proof -
  obtain len c rest where f: "frame_read C d pt len c rest d'" using assms(2) read_frame_iff by blast
  then have op: "unseal C (d_key d) (nonce (d_next_sequence d))
      (frame_aad (d_prefix d) len (d_next_sequence d)) c = Some pt" and c: "length c = unat len" "17 \<le> unat len"
    and u: "unread (d_reader d) = be_bytes 4 len @ be_bytes 8 (d_next_sequence d) @ c @ rest"
    and d': "d' = (advanced_to rest d)\<lparr>d_remaining := d_remaining d - 12 - ucast len,
       d_next_sequence := d_next_sequence d + 1\<rparr>"
    by (simp_all add: frame_read_def word_le_nat_alt)
  note s = cipher_unseal [OF assms(1) op]
  note cl = cipher_seal [OF assms(1) s]
  have "of_nat (unat len) = len" by simp
  with c(1) cl have len: "of_nat (length pt + 16) = len" by simp
  have "frame C (d_key d) (d_prefix d) (d_next_sequence d) pt =
      Some (be_bytes 4 len @ be_bytes 8 (d_next_sequence d) @ c)"
    unfolding frame_Some len using s by blast
  moreover have "pt \<noteq> []" using cl c by auto
  ultimately show ?thesis using u d' by (intro exI conjI) (assumption, simp_all del: be_bytes_numeral)
qed

lemma read_frame_complete:
  assumes "cipher_ok C" "frame C (d_key d) (d_prefix d) (d_next_sequence d) pt = Some b"
    and "unread (d_reader d) = b @ rest" "pt \<noteq> []" "length pt + 16 \<le> unat (d_limit d)"
    and "length pt + 16 \<le> unat (maximum_ciphertext_frame_bytes (d_limit d) (d_version d))"
    and "length pt + 28 \<le> unat (d_remaining d)" "length pt + 16 < 2 ^ 32" "unat (d_next_sequence d) + 1 < 2 ^ 64"
  shows "read_frame C d = (Inr pt, (advanced_to rest d)
    \<lparr>d_remaining := d_remaining d - of_nat (length pt + 28), d_next_sequence := d_next_sequence d + 1\<rparr>)"
proof -
  let ?len = "of_nat (length pt + 16) :: u32"
  have len: "unat ?len = length pt + 16"
    by (rule unat_of_nat_small) (use assms(8) in simp)
  have ulen: "unat (ucast ?len :: u64) = length pt + 16" unfolding unat_ucast32 len ..
  then have u64: "ucast ?len = (of_nat (length pt + 16) :: u64)" by (rule unat_eqD)
  obtain c where c: "seal C (d_key d) (nonce (d_next_sequence d)) (frame_aad (d_prefix d) ?len (d_next_sequence d)) pt = Some c"
    "b = be_bytes 4 ?len @ be_bytes 8 (d_next_sequence d) @ c"
    using assms(2) unfolding frame_Some by blast
  note cl = cipher_seal [OF assms(1) c(1)]
  have twelve: "unat (12 :: u64) = 12" by simp
  have rem: "12 \<le> d_remaining d" using assms(7) by (simp add: word_le_nat_alt)
  then have sub: "unat (d_remaining d - 12) = unat (d_remaining d) - 12" by (simp add: unat_sub)
  have pt: "1 \<le> length pt" using assms(4) by (cases pt) auto
  have seqs: "d_remaining d - 12 - ucast ?len = d_remaining d - of_nat (length pt + 28)"
    unfolding u64 by simp
  have "frame_read C d pt ?len c rest ((advanced_to rest d)
    \<lparr>d_remaining := d_remaining d - 12 - ucast ?len, d_next_sequence := d_next_sequence d + 1\<rparr>)"
    unfolding frame_read_def
  proof (intro conjI)
    show "unread (d_reader d) = be_bytes 4 ?len @ be_bytes 8 (d_next_sequence d) @ c @ rest"
      using assms(3) c(2) by (simp del: be_bytes_numeral)
    show "length c = unat ?len" using cl len by simp
    show "17 \<le> ?len" using len pt by (simp add: word_le_nat_alt)
    show "ucast ?len \<le> d_limit d" "ucast ?len \<le> maximum_ciphertext_frame_bytes (d_limit d) (d_version d)"
      unfolding word_le_nat_alt ulen using assms(5,6) by simp_all
    show "12 \<le> d_remaining d" by (rule rem)
    show "ucast ?len \<le> d_remaining d - 12" unfolding word_le_nat_alt ulen sub using assms(7) by simp
    show "unseal C (d_key d) (nonce (d_next_sequence d))
      (frame_aad (d_prefix d) ?len (d_next_sequence d)) c = Some pt" using cl by simp
    show "checked_add (d_next_sequence d) 1 \<noteq> None" using assms(9) by (simp add: checked_add_def)
  qed simp
  then show ?thesis unfolding seqs [symmetric] read_frame_iff by blast
qed

section \<open>Accepted files are images\<close>

definition same_segment :: "segment_decoder \<Rightarrow> segment_decoder \<Rightarrow> bool" where
  "same_segment d d' \<longleftrightarrow> d_key d' = d_key d \<and> d_prefix d' = d_prefix d \<and>
     d_segment_id d' = d_segment_id d \<and> d_limit d' = d_limit d \<and> d_header d' = d_header d \<and>
     d_version d' = d_version d \<and> broken (d_reader d') = broken (d_reader d)"

lemma same_segment_refl [simp]: "same_segment d d"
  by (simp add: same_segment_def)

lemma same_segment_trans: "same_segment d e \<Longrightarrow> same_segment e f \<Longrightarrow> same_segment d f"
  by (simp add: same_segment_def)

definition reading :: "spool_crypto \<Rightarrow> bytes \<Rightarrow> bytes list \<Rightarrow> segment_decoder \<Rightarrow> bool" where
  "reading C c pts d \<longleftrightarrow>
     (\<exists>b. frames C (d_key d) (d_prefix d) 0 pts = Some b \<and> c = d_prefix d @ b @ unread (d_reader d)) \<and>
     d_next_sequence d = of_nat (length pts)"

definition counted :: "bytes list \<Rightarrow> segment_decoder \<Rightarrow> bool" where
  "counted es d \<longleftrightarrow> d_event_count d = of_nat (length es) \<and> d_plaintext d = of_nat (length (concat es)) \<and>
     d_digest d = event_stream es"

lemma event_stream_simps [simp]:
  "event_stream [] = []" "event_stream (es @ fs) = event_stream es @ event_stream fs"
  "event_stream [e] = be_bytes 8 (of_nat (length e) :: u64) @ e"
  by (simp_all add: event_stream_def del: be_bytes_numeral)

lemma read_frame_step:
  assumes "cipher_ok C" "read_frame C d = (Inr pt, d')" "reading C c pts d"
  shows "reading C c (pts @ [pt]) d'" "same_segment d d'" "d_done d' = d_done d" "d_metadata d' = d_metadata d"
    "counted es d' = counted es d" "d_summary d' = d_summary d"
proof -
  obtain b rest where f: "frame C (d_key d) (d_prefix d) (d_next_sequence d) pt = Some b"
      "unread (d_reader d) = b @ rest"
      "d' = (advanced_to rest d)\<lparr>d_remaining := d_remaining d', d_next_sequence := d_next_sequence d + 1\<rparr>"
    using read_frame_sound [OF assms(1,2)] by blast
  define r where "r = d_remaining d'"
  have d': "d' = (advanced_to rest d)\<lparr>d_remaining := r, d_next_sequence := d_next_sequence d + 1\<rparr>"
    using f(3) by (simp add: r_def)
  from assms(3) obtain a where a: "frames C (d_key d) (d_prefix d) 0 pts = Some a"
      "c = d_prefix d @ a @ unread (d_reader d)" "d_next_sequence d = of_nat (length pts)"
    by (auto simp: reading_def)
  have "frames C (d_key d) (d_prefix d) 0 (pts @ [pt]) = Some (a @ b)"
    using a f(1) by (simp add: frames_append)
  then show "reading C c (pts @ [pt]) d'"
    using a f(2) by (simp add: reading_def d' advanced_to_def)
  show "same_segment d d'" "d_done d' = d_done d" "d_metadata d' = d_metadata d"
    "counted es d' = counted es d" "d_summary d' = d_summary d"
    by (simp_all add: d' same_segment_def advanced_to_def counted_def)
qed

lemma accept_event_Ok:
  "accept_event p d = (Inr e, d') \<longleftrightarrow> e = p \<and> p \<noteq> [] \<and>
     \<not> (d_version d = FORMAT_VERSION \<and> d_metadata d \<noteq> None) \<and> length p < 2 ^ 64 \<and>
     checked_add (d_event_count d) 1 \<noteq> None \<and> checked_add (d_plaintext d) (of_nat (length p)) \<noteq> None \<and>
     d' = d\<lparr>d_event_count := d_event_count d + 1, d_plaintext := d_plaintext d + of_nat (length p),
       d_digest := d_digest d @ be_bytes 8 (of_nat (length p) :: u64) @ p\<rparr>"
  by (auto simp: accept_event_def try_in_eq_Inr Let_def u64_of_len_def checked_add_Some simp del: be_bytes_numeral)

lemma accept_event_step:
  assumes "accept_event p d = (Inr e, d')" "reading C c pts d" "counted es d"
  shows "reading C c pts d'" "counted (es @ [e]) d'" "same_segment d d'" "d_done d' = d_done d"
    "d_metadata d' = d_metadata d" "e = p" "e \<noteq> []"
proof -
  from assms(1) have d': "d' = d\<lparr>d_event_count := d_event_count d + 1,
       d_plaintext := d_plaintext d + of_nat (length p),
       d_digest := d_digest d @ be_bytes 8 (of_nat (length p) :: u64) @ p\<rparr>" and e: "e = p" "p \<noteq> []"
    unfolding accept_event_Ok by blast+
  show "reading C c pts d'" "counted (es @ [e]) d'" "same_segment d d'" "d_done d' = d_done d"
    "d_metadata d' = d_metadata d" "e = p" "e \<noteq> []"
    using assms(2,3) e by (simp_all add: d' reading_def counted_def same_segment_def add.commute del: be_bytes_numeral)
qed

lemma accept_footer_Ok:
  "accept_footer C p d = (Inr u, d') \<longleftrightarrow>
     \<not> (d_version d = FORMAT_VERSION \<and> d_metadata d = None) \<and>
     (\<exists>s. decode_footer p = Inr s \<and> sum_events s = d_event_count d \<and> sum_plaintext s = d_plaintext d \<and>
        sum_digest s = sha256 C (d_digest d) \<and> unread (d_reader d) = [] \<and> broken (d_reader d) = None \<and>
        d' = mark_done s d)"
proof (cases "decode_footer p")
  case (Inr s)
  show ?thesis
    by (cases "unread (d_reader d)"; cases "broken (d_reader d)"; cases "d_metadata d")
      (simp_all add: accept_footer_def Inr, blast+)
qed (simp add: accept_footer_def)

lemma next_event_cases:
  assumes "next_event C d = (Inr x, d')" "\<not> d_done d"
  obtains (event) e u where "x = Some e" "read_frame C d = (Inr (FRAME_EVENT # e), u)"
      "accept_event e u = (Inr e, d')"
  | (metadata) m u where "read_frame C d = (Inr (FRAME_RECOVERY_METADATA # m), u)" "length m \<le> 128"
      "d_version u = FORMAT_VERSION" "d_metadata u = None" "next_event C (u\<lparr>d_metadata := Some m\<rparr>) = (Inr x, d')"
  | (footer) p u where "x = None" "read_frame C d = (Inr (FRAME_FOOTER # p), u)" "accept_footer C p u = (Inr (), d')"
proof -
  obtain r u where r: "read_frame C d = (r, u)" by force
  with assms obtain ft p where p: "r = Inr (ft # p)"
    by (auto simp: next_event.simps [of C d] split: sum.split_asm list.split_asm)
  note run = assms(1) [unfolded next_event.simps [of C d]]
  consider "ft = FRAME_EVENT" | "ft = FRAME_RECOVERY_METADATA" | "ft = FRAME_FOOTER"
    using run assms(2) r p by (auto split: if_split_asm)
  then show thesis
  proof cases
    case 1
    with run assms(2) r p have "bnd (accept_event p) (\<lambda>e. ret (Some e)) u = (Inr x, d')" by simp
    then obtain e where "accept_event p u = (Inr e, d')" "x = Some e" by (auto simp: bnd_eq_Inr)
    moreover from this(1) have "e = p" by (simp add: accept_event_Ok)
    ultimately show thesis using event r p 1 by blast
  next
    case 2
    then have "ft \<noteq> FRAME_EVENT" by (simp add: frame_types)
    with run assms(2) r p 2 have "d_version u = FORMAT_VERSION" "d_metadata u = None"
      "length p \<le> 128 \<and> next_event C (u\<lparr>d_metadata := Some p\<rparr>) = (Inr x, d')"
      by (auto simp: new_recovery_metadata_def MAX_RECOVERY_METADATA_BYTES_def split: if_split_asm)
    with metadata r p 2 show thesis by blast
  next
    case 3
    then have "ft \<noteq> FRAME_EVENT" "ft \<noteq> FRAME_RECOVERY_METADATA" by (simp_all add: frame_types)
    with run assms(2) r p 3 have "bnd (accept_footer C p) (\<lambda>_. ret None) u = (Inr x, d')" by simp
    with footer r p 3 show thesis by (auto simp: bnd_eq_Inr)
  qed
qed

text \<open>After the metadata frame only the footer is accepted.\<close>

lemma footer_after_metadata:
  assumes "next_event C d = (Inr x, d')" "\<not> d_done d" "d_metadata d \<noteq> None" "d_version d = FORMAT_VERSION"
    and "cipher_ok C" "reading C c pts d"
  obtains p u where "x = None" "read_frame C d = (Inr (FRAME_FOOTER # p), u)" "accept_footer C p u = (Inr (), d')"
  using assms(1,2)
proof (cases rule: next_event_cases)
  case (event e u)
  with read_frame_step [OF assms(5) _ assms(6)] assms(3,4) show thesis
    by (auto simp: accept_event_Ok same_segment_def)
next
  case (metadata m u)
  with read_frame_step [OF assms(5) _ assms(6)] assms(3) show thesis by auto
qed (use that in blast)

lemma accept_footer_step:
  assumes "accept_footer C p d = (Inr (), d')" "reading C c pts d" "counted es d" "cipher_ok C"
  shows "p = encode_footer (summary_of C es)" "reading C c pts d'" "same_segment d d'" "d_done d'"
    "d_summary d' = Some (summary_of C es)" "unread (d_reader d') = []" "broken (d_reader d) = None"
    "d_metadata d' = (if d_version d = LEGACY_FORMAT_VERSION then Some [] else d_metadata d)"
proof -
  obtain s where s: "decode_footer p = Inr s" "sum_events s = d_event_count d" "sum_plaintext s = d_plaintext d"
      "sum_digest s = sha256 C (d_digest d)" "unread (d_reader d) = []" "broken (d_reader d) = None"
    and d': "d' = mark_done s d"
    using assms(1) unfolding accept_footer_Ok by blast
  have "s = summary_of C es"
    using s(2-4) assms(3) by (cases s) (simp add: counted_def summary_of_def)
  with encode_footer_decode [OF s(1)] d' s assms(2)
  show "p = encode_footer (summary_of C es)" "reading C c pts d'" "same_segment d d'" "d_done d'"
    "d_summary d' = Some (summary_of C es)" "unread (d_reader d') = []" "broken (d_reader d) = None"
    "d_metadata d' = (if d_version d = LEGACY_FORMAT_VERSION then Some [] else d_metadata d)"
    by (simp_all add: mark_done_def reading_def same_segment_def)
qed

lemma next_event_event:
  assumes "next_event C d = (Inr (Some e), d')" "\<not> d_done d" "d_metadata d = None"
    and "cipher_ok C" "reading C c pts d" "counted es d"
  shows "reading C c (pts @ [FRAME_EVENT # e]) d'" "counted (es @ [e]) d'" "same_segment d d'"
    "\<not> d_done d'" "d_metadata d' = None" "e \<noteq> []"
proof -
  from assms(1,2) obtain u where u: "read_frame C d = (Inr (FRAME_EVENT # e), u)" "accept_event e u = (Inr e, d')"
  proof (cases rule: next_event_cases)
    case (metadata m u)
    note step = read_frame_step [OF assms(4) metadata(1) assms(5)]
    have "reading C c (pts @ [FRAME_RECOVERY_METADATA # m]) (u\<lparr>d_metadata := Some m\<rparr>)"
      using step(1) by (simp add: reading_def)
    from footer_after_metadata [OF metadata(5) _ _ _ assms(4) this] metadata(3) step(3) assms(2)
    show thesis by auto
  qed (use that in auto)
  note a = read_frame_step [OF assms(4) u(1) assms(5)]
  have cu: "counted es u" using a(5) assms(6) by simp
  note b = accept_event_step [OF u(2) a(1) cu]
  show "reading C c (pts @ [FRAME_EVENT # e]) d'" "counted (es @ [e]) d'" "same_segment d d'"
    "\<not> d_done d'" "d_metadata d' = None" "e \<noteq> []"
    using a b assms(2,3) same_segment_trans by auto
qed

lemma next_event_end:
  assumes "next_event C d = (Inr None, d')" "\<not> d_done d" "d_metadata d = None"
    and "cipher_ok C" "reading C c pts d" "counted es d"
    and "d_version d = LEGACY_FORMAT_VERSION \<or> d_version d = FORMAT_VERSION"
  shows "\<exists>m. length m \<le> 128 \<and> reading C c (pts @ closing (d_version d) m (summary_of C es)) d' \<and>
    same_segment d d' \<and> d_done d' \<and> d_summary d' = Some (summary_of C es) \<and>
    unread (d_reader d') = [] \<and> d_metadata d' = Some m \<and> broken (d_reader d) = None"
  using assms(1,2)
proof (cases rule: next_event_cases)
  case (metadata m u)
  let ?u = "u\<lparr>d_metadata := Some m\<rparr>"
  note a = read_frame_step [OF assms(4) metadata(1) assms(5)]
  have r: "reading C c (pts @ [FRAME_RECOVERY_METADATA # m]) ?u" "same_segment d ?u" "counted es ?u"
    using a assms(6) by (simp_all add: reading_def same_segment_def counted_def)
  have v: "d_version d = FORMAT_VERSION" using metadata(3) a(2) by (simp add: same_segment_def)
  obtain p w where w: "read_frame C ?u = (Inr (FRAME_FOOTER # p), w)" "accept_footer C p w = (Inr (), d')"
    using footer_after_metadata [OF metadata(5) _ _ _ assms(4) r(1)] metadata(3) a(3) assms(2) by auto
  note b = read_frame_step [OF assms(4) w(1) r(1)]
  have cw: "counted es w" using b(5) r(3) by simp
  note e = accept_footer_step [OF w(2) b(1) cw assms(4)]
  have "same_segment d d'" using r(2) b(2) e(3) same_segment_trans by blast
  moreover have "d_metadata d' = Some m"
    using e(8) b(2,4) v a(2) by (simp add: same_segment_def spool_versions)
  moreover have "broken (d_reader d) = None"
    using e(7) b(2) r(2) by (simp add: same_segment_def)
  ultimately show ?thesis
    using e metadata(2) v by (intro exI [of _ m]) (simp add: closing_def)
next
  case (footer p u)
  note a = read_frame_step [OF assms(4) footer(2) assms(5)]
  have cu: "counted es u" using a(5) assms(6) by simp
  note e = accept_footer_step [OF footer(3) a(1) cu assms(4)]
  have v: "d_version d \<noteq> FORMAT_VERSION" "d_version u = d_version d"
    using footer(3) a(2,4) assms(3) by (auto simp: accept_footer_Ok same_segment_def)
  have "same_segment d d'" using a(2) e(3) same_segment_trans by blast
  moreover have "broken (d_reader d) = None" using e(7) a(2) by (simp add: same_segment_def)
  ultimately show ?thesis
    using e v assms(7) by (intro exI [of _ "[]"]) (simp add: closing_def)
qed simp

lemma drain_sound:
  assumes "drain C d = (Inr es, d')" "\<not> d_done d" "d_metadata d = None" "cipher_ok C"
    and "reading C c pts d" "counted prev d"
    and "d_version d = LEGACY_FORMAT_VERSION \<or> d_version d = FORMAT_VERSION"
  shows "[] \<notin> set es \<and> (\<exists>m. length m \<le> 128 \<and>
    reading C c (pts @ map ((#) FRAME_EVENT) es @ closing (d_version d) m (summary_of C (prev @ es))) d' \<and>
    same_segment d d' \<and> d_done d' \<and> d_summary d' = Some (summary_of C (prev @ es)) \<and>
    unread (d_reader d') = [] \<and> d_metadata d' = Some m \<and> broken (d_reader d) = None)"
  using assms
proof (induction C d arbitrary: es pts prev rule: drain.induct)
  case (1 C d)
  obtain r u where r: "next_event C d = (r, u)" by force
  from 1(2) r obtain x where x: "r = Inr x" by (cases r) (auto simp: drain.simps [of C d])
  show ?case
  proof (cases x)
    case None
    with 1(2) r x have "es = []" "d' = u" by (auto simp: drain.simps [of C d])
    with next_event_end [OF r [unfolded x None] 1(3-8)] show ?thesis by simp
  next
    case (Some e)
    with 1(2) r x obtain fs where fs: "drain C u = (Inr fs, d')" "es = e # fs"
      by (auto simp: drain.simps [of C d] split: prod.split_asm sum.split_asm)
    note n = next_event_event [OF r [unfolded x Some] 1(3-7)]
    have "d_version u = LEGACY_FORMAT_VERSION \<or> d_version u = FORMAT_VERSION"
      using n(3) 1(8) by (simp add: same_segment_def)
    from 1(1) [OF r [symmetric] x Some fs(1) n(4,5) 1(5) n(1,2) this]
    show ?thesis using n(3,6) fs(2)
      by (auto simp: same_segment_def)
  qed
qed

text \<open>What an opened segment went through: its prefix, the key, and one header frame.\<close>

lemma open_reader_parts:
  assumes "open_reader C key limit len rd = Inr d"
  obtains (opened) prefix rd' version sid salt e pt u h where
    "unread rd = prefix @ unread rd'" "length prefix = 74" "broken rd' = broken rd"
    "decode_prefix prefix = Inr (version, key_id key, salt, sid)"
    "derive_segment_key C (master key) salt sid = Inr (d_key e)"
    "read_frame C e = (Inr (FRAME_HEADER # pt), u)" "d = u\<lparr>d_header := h\<rparr>" "decode_header pt = Inr h"
    "d_reader e = rd'" "d_prefix e = prefix" "d_segment_id e = sid" "d_version e = version"
    "d_next_sequence e = 0" "d_event_count e = 0" "d_plaintext e = 0" "d_digest e = []" "d_limit e = limit"
    "d_summary e = None" "\<not> d_done e" "d_metadata e = None"
proof -
  obtain rr rd' where rr: "read_exact PREFIX_BYTES ''prefix_read'' rd = (rr, rd')" by force
  obtain rem :: u64 where rem: "checked_sub (of_nat len) (of_nat PREFIX_BYTES) = Some rem"
    using assms by (cases "checked_sub (of_nat len) (of_nat PREFIX_BYTES) :: u64 option") (simp_all add: open_reader_def)
  obtain prefix where "rr = Inr prefix" using assms rr rem by (cases rr) (simp_all add: open_reader_def)
  with rr rem have p: "read_exact PREFIX_BYTES ''prefix_read'' rd = (Inr prefix, rd')"
      "checked_sub (of_nat len) (of_nat PREFIX_BYTES) = Some rem" by simp_all
  then have pre: "length prefix = 74" "unread rd = prefix @ unread rd'" "broken rd' = broken rd"
    by (auto simp: read_exact_def PREFIX_BYTES_def split: if_split_asm option.split_asm)
  obtain version kid salt sid where dp: "decode_prefix prefix = Inr (version, kid, salt, sid)"
    using assms p by (cases "decode_prefix prefix") (auto simp: open_reader_def)
  obtain k where k: "kid = key_id key" "derive_segment_key C (master key) salt sid = Inr k"
    using assms p dp by (auto simp: open_reader_def split: if_split_asm)
  define e where "e = \<lparr>d_reader = rd', d_key = k, d_prefix = prefix, d_segment_id = sid, d_next_sequence = 0,
            d_event_count = 0, d_plaintext = 0, d_digest = [], d_summary = None, d_done = False,
            d_limit = limit, d_remaining = rem,
            d_header = \<lparr>hdr_input_key = InputKey (replicate 32 0),
              hdr_fingerprint = SpoolFingerprint (replicate 32 0), hdr_generation = 0,
              hdr_batch_id = BatchId (replicate 16 0), hdr_batch_sequence = 0,
              hdr_segment_sequence = 0, hdr_created = 0\<rparr>,
            d_version = version, d_metadata = None\<rparr>"
  obtain fq u where fq: "read_frame C e = (fq, u)" by force
  have run: "open_reader C key limit len rd = (case read_frame C e of
           (Inl e, _) \<Rightarrow> Err e
         | (Inr pt, d) \<Rightarrow>
             if pt = [] \<or> hd pt \<noteq> FRAME_HEADER then Err invalid_frame_type
             else bindr (decode_header (tl pt)) (\<lambda>h. Ok (d\<lparr>d_header := h\<rparr>)))"
    unfolding open_reader_def e_def by (simp add: p dp k)
  from run [symmetric, unfolded assms] obtain fr where fr: "read_frame C e = (Inr fr, u)" "fr \<noteq> []" "hd fr = FRAME_HEADER"
      and "\<exists>h. decode_header (tl fr) = Inr h \<and> d = u\<lparr>d_header := h\<rparr>"
    using fq by (cases fq) (auto split: if_split_asm)
  then obtain pt h where f: "read_frame C e = (Inr (FRAME_HEADER # pt), u)" "d = u\<lparr>d_header := h\<rparr>" "decode_header pt = Inr h"
    by (cases fr) auto
  show thesis
    by (rule opened [OF pre(2,1,3) dp [unfolded k(1)] _ f]) (simp_all add: e_def k(2))
qed

lemma open_reader_sound:
  assumes "open_reader C key limit len rd = Inr d" "cipher_ok C"
  shows "\<exists>salt. derive_segment_key C (master key) salt (d_segment_id d) = Inr (d_key d) \<and>
    d_prefix d = encode_prefix (key_id key) salt (d_segment_id d) (d_version d) \<and>
    prefix_sized (key_id key) salt (d_segment_id d) (d_version d) \<and> header_sized (d_header d) \<and>
    reading C (unread rd) [FRAME_HEADER # encode_header (d_header d)] d \<and> counted [] d \<and>
    \<not> d_done d \<and> d_metadata d = None \<and> d_limit d = limit \<and> broken (d_reader d) = broken rd"
  using assms(1)
proof (cases rule: open_reader_parts)
  case (opened prefix rd' version sid salt e pt u h)
  note hs = encode_header_decode [OF opened(8)] and ps = encode_prefix_decode [OF opened(2,4)]
  have "reading C (unread rd) [] e" using opened by (simp add: reading_def)
  note st = read_frame_step [OF assms(2) opened(6) this]
  have "counted [] e" using opened by (simp add: counted_def)
  then have d: "d_key d = d_key e" "d_prefix d = prefix" "d_segment_id d = sid" "d_limit d = limit"
      "d_version d = version" "broken (d_reader d) = broken rd" "\<not> d_done d" "d_metadata d = None"
      "counted [] d" "d_header d = h"
    using st(2-4) st(5) [of "[]"] opened by (simp_all add: same_segment_def counted_def)
  have "reading C (unread rd) [FRAME_HEADER # encode_header h] d"
    using st(1) hs by (simp add: opened(7) reading_def)
  then show ?thesis
    unfolding d using opened(5) ps hs d(7,9) by (intro exI [of _ salt]) simp
qed

section \<open>Images are accepted\<close>

definition event_fits :: "u64 \<Rightarrow> u16 \<Rightarrow> bytes \<Rightarrow> bool" where
  "event_fits limit version e \<longleftrightarrow> e \<noteq> [] \<and> length e + 17 \<le> unat limit \<and>
     length e + 17 \<le> unat (maximum_ciphertext_frame_bytes limit version) \<and> length e + 17 < 2 ^ 32"

lemma encoded_frame_bytes_small:
  "n + 28 < 2 ^ 64 \<Longrightarrow> encoded_frame_bytes n = Inr (of_nat (n + 28))"
proof -
  assume n: "n + 28 < 2 ^ 64"
  have "u64_of_len (n + 16) = Some (of_nat (n + 16))" using n by (simp add: u64_of_len_def)
  moreover have "unat (of_nat (n + 16) :: u64) = n + 16" by (rule unat_of_nat_small) (use n in simp)
  then have "checked_add (12 :: u64) (of_nat (n + 16)) = Some (of_nat (n + 28))"
    using n by (simp add: checked_add_Some)
  ultimately show ?thesis
    by (simp add: encoded_frame_bytes_def TAG_LEN_def FRAME_PREFIX_BYTES_def)
qed

lemma fixed_frame_bytes:
  "footer_frame_bytes = 77" "maximum_recovery_metadata_frame_bytes = 157"
  "unwrap_or_max (encoded_frame_bytes (HEADER_PAYLOAD_BYTES + 1)) = 141"
  by (simp_all add: footer_frame_bytes_def maximum_recovery_metadata_frame_bytes_def unwrap_or_max_def
      encoded_frame_bytes_small spool_sizes)

lemma terminal_frame_bytes_simps:
  "terminal_frame_bytes LEGACY_FORMAT_VERSION = 77" "terminal_frame_bytes FORMAT_VERSION = 234"
  by (simp_all add: terminal_frame_bytes_def fixed_frame_bytes spool_versions saturating_add_def)

lemma maximum_ciphertext_v2:
  "unat (maximum_ciphertext_frame_bytes limit FORMAT_VERSION) = max (unat limit - 461) 145"
proof -
  have "unat (saturating_sub limit 461) = unat limit - 461"
    by (simp add: saturating_sub_def unat_sub word_le_nat_alt)
  then show ?thesis
    unfolding maximum_ciphertext_frame_bytes_def fixed_frame_bytes terminal_frame_bytes_simps Let_def
    by (simp add: spool_sizes checked_add_def spool_versions max_def word_le_nat_alt)
qed

lemma frames_Cons_Some:
  "frames C k p s (pt # pts) = Some b \<longleftrightarrow>
     (\<exists>x y. frame C k p s pt = Some x \<and> frames C k p (s + 1) pts = Some y \<and> b = x @ y)"
  by (cases "frame C k p s pt"; cases "frames C k p (s + 1) pts") auto

lemma frames_length: "cipher_ok C \<Longrightarrow> frames C k p s pts = Some b \<Longrightarrow>
  length b = sum_list (map (\<lambda>pt. length pt + 28) pts)"
proof (induction pts arbitrary: s b)
  case (Cons pt pts)
  then show ?case by (auto simp only: frames_Cons_Some list.map sum_list.Cons length_append dest: frame_length)
qed simp

text \<open>A decoder in front of the frames still to come, with nothing broken.\<close>

definition at_frames :: "spool_crypto \<Rightarrow> bytes list \<Rightarrow> segment_decoder \<Rightarrow> bool" where
  "at_frames C pts d \<longleftrightarrow> broken (d_reader d) = None \<and>
     frames C (d_key d) (d_prefix d) (d_next_sequence d) pts = Some (unread (d_reader d)) \<and>
     pending d = unat (d_remaining d) \<and> unat (d_next_sequence d) + pending d < 2 ^ 64"

definition frame_fits :: "segment_decoder \<Rightarrow> bytes \<Rightarrow> bool" where
  "frame_fits d pt \<longleftrightarrow> pt \<noteq> [] \<and> length pt + 16 \<le> unat (d_limit d) \<and>
     length pt + 16 \<le> unat (maximum_ciphertext_frame_bytes (d_limit d) (d_version d)) \<and> length pt + 16 < 2 ^ 32"

lemma read_frame_at:
  assumes "cipher_ok C" "at_frames C (pt # pts) d" "frame_fits d pt"
  obtains d' where "read_frame C d = (Inr pt, d')" "at_frames C pts d'" "same_segment d d'"
    "d_done d' = d_done d" "d_metadata d' = d_metadata d" "\<And>es. counted es d' = counted es d"
    "pending d = length pt + 28 + pending d'" "d_summary d' = d_summary d"
proof -
  from assms(2) obtain x y where x: "frame C (d_key d) (d_prefix d) (d_next_sequence d) pt = Some x"
      "frames C (d_key d) (d_prefix d) (d_next_sequence d + 1) pts = Some y" "unread (d_reader d) = x @ y"
    and at: "broken (d_reader d) = None" "pending d = unat (d_remaining d)"
      "unat (d_next_sequence d) + pending d < 2 ^ 64"
    unfolding at_frames_def frames_Cons_Some by blast
  have lx: "length x = length pt + 28" by (rule frame_length [OF assms(1) x(1)])
  let ?d = "(advanced_to y d)\<lparr>d_remaining := d_remaining d - of_nat (length pt + 28),
      d_next_sequence := d_next_sequence d + 1\<rparr>"
  have pend: "pending d = length pt + 28 + length y" using x(3) lx by simp
  have n: "unat (of_nat (length pt + 28) :: u64) = length pt + 28"
    by (rule unat_of_nat_small) (use pend at(3) in simp)
  have rem: "unat (d_remaining d - of_nat (length pt + 28)) = length y"
    using pend at(2) n by (subst unat_sub) (simp_all add: word_le_nat_alt)
  have seq: "unat (d_next_sequence d + 1) = unat (d_next_sequence d) + 1"
    using at(3) pend by (simp add: unat_word_ariths)
  have "read_frame C d = (Inr pt, ?d)"
    by (rule read_frame_complete [OF assms(1) x(1,3)]) (use assms(3) pend at in \<open>simp_all add: frame_fits_def\<close>)
  moreover have "at_frames C pts ?d"
    using at(1,3) x(2) rem seq pend by (simp add: at_frames_def)
  ultimately show thesis
    by (rule that) (use pend in \<open>simp_all add: same_segment_def counted_def advanced_to_def\<close>)
qed

lemma accept_event_at:
  assumes "e \<noteq> []" "d_metadata d = None" "counted prev d"
    and "length prev + 1 < 2 ^ 64" "length (concat prev) + length e < 2 ^ 64"
  shows "\<exists>d'. accept_event e d = (Inr e, d') \<and> d_reader d' = d_reader d \<and> d_remaining d' = d_remaining d \<and>
    d_next_sequence d' = d_next_sequence d \<and> same_segment d d' \<and> counted (prev @ [e]) d' \<and>
    d_done d' = d_done d \<and> d_metadata d' = d_metadata d"
proof -
  have n: "unat (d_event_count d) = length prev" "unat (d_plaintext d) = length (concat prev)"
    using assms(3-5) by (simp_all add: counted_def unat_of_nat_small del: length_concat)
  have l: "unat (of_nat (length e) :: u64) = length e"
    by (rule unat_of_nat_small) (use assms(5) in simp)
  have "checked_add (d_event_count d) 1 \<noteq> None" "checked_add (d_plaintext d) (of_nat (length e)) \<noteq> None"
    using assms(4,5) n l by (simp_all add: checked_add_def del: length_concat)
  then have "accept_event e d = (Inr e, d\<lparr>d_event_count := d_event_count d + 1,
       d_plaintext := d_plaintext d + of_nat (length e),
       d_digest := d_digest d @ be_bytes 8 (of_nat (length e) :: u64) @ e\<rparr>)" (is "_ = (_, ?d)")
    unfolding accept_event_Ok using assms(1,2,5) by simp
  then show ?thesis
    using assms(3) by (intro exI [of _ ?d])
      (simp add: same_segment_def counted_def add.commute del: be_bytes_numeral)
qed

lemma next_event_at:
  assumes "cipher_ok C" "at_frames C ((FRAME_EVENT # e) # pts) d" "frame_fits d (FRAME_EVENT # e)" "e \<noteq> []"
    and "\<not> d_done d" "d_metadata d = None" "counted prev d"
    and "length prev + pending d < 2 ^ 64" "length (concat prev) + pending d < 2 ^ 64"
  obtains d' where "next_event C d = (Inr (Some e), d')" "at_frames C pts d'" "same_segment d d'"
    "\<not> d_done d'" "d_metadata d' = None" "counted (prev @ [e]) d'"
    "length (prev @ [e]) + pending d' < 2 ^ 64" "length (concat (prev @ [e])) + pending d' < 2 ^ 64"
proof -
  from assms(1-3) obtain u where u: "read_frame C d = (Inr (FRAME_EVENT # e), u)" "at_frames C pts u" "same_segment d u"
    "d_done u = d_done d" "d_metadata u = d_metadata d" "\<And>es. counted es u = counted es d"
    "pending d = length (FRAME_EVENT # e) + 28 + pending u"
    by (rule read_frame_at) blast
  have "\<exists>d'. accept_event e u = (Inr e, d') \<and> d_reader d' = d_reader u \<and> d_remaining d' = d_remaining u \<and>
    d_next_sequence d' = d_next_sequence u \<and> same_segment u d' \<and> counted (prev @ [e]) d' \<and>
    d_done d' = d_done u \<and> d_metadata d' = d_metadata u"
    by (rule accept_event_at) (use assms(4-9) u(5-7) in simp_all)
  then obtain d' where d': "accept_event e u = (Inr e, d')" "d_reader d' = d_reader u" "d_remaining d' = d_remaining u"
    "d_next_sequence d' = d_next_sequence u" "same_segment u d'" "counted (prev @ [e]) d'"
    "d_done d' = d_done u" "d_metadata d' = d_metadata u" by blast
  have "next_event C d = (Inr (Some e), d')"
    using assms(5) u(1) d'(1) by (simp add: next_event.simps [of C d] bnd_step)
  moreover have "at_frames C pts d'"
    using u(2) d'(2-5) by (simp add: at_frames_def same_segment_def)
  ultimately show thesis
    by (rule that) (use u d' assms(5-9) same_segment_trans in auto)
qed

lemma footer_at:
  assumes "cipher_ok C" "at_frames C [FRAME_FOOTER # encode_footer (summary_of C es)] d"
    and "frame_fits d (FRAME_FOOTER # encode_footer (summary_of C es))" "\<not> d_done d"
    and "d_metadata d = Some m" "d_version d = FORMAT_VERSION" "counted es d"
  obtains d' where "next_event C d = (Inr None, d')" "same_segment d d'"
    "d_summary d' = Some (summary_of C es)" "d_metadata d' = Some m"
proof -
  let ?s = "summary_of C es"
  from assms(1-3) obtain u where u: "read_frame C d = (Inr (FRAME_FOOTER # encode_footer ?s), u)"
    "at_frames C [] u" "same_segment d u" "d_done u = d_done d" "d_metadata u = d_metadata d"
    "\<And>es. counted es u = counted es d"
    by (rule read_frame_at) blast
  have "summary_sized ?s" using assms(1) by (simp add: summary_sized_def summary_of_def)
  then have "accept_footer C (encode_footer ?s) u = (Inr (), mark_done ?s u)"
    unfolding accept_footer_Ok using u(2,3,5) u(6) [of es] assms(5-7) decode_footer_encode [of ?s]
    by (auto simp: at_frames_def counted_def summary_of_def same_segment_def)
  then have "next_event C d = (Inr None, mark_done ?s u)"
    using assms(4) u(1) by (simp add: next_event.simps [of C d] bnd_step frame_types)
  then show thesis
    by (rule that) (use u(3,5) assms(5,6) in \<open>auto simp: mark_done_def same_segment_def spool_versions\<close>)
qed

lemma closing_at:
  assumes "cipher_ok C" "at_frames C (closing FORMAT_VERSION m (summary_of C es)) d" "length m \<le> 128"
    and "frame_fits d (FRAME_RECOVERY_METADATA # m)" "frame_fits d (FRAME_FOOTER # encode_footer (summary_of C es))"
    and "\<not> d_done d" "d_metadata d = None" "d_version d = FORMAT_VERSION" "counted es d"
  obtains d' where "next_event C d = (Inr None, d')" "same_segment d d'"
    "d_summary d' = Some (summary_of C es)" "d_metadata d' = Some m"
proof -
  let ?s = "summary_of C es"
  from assms(2) have at: "at_frames C [FRAME_RECOVERY_METADATA # m, FRAME_FOOTER # encode_footer ?s] d"
    by (simp add: closing_def)
  from assms(1) at assms(4) obtain u where u: "read_frame C d = (Inr (FRAME_RECOVERY_METADATA # m), u)"
    "at_frames C [FRAME_FOOTER # encode_footer ?s] u" "same_segment d u" "d_done u = d_done d"
    "d_metadata u = d_metadata d" "\<And>es. counted es u = counted es d"
    by (rule read_frame_at) blast
  let ?u = "u\<lparr>d_metadata := Some m\<rparr>"
  have "at_frames C [FRAME_FOOTER # encode_footer ?s] ?u" "same_segment d ?u" "counted es ?u"
      "frame_fits ?u (FRAME_FOOTER # encode_footer ?s)" "\<not> d_done ?u" "d_version ?u = FORMAT_VERSION"
    using u(2-6) assms(5-9) by (simp_all add: at_frames_def same_segment_def counted_def frame_fits_def)
  with footer_at [OF assms(1), of es ?u m] obtain d' where d': "next_event C ?u = (Inr None, d')"
      "same_segment ?u d'" "d_summary d' = Some ?s" "d_metadata d' = Some m" by auto
  have "next_event C d = next_event C ?u"
    using assms(3,6-8) u(1,3,5)
    by (simp add: next_event.simps [of C d] frame_types same_segment_def new_recovery_metadata_def
        MAX_RECOVERY_METADATA_BYTES_def)
  with d'(1) have "next_event C d = (Inr None, d')" by simp
  moreover have "same_segment d d'" by (rule same_segment_trans [OF \<open>same_segment d ?u\<close> d'(2)])
  ultimately show thesis by (rule that [OF _ _ d'(3,4)])
qed

lemma drain_complete:
  assumes "cipher_ok C"
    and "at_frames C (map ((#) FRAME_EVENT) es @ closing FORMAT_VERSION m (summary_of C (prev @ es))) d"
    and "length m \<le> 128" "\<forall>e \<in> set es. e \<noteq> [] \<and> frame_fits d (FRAME_EVENT # e)"
    and "frame_fits d (FRAME_RECOVERY_METADATA # m)"
    and "frame_fits d (FRAME_FOOTER # encode_footer (summary_of C (prev @ es)))"
    and "\<not> d_done d" "d_metadata d = None" "d_version d = FORMAT_VERSION" "counted prev d"
    and "length prev + pending d < 2 ^ 64" "length (concat prev) + pending d < 2 ^ 64"
  shows "\<exists>d'. drain C d = (Inr es, d') \<and> same_segment d d' \<and>
    d_summary d' = Some (summary_of C (prev @ es)) \<and> d_metadata d' = Some m"
  using assms(2-)
proof (induction es arbitrary: prev d)
  case Nil
  from closing_at [OF assms(1), of m prev d] Nil obtain d' where "next_event C d = (Inr None, d')" "same_segment d d'"
    "d_summary d' = Some (summary_of C prev)" "d_metadata d' = Some m" by auto
  then show ?case by (simp add: drain.simps [of C d])
next
  case (Cons e es)
  let ?rest = "map ((#) FRAME_EVENT) es @ closing FORMAT_VERSION m (summary_of C (prev @ e # es))"
  from Cons.prems have "at_frames C ((FRAME_EVENT # e) # ?rest) d" "frame_fits d (FRAME_EVENT # e)" "e \<noteq> []"
    "\<not> d_done d" "d_metadata d = None" "counted prev d"
    "length prev + pending d < 2 ^ 64" "length (concat prev) + pending d < 2 ^ 64" by simp_all
  from next_event_at [OF assms(1) this] obtain u where u: "next_event C d = (Inr (Some e), u)" "at_frames C ?rest u" "same_segment d u"
    "\<not> d_done u" "d_metadata u = None" "counted (prev @ [e]) u"
    "length (prev @ [e]) + pending u < 2 ^ 64" "length (concat (prev @ [e])) + pending u < 2 ^ 64"
    by blast
  have fits: "frame_fits u = frame_fits d" "d_version u = d_version d"
    using u(3) by (auto simp: frame_fits_def same_segment_def fun_eq_iff)
  have "\<exists>d'. drain C u = (Inr es, d') \<and> same_segment u d' \<and>
    d_summary d' = Some (summary_of C ((prev @ [e]) @ es)) \<and> d_metadata d' = Some m"
    by (rule Cons.IH) (use u(2,4-8) Cons.prems(2-5,8) in \<open>simp_all add: fits\<close>)
  with u(1,3) show ?case
    by (auto simp: drain.simps [of C d] dest: same_segment_trans)
qed

lemma open_reader_complete:
  assumes "cipher_ok C" "derive_segment_key C (master key) salt sid = Inr k"
    and "prefix_sized (key_id key) salt sid version" "header_sized h" "512 \<le> unat limit"
    and "frames C k (encode_prefix (key_id key) salt sid version) 0 ((FRAME_HEADER # encode_header h) # pts) = Some b"
    and "129 \<le> unat (maximum_ciphertext_frame_bytes limit version)" "74 + length b < 2 ^ 64"
  shows "\<exists>d. open_reader C key limit (74 + length b)
      \<lparr>unread = encode_prefix (key_id key) salt sid version @ b, broken = None\<rparr> = Inr d \<and>
    at_frames C pts d \<and> counted [] d \<and> \<not> d_done d \<and> d_metadata d = None \<and> d_limit d = limit \<and>
    d_version d = version \<and> d_segment_id d = sid \<and> d_header d = h \<and> pending d < 2 ^ 64"
proof -
  let ?p = "encode_prefix (key_id key) salt sid version"
  let ?pt = "FRAME_HEADER # encode_header h"
  have lp: "length ?p = 74" by (rule length_encode_prefix [OF assms(3)])
  have n: "unat (of_nat (74 + length b) :: u64) = 74 + length b"
    by (rule unat_of_nat_small) (use assms(8) in simp)
  have sub: "checked_sub (of_nat (74 + length b)) (of_nat PREFIX_BYTES) = Some (of_nat (length b) :: u64)"
    using n by (simp add: checked_sub_def PREFIX_BYTES_def word_le_nat_alt)
  have lb: "unat (of_nat (length b) :: u64) = length b"
    by (rule unat_of_nat_small) (use assms(8) in simp)
  have rd: "read_exact PREFIX_BYTES ''prefix_read'' \<lparr>unread = ?p @ b, broken = None\<rparr> =
      (Inr ?p, \<lparr>unread = b, broken = None\<rparr>)"
    using lp by (simp add: read_exact_def PREFIX_BYTES_def)
  define e where "e = \<lparr>d_reader = \<lparr>unread = b, broken = None\<rparr>, d_key = k, d_prefix = ?p, d_segment_id = sid,
            d_next_sequence = 0, d_event_count = 0, d_plaintext = 0, d_digest = [], d_summary = None,
            d_done = False, d_limit = limit, d_remaining = of_nat (length b),
            d_header = \<lparr>hdr_input_key = InputKey (replicate 32 0),
              hdr_fingerprint = SpoolFingerprint (replicate 32 0), hdr_generation = 0,
              hdr_batch_id = BatchId (replicate 16 0), hdr_batch_sequence = 0,
              hdr_segment_sequence = 0, hdr_created = 0\<rparr>,
            d_version = version, d_metadata = None\<rparr>"
  have at: "at_frames C (?pt # pts) e" using assms(6,8) lb by (simp add: at_frames_def e_def)
  have fits: "frame_fits e ?pt" using assms(4,5,7) by (simp add: frame_fits_def e_def)
  from assms(1) at fits obtain u where u: "read_frame C e = (Inr ?pt, u)" "at_frames C pts u" "same_segment e u"
    "d_done u = d_done e" "d_metadata u = d_metadata e" "\<And>es. counted es u = counted es e"
    "pending e = length ?pt + 28 + pending u"
    by (rule read_frame_at) blast
  have "open_reader C key limit (74 + length b) \<lparr>unread = ?p @ b, broken = None\<rparr> =
      (case read_frame C e of
           (Inl e, _) \<Rightarrow> Err e
         | (Inr pt, d) \<Rightarrow>
             if pt = [] \<or> hd pt \<noteq> FRAME_HEADER then Err invalid_frame_type
             else bindr (decode_header (tl pt)) (\<lambda>h. Ok (d\<lparr>d_header := h\<rparr>)))"
    unfolding open_reader_def e_def rd sub ok_or_simps bindr_simps prod.case sum.case
      decode_prefix_encode [OF assms(3)] using assms(2) by simp
  also have "\<dots> = Inr (u\<lparr>d_header := h\<rparr>)"
    using u(1) decode_header_encode [OF assms(4)] by simp
  finally show ?thesis
    using u(2,3,4,5) u(6) [of "[]"] assms(8) u(7)
    by (intro exI [of _ "u\<lparr>d_header := h\<rparr>"]) (simp add: at_frames_def same_segment_def counted_def e_def)
qed

lemma image_accepted:
  assumes "cipher_ok C" "segment_image C key salt sid FORMAT_VERSION h es m = Some c"
    and "prefix_sized (key_id key) salt sid FORMAT_VERSION" "header_sized h"
    and "length m \<le> MAX_RECOVERY_METADATA_BYTES" "MIN_SEGMENT_BYTES \<le> limit" "length c \<le> unat limit"
    and "\<forall>e \<in> set es. event_fits limit FORMAT_VERSION e"
  shows "\<exists>d d'. open_reader C key limit (length c) \<lparr>unread = c, broken = None\<rparr> = Inr d \<and>
    drain C d = (Inr es, d') \<and> d_segment_id d = sid \<and> d_header d = h \<and> d_version d = FORMAT_VERSION \<and>
    d_summary d' = Some (summary_of C es) \<and> d_metadata d' = Some m"
proof -
  let ?p = "encode_prefix (key_id key) salt sid FORMAT_VERSION"
  let ?pts = "map ((#) FRAME_EVENT) es @ closing FORMAT_VERSION m (summary_of C es)"
  obtain k b where k: "derive_segment_key C (master key) salt sid = Inr k"
    "frames C k ?p 0 ((FRAME_HEADER # encode_header h) # ?pts) = Some b" "c = ?p @ b"
    using assms(2) by (auto simp: segment_image_def Let_def plaintexts_def split: sum.split_asm)
  have lc: "length c = 74 + length b" using k(3) assms(3) by simp
  have lim: "512 \<le> unat limit" "unat limit < 2 ^ 64"
    using assms(6) u64_bound [of limit] by (simp_all add: MIN_SEGMENT_BYTES_def word_le_nat_alt)
  let ?max = "unat (maximum_ciphertext_frame_bytes limit FORMAT_VERSION)"
  have max: "145 \<le> ?max" unfolding maximum_ciphertext_v2 by simp
  obtain d where d: "open_reader C key limit (length c) \<lparr>unread = c, broken = None\<rparr> = Inr d"
    "at_frames C ?pts d" "counted [] d" "\<not> d_done d" "d_metadata d = None" "d_limit d = limit"
    "d_version d = FORMAT_VERSION" "d_segment_id d = sid" "d_header d = h" "pending d < 2 ^ 64"
    using open_reader_complete [OF assms(1) k(1) assms(3,4) lim(1) k(2)] lc lim max assms(7)
    unfolding k(3) by auto
  have s: "summary_sized (summary_of C es)" using assms(1) by (simp add: summary_sized_def summary_of_def)
  have fits: "frame_fits d (ty # p)" if "length p + 17 \<le> 145 \<or> event_fits limit FORMAT_VERSION p" for ty p
    using that lim(1) max unfolding frame_fits_def event_fits_def d(6,7) by auto
  have "\<exists>d'. drain C d = (Inr es, d') \<and> same_segment d d' \<and>
      d_summary d' = Some (summary_of C ([] @ es)) \<and> d_metadata d' = Some m"
    by (rule drain_complete [OF assms(1)])
      (use d s assms(5,8) fits in \<open>auto simp: MAX_RECOVERY_METADATA_BYTES_def event_fits_def\<close>)
  with d(1,7-9) show ?thesis by auto
qed

lemma image_of_drain:
  assumes "cipher_ok C" "open_reader C key limit len rd = Inr d" "drain C d = (Inr es, d')"
  shows "\<exists>salt m. segment_image C key salt (d_segment_id d) (d_version d) (d_header d) es m = Some (unread rd) \<and>
    broken rd = None \<and> [] \<notin> set es \<and> length m \<le> MAX_RECOVERY_METADATA_BYTES \<and>
    same_segment d d' \<and> d_summary d' = Some (summary_of C es) \<and> d_metadata d' = Some m"
proof -
  obtain salt where o: "derive_segment_key C (master key) salt (d_segment_id d) = Inr (d_key d)"
    "d_prefix d = encode_prefix (key_id key) salt (d_segment_id d) (d_version d)"
    "prefix_sized (key_id key) salt (d_segment_id d) (d_version d)"
    "reading C (unread rd) [FRAME_HEADER # encode_header (d_header d)] d" "counted [] d"
    "\<not> d_done d" "d_metadata d = None" "broken (d_reader d) = broken rd"
    using open_reader_sound [OF assms(2,1)] by blast
  have v: "d_version d = LEGACY_FORMAT_VERSION \<or> d_version d = FORMAT_VERSION"
    using o(3) by (simp add: prefix_sized_def)
  obtain m where m: "length m \<le> 128" "[] \<notin> set es" "same_segment d d'" "unread (d_reader d') = []"
      "reading C (unread rd) (plaintexts C (d_version d) (d_header d) es m) d'"
      "d_summary d' = Some (summary_of C es)" "d_metadata d' = Some m" "broken (d_reader d) = None"
    using drain_sound [OF assms(3) o(6,7) assms(1) o(4,5) v] by (auto simp: plaintexts_def)
  from m(3,4,5) have "segment_image C key salt (d_segment_id d) (d_version d) (d_header d) es m = Some (unread rd)"
    using o(1,2) by (auto simp: segment_image_def Let_def reading_def same_segment_def)
  with m o(8) show ?thesis by (auto simp: MAX_RECOVERY_METADATA_BYTES_def)
qed

section \<open>Properties\<close>

text \<open>
  A demonstration cipher appends sixteen zero bytes and checks them; it satisfies the documented laws.
\<close>

definition demo_crypto :: spool_crypto where
  "demo_crypto = \<lparr>seal = (\<lambda>k n a p. Some (p @ replicate 16 0)),
     unseal = (\<lambda>k n a c. if 16 \<le> length c \<and> drop (length c - 16) c = replicate 16 0
       then Some (take (length c - 16) c) else None),
     hkdf = (\<lambda>s k i. Some (take 32 k)), unbound_key = Some, sha256 = (\<lambda>_. replicate 32 7)\<rparr>"

lemma demo_cipher: "cipher_ok demo_crypto"
  unfolding cipher_ok_def TAG_LEN_def demo_crypto_def
  by (auto split: if_split_asm) (metis append_take_drop_id)

definition demo_spool_key :: spool_key where
  "demo_spool_key = \<lparr>master = replicate 32 1, key_id = replicate 16 2\<rparr>"

definition demo_header :: segment_header where
  "demo_header = \<lparr>hdr_input_key = InputKey (replicate 32 3), hdr_fingerprint = SpoolFingerprint (replicate 32 4),
     hdr_generation = 1, hdr_batch_id = BatchId (replicate 16 5), hdr_batch_sequence = 1,
     hdr_segment_sequence = 1, hdr_created = 1000\<rparr>"

text \<open>
  Names. A file or directory name decodes to an identity exactly when it is the lower-case
  hexadecimal encoding of that identity: every identity has one name, and no other name is accepted.
\<close>
theorem hex_name_unique:
  "decode_hex n cs = Some bs \<longleftrightarrow> cs = encode_hex bs \<and> length bs = n"
  using encode_hex_decode decode_hex_encode by metis

text \<open>
  C40. Only sealed segments are accepted. If a file opens and is read to its end without an error, it is
  the image, under a key derived from its own salt and identity, of the events that were delivered, in
  order and complete, with the header, the metadata and the summary the decoder reports: nothing was
  cut, inserted, repeated, reordered or appended.
\<close>
theorem accepted_segment_is_image:
  assumes "cipher_ok C" "open_reader C key limit len rd = Inr d" "drain C d = (Inr es, d')"
  shows "\<exists>salt m. segment_image C key salt (d_segment_id d) (d_version d) (d_header d) es m = Some (unread rd) \<and>
    broken rd = None \<and> [] \<notin> set es \<and> length m \<le> MAX_RECOVERY_METADATA_BYTES \<and>
    d_header d' = d_header d \<and> d_summary d' = Some (summary_of C es) \<and> d_metadata d' = Some m"
  using image_of_drain [OF assms] by (auto simp: same_segment_def)

text \<open>
  Sealed segments read back. The image of any events, within the limits the writer keeps, opens
  under its key and delivers exactly those events, then the end, with its header, metadata and summary.
\<close>
theorem image_reads_back:
  assumes "cipher_ok C" "segment_image C key salt sid FORMAT_VERSION h es m = Some c"
    and "prefix_sized (key_id key) salt sid FORMAT_VERSION" "header_sized h"
    and "length m \<le> MAX_RECOVERY_METADATA_BYTES" "MIN_SEGMENT_BYTES \<le> limit" "length c \<le> unat limit"
    and "\<forall>e \<in> set es. event_fits limit FORMAT_VERSION e"
  shows "\<exists>d d'. open_reader C key limit (length c) \<lparr>unread = c, broken = None\<rparr> = Inr d \<and>
    drain C d = (Inr es, d') \<and> d_segment_id d = sid \<and> d_header d = h \<and> d_version d = FORMAT_VERSION \<and>
    d_summary d' = Some (summary_of C es) \<and> d_metadata d' = Some m"
  by (rule image_accepted [OF assms])

lemma demo_frames: "\<exists>b. frames demo_crypto k p s pts = Some b"
proof (induction pts arbitrary: s)
  case (Cons pt pts)
  then obtain b where "frames demo_crypto k p (s + 1) pts = Some b" by blast
  moreover obtain x where "frame demo_crypto k p s pt = Some x"
    by (simp add: frame_def demo_crypto_def Let_def del: be_bytes_numeral)
  ultimately show ?case by simp
qed simp

lemma demo_image:
  "\<exists>c. segment_image demo_crypto demo_spool_key (replicate 32 8) (SegmentId (replicate 16 9)) FORMAT_VERSION
     demo_header [[1, 2], [3]] [4] = Some c \<and> length c = 383"
proof -
  let ?pts = "plaintexts demo_crypto FORMAT_VERSION demo_header [[1, 2], [3]] [4]"
  have "derive_segment_key demo_crypto (master demo_spool_key) (replicate 32 8) (SegmentId (replicate 16 9)) =
      Inr (replicate 32 1)"
    by (simp add: derive_segment_key_def demo_crypto_def demo_spool_key_def)
  moreover obtain b where b: "frames demo_crypto (replicate 32 1)
      (encode_prefix (key_id demo_spool_key) (replicate 32 8) (SegmentId (replicate 16 9)) FORMAT_VERSION) 0 ?pts = Some b"
    using demo_frames by blast
  moreover have "header_sized demo_header" "summary_sized (summary_of demo_crypto [[1, 2], [3]])"
    "prefix_sized (key_id demo_spool_key) (replicate 32 8) (SegmentId (replicate 16 9)) FORMAT_VERSION"
    by (simp_all add: header_sized_def demo_header_def summary_sized_def summary_of_def demo_crypto_def
        prefix_sized_def demo_spool_key_def)
  moreover from this frames_length [OF demo_cipher b] have "length b = 309"
    by (simp add: plaintexts_def closing_def)
  ultimately show ?thesis by (simp add: segment_image_def Let_def)
qed

lemma demo_fits:
  "length [4 :: u8] \<le> MAX_RECOVERY_METADATA_BYTES" "MIN_SEGMENT_BYTES \<le> 1024" "383 \<le> unat (1024 :: u64)"
  "event_fits 1024 FORMAT_VERSION [1, 2]" "event_fits 1024 FORMAT_VERSION [3]"
  by (simp_all add: MAX_RECOVERY_METADATA_BYTES_def MIN_SEGMENT_BYTES_def event_fits_def maximum_ciphertext_v2)

lemma demo_sizes:
  "prefix_sized (key_id demo_spool_key) (replicate 32 8) (SegmentId (replicate 16 9)) FORMAT_VERSION"
  "header_sized demo_header"
  by (simp_all add: prefix_sized_def demo_spool_key_def header_sized_def demo_header_def)

lemma demo_open:
  assumes "segment_image demo_crypto demo_spool_key (replicate 32 8) (SegmentId (replicate 16 9))
      FORMAT_VERSION demo_header [[1, 2], [3]] [4] = Some c" "length c = 383"
  shows "\<exists>d d'. open_reader demo_crypto demo_spool_key 1024 (length c) \<lparr>unread = c, broken = None\<rparr> = Inr d \<and>
      drain demo_crypto d = (Inr [[1, 2], [3]], d')"
  using image_accepted [OF demo_cipher assms(1) demo_sizes demo_fits(1,2)] demo_fits assms(2) by auto

lemma image_reads_back_witness:
  "\<exists>c d d'. open_reader demo_crypto demo_spool_key 1024 (length c) \<lparr>unread = c, broken = None\<rparr> = Inr d \<and>
     drain demo_crypto d = (Inr [[1, 2], [3]], d') \<and> d_metadata d' = Some [4]"
proof -
  obtain c where c: "segment_image demo_crypto demo_spool_key (replicate 32 8) (SegmentId (replicate 16 9))
      FORMAT_VERSION demo_header [[1, 2], [3]] [4] = Some c" "length c = 383"
    using demo_image by blast
  have "length c \<le> unat (1024 :: u64)" "\<forall>e \<in> set [[1, 2], [3]]. event_fits 1024 FORMAT_VERSION e"
    using c(2) demo_fits by simp_all
  from image_reads_back [OF demo_cipher c(1) demo_sizes demo_fits(1,2) this] show ?thesis by blast
qed

lemma accepted_segment_is_image_witness:
  "\<exists>c d salt m. open_reader demo_crypto demo_spool_key 1024 (length c) \<lparr>unread = c, broken = None\<rparr> = Inr d \<and>
     segment_image demo_crypto demo_spool_key salt (d_segment_id d) (d_version d) (d_header d) [[1, 2], [3]] m = Some c"
proof -
  obtain c where c: "segment_image demo_crypto demo_spool_key (replicate 32 8) (SegmentId (replicate 16 9))
      FORMAT_VERSION demo_header [[1, 2], [3]] [4] = Some c" "length c = 383"
    using demo_image by blast
  obtain d d' where d: "open_reader demo_crypto demo_spool_key 1024 (length c) \<lparr>unread = c, broken = None\<rparr> = Inr d"
    "drain demo_crypto d = (Inr [[1, 2], [3]], d')"
    using demo_open [OF c] by blast
  from accepted_segment_is_image [OF demo_cipher d] d(1) show ?thesis by auto
qed

end
