(* ===== verification/Spool_Writer.thy ===== *)
theory Spool_Writer
  imports Spool_Codec
begin

text \<open>
  The writing half of \<open>crates/dbx-rs-spool/src/format.rs\<close>, \<open>SegmentEncoder\<close>, and the master key of
  \<open>key.rs\<close>. The encoder is a value beside the host; every successful call leaves the file a prefix of
  the image of \<open>Spool_Codec\<close>, and \<open>finish\<close> completes it.
\<close>

section \<open>The encoder\<close>

record segment_encoder =
  e_file :: path
  e_key :: bytes
  e_prefix :: bytes
  e_next_sequence :: u64
  e_position :: u64
  e_limit :: u64
  e_event_count :: u64
  e_plaintext :: u64
  e_digest :: bytes
  e_version :: u16

type_synonym 'a encoding = "(segment_encoder \<times> host, spool_error, 'a) op"

definition u32_of_len :: "nat \<Rightarrow> u32 option" where
  "u32_of_len n = (if n < 2 ^ 32 then Some (of_nat n) else None)"

lemma u32_of_len_code [code]:
  "u32_of_len n = (if int n < 4294967296 then Some (word_of_int (int n)) else None)"
  by (simp add: u32_of_len_def)

definition frame_length_overflow :: spool_error where
  "frame_length_overflow = sp_error ''DBX-RS-SPOOL-LIMIT-0008'' ''frame_encode''
     ''spool frame length overflowed''"

text \<open>The three writes of a frame, and the counters after them.\<close>

definition write_frame_bytes :: "path \<Rightarrow> u32 \<Rightarrow> u64 \<Rightarrow> bytes \<Rightarrow> unit io" where
  "write_frame_bytes file cipher_length seq ciphertext =
     bnd (sys_write file (be_bytes 4 cipher_length)) (\<lambda>_.
     bnd (sys_write file (be_bytes 8 seq)) (\<lambda>_.
       sys_write file ciphertext))"

definition advance_frame :: "u32 \<Rightarrow> unit encoding" where
  "advance_frame cipher_length =
     bnd get_fst (\<lambda>e.
     bnd (lift_res (ok_or frame_length_overflow (checked_add FRAME_PREFIX_BYTES (ucast cipher_length)))) (\<lambda>frame_bytes.
     bnd (lift_res (ok_or frame_length_overflow (checked_add (e_position e) frame_bytes))) (\<lambda>pos.
     bnd (put_fst (e\<lparr>e_position := pos\<rparr>)) (\<lambda>_.
     bnd (lift_res (ok_or (sp_error ''DBX-RS-SPOOL-LIMIT-0009'' ''frame_encode''
         ''spool frame sequence overflowed'') (checked_add (e_next_sequence e) 1))) (\<lambda>n.
       put_fst (e\<lparr>e_position := pos, e_next_sequence := n\<rparr>))))))"

definition write_typed_frame :: "spool_crypto \<Rightarrow> u8 \<Rightarrow> bytes \<Rightarrow> bool \<Rightarrow> unit encoding" where
  "write_typed_frame C frame_type payload payload_is_event =
     bnd get_fst (\<lambda>e.
     let plaintext = frame_type # payload in
     bnd (lift_res (ok_or (sp_error ''DBX-RS-SPOOL-LIMIT-0007'' ''frame_encode'' ''spool frame is too large'')
         (u32_of_len (length plaintext + TAG_LEN)))) (\<lambda>cipher_length.
     let seq = e_next_sequence e; aad = frame_aad (e_prefix e) cipher_length seq in
     bnd (lift_res (ok_or (sp_error ''DBX-RS-SPOOL-CRYPTO-0001'' ''frame_encrypt''
         ''spool frame encryption failed'') (seal C (e_key e) (nonce seq) aad plaintext))) (\<lambda>ciphertext.
     bnd (on_snd (map_fail (sp_io_error ''DBX-RS-SPOOL-FORMAT-0005''
         (if payload_is_event then ''event_write'' else ''metadata_write'')
         ''failed to write an encrypted spool frame'')
         (write_frame_bytes (e_file e) cipher_length seq ciphertext))) (\<lambda>_.
       advance_frame cipher_length))))"

definition new_encoder :: "path \<Rightarrow> bytes \<Rightarrow> bytes \<Rightarrow> u64 \<Rightarrow> u16 \<Rightarrow> segment_encoder" where
  "new_encoder file k prefix limit version =
     \<lparr>e_file = file, e_key = k, e_prefix = prefix, e_next_sequence = 0, e_position = of_nat PREFIX_BYTES,
      e_limit = limit, e_event_count = 0, e_plaintext = 0, e_digest = [], e_version = version\<rparr>"

text \<open>\<open>position.checked_add(terminal).is_none_or(required > limit)\<close>\<close>

definition terminal_exceeds :: "segment_encoder \<Rightarrow> bool" where
  "terminal_exceeds e =
     (case checked_add (e_position e) (terminal_frame_bytes (e_version e)) of
        None \<Rightarrow> True
      | Some required \<Rightarrow> required > e_limit e)"

definition start_header :: "spool_crypto \<Rightarrow> segment_header \<Rightarrow> unit encoding" where
  "start_header C header =
     bnd (write_typed_frame C FRAME_HEADER (encode_header header) False) (\<lambda>_.
     bnd get_fst (\<lambda>e.
     if terminal_exceeds e
     then throw (sp_error ''DBX-RS-SPOOL-LIMIT-0002'' ''segment_begin''
       ''spool segment limit cannot hold its metadata'')
     else
       on_snd (map_fail (sp_io_error ''DBX-RS-SPOOL-FORMAT-0002'' ''segment_sync''
         ''failed to synchronize an open spool segment'') (sys_fsync (e_file e)))))"

text \<open>A local object: created, mutated by a body, and returned.\<close>

definition with_object :: "'o \<Rightarrow> ('o \<times> 's, 'e, unit) op \<Rightarrow> ('s, 'e, 'o) op" where
  "with_object a m = (\<lambda>s. case m (a, s) of (Inl e, (_, t)) \<Rightarrow> (Inl e, t) | (Inr _, (b, t)) \<Rightarrow> (Inr b, t))"

definition start_with_version ::
    "spool_crypto \<Rightarrow> path \<Rightarrow> spool_key \<Rightarrow> bytes \<Rightarrow> segment_id \<Rightarrow> segment_header \<Rightarrow> u64 \<Rightarrow> u16
       \<Rightarrow> (host, spool_error, segment_encoder) op" where
  "start_with_version C file key salt sid header limit version =
     (let prefix = encode_prefix (key_id key) salt sid version in
      bnd (lift_res (derive_segment_key C (master key) salt sid)) (\<lambda>k.
      bnd (map_fail (sp_io_error ''DBX-RS-SPOOL-FORMAT-0001'' ''segment_write'' ''failed to write a spool prefix'')
          (sys_write file prefix)) (\<lambda>_.
        with_object (new_encoder file k prefix limit version) (start_header C header))))"

definition start_encoder ::
    "spool_crypto \<Rightarrow> path \<Rightarrow> spool_key \<Rightarrow> bytes \<Rightarrow> segment_id \<Rightarrow> segment_header \<Rightarrow> u64
       \<Rightarrow> (host, spool_error, segment_encoder) op" where
  "start_encoder C file key salt sid header limit =
     start_with_version C file key salt sid header limit FORMAT_VERSION"

section \<open>Appending and finishing\<close>

definition event_overflow :: spool_error where
  "event_overflow = sp_error ''DBX-RS-SPOOL-LIMIT-0003'' ''event_append'' ''spool event length overflowed''"

definition plaintext_count_overflow :: spool_error where
  "plaintext_count_overflow = sp_error ''DBX-RS-SPOOL-LIMIT-0006'' ''event_append''
     ''spool plaintext byte count overflowed''"

text \<open>The checks before anything is written; they yield the next counters.\<close>

definition check_event :: "segment_encoder \<Rightarrow> bytes \<Rightarrow> spool_error + (u64 \<times> u64 \<times> u64)" where
  "check_event e event =
     (if event = []
      then Err (sp_error ''DBX-RS-SPOOL-FORMAT-0003'' ''event_append'' ''spool events cannot be empty'')
      else
        bindr (encoded_frame_bytes (length event + 1)) (\<lambda>frame_bytes.
        bindr (ok_or event_overflow (Option.bind (checked_add (e_position e) frame_bytes) (\<lambda>position.
            checked_add position (terminal_frame_bytes (e_version e))))) (\<lambda>required.
        if required > e_limit e
        then Err (sp_error ''DBX-RS-SPOOL-LIMIT-0004'' ''event_append'' ''spool segment limit would be exceeded'')
        else
          bindr (ok_or (sp_error ''DBX-RS-SPOOL-LIMIT-0005'' ''event_append'' ''spool event count overflowed'')
              (checked_add (e_event_count e) 1)) (\<lambda>next_event_count.
          bindr (ok_or plaintext_count_overflow (u64_of_len (length event))) (\<lambda>event_bytes.
          bindr (ok_or plaintext_count_overflow (checked_add (e_plaintext e) event_bytes)) (\<lambda>next_plaintext.
            Ok (next_event_count, event_bytes, next_plaintext)))))))"

definition count_event :: "u64 \<Rightarrow> u64 \<Rightarrow> u64 \<Rightarrow> bytes \<Rightarrow> segment_encoder \<Rightarrow> segment_encoder" where
  "count_event next_event_count event_bytes next_plaintext event e =
     e\<lparr>e_event_count := next_event_count, e_plaintext := next_plaintext,
       e_digest := e_digest e @ be_bytes 8 event_bytes @ event\<rparr>"

definition append_event :: "spool_crypto \<Rightarrow> bytes \<Rightarrow> unit encoding" where
  "append_event C event =
     bnd get_fst (\<lambda>e.
     bnd (lift_res (check_event e event)) (\<lambda>(next_event_count, event_bytes, next_plaintext).
     bnd (write_typed_frame C FRAME_EVENT event True) (\<lambda>_.
     bnd get_fst (\<lambda>e.
       put_fst (count_event next_event_count event_bytes next_plaintext event e)))))"

definition encoder_summary :: "spool_crypto \<Rightarrow> segment_encoder \<Rightarrow> segment_summary" where
  "encoder_summary C e =
     \<lparr>sum_events = e_event_count e, sum_plaintext = e_plaintext e, sum_digest = sha256 C (e_digest e)\<rparr>"

definition finish_inner :: "spool_crypto \<Rightarrow> bytes option \<Rightarrow> (segment_summary \<times> u64) encoding" where
  "finish_inner C recovery_metadata =
     bnd get_fst (\<lambda>e.
     let summary = encoder_summary C e in
     bnd (case recovery_metadata of
            Some meta \<Rightarrow>
              if e_version e = FORMAT_VERSION then write_typed_frame C FRAME_RECOVERY_METADATA meta False
              else throw invalid_version
          | None \<Rightarrow> if e_version e = LEGACY_FORMAT_VERSION then ret () else throw invalid_version) (\<lambda>_.
     bnd (write_typed_frame C FRAME_FOOTER (encode_footer summary) False) (\<lambda>_.
     bnd (on_snd (map_fail (sp_io_error ''DBX-RS-SPOOL-FORMAT-0004'' ''segment_sync''
         ''failed to synchronize a sealed spool segment'') (sys_fsync (e_file e)))) (\<lambda>_.
     bnd get_fst (\<lambda>e.
       ret (summary, e_position e))))))"

definition finish :: "spool_crypto \<Rightarrow> bytes \<Rightarrow> (segment_summary \<times> u64) encoding" where
  "finish C recovery_metadata = finish_inner C (Some recovery_metadata)"

section \<open>What a written frame adds\<close>

lemma u32_of_len_Some: "u32_of_len n = Some w \<longleftrightarrow> n < 2 ^ 32 \<and> w = of_nat n"
  by (auto simp: u32_of_len_def)

lemma hoare_append:
  "hoare (holds (L(q \<mapsto> File c m)) D) (sys_write q bs) (\<lambda>_. holds (L(q \<mapsto> File (c @ bs) m)) D)
     (\<lambda>_ h. \<exists>x. holds (L(q \<mapsto> File x m)) D h)"
  using hoare_sys_write [of "L(q \<mapsto> File c m)" q c m D bs] by simp

lemma hoare_write_frame_bytes:
  "hoare (holds (L(q \<mapsto> File c m)) D) (write_frame_bytes q len seq ct)
     (\<lambda>_. holds (L(q \<mapsto> File (c @ be_bytes 4 len @ be_bytes 8 seq @ ct) m)) D)
     (\<lambda>_ h. \<exists>x. holds (L(q \<mapsto> File x m)) D h)"
  using hoare_append [of L q "c @ be_bytes 4 len" m D "be_bytes 8 seq"]
    hoare_append [of L q "c @ be_bytes 4 len @ be_bytes 8 seq" m D ct]
  unfolding write_frame_bytes_def
  by (intro hoare_bnd [OF hoare_append] hoare_bnd [where R = "\<lambda>_. holds (L(q \<mapsto> File (c @ be_bytes 4 len @ be_bytes 8 seq) m)) D"])
    (simp_all del: be_bytes_numeral)

text \<open>The file of an encoder, with any content.\<close>

definition torn :: "(path \<Rightarrow> node option) \<Rightarrow> path set \<Rightarrow> path \<Rightarrow> u32 \<Rightarrow> segment_encoder \<times> host \<Rightarrow> bool" where
  "torn L D q m s \<longleftrightarrow> e_file (fst s) = q \<and> (\<exists>x. holds (L(q \<mapsto> File x m)) D (snd s))"

lemma tornI: "e_file e = q \<Longrightarrow> holds (L(q \<mapsto> File x m)) D h \<Longrightarrow> torn L D q m (e, h)"
  by (auto simp: torn_def)

definition frame_written :: "segment_encoder \<Rightarrow> nat \<Rightarrow> segment_encoder" where
  "frame_written e n = e\<lparr>e_position := e_position e + of_nat n, e_next_sequence := e_next_sequence e + 1\<rparr>"

lemma frame_written_simps [simp]:
  "e_file (frame_written e n) = e_file e" "e_key (frame_written e n) = e_key e"
  "e_prefix (frame_written e n) = e_prefix e" "e_limit (frame_written e n) = e_limit e"
  "e_event_count (frame_written e n) = e_event_count e" "e_plaintext (frame_written e n) = e_plaintext e"
  "e_digest (frame_written e n) = e_digest e" "e_version (frame_written e n) = e_version e"
  "e_position (frame_written e n) = e_position e + of_nat n"
  "e_next_sequence (frame_written e n) = e_next_sequence e + 1"
  by (simp_all add: frame_written_def)

lemma count_event_simps [simp]:
  "e_file (count_event n b p x e) = e_file e" "e_key (count_event n b p x e) = e_key e"
  "e_prefix (count_event n b p x e) = e_prefix e" "e_limit (count_event n b p x e) = e_limit e"
  "e_version (count_event n b p x e) = e_version e" "e_position (count_event n b p x e) = e_position e"
  "e_next_sequence (count_event n b p x e) = e_next_sequence e" "e_event_count (count_event n b p x e) = n"
  "e_plaintext (count_event n b p x e) = p" "e_digest (count_event n b p x e) = e_digest e @ be_bytes 8 b @ x"
  by (simp_all add: count_event_def del: be_bytes_numeral)

lemma hoare_advance_frame:
  assumes "unat len = n" "e_file e = q"
  shows "hoare (at_fst e (holds (L(q \<mapsto> File c m)) D)) (advance_frame len)
     (\<lambda>_ s. at_fst (frame_written e (n + 12)) (holds (L(q \<mapsto> File c m)) D) s \<and>
        unat (e_position e) + n + 12 < 2 ^ 64 \<and> unat (e_next_sequence e) + 1 < 2 ^ 64)
     (\<lambda>_. torn L D q m)"
proof (rule hoareI)
  fix s a t assume "at_fst e (holds (L(q \<mapsto> File c m)) D) s" "advance_frame len s = (Inr a, t)"
  then obtain h fb pos nx where s: "s = (e, h)" "holds (L(q \<mapsto> File c m)) D h" and
    r: "checked_add 12 (ucast len) = Some fb" "checked_add (e_position e) fb = Some pos"
      "checked_add (e_next_sequence e) 1 = Some nx" "t = (e\<lparr>e_position := pos, e_next_sequence := nx\<rparr>, h)"
    by (cases s) (auto simp: advance_frame_def bnd_eq_Inr FRAME_PREFIX_BYTES_def)
  have fb: "unat fb = n + 12" using unat_checked_add [OF r(1)] assms(1) by (simp add: unat_ucast32)
  then have "fb = of_nat (n + 12)" by (rule unat_eqD)
  with r fb s show "at_fst (frame_written e (n + 12)) (holds (L(q \<mapsto> File c m)) D) t \<and>
      unat (e_position e) + n + 12 < 2 ^ 64 \<and> unat (e_next_sequence e) + 1 < 2 ^ 64"
    by (auto simp: checked_add_Some frame_written_def)
next
  fix s x t assume "at_fst e (holds (L(q \<mapsto> File c m)) D) s" "advance_frame len s = (Inl x, t)"
  then show "torn L D q m t"
    using assms(2) by (cases s) (auto simp: advance_frame_def bnd_eq_Inl torn_def)
qed

lemma hoare_write_typed_frame:
  assumes "cipher_ok C" "e_file e = q"
  shows "hoare (at_fst e (holds (L(q \<mapsto> File c m)) D)) (write_typed_frame C ty p ev)
     (\<lambda>_ s. \<exists>b. frame C (e_key e) (e_prefix e) (e_next_sequence e) (ty # p) = Some b \<and>
        at_fst (frame_written e (length b)) (holds (L(q \<mapsto> File (c @ b) m)) D) s \<and>
        length p + 17 < 2 ^ 32 \<and> unat (e_position e) + length b < 2 ^ 64 \<and> unat (e_next_sequence e) + 1 < 2 ^ 64)
     (\<lambda>_. torn L D q m)" (is "hoare ?P _ ?Q ?E")
  unfolding write_typed_frame_def Let_def
proof (intro hoare_get_fst hoare_bnd [where R = "\<lambda>len s. ?P s \<and> length p + 17 < 2 ^ 32 \<and> len = of_nat (length p + 17)"])
  show "hoare ?P (lift_res (ok_or (sp_error ''DBX-RS-SPOOL-LIMIT-0007'' ''frame_encode''
      ''spool frame is too large'') (u32_of_len (length (ty # p) + TAG_LEN))))
     (\<lambda>len s. ?P s \<and> length p + 17 < 2 ^ 32 \<and> len = of_nat (length p + 17)) ?E"
  proof (rule hoare_lift_res, goal_cases)
    case (1 s len)
    have "length (ty # p) + TAG_LEN = length p + 17" by (simp add: TAG_LEN_def)
    with 1 show ?case unfolding ok_or_eq_Inr u32_of_len_Some by metis
  next
    case (2 s x)
    then show ?case by (auto simp: at_fst_def torn_def assms(2))
  qed
next
  fix len :: u32
  let ?seq = "e_next_sequence e"
  let ?w = "\<lambda>ct. write_frame_bytes (e_file e) len ?seq ct"
  show "hoare (\<lambda>s. ?P s \<and> length p + 17 < 2 ^ 32 \<and> len = of_nat (length p + 17))
     (bnd (lift_res (ok_or (sp_error ''DBX-RS-SPOOL-CRYPTO-0001'' ''frame_encrypt''
         ''spool frame encryption failed'')
         (seal C (e_key e) (nonce ?seq) (frame_aad (e_prefix e) len ?seq) (ty # p)))) (\<lambda>ct.
       bnd (on_snd (map_fail (sp_io_error ''DBX-RS-SPOOL-FORMAT-0005''
         (if ev then ''event_write'' else ''metadata_write'') ''failed to write an encrypted spool frame'') (?w ct)))
         (\<lambda>_. advance_frame len))) ?Q ?E"
  proof (rule hoare_weaken [where P = "\<lambda>s. (length p + 17 < 2 ^ 32 \<and> len = of_nat (length p + 17)) \<and> ?P s"], rule hoare_when,
      rule hoare_bnd [where R = "\<lambda>ct s. seal C (e_key e) (nonce ?seq) (frame_aad (e_prefix e) len ?seq) (ty # p) = Some ct \<and> ?P s"])
    show "hoare ?P (lift_res (ok_or x (seal C (e_key e) (nonce ?seq) (frame_aad (e_prefix e) len ?seq) (ty # p))))
       (\<lambda>ct s. seal C (e_key e) (nonce ?seq) (frame_aad (e_prefix e) len ?seq) (ty # p) = Some ct \<and> ?P s) ?E" for x
      by (rule hoare_lift_res) (auto simp: at_fst_def torn_def assms(2))
    fix ct assume len: "length p + 17 < 2 ^ 32 \<and> len = of_nat (length p + 17)"
    have ulen: "unat len = length p + 17" using len unat_of_nat_small [of "length p + 17", where 'a = 32] by simp
    show "hoare (\<lambda>s. seal C (e_key e) (nonce ?seq) (frame_aad (e_prefix e) len ?seq) (ty # p) = Some ct \<and> ?P s)
      (bnd (on_snd (map_fail x (?w ct))) (\<lambda>_. advance_frame len)) ?Q ?E" for x
    proof (rule hoare_when)
      assume sl: "seal C (e_key e) (nonce ?seq) (frame_aad (e_prefix e) len ?seq) (ty # p) = Some ct"
      define b where "b = be_bytes 4 len @ be_bytes 8 ?seq @ ct"
      have b: "frame C (e_key e) (e_prefix e) ?seq (ty # p) = Some b"
        unfolding frame_Some b_def using sl len
        by (intro exI [of _ ct]) (simp add: add.commute del: be_bytes_numeral)
      have lb: "length b = length p + 17 + 12" using frame_length [OF assms(1) b] by simp
      have w: "hoare ?P (on_snd (map_fail x (?w ct))) (\<lambda>_. at_fst e (holds (L(q \<mapsto> File (c @ b) m)) D)) ?E"
        unfolding b_def
        by (rule hoare_weaken [OF hoare_on_snd [OF hoare_map_fail_const
              [OF hoare_write_frame_bytes [of L q c m D len ?seq ct, folded assms(2)]]]])
          (auto simp: at_fst_def torn_def assms(2) simp del: be_bytes_numeral)
      show "hoare ?P (bnd (on_snd (map_fail x (?w ct))) (\<lambda>_. advance_frame len)) ?Q ?E"
        by (rule hoare_bnd [OF w], rule hoare_weaken [OF hoare_advance_frame [OF ulen assms(2), of L "c @ b" m D]])
          (use b lb len in simp_all)
    qed
  qed auto
qed

section \<open>A segment being written\<close>

text \<open>
  The encoder after some events: the file is the prefix, the header frame and one frame per event, and
  the counters describe it; the space for the closing frames is still free.
\<close>

definition writing ::
    "spool_crypto \<Rightarrow> spool_key \<Rightarrow> bytes \<Rightarrow> segment_id \<Rightarrow> u64 \<Rightarrow> segment_header \<Rightarrow> bytes list
       \<Rightarrow> segment_encoder \<Rightarrow> bytes \<Rightarrow> bool" where
  "writing C key salt sid limit h es e c \<longleftrightarrow>
     e_limit e = limit \<and> e_version e = FORMAT_VERSION \<and>
     e_prefix e = encode_prefix (key_id key) salt sid FORMAT_VERSION \<and>
     derive_segment_key C (master key) salt sid = Inr (e_key e) \<and>
     (\<exists>b. frames C (e_key e) (e_prefix e) 0 ((FRAME_HEADER # encode_header h) # map ((#) FRAME_EVENT) es) = Some b \<and>
        c = e_prefix e @ b) \<and>
     e_next_sequence e = of_nat (1 + length es) \<and> unat (e_position e) = length c \<and>
     length c + 234 \<le> unat limit \<and> e_event_count e = of_nat (length es) \<and>
     e_plaintext e = of_nat (length (concat es)) \<and> e_digest e = event_stream es \<and>
     (\<forall>x \<in> set es. event_fits limit FORMAT_VERSION x)"

definition writer_at ::
    "spool_crypto \<Rightarrow> spool_key \<Rightarrow> bytes \<Rightarrow> segment_id \<Rightarrow> u64 \<Rightarrow> segment_header
       \<Rightarrow> (path \<Rightarrow> node option) \<Rightarrow> path set \<Rightarrow> path \<Rightarrow> u32 \<Rightarrow> bytes list \<Rightarrow> segment_encoder \<times> host \<Rightarrow> bool" where
  "writer_at C key salt sid limit h L D q m es s \<longleftrightarrow>
     (\<exists>c. writing C key salt sid limit h es (fst s) c \<and> e_file (fst s) = q \<and> holds (L(q \<mapsto> File c m)) D (snd s))"

lemma writer_at_torn: "writer_at C key salt sid limit h L D q m es s \<Longrightarrow> torn L D q m s"
  by (auto simp: writer_at_def torn_def)

lemma hoare_ex: "(\<And>x. hoare (P x) m Q E) \<Longrightarrow> hoare (\<lambda>s. \<exists>x. P x s) m Q E"
  by (rule hoareI) (auto dest: hoare_Inr hoare_Inl)

lemma hoare_with_object:
  "hoare (at_fst a P) m (\<lambda>_ s. Q (fst s) (snd s)) (\<lambda>e s. E e (snd s)) \<Longrightarrow> hoare P (with_object a m) Q E"
  by (auto simp: hoare_def with_object_def at_fst_def split: prod.splits sum.splits)

lemma plaintext_length: "x \<in> set es \<Longrightarrow> length x \<le> length (concat es)"
  by (induction es) auto

text \<open>One frame more at the end of a run of frames.\<close>

lemma frames_snoc:
  assumes "frames C k p 0 pts = Some b" "frame C k p (of_nat (length pts)) pt = Some x"
  shows "frames C k p 0 (pts @ [pt]) = Some (b @ x)"
  using assms by (simp add: frames_append)

text \<open>Synchronising the file of an encoder leaves everything.\<close>

lemma hoare_sync_encoder:
  assumes "e_file e = q" "\<And>s. at_fst e (holds (L(q \<mapsto> File c m)) D) s \<Longrightarrow> Q () s"
  shows "hoare (at_fst e (holds (L(q \<mapsto> File c m)) D)) (on_snd (map_fail x (sys_fsync q'))) Q (\<lambda>_. torn L D q m)"
  by (rule hoare_weaken [OF hoare_on_snd [OF hoare_map_fail_const [OF hoare_sys_fsync]]])
    (use assms in \<open>auto simp: at_fst_def torn_def\<close>)

lemma hoare_start_header:
  assumes "cipher_ok C" "header_sized h" "prefix_sized (key_id key) salt sid FORMAT_VERSION"
    and "derive_segment_key C (master key) salt sid = Inr k"
    and "p = encode_prefix (key_id key) salt sid FORMAT_VERSION"
  shows "hoare (at_fst (new_encoder q k p limit FORMAT_VERSION) (holds (L(q \<mapsto> File p m)) D)) (start_header C h)
     (\<lambda>_. writer_at C key salt sid limit h L D q m []) (\<lambda>_. torn L D q m)"
proof -
  define e where "e = new_encoder q k p limit FORMAT_VERSION"
  have e: "e_file e = q" "e_prefix e = p" "e_key e = k" "e_next_sequence e = 0" "e_position e = 74"
    "e_limit e = limit" "e_version e = FORMAT_VERSION" "e_event_count e = 0" "e_plaintext e = 0" "e_digest e = []"
    by (simp_all add: e_def new_encoder_def PREFIX_BYTES_def)
  have lp: "length p = 74" using assms(3,5) by simp
  have lh: "length (FRAME_HEADER # encode_header h) = 113" using assms(2) by simp
  have "hoare (at_fst (frame_written e (length b)) (holds (L(q \<mapsto> File (p @ b) m)) D))
      (bnd get_fst (\<lambda>e. if terminal_exceeds e then throw x else on_snd (map_fail y (sys_fsync (e_file e)))))
      (\<lambda>_. writer_at C key salt sid limit h L D q m []) (\<lambda>_. torn L D q m)"
    if b: "frame C (e_key e) (e_prefix e) (e_next_sequence e) (FRAME_HEADER # encode_header h) = Some b" for b x y
  proof (rule hoare_get_fst, rule hoare_if, rule hoare_throw)
    fix s assume "at_fst (frame_written e (length b)) (holds (L(q \<mapsto> File (p @ b) m)) D) s"
    then show "torn L D q m s" by (auto simp: at_fst_def torn_def e)
  next
    assume fits: "\<not> terminal_exceeds (frame_written e (length b))"
    have lb: "length b = 141" using frame_length [OF assms(1) b] lh by simp
    have "234 + 215 \<le> unat limit"
      using fits by (simp add: terminal_exceeds_def e lb terminal_frame_bytes_simps checked_add_def word_le_nat_alt not_less)
    then have w: "writing C key salt sid limit h [] (frame_written e (length b)) (p @ b)"
      using b assms(4,5) length_encode_prefix [OF assms(3)] by (simp add: writing_def e lb)
    show "hoare (at_fst (frame_written e (length b)) (holds (L(q \<mapsto> File (p @ b) m)) D))
        (on_snd (map_fail y (sys_fsync (e_file (frame_written e (length b))))))
        (\<lambda>_. writer_at C key salt sid limit h L D q m []) (\<lambda>_. torn L D q m)"
      by (rule hoare_sync_encoder) (use w e in \<open>auto simp: writer_at_def at_fst_def\<close>)
  qed
  note rest = this
  show ?thesis
    unfolding start_header_def e_def [symmetric]
    by (rule hoare_bnd [OF hoare_write_typed_frame [OF assms(1) e(1)]], rule hoare_ex, rule hoare_when,
        rule hoare_weaken [OF rest]) auto
qed

lemma hoare_start:
  assumes "cipher_ok C" "header_sized h" "prefix_sized (key_id key) salt sid FORMAT_VERSION"
  shows "hoare (holds (L(q \<mapsto> File [] m)) D) (start_encoder C q key salt sid h limit)
     (\<lambda>e t. writer_at C key salt sid limit h L D q m [] (e, t)) (\<lambda>_ t. \<exists>x. holds (L(q \<mapsto> File x m)) D t)"
  unfolding start_encoder_def start_with_version_def Let_def
proof (rule hoare_bnd [where R = "\<lambda>k s. derive_segment_key C (master key) salt sid = Inr k \<and> holds (L(q \<mapsto> File [] m)) D s"])
  show "hoare (holds (L(q \<mapsto> File [] m)) D) (lift_res (derive_segment_key C (master key) salt sid))
     (\<lambda>k s. derive_segment_key C (master key) salt sid = Inr k \<and> holds (L(q \<mapsto> File [] m)) D s)
     (\<lambda>_ t. \<exists>x. holds (L(q \<mapsto> File x m)) D t)"
    by (rule hoare_lift_res) auto
next
  let ?p = "encode_prefix (key_id key) salt sid FORMAT_VERSION"
  fix k
  show "hoare (\<lambda>s. derive_segment_key C (master key) salt sid = Inr k \<and> holds (L(q \<mapsto> File [] m)) D s)
     (bnd (map_fail x (sys_write q ?p)) (\<lambda>_. with_object (new_encoder q k ?p limit FORMAT_VERSION) (start_header C h)))
     (\<lambda>e t. writer_at C key salt sid limit h L D q m [] (e, t)) (\<lambda>_ t. \<exists>x. holds (L(q \<mapsto> File x m)) D t)" for x
  proof (rule hoare_when)
    assume k: "derive_segment_key C (master key) salt sid = Inr k"
    have start: "hoare (holds (L(q \<mapsto> File ?p m)) D)
      (with_object (new_encoder q k ?p limit FORMAT_VERSION) (start_header C h))
      (\<lambda>e t. writer_at C key salt sid limit h L D q m [] (e, t)) (\<lambda>_ t. \<exists>x. holds (L(q \<mapsto> File x m)) D t)"
      by (rule hoare_with_object, rule hoare_weaken [OF hoare_start_header [OF assms k refl]])
        (auto simp: torn_def)
    show "hoare (holds (L(q \<mapsto> File [] m)) D)
      (bnd (map_fail x (sys_write q ?p)) (\<lambda>_. with_object (new_encoder q k ?p limit FORMAT_VERSION) (start_header C h)))
      (\<lambda>e t. writer_at C key salt sid limit h L D q m [] (e, t)) (\<lambda>_ t. \<exists>x. holds (L(q \<mapsto> File x m)) D t)"
      by (rule hoare_bnd [OF hoare_map_fail_const [OF hoare_append [of L q "[]" m D ?p, simplified]]]) (rule start)
  qed
qed

lemma encoded_frame_bytes_Ok: "encoded_frame_bytes n = Inr w \<Longrightarrow> n + 28 < 2 ^ 64 \<and> w = of_nat (n + 28)"
proof -
  assume "encoded_frame_bytes n = Inr w"
  then obtain v where v: "u64_of_len (n + 16) = Some v" "checked_add 12 v = Some w"
    by (auto simp: encoded_frame_bytes_def TAG_LEN_def FRAME_PREFIX_BYTES_def)
  from unat_u64_of_len [OF v(1)] unat_checked_add [OF v(2)] u64_bound [of w] have "unat w = n + 28" "n + 28 < 2 ^ 64"
    by simp_all
  then show ?thesis by (auto dest: unat_eqD)
qed

lemma check_event_Ok:
  assumes "check_event e x = Inr (n, b, p)" "e_version e = FORMAT_VERSION"
  shows "x \<noteq> []" "unat (e_position e) + length x + 263 \<le> unat (e_limit e)" "n = e_event_count e + 1"
    "b = of_nat (length x)" "p = e_plaintext e + of_nat (length x)"
proof -
  from assms obtain w r u where c: "x \<noteq> []" "encoded_frame_bytes (Suc (length x)) = Inr w"
    "checked_add (e_position e) w = Some u" "checked_add u 234 = Some r" "r \<le> e_limit e"
    "checked_add (e_event_count e) 1 = Some n"
    "u64_of_len (length x) = Some b" "checked_add (e_plaintext e) b = Some p"
    by (clarsimp simp: check_event_def terminal_frame_bytes_simps bind_eq_Some_conv not_less split: if_split_asm)
  note w = encoded_frame_bytes_Ok [OF c(2)]
  have "unat w = Suc (length x) + 28"
    unfolding conjunct2 [OF w] by (rule unat_of_nat_small) (use conjunct1 [OF w] in simp)
  with unat_checked_add [OF c(3)] unat_checked_add [OF c(4)] c(5)
  show "unat (e_position e) + length x + 263 \<le> unat (e_limit e)" by (simp add: word_le_nat_alt)
  from unat_u64_of_len [OF c(7)] have b: "b = of_nat (length x)" by (rule unat_eqD)
  with c show "x \<noteq> []" "n = e_event_count e + 1" "b = of_nat (length x)" "p = e_plaintext e + of_nat (length x)"
    by (simp_all add: checked_add_Some)
qed

text \<open>The next event is written behind the others.\<close>

lemma writing_position:
  assumes "cipher_ok C" "writing C key salt sid limit h es e c" "header_sized h"
    "prefix_sized (key_id key) salt sid FORMAT_VERSION"
  shows "215 \<le> length c"
proof -
  obtain b where "frames C (e_key e) (e_prefix e) 0 ((FRAME_HEADER # encode_header h) # map ((#) FRAME_EVENT) es) = Some b"
    "c = e_prefix e @ b" "e_prefix e = encode_prefix (key_id key) salt sid FORMAT_VERSION"
    using assms(2) by (auto simp: writing_def simp del: frames.simps)
  with frames_length [OF assms(1), of "e_key e" "e_prefix e" 0] assms(3,4) show ?thesis
    by (simp del: frames.simps)
qed

lemma writing_event:
  assumes "cipher_ok C" "writing C key salt sid limit h es e c" "header_sized h"
    "prefix_sized (key_id key) salt sid FORMAT_VERSION"
    and "frame C (e_key e) (e_prefix e) (e_next_sequence e) (FRAME_EVENT # x) = Some b"
    and "x \<noteq> []" "length c + length x + 263 \<le> unat limit" "length x + 17 < 2 ^ 32" "length c + length b < 2 ^ 64"
  shows "writing C key salt sid limit h (es @ [x])
    (count_event (e_event_count e + 1) (of_nat (length x)) (e_plaintext e + of_nat (length x)) x
      (frame_written e (length b))) (c @ b)"
proof -
  let ?pts = "(FRAME_HEADER # encode_header h) # map ((#) FRAME_EVENT) es"
  note len = frame_length [OF assms(1,5)]
  from assms(2) obtain a where a: "frames C (e_key e) (e_prefix e) 0 ?pts = Some a" "c = e_prefix e @ a"
      "e_next_sequence e = of_nat (length ?pts)" "unat (e_position e) = length c"
    by (auto simp: writing_def simp del: frames.simps)
  have fr: "frames C (e_key e) (e_prefix e) 0 (?pts @ [FRAME_EVENT # x]) = Some (a @ b)"
    by (rule frames_snoc) (use a assms(5) in simp_all)
  have pos: "unat (e_position e + of_nat (length b)) = length c + length b"
    using unat_of_nat_small [of "length c + length b", where 'a = 64] assms(9) a(4) unat_eqD [OF a(4)] by simp
  have fits: "event_fits limit FORMAT_VERSION x"
    using assms(6-8) writing_position [OF assms(1-4)] by (simp add: event_fits_def maximum_ciphertext_v2)
  let ?e = "count_event (e_event_count e + 1) (of_nat (length x)) (e_plaintext e + of_nat (length x)) x
      (frame_written e (length b))"
  show ?thesis
    unfolding writing_def
  proof (intro conjI)
    show "\<exists>b'. frames C (e_key ?e) (e_prefix ?e) 0 ((FRAME_HEADER # encode_header h) # map ((#) FRAME_EVENT) (es @ [x])) =
        Some b' \<and> c @ b = e_prefix ?e @ b'"
      using fr a(2) by (intro exI [of _ "a @ b"]) simp
  qed (use assms(2,7) pos len fits in \<open>simp_all add: writing_def add.commute del: be_bytes_numeral frames.simps\<close>)
qed

lemma hoare_append_event:
  assumes "cipher_ok C" "header_sized h" "prefix_sized (key_id key) salt sid FORMAT_VERSION"
  shows "hoare (writer_at C key salt sid limit h L D q m es) (append_event C x)
     (\<lambda>_. writer_at C key salt sid limit h L D q m (es @ [x])) (\<lambda>_. torn L D q m)"
proof -
  have "hoare (\<lambda>s. (writing C key salt sid limit h es e c \<and> e_file e = q) \<and> at_fst e (holds (L(q \<mapsto> File c m)) D) s)
      (append_event C x)
      (\<lambda>_. writer_at C key salt sid limit h L D q m (es @ [x])) (\<lambda>_. torn L D q m)" for e c
  proof (rule hoare_when, elim conjE)
    assume w: "writing C key salt sid limit h es e c" and q: "e_file e = q"
    have v: "e_version e = FORMAT_VERSION" "e_limit e = limit" "unat (e_position e) = length c"
      using w by (simp_all add: writing_def)
    let ?P = "at_fst e (holds (L(q \<mapsto> File c m)) D)"
    have check: "hoare ?P (lift_res (check_event e x))
        (\<lambda>r s. (check_event e x = Inr r) \<and> ?P s) (\<lambda>_. torn L D q m)"
      by (rule hoare_lift_res) (use q in \<open>auto simp: at_fst_def torn_def\<close>)
    have rest: "hoare ?P (bnd (write_typed_frame C FRAME_EVENT x True) (\<lambda>_. bnd get_fst (\<lambda>e. put_fst (count_event n b p x e))))
        (\<lambda>_. writer_at C key salt sid limit h L D q m (es @ [x])) (\<lambda>_. torn L D q m)"
      if r: "check_event e x = Inr (n, b, p)" for n b p
    proof (rule hoare_bnd [OF hoare_write_typed_frame [OF assms(1) q]], rule hoare_ex, rule hoare_when)
      note ok = check_event_Ok [OF r v(1)]
      fix f assume f: "frame C (e_key e) (e_prefix e) (e_next_sequence e) (FRAME_EVENT # x) = Some f"
      have "writing C key salt sid limit h (es @ [x]) (count_event n b p x (frame_written e (length f))) (c @ f)"
        if "length x + 17 < 2 ^ 32" "unat (e_position e) + length f < 2 ^ 64"
        unfolding ok(3-5) by (rule writing_event [OF assms(1) w assms(2,3) f ok(1)]) (use ok(2) v that in simp_all)
      then show "hoare (\<lambda>s. at_fst (frame_written e (length f)) (holds (L(q \<mapsto> File (c @ f) m)) D) s \<and>
            length x + 17 < 2 ^ 32 \<and> unat (e_position e) + length f < 2 ^ 64 \<and> unat (e_next_sequence e) + 1 < 2 ^ 64)
          (bnd get_fst (\<lambda>e. put_fst (count_event n b p x e)))
          (\<lambda>_. writer_at C key salt sid limit h L D q m (es @ [x])) (\<lambda>_. torn L D q m)"
        using q by (auto simp: hoare_def bnd_def at_fst_def writer_at_def)
    qed
    show "hoare ?P (append_event C x)
        (\<lambda>_. writer_at C key salt sid limit h L D q m (es @ [x])) (\<lambda>_. torn L D q m)"
      unfolding append_event_def
      by (rule hoare_get_fst, rule hoare_bnd [OF check], rule hoare_when) (auto intro: rest)
  qed
  then show ?thesis
    by (rule hoare_weaken [OF hoare_ex [OF hoare_ex]]) (auto simp: writer_at_def at_fst_def)
qed

section \<open>Finishing\<close>

definition sealed_at ::
    "spool_crypto \<Rightarrow> spool_key \<Rightarrow> bytes \<Rightarrow> segment_id \<Rightarrow> u64 \<Rightarrow> segment_header
       \<Rightarrow> (path \<Rightarrow> node option) \<Rightarrow> path set \<Rightarrow> path \<Rightarrow> u32 \<Rightarrow> bytes list \<Rightarrow> bytes
       \<Rightarrow> segment_summary \<times> u64 \<Rightarrow> host \<Rightarrow> bool" where
  "sealed_at C key salt sid limit h L D q m es meta r t \<longleftrightarrow>
     (\<exists>c. segment_image C key salt sid FORMAT_VERSION h es meta = Some c \<and> fst r = summary_of C es \<and>
        unat (snd r) = length c \<and> length c \<le> unat limit \<and> holds (L(q \<mapsto> File c m)) D t) \<and>
     (\<forall>x \<in> set es. event_fits limit FORMAT_VERSION x)"

lemma hoare_finish:
  assumes "cipher_ok C" "length meta \<le> MAX_RECOVERY_METADATA_BYTES"
  shows "hoare (writer_at C key salt sid limit h L D q m es) (finish C meta)
     (\<lambda>r s. sealed_at C key salt sid limit h L D q m es meta r (snd s)) (\<lambda>_. torn L D q m)"
proof -
  have "hoare (\<lambda>s. (writing C key salt sid limit h es e c \<and> e_file e = q) \<and> at_fst e (holds (L(q \<mapsto> File c m)) D) s)
      (finish C meta) (\<lambda>r s. sealed_at C key salt sid limit h L D q m es meta r (snd s)) (\<lambda>_. torn L D q m)" for e c
  proof (rule hoare_when, elim conjE)
    assume w: "writing C key salt sid limit h es e c" and q: "e_file e = q"
    let ?pts = "(FRAME_HEADER # encode_header h) # map ((#) FRAME_EVENT) es"
    have sm: "encoder_summary C e = summary_of C es"
      using w by (simp add: encoder_summary_def writing_def summary_of_def)
    have fsz: "length (encode_footer (summary_of C es)) = 48"
      using assms(1) by (simp add: summary_sized_def summary_of_def)
    from w obtain a where a: "frames C (e_key e) (e_prefix e) 0 ?pts = Some a" "c = e_prefix e @ a"
        "e_next_sequence e = of_nat (length ?pts)" "unat (e_position e) = length c" "e_version e = FORMAT_VERSION"
        "length c + 234 \<le> unat limit" "derive_segment_key C (master key) salt sid = Inr (e_key e)"
        "e_prefix e = encode_prefix (key_id key) salt sid FORMAT_VERSION" "\<forall>x \<in> set es. event_fits limit FORMAT_VERSION x"
      by (auto simp: writing_def simp del: frames.simps)
    have sealed: "sealed_at C key salt sid limit h L D q m es meta
          (summary_of C es, e_position (frame_written (frame_written e (length b)) (length f))) t"
      if "frame C (e_key e) (e_prefix e) (e_next_sequence e) (FRAME_RECOVERY_METADATA # meta) = Some b"
        "frame C (e_key e) (e_prefix e) (e_next_sequence e + 1) (FRAME_FOOTER # encode_footer (summary_of C es)) = Some f"
        "holds (L(q \<mapsto> File ((c @ b) @ f) m)) D t" for b f t
    proof -
      have "frames C (e_key e) (e_prefix e) 0 (?pts @ [FRAME_RECOVERY_METADATA # meta]) = Some (a @ b)"
        by (rule frames_snoc) (use a that(1) in simp_all)
      then have "frames C (e_key e) (e_prefix e) 0
          ((?pts @ [FRAME_RECOVERY_METADATA # meta]) @ [FRAME_FOOTER # encode_footer (summary_of C es)]) = Some ((a @ b) @ f)"
        by (rule frames_snoc) (use a that(2) in simp_all)
      then have img: "segment_image C key salt sid FORMAT_VERSION h es meta = Some ((c @ b) @ f)"
        unfolding segment_image_def Let_def a(7) sum.case plaintexts_def closing_def
        using a(2,8) by (simp del: frames.simps)
      have len: "length b \<le> 157" "length f = 77"
        using frame_length [OF assms(1) that(1)] frame_length [OF assms(1) that(2)] fsz assms(2)
        by (simp_all add: MAX_RECOVERY_METADATA_BYTES_def)
      have tot: "length c + length b + length f \<le> unat limit" using len a(6) by simp
      have "e_position e + of_nat (length b) + of_nat (length f) = of_nat (length c + length b + length f)"
        using unat_eqD [OF a(4)] by simp
      then have "unat (e_position e + of_nat (length b) + of_nat (length f)) = length c + length b + length f"
        using unat_of_nat_small [of "length c + length b + length f", where 'a = 64] tot u64_bound [of limit] by simp
      with img tot that(3) a(9) show ?thesis by (simp add: sealed_at_def)
    qed
    show "hoare (at_fst e (holds (L(q \<mapsto> File c m)) D)) (finish C meta)
        (\<lambda>r s. sealed_at C key salt sid limit h L D q m es meta r (snd s)) (\<lambda>_. torn L D q m)"
      unfolding finish_def finish_inner_def
    proof (rule hoare_get_fst, unfold Let_def option.case sm a(5) if_P [OF refl],
        rule hoare_bnd [OF hoare_write_typed_frame [OF assms(1) q]], rule hoare_ex, rule hoare_when)
      fix b assume b: "frame C (e_key e) (e_prefix e) (e_next_sequence e) (FRAME_RECOVERY_METADATA # meta) = Some b"
      let ?e = "frame_written e (length b)"
      have q': "e_file ?e = q" using q by simp
      show "hoare (\<lambda>s. at_fst ?e (holds (L(q \<mapsto> File (c @ b) m)) D) s \<and>
            length meta + 17 < 2 ^ 32 \<and> unat (e_position e) + length b < 2 ^ 64 \<and> unat (e_next_sequence e) + 1 < 2 ^ 64)
          (bnd (write_typed_frame C FRAME_FOOTER (encode_footer (summary_of C es)) False) (\<lambda>_.
            bnd (on_snd (map_fail x (sys_fsync (e_file e)))) (\<lambda>_. bnd get_fst (\<lambda>e. ret (summary_of C es, e_position e)))))
          (\<lambda>r s. sealed_at C key salt sid limit h L D q m es meta r (snd s)) (\<lambda>_. torn L D q m)" for x
      proof (rule hoare_weaken, rule hoare_bnd [OF hoare_write_typed_frame [OF assms(1) q', of L "c @ b" m D]],
          rule hoare_ex, rule hoare_when)
        fix f assume f: "frame C (e_key ?e) (e_prefix ?e) (e_next_sequence ?e) (FRAME_FOOTER # encode_footer (summary_of C es)) = Some f"
        let ?R = "at_fst (frame_written ?e (length f)) (holds (L(q \<mapsto> File ((c @ b) @ f) m)) D)"
        have sync: "hoare ?R (on_snd (map_fail x (sys_fsync (e_file e)))) (\<lambda>_. ?R) (\<lambda>_. torn L D q m)"
          by (rule hoare_sync_encoder) (use q in simp_all)
        have "hoare ?R (bnd (on_snd (map_fail x (sys_fsync (e_file e)))) (\<lambda>_. bnd get_fst (\<lambda>e. ret (summary_of C es, e_position e))))
          (\<lambda>r s. sealed_at C key salt sid limit h L D q m es meta r (snd s)) (\<lambda>_. torn L D q m)"
          by (rule hoare_bnd [OF sync], rule hoare_get_fst, rule hoare_ret)
            (use sealed [OF b] f in \<open>auto simp: at_fst_def\<close>)
        then show "hoare (\<lambda>s. ?R s \<and> length (encode_footer (summary_of C es)) + 17 < 2 ^ 32 \<and>
            unat (e_position ?e) + length f < 2 ^ 64 \<and> unat (e_next_sequence ?e) + 1 < 2 ^ 64)
          (bnd (on_snd (map_fail x (sys_fsync (e_file e)))) (\<lambda>_. bnd get_fst (\<lambda>e. ret (summary_of C es, e_position e))))
          (\<lambda>r s. sealed_at C key salt sid limit h L D q m es meta r (snd s)) (\<lambda>_. torn L D q m)"
          by (rule hoare_weaken) auto
      qed auto
    qed
  qed
  then show ?thesis
    by (rule hoare_weaken [OF hoare_ex [OF hoare_ex]]) (auto simp: writer_at_def at_fst_def)
qed

end
