(* ===== verification/Spool_Paths.thy ===== *)
theory Spool_Paths
  imports Spool_Writer
begin

text \<open>
  Paths, private files and directories of the spool (the end of \<open>crates/dbx-rs-spool/src/spool.rs\<close>) and
  its master key (\<open>key.rs\<close>), over the host. Every path is checked for symbolic links before it is used.
\<close>

section \<open>Names\<close>

text \<open>
  \<open>file_stem\<close> and \<open>extension\<close> of a file name: split at the last dot, unless it is the first
  character. \<open>with_extension\<close> replaces the part behind it.
\<close>

definition split_name :: "string \<Rightarrow> string \<times> string option" where
  "split_name name =
     (if name = ''..'' then (name, None)
      else
        (case dropWhile (\<lambda>c. c \<noteq> CHR ''.'') (rev name) of
           [] \<Rightarrow> (name, None)
         | _ # before \<Rightarrow>
             if before = [] then (name, None)
             else (rev before, Some (rev (takeWhile (\<lambda>c. c \<noteq> CHR ''.'') (rev name))))))"

definition path_extension :: "path \<Rightarrow> string option" where
  "path_extension p = (if p = [] then None else snd (split_name (last p)))"

definition with_extension :: "path \<Rightarrow> string \<Rightarrow> path" where
  "with_extension p ext =
     (if p = [] then p else butlast p @ [fst (split_name (last p)) @ ''.'' @ ext])"

definition invalid_path :: spool_error where
  "invalid_path = sp_error ''DBX-RS-SPOOL-PATH-0010'' ''path_validate'' ''spool path or name is invalid''"

definition parse_segment_name :: "path \<Rightarrow> spool_error + (segment_id \<times> string)" where
  "parse_segment_name p =
     (if p = [] then Err invalid_path
      else
        (case split_name (last p) of
           (_, None) \<Rightarrow> Err invalid_path
         | (stem, Some ext) \<Rightarrow>
             bindr (ok_or invalid_path (decode_hex 16 stem)) (\<lambda>bs. Ok (SegmentId bs, ext))))"

definition segment_file :: "segment_id \<Rightarrow> string \<Rightarrow> string" where
  "segment_file sid ext = encode_hex (segment_id_bytes sid) @ ''.'' @ ext"

section \<open>Checks\<close>

type_synonym 'a spool_io = "(host, spool_error, 'a) op"

text \<open>\<open>Path::exists\<close>: any error counts as no.\<close>

definition path_exists :: "path \<Rightarrow> (host, 'e, bool) op" where
  "path_exists p h = (case sys_stat p h of (r, t) \<Rightarrow> (Ok (is_ok r), t))"

fun reject_spool_links :: "path list \<Rightarrow> unit spool_io" where
  "reject_spool_links [] = ret ()"
| "reject_spool_links (a # as) =
     bnd (attempt (sys_lstat a)) (\<lambda>r.
       case r of
         Inr n \<Rightarrow>
           if is_symlink n
           then throw (sp_error ''DBX-RS-SPOOL-PATH-0003'' ''path_validate'' ''spool path contains a symbolic link'')
           else reject_spool_links as
       | Inl e \<Rightarrow>
           if e = NotFound then reject_spool_links as
           else throw (sp_io_error ''DBX-RS-SPOOL-PATH-0002'' ''path_validate'' ''failed to inspect a spool path'' e))"

definition reject_spool_symlinks :: "path \<Rightarrow> unit spool_io" where
  "reject_spool_symlinks p = reject_spool_links (ancestors p)"

definition validate_directory_mode :: "node \<Rightarrow> spool_error + unit" where
  "validate_directory_mode n =
     (if too_open (node_mode n)
      then Err (sp_error ''DBX-RS-SPOOL-PATH-0012'' ''directory_permissions''
        ''spool directory permissions are too broad'')
      else Ok ())"

definition validate_file_mode :: "node \<Rightarrow> spool_error + unit" where
  "validate_file_mode n =
     (if too_open (node_mode n)
      then Err (sp_error ''DBX-RS-SPOOL-PATH-0013'' ''file_permissions'' ''spool file permissions are too broad'')
      else Ok ())"

definition set_file_mode :: "path \<Rightarrow> unit spool_io" where
  "set_file_mode p =
     map_fail (sp_io_error ''DBX-RS-SPOOL-PATH-0011'' ''file_permissions''
       ''failed to protect spool file permissions'') (sys_chmod p 0x180)"

definition inspect_directory :: "path \<Rightarrow> node spool_io" where
  "inspect_directory p =
     bnd (map_fail (sp_io_error ''DBX-RS-SPOOL-PATH-0002'' ''directory_validate''
         ''failed to inspect a spool directory'') (sys_lstat p)) (\<lambda>n.
     if is_symlink n \<or> \<not> is_dir n
     then throw (sp_error ''DBX-RS-SPOOL-PATH-0003'' ''directory_validate'' ''spool directory has an unsafe type'')
     else ret n)"

definition validate_private_directory :: "path \<Rightarrow> unit spool_io" where
  "validate_private_directory p =
     bnd (reject_spool_symlinks p) (\<lambda>_.
     bnd (inspect_directory p) (\<lambda>n.
       lift_res (validate_directory_mode n)))"

definition ensure_private_directory :: "path \<Rightarrow> unit spool_io" where
  "ensure_private_directory p =
     bnd (reject_spool_symlinks p) (\<lambda>_.
     bnd (path_exists p) (\<lambda>b.
     bnd (if b then bnd (inspect_directory p) (\<lambda>_. ret ()) else ret ()) (\<lambda>_.
     bnd (map_fail from_secure_store (ensure_private_dir p)) (\<lambda>_.
       validate_private_directory p))))"

definition validate_input_directory :: "path \<Rightarrow> input_key spool_io" where
  "validate_input_directory p =
     bnd (validate_private_directory p) (\<lambda>_.
       lift_res (if p = [] then Err invalid_path
         else bindr (ok_or invalid_path (decode_hex 32 (last p))) (\<lambda>bs. Ok (InputKey bs))))"

definition validate_private_file :: "path \<Rightarrow> node spool_io" where
  "validate_private_file p =
     bnd (reject_spool_symlinks p) (\<lambda>_.
     bnd (map_fail (sp_io_error ''DBX-RS-SPOOL-PATH-0001'' ''file_validate'' ''failed to inspect a spool file'')
         (sys_lstat p)) (\<lambda>n.
     if is_symlink n \<or> \<not> is_file n
     then throw (sp_error ''DBX-RS-SPOOL-PATH-0004'' ''file_validate'' ''spool file has an unsafe type'')
     else bnd (lift_res (validate_file_mode n)) (\<lambda>_. ret n)))"

section \<open>Files and directories\<close>

definition open_private_file :: "path \<Rightarrow> path spool_io" where
  "open_private_file p =
     bnd (validate_private_file p) (\<lambda>_.
       map_fail (sp_io_error ''DBX-RS-SPOOL-PATH-0005'' ''file_open'' ''failed to open a spool file'') (sys_open p))"

definition create_private_file :: "path \<Rightarrow> path spool_io" where
  "create_private_file p =
     bnd (reject_spool_symlinks p) (\<lambda>_.
     bnd (map_fail (sp_io_error ''DBX-RS-SPOOL-PATH-0006'' ''file_create'' ''failed to create an open spool file'')
         (sys_create_new p 0x180)) (\<lambda>file.
     bnd (set_file_mode p) (\<lambda>_. ret file)))"

definition read_directory :: "path \<Rightarrow> string \<Rightarrow> string list spool_io" where
  "read_directory p stage =
     bnd (validate_private_directory p) (\<lambda>_.
       map_fail (sp_io_error ''DBX-RS-SPOOL-PATH-0007'' stage ''failed to read a spool directory'') (sys_read_dir p))"

text \<open>One step of the directory iterator, which may fail.\<close>

definition next_entry :: "unit spool_io" where
  "next_entry = map_fail (sp_io_error ''DBX-RS-SPOOL-PATH-0009'' ''directory_read''
     ''failed to inspect a spool directory entry'') (syscall (\<lambda>h. (Ok (), h)))"

definition sync_directory :: "path \<Rightarrow> string \<Rightarrow> unit spool_io" where
  "sync_directory p stage =
     bnd (validate_private_directory p) (\<lambda>_.
       map_fail (sp_io_error ''DBX-RS-SPOOL-PATH-0008'' stage ''failed to synchronize a spool directory'')
         (bnd (sys_open p) sys_fsync))"

definition remove_if_present :: "path \<Rightarrow> unit spool_io" where
  "remove_if_present p =
     bnd (reject_spool_symlinks p) (\<lambda>_.
     handle (sys_remove_file p) (\<lambda>e.
       if e = NotFound then ret ()
       else throw (sp_io_error ''DBX-RS-SPOOL-LIFECYCLE-0007'' ''segment_abort''
         ''failed to remove an open spool segment'' e)))"

section \<open>The master key\<close>

definition KEY_BYTES :: nat where "KEY_BYTES = 32"
definition KEY_ID_BYTES :: nat where "KEY_ID_BYTES = 16"

definition validate_key_permissions :: "path \<Rightarrow> unit spool_io" where
  "validate_key_permissions p =
     bnd (map_fail (sp_io_error ''DBX-RS-SPOOL-KEY-0003'' ''key_permissions'' ''failed to inspect the spool key'')
         (sys_lstat p)) (\<lambda>n.
     if too_open (node_mode n)
     then throw (sp_error ''DBX-RS-SPOOL-KEY-0004'' ''key_permissions'' ''spool key permissions are too broad'')
     else ret ())"

definition load_key :: "path \<Rightarrow> bytes spool_io" where
  "load_key p =
     bnd (validate_key_permissions p) (\<lambda>_.
     bnd (map_fail from_secure_store (read_limited p KEY_BYTES)) (\<lambda>stored.
     if length stored \<noteq> KEY_BYTES
     then throw (sp_error ''DBX-RS-SPOOL-KEY-0002'' ''key_load'' ''stored spool key has an invalid size'')
     else ret stored))"

definition create_key :: "path \<Rightarrow> bytes spool_io" where
  "create_key p =
     bnd (map_fail (\<lambda>_. sp_error ''DBX-RS-SPOOL-KEY-0001'' ''key_create'' ''secure spool key generation failed'')
         (sys_random KEY_BYTES)) (\<lambda>key.
     bnd (attempt (write_new p key 0x180)) (\<lambda>r.
     case r of
       Inr _ \<Rightarrow> ret key
     | Inl e \<Rightarrow> bnd (path_exists p) (\<lambda>b. if b then load_key p else throw (from_secure_store e))))"

definition load_or_create :: "spool_crypto \<Rightarrow> path \<Rightarrow> spool_key spool_io" where
  "load_or_create C p =
     bnd (reject_spool_symlinks p) (\<lambda>_.
     bnd (path_exists p) (\<lambda>b.
     bnd (if b then load_key p else create_key p) (\<lambda>bs.
       ret \<lparr>master = bs, key_id = take KEY_ID_BYTES (sha256 C bs)\<rparr>)))"

end
