(* ===== verification/Spool.thy ===== *)
theory Spool
  imports Spool_Paths "HOL-Library.List_Lexorder" "HOL-Library.Product_Lexorder"
begin

text \<open>
  The spool of \<open>crates/dbx-rs-spool/src/spool.rs\<close>: quota accounting, the writer of one segment from
  reservation to publication, startup recovery, inventories, and the delivered and compacted states. The
  accounting behind the mutex is the first part of the state, the host the second; operations that do
  not use the accounting are operations on the host.
\<close>

section \<open>Accounting\<close>

record accounting =
  acc_stored :: u64
  acc_reserved :: u64
  stored_by_input :: "input_key \<Rightarrow> u64 option"
  reserved_by_input :: "input_key \<Rightarrow> u64 option"

type_synonym 'a accounts = "(accounting, spool_error, 'a) op"

definition no_accounting :: accounting where
  "no_accounting = \<lparr>acc_stored = 0, acc_reserved = 0, stored_by_input = (\<lambda>_. None), reserved_by_input = (\<lambda>_. None)\<rparr>"

definition bytes_of :: "(input_key \<Rightarrow> u64 option) \<Rightarrow> input_key \<Rightarrow> u64" where
  "bytes_of m k = (case m k of None \<Rightarrow> 0 | Some n \<Rightarrow> n)"

definition quota_overflow :: spool_error where
  "quota_overflow = sp_error ''DBX-RS-SPOOL-QUOTA-0003'' ''quota_accounting'' ''spool quota accounting overflowed''"

definition decrement_entry ::
    "(input_key \<Rightarrow> u64 option) \<Rightarrow> input_key \<Rightarrow> u64 \<Rightarrow> (input_key \<Rightarrow> u64 option)" where
  "decrement_entry values key n =
     (case values key of
        None \<Rightarrow> values
      | Some v \<Rightarrow>
          let v' = saturating_sub v n in
          if v' = 0 then values(key := None) else values(key \<mapsto> v'))"

definition charge_reservation :: "u64 \<Rightarrow> input_key \<Rightarrow> unit accounts" where
  "charge_reservation n key acc =
     try_in (ok_or quota_overflow (checked_add (acc_reserved acc) n)) acc (\<lambda>r.
     let reserved = bytes_of (reserved_by_input acc) key;
         acc = acc\<lparr>acc_reserved := r, reserved_by_input := (reserved_by_input acc)(key \<mapsto> reserved)\<rparr> in
     try_in (ok_or quota_overflow (checked_add reserved n)) acc (\<lambda>v.
       (Ok (), acc\<lparr>reserved_by_input := (reserved_by_input acc)(key \<mapsto> v)\<rparr>)))"

definition reserve :: "spool_limits \<Rightarrow> input_key \<Rightarrow> unit accounts" where
  "reserve limits key acc =
     (let n = lim_segment limits;
          input_stored = bytes_of (stored_by_input acc) key;
          input_reserved = bytes_of (reserved_by_input acc) key in
      try_in (ok_or quota_overflow (Option.bind (checked_add input_stored input_reserved) (\<lambda>usage.
          checked_add usage n))) acc (\<lambda>next_input.
      if next_input > lim_input limits
      then (Err (sp_error ''DBX-RS-SPOOL-QUOTA-0001'' ''quota_reserve'' ''input spool quota is full''), acc)
      else
        try_in (ok_or quota_overflow (Option.bind (checked_add (acc_stored acc) (acc_reserved acc)) (\<lambda>usage.
            checked_add usage n))) acc (\<lambda>next_global.
        if next_global > lim_global limits
        then (Err (sp_error ''DBX-RS-SPOOL-QUOTA-0002'' ''quota_reserve'' ''global spool quota is full''), acc)
        else charge_reservation n key acc)))"

definition release_reservation :: "spool_limits \<Rightarrow> input_key \<Rightarrow> (accounting, 'e, unit) op" where
  "release_reservation limits key acc =
     (Ok (), acc\<lparr>acc_reserved := saturating_sub (acc_reserved acc) (lim_segment limits),
        reserved_by_input := decrement_entry (reserved_by_input acc) key (lim_segment limits)\<rparr>)"

definition inconsistent :: "string \<Rightarrow> spool_error" where
  "inconsistent stage = sp_error ''DBX-RS-SPOOL-QUOTA-0005'' stage ''spool reservation accounting is inconsistent''"

definition publish_reservation :: "spool_limits \<Rightarrow> input_key \<Rightarrow> u64 \<Rightarrow> unit accounts" where
  "publish_reservation limits key actual_bytes acc =
     (let reserved_bytes = lim_segment limits in
      if actual_bytes > reserved_bytes
      then (Err (sp_error ''DBX-RS-SPOOL-QUOTA-0004'' ''quota_publish''
        ''sealed spool segment exceeded its reservation''), acc)
      else if acc_reserved acc < reserved_bytes \<or> bytes_of (reserved_by_input acc) key < reserved_bytes
      then (Err (inconsistent ''quota_publish''), acc)
      else
        try_in (ok_or quota_overflow (checked_add (acc_stored acc) actual_bytes)) acc (\<lambda>next_stored.
        try_in (ok_or quota_overflow (checked_add (bytes_of (stored_by_input acc) key) actual_bytes)) acc (\<lambda>next_input.
          (Ok (), acc\<lparr>acc_reserved := acc_reserved acc - reserved_bytes,
             reserved_by_input := decrement_entry (reserved_by_input acc) key reserved_bytes,
             acc_stored := next_stored, stored_by_input := (stored_by_input acc)(key \<mapsto> next_input)\<rparr>))))"

definition remove_stored :: "input_key \<Rightarrow> u64 \<Rightarrow> unit accounts" where
  "remove_stored key n acc =
     (if acc_stored acc < n \<or> bytes_of (stored_by_input acc) key < n
      then (Err (inconsistent ''quota_compact''), acc)
      else (Ok (), acc\<lparr>acc_stored := acc_stored acc - n,
        stored_by_input := decrement_entry (stored_by_input acc) key n\<rparr>))"

definition add_stored :: "input_key \<Rightarrow> u64 \<Rightarrow> unit accounts" where
  "add_stored key n acc =
     try_in (ok_or quota_overflow (checked_add (acc_stored acc) n)) acc (\<lambda>s.
     let input_bytes = bytes_of (stored_by_input acc) key;
         acc = acc\<lparr>acc_stored := s, stored_by_input := (stored_by_input acc)(key \<mapsto> input_bytes)\<rparr> in
     try_in (ok_or quota_overflow (checked_add input_bytes n)) acc (\<lambda>v.
       (Ok (), acc\<lparr>stored_by_input := (stored_by_input acc)(key \<mapsto> v)\<rparr>)))"

section \<open>Segments\<close>

definition SEGMENTS_DIRECTORY :: string where "SEGMENTS_DIRECTORY = ''segments''"
definition QUARANTINE_DIRECTORY :: string where "QUARANTINE_DIRECTORY = ''quarantine''"
definition OPEN_EXTENSION :: string where "OPEN_EXTENSION = ''open''"
definition READY_EXTENSION :: string where "READY_EXTENSION = ''ready''"
definition DELIVERED_EXTENSION :: string where "DELIVERED_EXTENSION = ''delivered''"
definition QUARANTINE_EXTENSION :: string where "QUARANTINE_EXTENSION = ''quarantine''"
definition SEGMENT_ID_ATTEMPTS :: nat where "SEGMENT_ID_ATTEMPTS = 16"
definition REFERENCE_DIGEST_DOMAIN :: bytes where
  "REFERENCE_DIGEST_DOMAIN = ascii ''dbx-rs/spool-segment-reference/v1'' @ [0]"

record spool =
  sp_segments :: path
  sp_key :: spool_key
  sp_limits :: spool_limits
  recovered_open_segments :: u64

record ready_segment =
  rs_path :: path
  rs_header :: segment_header
  rs_id :: segment_id
  rs_summary :: segment_summary
  rs_version :: u16
  rs_metadata :: bytes
  rs_len :: u64

record delivered_segment =
  ds_path :: path
  ds_header :: segment_header
  ds_id :: segment_id
  ds_summary :: segment_summary
  ds_version :: u16
  ds_metadata :: bytes
  ds_len :: u64

definition from_ready :: "ready_segment \<Rightarrow> delivered_segment" where
  "from_ready s = \<lparr>ds_path = rs_path s, ds_header = rs_header s, ds_id = rs_id s, ds_summary = rs_summary s,
     ds_version = rs_version s, ds_metadata = rs_metadata s, ds_len = rs_len s\<rparr>"

definition as_ready :: "delivered_segment \<Rightarrow> ready_segment" where
  "as_ready s = \<lparr>rs_path = ds_path s, rs_header = ds_header s, rs_id = ds_id s, rs_summary = ds_summary s,
     rs_version = ds_version s, rs_metadata = ds_metadata s, rs_len = ds_len s\<rparr>"

definition segment_reference_digest ::
    "spool_crypto \<Rightarrow> u16 \<Rightarrow> segment_id \<Rightarrow> segment_header \<Rightarrow> segment_summary \<Rightarrow> bytes \<Rightarrow> bytes" where
  "segment_reference_digest C version sid h s meta =
     sha256 C (REFERENCE_DIGEST_DOMAIN @ be_bytes 2 version @ segment_id_bytes sid @
       input_key_bytes (hdr_input_key h) @ spool_fingerprint_bytes (hdr_fingerprint h) @
       be_bytes 8 (hdr_generation h) @ batch_id_bytes (hdr_batch_id h) @ be_bytes 8 (hdr_batch_sequence h) @
       be_bytes 8 (hdr_segment_sequence h) @ be_bytes 8 (hdr_created h) @ be_bytes 8 (sum_events s) @
       be_bytes 8 (sum_plaintext s) @ sum_digest s @ be_bytes 8 (of_nat (length meta) :: u64) @ meta)"

definition reference_digest :: "spool_crypto \<Rightarrow> ready_segment \<Rightarrow> bytes" where
  "reference_digest C s =
     segment_reference_digest C (rs_version s) (rs_id s) (rs_header s) (rs_summary s) (rs_metadata s)"

definition delivered_reference_digest :: "spool_crypto \<Rightarrow> delivered_segment \<Rightarrow> bytes" where
  "delivered_reference_digest C s =
     segment_reference_digest C (ds_version s) (ds_id s) (ds_header s) (ds_summary s) (ds_metadata s)"

text \<open>The order of an inventory: identities compare by their bytes.\<close>

definition segment_order :: "ready_segment \<Rightarrow> bytes \<times> u64 \<times> bytes \<times> u64 \<times> bytes" where
  "segment_order s =
     (input_key_bytes (hdr_input_key (rs_header s)), hdr_batch_sequence (rs_header s),
      batch_id_bytes (hdr_batch_id (rs_header s)), hdr_segment_sequence (rs_header s), segment_id_bytes (rs_id s))"

definition spool_input_directory :: "spool \<Rightarrow> input_key \<Rightarrow> path" where
  "spool_input_directory sp key = sp_segments sp @ [encode_hex (input_key_bytes key)]"

definition identity_mismatch :: spool_error where
  "identity_mismatch = sp_error ''DBX-RS-SPOOL-FORMAT-0024'' ''identity_validate''
     ''spool segment identity is inconsistent''"

section \<open>Inspecting a segment\<close>

record inspected_segment =
  ins_header :: segment_header
  ins_id :: segment_id
  ins_summary :: segment_summary
  ins_version :: u16
  ins_metadata :: bytes
  ins_len :: u64

definition read_through :: "spool_crypto \<Rightarrow> u64 \<Rightarrow> segment_decoder \<Rightarrow> spool_error + inspected_segment" where
  "read_through C byte_len decoder =
     (case drain C decoder of
        (Inl e, _) \<Rightarrow> Err e
      | (Inr _, d) \<Rightarrow>
          bindr (ok_or (sp_error ''DBX-RS-SPOOL-FORMAT-0023'' ''footer_validate''
            ''spool segment has no authenticated footer'') (d_summary d)) (\<lambda>summary.
          bindr (ok_or (sp_error ''DBX-RS-SPOOL-FORMAT-0025'' ''recovery_metadata''
            ''spool segment has no recovery metadata'') (d_metadata d)) (\<lambda>meta.
          Ok \<lparr>ins_header = d_header d, ins_id = d_segment_id d, ins_summary = summary,
            ins_version = d_version d, ins_metadata = meta, ins_len = byte_len\<rparr>)))"

definition inspect_segment ::
    "spool_crypto \<Rightarrow> path \<Rightarrow> spool_key \<Rightarrow> u64 \<Rightarrow> inspected_segment spool_io" where
  "inspect_segment C p key limit =
     bnd (open_private_file p) (\<lambda>file.
     bnd (map_fail (sp_io_error ''DBX-RS-SPOOL-PATH-0001'' ''file_inspect'' ''failed to inspect a spool file'')
         (sys_fstat file)) (\<lambda>n.
     bnd (open_decoder C file key limit) (\<lambda>decoder.
       lift_res (read_through C (of_nat (node_len n)) decoder))))"

section \<open>Startup\<close>

text \<open>The entries of one input directory, then the input directories.\<close>

definition quarantine_one :: "path \<Rightarrow> path \<Rightarrow> input_key \<Rightarrow> path \<Rightarrow> segment_id \<Rightarrow> u64 \<Rightarrow> u64 spool_io" where
  "quarantine_one quarantine_root dir key p sid recovered =
     bnd (validate_private_file p) (\<lambda>_.
     let destination_directory = quarantine_root @ [encode_hex (input_key_bytes key)] in
     bnd (ensure_private_directory destination_directory) (\<lambda>_.
     let destination = destination_directory @ [segment_file sid QUARANTINE_EXTENSION] in
     bnd (path_exists destination) (\<lambda>b.
     if b
     then throw (sp_error ''DBX-RS-SPOOL-RECOVERY-0001'' ''startup_recovery'' ''quarantine destination already exists'')
     else
     bnd (map_fail (sp_io_error ''DBX-RS-SPOOL-RECOVERY-0002'' ''startup_recovery''
         ''failed to quarantine an incomplete spool segment'') (sys_rename p destination)) (\<lambda>_.
     bnd (sync_directory dir ''startup_recovery'') (\<lambda>_.
     bnd (sync_directory destination_directory ''startup_recovery'') (\<lambda>_.
       lift_res (ok_or (sp_error ''DBX-RS-SPOOL-RECOVERY-0003'' ''startup_recovery''
         ''recovered spool segment count overflowed'') (checked_add recovered 1))))))))"

fun recover_files :: "path \<Rightarrow> path \<Rightarrow> input_key \<Rightarrow> string list \<Rightarrow> u64 \<Rightarrow> u64 spool_io" where
  "recover_files quarantine_root dir key [] recovered = ret recovered"
| "recover_files quarantine_root dir key (name # names) recovered =
     bnd next_entry (\<lambda>_.
     let p = dir @ [name] in
     bnd (lift_res (parse_segment_name p)) (\<lambda>(sid, ext).
     if ext \<noteq> OPEN_EXTENSION then recover_files quarantine_root dir key names recovered
     else
     bnd (quarantine_one quarantine_root dir key p sid recovered) (\<lambda>n.
       recover_files quarantine_root dir key names n)))"

text \<open>Recovery and both halves of the scan visit the input directories in the same way.\<close>

fun scan_inputs ::
    "path \<Rightarrow> string \<Rightarrow> (path \<Rightarrow> input_key \<Rightarrow> string list \<Rightarrow> 's \<Rightarrow> 's spool_io) \<Rightarrow> string list \<Rightarrow> 's \<Rightarrow> 's spool_io" where
  "scan_inputs root stage visit [] acc = ret acc"
| "scan_inputs root stage visit (input # inputs) acc =
     bnd next_entry (\<lambda>_.
     let dir = root @ [input] in
     bnd (validate_input_directory dir) (\<lambda>key.
     bnd (read_directory dir stage) (\<lambda>names.
     bnd (visit dir key names acc) (\<lambda>acc'.
       scan_inputs root stage visit inputs acc'))))"

definition recover_open_segments :: "path \<Rightarrow> path \<Rightarrow> u64 spool_io" where
  "recover_open_segments segments_root quarantine_root =
     bnd (read_directory segments_root ''startup_recovery'') (\<lambda>inputs.
       scan_inputs segments_root ''startup_recovery'' (recover_files quarantine_root) inputs 0)"

text \<open>The accounting is a local value of \<open>scan_accounting\<close>, passed along.\<close>

definition charge_stored :: "accounting \<Rightarrow> input_key \<Rightarrow> u64 \<Rightarrow> spool_error + accounting" where
  "charge_stored acc key n = (case add_stored key n acc of (Inl e, _) \<Rightarrow> Err e | (Inr _, acc') \<Rightarrow> Ok acc')"

fun scan_segment_files ::
    "spool_crypto \<Rightarrow> spool_key \<Rightarrow> spool_limits \<Rightarrow> path \<Rightarrow> input_key \<Rightarrow> string list \<Rightarrow> accounting
       \<Rightarrow> accounting spool_io" where
  "scan_segment_files C key limits dir input [] acc = ret acc"
| "scan_segment_files C key limits dir input (name # names) acc =
     bnd next_entry (\<lambda>_.
     let p = dir @ [name] in
     bnd (lift_res (parse_segment_name p)) (\<lambda>(sid, ext).
     if ext \<noteq> READY_EXTENSION \<and> ext \<noteq> DELIVERED_EXTENSION then throw invalid_path
     else
     bnd (inspect_segment C p key (lim_segment limits)) (\<lambda>ins.
     if hdr_input_key (ins_header ins) \<noteq> input \<or> ins_id ins \<noteq> sid then throw identity_mismatch
     else
     bnd (lift_res (charge_stored acc input (ins_len ins))) (\<lambda>acc'.
       scan_segment_files C key limits dir input names acc'))))"

fun scan_quarantine_files :: "path \<Rightarrow> input_key \<Rightarrow> string list \<Rightarrow> accounting \<Rightarrow> accounting spool_io" where
  "scan_quarantine_files dir input [] acc = ret acc"
| "scan_quarantine_files dir input (name # names) acc =
     bnd next_entry (\<lambda>_.
     let p = dir @ [name] in
     bnd (lift_res (parse_segment_name p)) (\<lambda>(_, ext).
     if ext \<noteq> QUARANTINE_EXTENSION then throw invalid_path
     else
     bnd (validate_private_file p) (\<lambda>n.
     bnd (lift_res (charge_stored acc input (of_nat (node_len n)))) (\<lambda>acc'.
       scan_quarantine_files dir input names acc'))))"

definition scan_accounting ::
    "spool_crypto \<Rightarrow> path \<Rightarrow> path \<Rightarrow> spool_key \<Rightarrow> spool_limits \<Rightarrow> accounting spool_io" where
  "scan_accounting C segments_root quarantine_root key limits =
     bnd (read_directory segments_root ''inventory_scan'') (\<lambda>inputs.
     bnd (scan_inputs segments_root ''inventory_scan'' (scan_segment_files C key limits) inputs no_accounting) (\<lambda>acc.
     bnd (read_directory quarantine_root ''quarantine_scan'') (\<lambda>inputs.
       scan_inputs quarantine_root ''quarantine_scan'' scan_quarantine_files inputs acc)))"

definition open_spool ::
    "spool_crypto \<Rightarrow> path \<Rightarrow> spool_key \<Rightarrow> spool_limits \<Rightarrow> (spool \<times> accounting) spool_io" where
  "open_spool C root key limits =
     bnd (ensure_private_directory root) (\<lambda>_.
     let segments = root @ [SEGMENTS_DIRECTORY]; quarantine = root @ [QUARANTINE_DIRECTORY] in
     bnd (ensure_private_directory segments) (\<lambda>_.
     bnd (ensure_private_directory quarantine) (\<lambda>_.
     bnd (recover_open_segments segments quarantine) (\<lambda>recovered.
     bnd (scan_accounting C segments quarantine key limits) (\<lambda>acc.
       ret (\<lparr>sp_segments = segments, sp_key = key, sp_limits = limits, recovered_open_segments = recovered\<rparr>, acc))))))"

section \<open>Inventories\<close>

definition ready_of :: "path \<Rightarrow> segment_id \<Rightarrow> inspected_segment \<Rightarrow> ready_segment" where
  "ready_of p sid ins = \<lparr>rs_path = p, rs_header = ins_header ins, rs_id = sid, rs_summary = ins_summary ins,
     rs_version = ins_version ins, rs_metadata = ins_metadata ins, rs_len = ins_len ins\<rparr>"

fun lifecycle_files ::
    "spool_crypto \<Rightarrow> spool \<Rightarrow> string \<Rightarrow> path \<Rightarrow> input_key \<Rightarrow> string list \<Rightarrow> ready_segment list
       \<Rightarrow> ready_segment list spool_io" where
  "lifecycle_files C sp extension dir input [] segments = ret segments"
| "lifecycle_files C sp extension dir input (name # names) segments =
     bnd next_entry (\<lambda>_.
     let p = dir @ [name] in
     bnd (lift_res (parse_segment_name p)) (\<lambda>(sid, state).
     if state \<noteq> extension then lifecycle_files C sp extension dir input names segments
     else
     bnd (inspect_segment C p (sp_key sp) (lim_segment (sp_limits sp))) (\<lambda>ins.
     if hdr_input_key (ins_header ins) \<noteq> input \<or> ins_id ins \<noteq> sid then throw identity_mismatch
     else lifecycle_files C sp extension dir input names (segments @ [ready_of p sid ins]))))"

definition scan_lifecycle :: "spool_crypto \<Rightarrow> spool \<Rightarrow> string \<Rightarrow> ready_segment list spool_io" where
  "scan_lifecycle C sp extension =
     bnd (read_directory (sp_segments sp) ''inventory_scan'') (\<lambda>inputs.
       scan_inputs (sp_segments sp) ''inventory_scan'' (lifecycle_files C sp extension) inputs [])"

definition list_ready :: "spool_crypto \<Rightarrow> spool \<Rightarrow> ready_segment list spool_io" where
  "list_ready C sp = bnd (scan_lifecycle C sp READY_EXTENSION) (\<lambda>ready. ret (sort_key segment_order ready))"

definition list_delivered :: "spool_crypto \<Rightarrow> spool \<Rightarrow> delivered_segment list spool_io" where
  "list_delivered C sp =
     bnd (scan_lifecycle C sp DELIVERED_EXTENSION) (\<lambda>segments.
       ret (sort_key (\<lambda>s. segment_order (as_ready s)) (map from_ready segments)))"

section \<open>Handles\<close>

definition validate_owned_path :: "spool \<Rightarrow> path \<Rightarrow> string \<Rightarrow> unit spool_io" where
  "validate_owned_path sp p extension =
     (if p = [] \<or> butlast p = [] then throw invalid_path
      else if butlast (butlast p) \<noteq> sp_segments sp \<or> path_extension p \<noteq> Some extension then throw invalid_path
      else
      bnd (validate_input_directory (butlast p)) (\<lambda>key.
      bnd (lift_res (parse_segment_name p)) (\<lambda>(_, parsed).
      if parsed \<noteq> extension \<or> butlast p \<noteq> spool_input_directory sp key then throw invalid_path
      else ret ())))"

definition validate_ready_handle :: "spool_crypto \<Rightarrow> spool \<Rightarrow> ready_segment \<Rightarrow> unit spool_io" where
  "validate_ready_handle C sp s =
     bnd (validate_owned_path sp (rs_path s) READY_EXTENSION) (\<lambda>_.
     bnd (inspect_segment C (rs_path s) (sp_key sp) (lim_segment (sp_limits sp))) (\<lambda>ins.
     if ins_header ins \<noteq> rs_header s \<or> ins_id ins \<noteq> rs_id s \<or> ins_summary ins \<noteq> rs_summary s \<or>
        ins_version ins \<noteq> rs_version s \<or> ins_metadata ins \<noteq> rs_metadata s \<or> ins_len ins \<noteq> rs_len s
     then throw identity_mismatch else ret ()))"

definition validate_delivered_handle :: "spool_crypto \<Rightarrow> spool \<Rightarrow> delivered_segment \<Rightarrow> unit spool_io" where
  "validate_delivered_handle C sp s =
     bnd (validate_owned_path sp (ds_path s) DELIVERED_EXTENSION) (\<lambda>_.
     bnd (inspect_segment C (ds_path s) (sp_key sp) (lim_segment (sp_limits sp))) (\<lambda>ins.
     if ins_header ins \<noteq> ds_header s \<or> ins_id ins \<noteq> ds_id s \<or> ins_summary ins \<noteq> ds_summary s \<or>
        ins_version ins \<noteq> ds_version s \<or> ins_metadata ins \<noteq> ds_metadata s \<or> ins_len ins \<noteq> ds_len s
     then throw identity_mismatch else ret ()))"

definition mark_delivered :: "spool_crypto \<Rightarrow> spool \<Rightarrow> ready_segment \<Rightarrow> delivered_segment spool_io" where
  "mark_delivered C sp s =
     bnd (validate_ready_handle C sp s) (\<lambda>_.
     let delivered_path = with_extension (rs_path s) DELIVERED_EXTENSION in
     bnd (path_exists delivered_path) (\<lambda>b.
     if b
     then throw (sp_error ''DBX-RS-SPOOL-LIFECYCLE-0001'' ''mark_delivered''
       ''delivered spool destination already exists'')
     else
     bnd (map_fail (sp_io_error ''DBX-RS-SPOOL-LIFECYCLE-0002'' ''mark_delivered''
         ''failed to mark a spool segment delivered'') (sys_rename (rs_path s) delivered_path)) (\<lambda>_.
     if delivered_path = [] then throw invalid_path
     else
     bnd (sync_directory (butlast delivered_path) ''mark_delivered'') (\<lambda>_.
       ret ((from_ready s)\<lparr>ds_path := delivered_path\<rparr>)))))"

text \<open>Operations on the accounting and on the host inside the spool.\<close>

type_synonym 'a spool_op = "(accounting \<times> host, spool_error, 'a) op"

definition on_accounts :: "(accounting, 'e, 'a) op \<Rightarrow> (accounting \<times> 's, 'e, 'a) op" where
  "on_accounts m = (\<lambda>s. case m (fst s) of (r, acc) \<Rightarrow> (r, (acc, snd s)))"

definition compact_delivered :: "spool_crypto \<Rightarrow> spool \<Rightarrow> delivered_segment \<Rightarrow> unit spool_op" where
  "compact_delivered C sp s =
     bnd (on_snd (validate_delivered_handle C sp s)) (\<lambda>_.
     bnd (on_snd (map_fail (sp_io_error ''DBX-RS-SPOOL-LIFECYCLE-0003'' ''compact_delivered''
         ''failed to compact a delivered spool segment'') (sys_remove_file (ds_path s)))) (\<lambda>_.
     if ds_path s = [] then throw invalid_path
     else
     bnd (on_snd (sync_directory (butlast (ds_path s)) ''compact_delivered'')) (\<lambda>_.
       on_accounts (remove_stored (hdr_input_key (ds_header s)) (ds_len s)))))"

section \<open>Writing a segment\<close>

record segment_writer =
  w_encoder :: "segment_encoder option"
  w_open_path :: path
  w_header :: segment_header
  w_id :: segment_id
  w_reserved :: bool
  w_published :: bool

fun create_segment ::
    "spool_crypto \<Rightarrow> spool \<Rightarrow> segment_header \<Rightarrow> path \<Rightarrow> nat \<Rightarrow> bool \<Rightarrow> segment_writer spool_io" where
  "create_segment C sp header dir 0 last_collision =
     throw (sp_error ''DBX-RS-SPOOL-LIFECYCLE-0004'' ''segment_create''
       (if last_collision then ''could not allocate a unique spool segment'' else ''spool segment creation failed''))"
| "create_segment C sp header dir (Suc attempts) last_collision =
     bnd (map_fail (\<lambda>_. sp_error ''DBX-RS-SPOOL-CRYPTO-0006'' ''segment_create''
         ''secure segment identity generation failed'') (sys_random 16)) (\<lambda>segment_bytes.
     bnd (map_fail (\<lambda>_. sp_error ''DBX-RS-SPOOL-CRYPTO-0007'' ''segment_create''
         ''secure segment salt generation failed'') (sys_random 32)) (\<lambda>salt.
     let sid = SegmentId segment_bytes; open_path = dir @ [segment_file sid OPEN_EXTENSION] in
     bnd (attempt (create_private_file open_path)) (\<lambda>r.
     case r of
       Inl e \<Rightarrow>
         if sp_io_kind e = Some AlreadyExists then create_segment C sp header dir attempts True
         else throw e
     | Inr file \<Rightarrow>
         bnd (attempt (start_encoder C file (sp_key sp) salt sid header (lim_segment (sp_limits sp)))) (\<lambda>r.
         case r of
           Inl e \<Rightarrow> bnd (attempt (sys_remove_file open_path)) (\<lambda>_. throw e)
         | Inr encoder \<Rightarrow>
             ret \<lparr>w_encoder = Some encoder, w_open_path = open_path, w_header = header, w_id = sid,
               w_reserved = True, w_published = False\<rparr>))))"

definition begin_reserved_segment ::
    "spool_crypto \<Rightarrow> spool \<Rightarrow> segment_header \<Rightarrow> segment_writer spool_io" where
  "begin_reserved_segment C sp header =
     (let dir = spool_input_directory sp (hdr_input_key header) in
      bnd (ensure_private_directory dir) (\<lambda>_.
        create_segment C sp header dir SEGMENT_ID_ATTEMPTS False))"

definition begin_segment :: "spool_crypto \<Rightarrow> spool \<Rightarrow> segment_header \<Rightarrow> segment_writer spool_op" where
  "begin_segment C sp header =
     bnd (on_accounts (reserve (sp_limits sp) (hdr_input_key header))) (\<lambda>_.
     bnd (attempt (on_snd (begin_reserved_segment C sp header))) (\<lambda>r.
     case r of
       Inr w \<Rightarrow> ret w
     | Inl e \<Rightarrow>
         bnd (on_accounts (release_reservation (sp_limits sp) (hdr_input_key header))) (\<lambda>_. throw e)))"

type_synonym 'a writing = "(segment_writer \<times> accounting \<times> host, spool_error, 'a) op"

definition writer_closed :: spool_error where
  "writer_closed = sp_error ''DBX-RS-SPOOL-LIFECYCLE-0008'' ''writer_state'' ''spool segment writer is closed''"

text \<open>The host inside, the encoder the writer holds, an encoder given away, one field of the writer.\<close>

definition on_host :: "(host, 'e, 'a) op \<Rightarrow> (segment_writer \<times> accounting \<times> host, 'e, 'a) op" where
  "on_host m = on_snd (on_snd m)"

definition consume_encoder :: "segment_encoder \<Rightarrow> 'a encoding \<Rightarrow> 'a writing" where
  "consume_encoder e m = on_host (\<lambda>h. case m (e, h) of (r, (_, t)) \<Rightarrow> (r, t))"

definition modify_writer :: "(segment_writer \<Rightarrow> segment_writer) \<Rightarrow> (segment_writer \<times> 's, 'e, unit) op" where
  "modify_writer f = (\<lambda>s. (Ok (), (f (fst s), snd s)))"

definition writer_append :: "spool_crypto \<Rightarrow> bytes \<Rightarrow> unit writing" where
  "writer_append C event = (\<lambda>(w, acc, h).
     case w_encoder w of
       None \<Rightarrow> (Err writer_closed, (w, acc, h))
     | Some e \<Rightarrow>
         (case append_event C event (e, h) of
            (r, (e', t)) \<Rightarrow> (r, (w\<lparr>w_encoder := Some e'\<rparr>, acc, t))))"

text \<open>\<open>drop\<close> of a writer, and of the writer an operation consumed.\<close>

definition drop_writer :: "spool \<Rightarrow> segment_writer \<Rightarrow> unit spool_op" where
  "drop_writer sp w =
     bnd (if w_published w then ret () else bnd (attempt (on_snd (sys_remove_file (w_open_path w)))) (\<lambda>_. ret ())) (\<lambda>_.
     if w_reserved w then on_accounts (release_reservation (sp_limits sp) (hdr_input_key (w_header w))) else ret ())"

definition consuming :: "spool \<Rightarrow> 'a writing \<Rightarrow> segment_writer \<Rightarrow> 'a spool_op" where
  "consuming sp m w = (\<lambda>s. case m (w, s) of (r, (w', t)) \<Rightarrow> (r, snd (drop_writer sp w' t)))"

definition publish_file :: "segment_writer \<Rightarrow> path \<Rightarrow> unit spool_io" where
  "publish_file w ready_path =
     bnd (path_exists ready_path) (\<lambda>b.
     if b
     then throw (sp_error ''DBX-RS-SPOOL-LIFECYCLE-0005'' ''segment_seal'' ''ready spool destination already exists'')
     else map_fail (sp_io_error ''DBX-RS-SPOOL-LIFECYCLE-0006'' ''segment_seal''
       ''failed to publish a ready spool segment'') (sys_rename (w_open_path w) ready_path))"

definition seal_body :: "spool_crypto \<Rightarrow> spool \<Rightarrow> bytes \<Rightarrow> ready_segment writing" where
  "seal_body C sp meta =
     bnd get_fst (\<lambda>w.
     bnd (lift_res (ok_or writer_closed (w_encoder w))) (\<lambda>e.
     bnd (modify_writer (\<lambda>w. w\<lparr>w_encoder := None\<rparr>)) (\<lambda>_.
     bnd (consume_encoder e (finish C meta)) (\<lambda>(summary, byte_len).
     let ready_path = with_extension (w_open_path w) READY_EXTENSION in
     bnd (on_host (publish_file w ready_path)) (\<lambda>_.
     bnd (modify_writer (\<lambda>w. w\<lparr>w_published := True\<rparr>)) (\<lambda>_.
     bnd (handle (on_snd (on_accounts (publish_reservation (sp_limits sp) (hdr_input_key (w_header w)) byte_len))) (\<lambda>e.
         bnd (modify_writer (\<lambda>w. w\<lparr>w_reserved := False\<rparr>)) (\<lambda>_. throw e))) (\<lambda>_.
     bnd (modify_writer (\<lambda>w. w\<lparr>w_reserved := False\<rparr>)) (\<lambda>_.
     if ready_path = [] then throw invalid_path
     else
     bnd (on_host (sync_directory (butlast ready_path) ''segment_seal'')) (\<lambda>_.
       ret \<lparr>rs_path = ready_path, rs_header = w_header w, rs_id = w_id w, rs_summary = summary,
         rs_version = FORMAT_VERSION, rs_metadata = meta, rs_len = byte_len\<rparr>)))))))))"

definition seal_with_recovery_metadata ::
    "spool_crypto \<Rightarrow> spool \<Rightarrow> bytes \<Rightarrow> segment_writer \<Rightarrow> ready_segment spool_op" where
  "seal_with_recovery_metadata C sp meta = consuming sp (seal_body C sp meta)"

definition seal_writer :: "spool_crypto \<Rightarrow> spool \<Rightarrow> segment_writer \<Rightarrow> ready_segment spool_op" where
  "seal_writer C sp = seal_with_recovery_metadata C sp []"

definition abort_body :: "spool \<Rightarrow> unit writing" where
  "abort_body sp =
     bnd get_fst (\<lambda>w.
     bnd (modify_writer (\<lambda>w. w\<lparr>w_encoder := None\<rparr>)) (\<lambda>_.
     bnd (on_host (remove_if_present (w_open_path w))) (\<lambda>_.
     if w_open_path w = [] then throw invalid_path
     else
     bnd (on_host (sync_directory (butlast (w_open_path w)) ''segment_abort'')) (\<lambda>_.
     if w_reserved w
     then
       bnd (on_snd (on_accounts (release_reservation (sp_limits sp) (hdr_input_key (w_header w))))) (\<lambda>_.
         modify_writer (\<lambda>w. w\<lparr>w_reserved := False\<rparr>))
     else ret ()))))"

definition abort_writer :: "spool \<Rightarrow> segment_writer \<Rightarrow> unit spool_op" where
  "abort_writer sp = consuming sp (abort_body sp)"

section \<open>Reading a segment back\<close>

record segment_reader =
  sr_decoder :: segment_decoder
  sr_summary :: segment_summary
  sr_metadata :: bytes
  sr_failed :: bool

definition open_segment :: "spool_crypto \<Rightarrow> spool \<Rightarrow> ready_segment \<Rightarrow> segment_reader spool_io" where
  "open_segment C sp s =
     bnd (validate_owned_path sp (rs_path s) READY_EXTENSION) (\<lambda>_.
     bnd (open_private_file (rs_path s)) (\<lambda>file.
     bnd (open_decoder C file (sp_key sp) (lim_segment (sp_limits sp))) (\<lambda>d.
     if d_segment_id d \<noteq> rs_id s \<or> d_header d \<noteq> rs_header s \<or> d_version d \<noteq> rs_version s
     then throw identity_mismatch
     else ret \<lparr>sr_decoder = d, sr_summary = rs_summary s, sr_metadata = rs_metadata s, sr_failed = False\<rparr>)))"

text \<open>\<open>Iterator::next\<close>: the outer option is the end of the iteration.\<close>

definition reader_next :: "spool_crypto \<Rightarrow> segment_reader \<Rightarrow> (spool_error + bytes) option \<times> segment_reader" where
  "reader_next C r =
     (if sr_failed r then (None, r)
      else
        (case next_event C (sr_decoder r) of
           (Inr (Some event), d) \<Rightarrow> (Some (Ok event), r\<lparr>sr_decoder := d\<rparr>)
         | (Inr None, d) \<Rightarrow>
             if d_summary d = Some (sr_summary r) \<and> d_metadata d = Some (sr_metadata r)
             then (None, r\<lparr>sr_decoder := d\<rparr>)
             else (Some (Err (sp_error ''DBX-RS-SPOOL-FORMAT-0022'' ''footer_validate''
               ''spool footer changed after inventory validation'')), r\<lparr>sr_decoder := d, sr_failed := True\<rparr>)
         | (Inl e, d) \<Rightarrow> (Some (Err e), r\<lparr>sr_decoder := d, sr_failed := True\<rparr>)))"

end
