(* ===== verification/Spool_Quota.thy ===== *)
theory Spool_Quota
  imports Spool "HOL-Library.Multiset"
begin

text \<open>
  The quota of the spool. Every live writer holds one reservation of a full segment; the totals are the
  sums over the inputs; neither the quota of an input nor the global one is exceeded by a reservation, and
  a publication never costs more than its reservation. Shown for every sequence of operations over
  every host, with writers begun, appended to, sealed, aborted and dropped in any order.
\<close>

section \<open>The tables\<close>

lemma bytes_of_upd [simp]: "bytes_of (m(k \<mapsto> v)) j = (if j = k then v else bytes_of m j)"
  "bytes_of (m(k := None)) j = (if j = k then 0 else bytes_of m j)"
  by (simp_all add: bytes_of_def)

lemma unat_saturating_sub: "unat (saturating_sub a b) = unat a - unat b"
  by (auto simp: saturating_sub_def unat_sub word_le_nat_alt)

lemma bytes_of_decrement: "unat (bytes_of (decrement_entry m k n) j) =
    (if j = k then unat (bytes_of m k) - unat n else unat (bytes_of m j))"
proof (cases "m k")
  case None
  then show ?thesis by (auto simp: decrement_entry_def bytes_of_def)
next
  case (Some v)
  then show ?thesis
    using unat_saturating_sub [of v n] by (auto simp: decrement_entry_def Let_def) (simp_all add: bytes_of_def)
qed

lemma finite_decrement [simp]: "finite (dom m) \<Longrightarrow> finite (dom (decrement_entry m k n))"
  by (auto simp: decrement_entry_def Let_def split: option.split)

definition table_total :: "(input_key \<Rightarrow> u64 option) \<Rightarrow> nat" where
  "table_total m = (\<Sum>k \<in> dom m. unat (bytes_of m k))"

lemma table_total_over: "finite K \<Longrightarrow> dom m \<subseteq> K \<Longrightarrow> table_total m = (\<Sum>k \<in> K. unat (bytes_of m k))"
  unfolding table_total_def by (rule sum.mono_neutral_left) (auto simp: bytes_of_def dom_def split: option.split)

lemma table_total_change:
  assumes "finite (dom m)" "finite (dom m')" "\<And>j. j \<noteq> k \<Longrightarrow> unat (bytes_of m' j) = unat (bytes_of m j)"
  shows "table_total m' + unat (bytes_of m k) = table_total m + unat (bytes_of m' k)"
proof -
  let ?K = "dom m \<union> dom m'"
  have K: "finite (?K - {k})" "finite (insert k ?K)" using assms by auto
  have "(\<Sum>j \<in> ?K - {k}. unat (bytes_of m' j)) = (\<Sum>j \<in> ?K - {k}. unat (bytes_of m j))"
    by (rule sum.cong) (use assms(3) in auto)
  moreover have "table_total m = unat (bytes_of m k) + (\<Sum>j \<in> ?K - {k}. unat (bytes_of m j))"
    "table_total m' = unat (bytes_of m' k) + (\<Sum>j \<in> ?K - {k}. unat (bytes_of m' j))"
    using table_total_over [of "insert k ?K" m] table_total_over [of "insert k ?K" m'] K
    by (auto simp: sum.insert_remove)
  ultimately show ?thesis by simp
qed

section \<open>Consistency and limits\<close>

definition consistent :: "spool_limits \<Rightarrow> input_key multiset \<Rightarrow> accounting \<Rightarrow> bool" where
  "consistent limits W acc \<longleftrightarrow>
     (\<forall>k. unat (bytes_of (reserved_by_input acc) k) = count W k * unat (lim_segment limits)) \<and>
     unat (acc_reserved acc) = size W * unat (lim_segment limits) \<and>
     finite (dom (stored_by_input acc)) \<and> unat (acc_stored acc) = table_total (stored_by_input acc) \<and>
     unat (acc_stored acc) + unat (acc_reserved acc) < 2 ^ 64"

text \<open>
  Within the quotas, or where an input or the whole spool was beyond its quota in some earlier accounting,
  the base, not beyond what it was there: startup takes what it finds on the disk, whatever the limits.
\<close>

definition within_limits :: "accounting \<Rightarrow> spool_limits \<Rightarrow> accounting \<Rightarrow> bool" where
  "within_limits base limits acc \<longleftrightarrow>
     (\<forall>k. unat (bytes_of (stored_by_input acc) k) + unat (bytes_of (reserved_by_input acc) k) \<le>
        max (unat (bytes_of (stored_by_input base) k) + unat (bytes_of (reserved_by_input base) k)) (unat (lim_input limits))) \<and>
     unat (acc_stored acc) + unat (acc_reserved acc) \<le>
        max (unat (acc_stored base) + unat (acc_reserved base)) (unat (lim_global limits))"

lemma within_start: "within_limits base limits base"
  by (simp add: within_limits_def)

lemma charge_reservation_Ok:
  "charge_reservation n k acc = (Inr (), acc') \<longleftrightarrow>
     unat (acc_reserved acc) + unat n < 2 ^ 64 \<and> unat (bytes_of (reserved_by_input acc) k) + unat n < 2 ^ 64 \<and>
     acc' = acc\<lparr>acc_reserved := acc_reserved acc + n,
       reserved_by_input := (reserved_by_input acc)(k \<mapsto> bytes_of (reserved_by_input acc) k + n)\<rparr>"
  by (auto simp: charge_reservation_def try_in_eq_Inr Let_def checked_add_Some)

lemma unat_add_small: "unat a + unat b < 2 ^ LENGTH('a) \<Longrightarrow> unat (a + b) = unat a + unat (b :: 'a::len word)"
  by (simp add: unat_word_ariths)

lemma reserve_cases:
  assumes "reserve limits k acc = (r, acc')"
  obtains (refused) e where "r = Inl e" "acc' = acc"
  | (charged) "charge_reservation (lim_segment limits) k acc = (r, acc')"
      "unat (bytes_of (stored_by_input acc) k) + unat (bytes_of (reserved_by_input acc) k) + unat (lim_segment limits)
        \<le> unat (lim_input limits)"
      "unat (acc_stored acc) + unat (acc_reserved acc) + unat (lim_segment limits) \<le> unat (lim_global limits)"
proof -
  let ?u = "bytes_of (stored_by_input acc) k" and ?v = "bytes_of (reserved_by_input acc) k"
  let ?n = "lim_segment limits"
  have sum: "unat c = unat a + unat b + unat ?n"
    if "Option.bind (checked_add a b) (\<lambda>u. checked_add u ?n) = Some c" for a b c :: u64
    using that by (auto simp: bind_eq_Some_conv dest!: unat_checked_add)
  note run = assms [unfolded reserve_def Let_def]
  show thesis
  proof (cases "Option.bind (checked_add ?u ?v) (\<lambda>u. checked_add u ?n)")
    case None
    with run show thesis by (intro refused) auto
  next
    case a: (Some a)
    show thesis
    proof (cases "Option.bind (checked_add (acc_stored acc) (acc_reserved acc)) (\<lambda>u. checked_add u ?n)")
      case None
      with run a show thesis by (cases "a > lim_input limits") (auto intro: refused)
    next
      case b: (Some b)
      show thesis
      proof (cases "a > lim_input limits \<or> b > lim_global limits")
        case True
        with run a b show thesis by (auto intro: refused split: if_split_asm)
      next
        case False
        with run a b have "charge_reservation ?n k acc = (r, acc')" by simp
        then show thesis
          by (rule charged) (use False sum [OF a] sum [OF b] in \<open>auto simp: word_le_nat_alt not_less\<close>)
      qed
    qed
  qed
qed

text \<open>With consistent books a reservation is refused without a trace or charged exactly.\<close>

lemma reserve_consistent:
  assumes "reserve limits k acc = (r, acc')" "consistent limits W acc"
  shows "case r of Inl _ \<Rightarrow> acc' = acc
    | Inr _ \<Rightarrow> consistent limits (add_mset k W) acc' \<and> (within_limits base limits acc \<longrightarrow> within_limits base limits acc')"
  using assms(1)
proof (cases rule: reserve_cases)
  case charged
  let ?n = "lim_segment limits"
  have lim: "unat (acc_reserved acc) + unat ?n < 2 ^ 64" "unat (bytes_of (reserved_by_input acc) k) + unat ?n < 2 ^ 64"
    using charged(2,3) u64_bound [of "lim_input limits"] u64_bound [of "lim_global limits"] by linarith+
  obtain r' a where ra: "charge_reservation ?n k acc = (Inr (), a)" using lim charge_reservation_Ok by blast
  with charged(1) have r: "r = Inr ()" "acc' = acc\<lparr>acc_reserved := acc_reserved acc + ?n,
       reserved_by_input := (reserved_by_input acc)(k \<mapsto> bytes_of (reserved_by_input acc) k + ?n)\<rparr>"
    using charge_reservation_Ok [of ?n k acc acc'] by auto
  have "unat (acc_reserved acc + ?n) = unat (acc_reserved acc) + unat ?n"
    "unat (bytes_of (reserved_by_input acc) k + ?n) = unat (bytes_of (reserved_by_input acc) k) + unat ?n"
    using lim by (simp_all add: unat_add_small)
  with assms(2) charged(2,3) u64_bound [of "lim_global limits"] show ?thesis
    unfolding r by (auto simp: consistent_def within_limits_def algebra_simps)
qed simp

text \<open>Giving a reservation back, and turning it into stored bytes.\<close>

lemma within_limits_le:
  assumes "within_limits base limits acc"
    and "\<And>k. unat (bytes_of (stored_by_input acc') k) + unat (bytes_of (reserved_by_input acc') k)
      \<le> unat (bytes_of (stored_by_input acc) k) + unat (bytes_of (reserved_by_input acc) k)"
    and "unat (acc_stored acc') + unat (acc_reserved acc') \<le> unat (acc_stored acc) + unat (acc_reserved acc)"
  shows "within_limits base limits acc'"
  using assms unfolding within_limits_def by (meson le_trans)

lemma count_size: "k \<in># W \<Longrightarrow> 1 \<le> count W k \<and> 1 \<le> size W"
  by (cases "W = {#}") (auto simp: Suc_le_eq nonempty_has_size)

lemma one_share: "1 \<le> a \<Longrightarrow> n \<le> a * (n :: nat)"
  using mult_le_mono1 [of 1 a n] by simp

lemma consistent_reserved:
  "consistent limits W acc \<Longrightarrow> k \<in># W \<Longrightarrow>
   unat (lim_segment limits) \<le> unat (bytes_of (reserved_by_input acc) k) \<and>
   unat (lim_segment limits) \<le> unat (acc_reserved acc)"
  using count_size [of k W] one_share by (simp add: consistent_def)

lemma unreserved:
  assumes "consistent limits W acc" "k \<in># W"
    and "unat (acc_reserved acc') = unat (acc_reserved acc) - unat (lim_segment limits)"
    and "\<And>j. unat (bytes_of (reserved_by_input acc') j) =
      (if j = k then unat (bytes_of (reserved_by_input acc) k) - unat (lim_segment limits)
       else unat (bytes_of (reserved_by_input acc) j))"
  shows "\<forall>j. unat (bytes_of (reserved_by_input acc') j) = count (W - {#k#}) j * unat (lim_segment limits)"
    "unat (acc_reserved acc') = size (W - {#k#}) * unat (lim_segment limits)"
  using assms count_size [OF assms(2)]
  by (auto simp: consistent_def diff_mult_distrib size_Diff_singleton)

lemma consistent_change:
  assumes "consistent limits W acc"
    and "\<forall>j. unat (bytes_of (reserved_by_input acc') j) = count W' j * unat (lim_segment limits)"
    and "unat (acc_reserved acc') = size W' * unat (lim_segment limits)"
    and "finite (dom (stored_by_input acc'))" "unat (acc_stored acc') = table_total (stored_by_input acc')"
    and "unat (acc_stored acc') + unat (acc_reserved acc') \<le> unat (acc_stored acc) + unat (acc_reserved acc)"
  shows "consistent limits W' acc'"
  unfolding consistent_def using assms by (auto simp only: consistent_def intro: le_less_trans)

lemma release_consistent:
  assumes "consistent limits W acc" "k \<in># W" "release_reservation limits k acc = (r, acc')"
  shows "consistent limits (W - {#k#}) acc'" "within_limits base limits acc \<Longrightarrow> within_limits base limits acc'"
proof -
  from assms(3) have acc': "acc' = acc\<lparr>acc_reserved := saturating_sub (acc_reserved acc) (lim_segment limits),
        reserved_by_input := decrement_entry (reserved_by_input acc) k (lim_segment limits)\<rparr>"
    by (simp add: release_reservation_def)
  show "consistent limits (W - {#k#}) acc'"
  proof (rule consistent_change [OF assms(1) unreserved [OF assms(1,2)]])
    show "finite (dom (stored_by_input acc'))" "unat (acc_stored acc') = table_total (stored_by_input acc')"
      using assms(1) by (simp_all add: acc' consistent_def)
  qed (simp_all add: acc' unat_saturating_sub bytes_of_decrement)
  show "within_limits base limits acc'" if "within_limits base limits acc"
    by (rule within_limits_le [OF that]) (simp_all add: acc' unat_saturating_sub bytes_of_decrement)
qed

lemma entry_le_total: "finite (dom m) \<Longrightarrow> unat (bytes_of m k) \<le> table_total m"
proof -
  assume "finite (dom m)"
  then have "k \<in> dom m \<Longrightarrow> unat (bytes_of m k) \<le> table_total m"
    unfolding table_total_def by (intro member_le_sum) auto
  then show ?thesis by (cases "k \<in> dom m") (auto simp: bytes_of_def domIff)
qed

lemma publish_consistent:
  assumes "consistent limits W acc" "k \<in># W" "unat n \<le> unat (lim_segment limits)"
    and "publish_reservation limits k n acc = (r, acc')"
  shows "r = Inr ()" "consistent limits (W - {#k#}) acc'" "within_limits base limits acc \<Longrightarrow> within_limits base limits acc'"
proof -
  let ?seg = "lim_segment limits" and ?st = "stored_by_input acc"
  note res = consistent_reserved [OF assms(1,2)]
  have fin: "finite (dom ?st)" using assms(1) by (simp add: consistent_def)
  have "unat (bytes_of ?st k) \<le> unat (acc_stored acc)"
    using assms(1) entry_le_total [OF fin] by (simp add: consistent_def)
  moreover have "unat (acc_stored acc) + unat (acc_reserved acc) < 2 ^ 64" using assms(1) by (simp add: consistent_def)
  ultimately have room: "unat (acc_stored acc) + unat n < 2 ^ 64" "unat (bytes_of ?st k) + unat n < 2 ^ 64"
    using assms(3) res by linarith+
  have acc': "r = Inr () \<and> acc' = acc\<lparr>acc_reserved := acc_reserved acc - ?seg,
             reserved_by_input := decrement_entry (reserved_by_input acc) k ?seg,
             acc_stored := acc_stored acc + n, stored_by_input := ?st(k \<mapsto> bytes_of ?st k + n)\<rparr>"
    using assms(3,4) res room
    by (auto simp: publish_reservation_def Let_def word_less_nat_alt checked_add_def)
  then show "r = Inr ()" by simp
  have nums: "unat (acc_reserved acc - ?seg) = unat (acc_reserved acc) - unat ?seg"
    "unat (acc_stored acc + n) = unat (acc_stored acc) + unat n"
    "unat (bytes_of ?st k + n) = unat (bytes_of ?st k) + unat n"
    using res room by (simp_all add: unat_sub word_le_nat_alt unat_add_small)
  have "table_total (?st(k \<mapsto> bytes_of ?st k + n)) + unat (bytes_of ?st k) = table_total ?st + unat (bytes_of ?st k + n)"
    using table_total_change [of ?st "?st(k \<mapsto> bytes_of ?st k + n)" k] fin by simp
  then have tot: "table_total (?st(k \<mapsto> bytes_of ?st k + n)) = table_total ?st + unat n" unfolding nums by simp
  show "consistent limits (W - {#k#}) acc'"
  proof (rule consistent_change [OF assms(1) unreserved [OF assms(1,2)]])
    show "finite (dom (stored_by_input acc'))" "unat (acc_stored acc') = table_total (stored_by_input acc')"
      using assms(1) tot nums fin by (simp_all add: conjunct2 [OF acc'] consistent_def)
  qed (use assms(3) res nums in \<open>simp_all add: conjunct2 [OF acc'] bytes_of_decrement\<close>)
  show "within_limits base limits acc'" if "within_limits base limits acc"
    by (rule within_limits_le [OF that]) (use assms(3) res nums acc' in \<open>auto simp: bytes_of_decrement\<close>)
qed

lemma remove_stored_consistent:
  assumes "consistent limits W acc" "remove_stored k n acc = (r, acc')"
  shows "consistent limits W acc'" "within_limits base limits acc \<Longrightarrow> within_limits base limits acc'"
proof -
  let ?st = "stored_by_input acc"
  have "consistent limits W acc' \<and> (within_limits base limits acc \<longrightarrow> within_limits base limits acc')"
  proof (cases "acc_stored acc < n \<or> bytes_of ?st k < n")
    case True
    with assms show ?thesis by (auto simp: remove_stored_def)
  next
    case False
    then have small: "unat n \<le> unat (acc_stored acc)" "unat n \<le> unat (bytes_of ?st k)"
      by (simp_all add: not_less word_le_nat_alt)
    have acc': "acc' = acc\<lparr>acc_stored := acc_stored acc - n, stored_by_input := decrement_entry ?st k n\<rparr>"
      using assms(2) False by (simp add: remove_stored_def)
    have fin: "finite (dom ?st)" using assms(1) by (simp add: consistent_def)
    have "table_total (decrement_entry ?st k n) + unat (bytes_of ?st k) =
        table_total ?st + unat (bytes_of (decrement_entry ?st k n) k)"
      by (rule table_total_change) (use fin in \<open>simp_all add: bytes_of_decrement\<close>)
    then have "table_total (decrement_entry ?st k n) = table_total ?st - unat n"
      using small by (simp add: bytes_of_decrement)
    moreover have "unat (acc_stored acc - n) = unat (acc_stored acc) - unat n"
      using small by (simp add: unat_sub word_le_nat_alt)
    ultimately have less: "unat (acc_stored acc') \<le> unat (acc_stored acc)"
        "unat (acc_stored acc') = table_total (stored_by_input acc')"
      using assms(1) by (simp_all add: acc' consistent_def)
    have "consistent limits W acc'"
      by (rule consistent_change [OF assms(1)]) (use assms(1) less in \<open>simp_all add: acc' consistent_def\<close>)
    moreover note less(1)
    ultimately have "consistent limits W acc'" "unat (acc_stored acc') \<le> unat (acc_stored acc)" by simp_all
    then show ?thesis
      using within_limits_le [of base limits acc acc'] by (simp add: acc' bytes_of_decrement)
  qed
  then show "consistent limits W acc'" "within_limits base limits acc \<Longrightarrow> within_limits base limits acc'" by simp_all
qed

section \<open>Startup\<close>

lemma consistent_start: "consistent limits {#} no_accounting"
  by (simp add: consistent_def no_accounting_def bytes_of_def table_total_def)

lemma add_stored_consistent:
  assumes "consistent limits {#} acc" "add_stored k n acc = (Inr (), acc')"
  shows "consistent limits {#} acc'"
proof -
  let ?st = "stored_by_input acc"
  have ok: "unat (acc_stored acc) + unat n < 2 ^ 64" "unat (bytes_of ?st k) + unat n < 2 ^ 64"
    "acc' = acc\<lparr>acc_stored := acc_stored acc + n, stored_by_input := ?st(k \<mapsto> bytes_of ?st k + n)\<rparr>"
    using assms(2) by (auto simp: add_stored_def try_in_eq_Inr Let_def checked_add_Some)
  have fin: "finite (dom ?st)" using assms(1) by (simp add: consistent_def)
  have nums: "unat (acc_stored acc + n) = unat (acc_stored acc) + unat n"
    "unat (bytes_of ?st k + n) = unat (bytes_of ?st k) + unat n"
    using ok(1,2) by (simp_all add: unat_add_small)
  have "table_total (?st(k \<mapsto> bytes_of ?st k + n)) + unat (bytes_of ?st k) = table_total ?st + unat (bytes_of ?st k + n)"
    using table_total_change [of ?st "?st(k \<mapsto> bytes_of ?st k + n)" k] fin by simp
  with nums assms(1) ok(1) show ?thesis by (simp add: ok(3) consistent_def)
qed

text \<open>A scan only adds to the accounting it is given.\<close>

abbreviation yields :: "('a \<Rightarrow> bool) \<Rightarrow> ('s, 'e, 'a) op \<Rightarrow> bool" where
  "yields Q m \<equiv> hoare (\<lambda>_. True) m (\<lambda>a _. Q a) (\<lambda>_ _. True)"

lemma yields_bnd: "yields R m \<Longrightarrow> (\<And>a. R a \<Longrightarrow> yields Q (k a)) \<Longrightarrow> yields Q (bnd m k)"
  by (rule hoareI) (auto simp: bnd_eq_Inr dest: hoare_Inr)

lemma yields_any: "yields (\<lambda>_. True) m"
  by (auto simp: hoare_def split: prod.split sum.split)

lemma yields_ret: "Q a \<Longrightarrow> yields Q (ret a)"
  by (auto simp: hoare_def)

lemma yields_throw: "yields Q (throw e)"
  by (auto simp: hoare_def)

lemma yields_lift: "(\<And>a. r = Inr a \<Longrightarrow> Q a) \<Longrightarrow> yields Q (lift_res r)"
  by (auto simp: hoare_def split: sum.split)

lemmas yields_rules = yields_bnd [OF yields_any] yields_ret yields_throw

lemma charge_stored_consistent:
  "charge_stored acc k n = Inr acc' \<Longrightarrow> consistent limits {#} acc \<Longrightarrow> consistent limits {#} acc'"
  by (auto simp: charge_stored_def split: prod.splits sum.splits intro: add_stored_consistent)

lemma scan_segment_files_yields:
  "consistent limits {#} acc \<Longrightarrow> yields (consistent limits {#}) (scan_segment_files C key limits' dir input names acc)"
proof (induction names arbitrary: acc)
  case (Cons name names)
  show ?case
    unfolding scan_segment_files.simps Let_def split_def
    by (intro yields_bnd [OF yields_any] hoare_if yields_throw
          yields_bnd [OF yields_lift [where Q = "consistent limits {#}"]] Cons.IH)
      (use Cons.prems in \<open>auto intro: charge_stored_consistent\<close>)
qed (simp add: yields_ret)

lemma scan_quarantine_files_yields:
  "consistent limits {#} acc \<Longrightarrow> yields (consistent limits {#}) (scan_quarantine_files dir input names acc)"
proof (induction names arbitrary: acc)
  case (Cons name names)
  show ?case
    unfolding scan_quarantine_files.simps Let_def split_def
    by (intro yields_bnd [OF yields_any] hoare_if yields_throw
          yields_bnd [OF yields_lift [where Q = "consistent limits {#}"]] Cons.IH)
      (use Cons.prems in \<open>auto intro: charge_stored_consistent\<close>)
qed (simp add: yields_ret)

lemma scan_inputs_yields:
  assumes "\<And>dir key names acc. Q acc \<Longrightarrow> yields Q (visit dir key names acc)"
  shows "Q acc \<Longrightarrow> yields Q (scan_inputs root stage visit inputs acc)"
proof (induction inputs arbitrary: acc)
  case (Cons input inputs)
  show ?case
    unfolding scan_inputs.simps Let_def
    by (intro yields_bnd [OF yields_any] yields_bnd [OF assms [OF Cons.prems]] Cons.IH)
qed (simp add: yields_ret)

lemma scan_accounting_yields: "yields (consistent limits {#}) (scan_accounting C sroot qroot key limits)"
  unfolding scan_accounting_def
  by (intro yields_bnd [OF yields_any]
      yields_bnd [OF scan_inputs_yields [OF scan_segment_files_yields consistent_start]]
      scan_inputs_yields scan_quarantine_files_yields)

lemma open_spool_consistent:
  assumes "open_spool C root key limits h = (Inr (sp, acc), t)"
  shows "consistent limits {#} acc \<and> sp_limits sp = limits \<and> sp_segments sp = root @ [SEGMENTS_DIRECTORY] \<and> sp_key sp = key"
proof -
  have "yields (\<lambda>(sp, acc). consistent limits {#} acc \<and> sp_limits sp = limits \<and>
      sp_segments sp = root @ [SEGMENTS_DIRECTORY] \<and> sp_key sp = key) (open_spool C root key limits)"
    unfolding open_spool_def Let_def
    by (intro yields_bnd [OF yields_any] yields_bnd [OF scan_accounting_yields] yields_ret) simp
  from hoare_Inr [OF this TrueI assms] show ?thesis by simp
qed

section \<open>The position of an encoder\<close>

definition encoder_ok :: "spool_limits \<Rightarrow> segment_encoder \<Rightarrow> bool" where
  "encoder_ok limits e \<longleftrightarrow> e_limit e = lim_segment limits \<and> e_version e = FORMAT_VERSION \<and>
     unat (e_position e) + 234 \<le> unat (lim_segment limits)"

definition nudged :: "nat \<Rightarrow> segment_encoder \<Rightarrow> segment_encoder \<Rightarrow> bool" where
  "nudged n e e' \<longleftrightarrow> e_limit e' = e_limit e \<and> e_version e' = e_version e \<and>
     unat (e_position e') \<le> unat (e_position e) + n"

lemma nudged_refl [simp]: "nudged n e e"
  by (simp add: nudged_def)

lemma advance_frame_nudged:
  assumes "advance_frame len (e, h) = (r, (e', t))"
  shows "nudged (unat len + 12) e e'"
proof -
  have *: "unat pos = unat (e_position e) + (unat len + 12)"
    if "checked_add 12 (ucast len) = Some fb" "checked_add (e_position e) fb = Some pos" for fb pos
    using unat_checked_add [OF that(1)] unat_checked_add [OF that(2)] by (simp add: unat_ucast32)
  show ?thesis
    using assms
    by (cases r) (auto simp: advance_frame_def bnd_eq_Inr bnd_eq_Inl FRAME_PREFIX_BYTES_def nudged_def *)
qed

lemma write_typed_frame_nudged:
  assumes "write_typed_frame C ty p ev (e, h) = (r, (e', t))"
  shows "nudged (length p + 29) e e'"
proof -
  have len: "unat len + 12 = length p + 29" if "u32_of_len (length (ty # p) + TAG_LEN) = Some len" for len
  proof -
    have "length (ty # p) + TAG_LEN = length p + 17" by (simp add: TAG_LEN_def)
    with that have "u32_of_len (length p + 17) = Some len" by metis
    then have "length p + 17 < 2 ^ 32" "len = of_nat (length p + 17)" unfolding u32_of_len_Some by blast+
    with unat_of_nat_small [of "length p + 17", where 'a = 32] show ?thesis by simp
  qed
  have adv: "nudged (length p + 29) e e'"
    if "u32_of_len (length (ty # p) + TAG_LEN) = Some len" "advance_frame len (e, h') = (r', (e', t'))" for len h' r' t'
    using advance_frame_nudged [OF that(2)] unfolding len [OF that(1)] .
  show ?thesis
  proof (cases r)
    case (Inl x)
    with assms show ?thesis
      unfolding write_typed_frame_def Let_def
      by (auto simp: bnd_eq_Inl on_snd_eq simp del: list.size intro: adv)
  next
    case (Inr x)
    with assms show ?thesis
      unfolding write_typed_frame_def Let_def
      by (auto simp: bnd_eq_Inr on_snd_eq simp del: list.size intro: adv)
  qed
qed

lemma nudged_trans: "nudged m e f \<Longrightarrow> nudged n f g \<Longrightarrow> nudged (m + n) e g"
  by (simp add: nudged_def)

lemma start_encoder_ok:
  assumes "start_encoder C file key salt sid header (lim_segment limits) h = (Inr e, t)"
  shows "encoder_ok limits e"
proof -
  obtain k u v where k: "with_object (new_encoder file k (encode_prefix (key_id key) salt sid FORMAT_VERSION)
      (lim_segment limits) FORMAT_VERSION) (start_header C header) u = (Inr e, v)"
    using assms by (auto simp: start_encoder_def start_with_version_def Let_def bnd_eq_Inr)
  define n where "n = new_encoder file k (encode_prefix (key_id key) salt sid FORMAT_VERSION) (lim_segment limits) FORMAT_VERSION"
  have n: "e_limit n = lim_segment limits" "e_version n = FORMAT_VERSION" by (simp_all add: n_def new_encoder_def)
  from k obtain v' where "start_header C header (n, u) = (Inr (), (e, v'))"
    unfolding n_def [symmetric] by (auto simp: with_object_def split: prod.splits sum.splits)
  then obtain w where w: "write_typed_frame C FRAME_HEADER (encode_header header) False (n, u) = (Inr (), (e, w))"
    "\<not> terminal_exceeds e"
    by (auto simp: start_header_def bnd_eq_Inr on_snd_eq split: if_split_asm)
  have "e_limit e = lim_segment limits" "e_version e = FORMAT_VERSION"
    using write_typed_frame_nudged [OF w(1)] n by (simp_all add: nudged_def)
  with w(2) show ?thesis
    by (auto simp: encoder_ok_def terminal_exceeds_def terminal_frame_bytes_simps word_le_nat_alt not_less
        dest!: unat_checked_add split: option.split_asm)
qed

lemma append_event_ok:
  assumes "append_event C x (e, h) = (r, (e', t))" "encoder_ok limits e"
  shows "encoder_ok limits e'"
proof (cases "check_event e x")
  case (Inl er)
  with assms show ?thesis by (auto simp: append_event_def bnd_def)
next
  case (Inr c)
  obtain n b p where c: "c = (n, b, p)" by (cases c)
  have v: "e_version e = FORMAT_VERSION" using assms(2) by (simp add: encoder_ok_def)
  note room = check_event_Ok(2) [OF Inr [unfolded c] v]
  obtain r1 u v where w: "write_typed_frame C FRAME_EVENT x True (e, h) = (r1, (u, v))" by (metis prod.exhaust)
  have "e' = u \<or> e' = count_event n b p x u"
    using assms(1) Inr w by (cases r1) (auto simp: append_event_def bnd_def c)
  with write_typed_frame_nudged [OF w] assms(2) room show ?thesis
    by (auto simp: encoder_ok_def nudged_def)
qed

lemma finish_position:
  assumes "finish C meta (e, h) = (Inr (s, n), t)" "encoder_ok limits e" "length meta \<le> MAX_RECOVERY_METADATA_BYTES" "cipher_ok C"
  shows "unat n \<le> unat (lim_segment limits)"
proof -
  have v: "e_version e = FORMAT_VERSION" using assms(2) by (simp add: encoder_ok_def)
  have f: "length (encode_footer (encoder_summary C e)) = 48"
    using assms(4) by (simp add: summary_sized_def encoder_summary_def)
  from assms(1) v obtain u1 h1 u2 h2 where w:
    "write_typed_frame C FRAME_RECOVERY_METADATA meta False (e, h) = (Inr (), (u1, h1))"
    "write_typed_frame C FRAME_FOOTER (encode_footer (encoder_summary C e)) False (u1, h1) = (Inr (), (u2, h2))"
    "n = e_position u2"
    by (auto simp: finish_def finish_inner_def Let_def bnd_eq_Inr on_snd_eq)
  from nudged_trans [OF write_typed_frame_nudged [OF w(1)] write_typed_frame_nudged [OF w(2)]] f assms(2,3)
  show ?thesis by (simp add: w(3) nudged_def encoder_ok_def MAX_RECOVERY_METADATA_BYTES_def)
qed

section \<open>What the operations do to the accounting\<close>

definition fresh_writer :: "spool \<Rightarrow> segment_header \<Rightarrow> segment_writer \<Rightarrow> bool" where
  "fresh_writer sp header w \<longleftrightarrow> w_reserved w \<and> \<not> w_published w \<and> w_header w = header \<and>
     (\<exists>e. w_encoder w = Some e \<and> encoder_ok (sp_limits sp) e)"

lemma yields_attempt: "yields Q m \<Longrightarrow> yields (\<lambda>r. case r of Inr a \<Rightarrow> Q a | Inl _ \<Rightarrow> True) (attempt m)"
  by (rule hoare_attempt) simp

lemma start_encoder_yields:
  "yields (encoder_ok limits) (start_encoder C fd key salt sid header (lim_segment limits))"
  by (rule hoareI) (auto dest: start_encoder_ok)

lemma create_segment_yields: "yields (fresh_writer sp header) (create_segment C sp header dir n collided)"
proof (induction n arbitrary: collided)
  case (Suc n)
  show ?case
    unfolding create_segment.simps Let_def
  proof (rule yields_bnd [OF yields_any], rule yields_bnd [OF yields_any], rule yields_bnd [OF yields_any],
      rule hoare_case_sum)
    fix bs salt r e
    show "yields (fresh_writer sp header) (if sp_io_kind e = Some AlreadyExists
        then create_segment C sp header dir n True else throw e)"
      by (intro hoare_if Suc.IH yields_throw)
  next
    fix bs salt r fd
    show "yields (fresh_writer sp header)
        (bnd (attempt (start_encoder C fd (sp_key sp) salt (SegmentId bs) header (lim_segment (sp_limits sp)))) (\<lambda>r.
         case r of
           Inl e \<Rightarrow> bnd (attempt (sys_remove_file (dir @ [segment_file (SegmentId bs) OPEN_EXTENSION]))) (\<lambda>_. throw e)
         | Inr encoder \<Rightarrow>
             ret \<lparr>w_encoder = Some encoder, w_open_path = dir @ [segment_file (SegmentId bs) OPEN_EXTENSION],
               w_header = header, w_id = SegmentId bs, w_reserved = True, w_published = False\<rparr>))"
      by (rule yields_bnd [OF yields_attempt [OF start_encoder_yields]], rule hoare_case_sum)
        (auto intro!: yields_bnd [OF yields_any] yields_throw yields_ret simp: fresh_writer_def)
  qed
qed (simp add: yields_throw)

lemma begin_segment_effect:
  assumes "begin_segment C sp header (acc, h) = (r, (acc', t))" "consistent (sp_limits sp) W acc"
  shows "case r of
      Inr w \<Rightarrow> fresh_writer sp header w \<and> consistent (sp_limits sp) (add_mset (hdr_input_key header) W) acc'
    | Inl _ \<Rightarrow> consistent (sp_limits sp) W acc'"
    "within_limits base (sp_limits sp) acc \<Longrightarrow> within_limits base (sp_limits sp) acc'"
proof -
  let ?l = "sp_limits sp" and ?k = "hdr_input_key header"
  obtain r0 a where a: "reserve ?l ?k acc = (r0, a)" by force
  note rc = reserve_consistent [OF a assms(2)]
  have "(case r of Inr w \<Rightarrow> fresh_writer sp header w \<and> consistent ?l (add_mset ?k W) acc' | Inl _ \<Rightarrow> consistent ?l W acc') \<and>
      (within_limits base ?l acc \<longrightarrow> within_limits base ?l acc')"
  proof (cases r0)
    case (Inl e)
    with a assms rc show ?thesis by (auto simp: begin_segment_def bnd_def on_accounts_def)
  next
    case (Inr u)
    obtain r1 h1 where b: "begin_reserved_segment C sp header h = (r1, h1)" by force
    show ?thesis
    proof (cases r1)
      case (Inl e)
      obtain x a' where rel: "release_reservation ?l ?k a = (x, a')" by force
      with a b Inl Inr assms(1) have "r = Inl e" "acc' = a'"
        by (auto simp: begin_segment_def bnd_def on_accounts_def attempt_def on_snd_apply release_reservation_def)
      with release_consistent [OF _ _ rel, of "add_mset ?k W"] rc Inr show ?thesis by auto
    next
      case w: (Inr w)
      have "yields (fresh_writer sp header) (begin_reserved_segment C sp header)"
        unfolding begin_reserved_segment_def Let_def
        by (intro yields_bnd [OF yields_any] create_segment_yields)
      from hoare_Inr [OF this TrueI b [unfolded w]] have "fresh_writer sp header w" .
      with a b w Inr assms(1) rc show ?thesis
        by (auto simp: begin_segment_def bnd_def on_accounts_def attempt_def on_snd_apply)
    qed
  qed
  then show "case r of
      Inr w \<Rightarrow> fresh_writer sp header w \<and> consistent ?l (add_mset ?k W) acc' | Inl _ \<Rightarrow> consistent ?l W acc'"
    "within_limits base ?l acc \<Longrightarrow> within_limits base ?l acc'" by auto
qed

lemma drop_writer_effect:
  "snd (drop_writer sp w (acc, h)) = (acc', t) \<Longrightarrow>
     acc' = (if w_reserved w then snd (release_reservation (sp_limits sp) (hdr_input_key (w_header w)) acc) else acc)"
  by (auto simp: drop_writer_def bnd_def on_accounts_def attempt_def on_snd_apply release_reservation_def
      split: if_split_asm prod.split_asm)

text \<open>A consumed writer gives its reservation back or turns it into stored bytes.\<close>

definition settled :: "spool \<Rightarrow> input_key \<Rightarrow> accounting \<Rightarrow> accounting \<Rightarrow> bool" where
  "settled sp k acc acc' \<longleftrightarrow> acc' = snd (release_reservation (sp_limits sp) k acc :: (spool_error + unit) \<times> _) \<or>
     (\<exists>r n. publish_reservation (sp_limits sp) k n acc = (r, acc') \<and> unat n \<le> unat (lim_segment (sp_limits sp)))"

lemma settled_consistent:
  assumes "settled sp k acc acc'" "consistent (sp_limits sp) W acc" "k \<in># W"
  shows "consistent (sp_limits sp) (W - {#k#}) acc'"
    "within_limits base (sp_limits sp) acc \<Longrightarrow> within_limits base (sp_limits sp) acc'"
  using assms(1) release_consistent [OF assms(2,3)] publish_consistent [OF assms(2,3)]
  unfolding settled_def by (metis prod.collapse)+

lemma seal_body_effect:
  assumes "seal_body C sp meta (w, (acc, h)) = (r, (w', (acc', t)))" "w_reserved w"
    and "\<And>e. w_encoder w = Some e \<Longrightarrow> encoder_ok (sp_limits sp) e" "length meta \<le> MAX_RECOVERY_METADATA_BYTES" "cipher_ok C"
  shows "w_header w' = w_header w \<and> ((w_reserved w' \<and> acc' = acc) \<or>
    (\<not> w_reserved w' \<and> (\<exists>r n. publish_reservation (sp_limits sp) (hdr_input_key (w_header w)) n acc = (r, acc') \<and>
       unat n \<le> unat (lim_segment (sp_limits sp)))))"
proof (cases "w_encoder w")
  case None
  with assms(1,2) show ?thesis by (auto simp: seal_body_def bnd_def)
next
  case (Some e)
  obtain f e' h1 where f: "finish C meta (e, h) = (f, (e', h1))" by (metis prod.exhaust)
  show ?thesis
  proof (cases f)
    case (Inl x)
    with assms(1,2) Some f show ?thesis
      by (auto simp: seal_body_def bnd_def modify_writer_def consume_encoder_def on_host_def on_snd_def)
  next
    case (Inr sn)
    obtain s n where sn: "sn = (s, n)" by (cases sn)
    have n: "unat n \<le> unat (lim_segment (sp_limits sp))"
      by (rule finish_position [OF f [unfolded Inr sn] assms(3) [OF Some] assms(4,5)])
    obtain p h2 where p: "publish_file w (with_extension (w_open_path w) READY_EXTENSION) h1 = (p, h2)"
      by (metis prod.exhaust)
    obtain q a where q: "publish_reservation (sp_limits sp) (hdr_input_key (w_header w)) n acc = (q, a)" by (metis prod.exhaust)
    show ?thesis
      using assms(1,2) Some f Inr sn p q n
      by (cases p; cases q)
        (auto simp: seal_body_def bnd_def modify_writer_def consume_encoder_def on_host_def on_snd_def Let_def
          publish_file_def handle_def on_accounts_def split: prod.split_asm sum.split_asm if_split_asm)
  qed
qed

lemma consuming_effect:
  assumes "consuming sp m w (acc, h) = (r, (acc', t))"
  obtains r1 w1 acc1 h1 where "m (w, (acc, h)) = (r1, (w1, (acc1, h1)))"
    "acc' = (if w_reserved w1 then snd (release_reservation (sp_limits sp) (hdr_input_key (w_header w1)) acc1) else acc1)"
proof -
  obtain r1 w1 acc1 h1 where m: "m (w, (acc, h)) = (r1, (w1, (acc1, h1)))" by (metis prod.exhaust)
  with assms have "snd (drop_writer sp w1 (acc1, h1)) = (acc', t)" by (simp add: consuming_def)
  from that [OF m drop_writer_effect [OF this]] show thesis .
qed

lemma seal_effect:
  assumes "seal_with_recovery_metadata C sp meta w (acc, h) = (r, (acc', t))" "w_reserved w"
    and "\<And>e. w_encoder w = Some e \<Longrightarrow> encoder_ok (sp_limits sp) e" "length meta \<le> MAX_RECOVERY_METADATA_BYTES" "cipher_ok C"
  shows "settled sp (hdr_input_key (w_header w)) acc acc'"
proof -
  obtain r1 w1 acc1 h1 where 1: "seal_body C sp meta (w, (acc, h)) = (r1, (w1, (acc1, h1)))"
    "acc' = (if w_reserved w1 then snd (release_reservation (sp_limits sp) (hdr_input_key (w_header w1)) acc1 :: (spool_error + unit) \<times> _) else acc1)"
    using consuming_effect [OF assms(1) [unfolded seal_with_recovery_metadata_def]] by metis
  from seal_body_effect [OF 1(1) assms(2-5)] 1(2) show ?thesis unfolding settled_def by auto
qed

lemma abort_body_effect:
  assumes "abort_body sp (w, (acc, h)) = (r, (w', (acc', t)))" "w_reserved w"
  shows "w_header w' = w_header w \<and> (if w_reserved w' then acc' = acc
    else acc' = snd (release_reservation (sp_limits sp) (hdr_input_key (w_header w)) acc :: (spool_error + unit) \<times> _))"
proof -
  obtain q h1 where q: "remove_if_present (w_open_path w) h = (q, h1)" by (metis prod.exhaust)
  obtain y h2 where y: "sync_directory (butlast (w_open_path w)) ''segment_abort'' h1 = (y, h2)" by (metis prod.exhaust)
  show ?thesis
    using assms q y
    by (cases q; cases y)
      (auto simp: abort_body_def bnd_def modify_writer_def on_host_def on_snd_def on_accounts_def release_reservation_def
        split: if_split_asm)
qed

lemma abort_effect:
  assumes "abort_writer sp w (acc, h) = (r, (acc', t))" "w_reserved w"
  shows "settled sp (hdr_input_key (w_header w)) acc acc'"
proof -
  obtain r1 w1 acc1 h1 where 1: "abort_body sp (w, (acc, h)) = (r1, (w1, (acc1, h1)))"
    "acc' = (if w_reserved w1 then snd (release_reservation (sp_limits sp) (hdr_input_key (w_header w1)) acc1 :: (spool_error + unit) \<times> _) else acc1)"
    using consuming_effect [OF assms(1) [unfolded abort_writer_def]] by metis
  from abort_body_effect [OF 1(1) assms(2)] 1(2) show ?thesis unfolding settled_def by (auto split: if_split_asm)
qed

lemma compact_effect:
  assumes "compact_delivered C sp s (acc, h) = (r, (acc', t))"
  shows "acc' = acc \<or> (\<exists>r. remove_stored (hdr_input_key (ds_header s)) (ds_len s) acc = (r, acc'))"
proof -
  obtain v h1 where v: "validate_delivered_handle C sp s h = (v, h1)" by (metis prod.exhaust)
  obtain q h2 where q: "sys_remove_file (ds_path s) h1 = (q, h2)" by (metis prod.exhaust)
  obtain y h3 where y: "sync_directory (butlast (ds_path s)) ''compact_delivered'' h2 = (y, h3)" by (metis prod.exhaust)
  show ?thesis
    using assms v q y
    by (cases v; cases q; cases y)
      (auto simp: compact_delivered_def bnd_def on_snd_def on_accounts_def map_fail_def split: if_split_asm prod.split_asm)
qed

section \<open>Any sequence of operations\<close>

text \<open>
  The live writers and the accounting. The host of every step is arbitrary: whatever happened to the
  files in between, and whatever fails inside, the books stay right.
\<close>

inductive spool_step ::
    "spool_crypto \<Rightarrow> spool \<Rightarrow> segment_writer list \<times> accounting \<Rightarrow> segment_writer list \<times> accounting \<Rightarrow> bool"
  for C sp where
  Begin: "begin_segment C sp header (acc, h) = (Inr w, (acc', t)) \<Longrightarrow>
    spool_step C sp (ws, acc) (w # ws, acc')"
| Refused: "begin_segment C sp header (acc, h) = (Inl e, (acc', t)) \<Longrightarrow>
    spool_step C sp (ws, acc) (ws, acc')"
| Append: "writer_append C event (w, acc, h) = (r, (w', acc', t)) \<Longrightarrow>
    spool_step C sp (ws @ w # vs, acc) (ws @ w' # vs, acc')"
| Seal: "length meta \<le> MAX_RECOVERY_METADATA_BYTES \<Longrightarrow>
    seal_with_recovery_metadata C sp meta w (acc, h) = (r, (acc', t)) \<Longrightarrow>
    spool_step C sp (ws @ w # vs, acc) (ws @ vs, acc')"
| Abort: "abort_writer sp w (acc, h) = (r, (acc', t)) \<Longrightarrow> spool_step C sp (ws @ w # vs, acc) (ws @ vs, acc')"
| Drop: "drop_writer sp w (acc, h) = (r, (acc', t)) \<Longrightarrow> spool_step C sp (ws @ w # vs, acc) (ws @ vs, acc')"
| Compact: "compact_delivered C sp s (acc, h) = (r, (acc', t)) \<Longrightarrow> spool_step C sp (ws, acc) (ws, acc')"

inductive_cases spool_stepE: "spool_step C sp (ws, acc) (ws', acc')"

definition writer_keys :: "segment_writer list \<Rightarrow> input_key multiset" where
  "writer_keys ws = mset (map (\<lambda>w. hdr_input_key (w_header w)) ws)"

lemma writer_keys_simps [simp]:
  "writer_keys [] = {#}" "writer_keys (w # ws) = add_mset (hdr_input_key (w_header w)) (writer_keys ws)"
  "writer_keys (ws @ vs) = writer_keys ws + writer_keys vs" "size (writer_keys ws) = length ws"
  by (simp_all add: writer_keys_def)

definition live_writer :: "spool \<Rightarrow> segment_writer \<Rightarrow> bool" where
  "live_writer sp w \<longleftrightarrow> w_reserved w \<and> (\<forall>e. w_encoder w = Some e \<longrightarrow> encoder_ok (sp_limits sp) e)"

definition books :: "spool \<Rightarrow> segment_writer list \<times> accounting \<Rightarrow> bool" where
  "books sp s \<longleftrightarrow> consistent (sp_limits sp) (writer_keys (fst s)) (snd s) \<and> (\<forall>w \<in> set (fst s). live_writer sp w)"

lemma writer_append_effect:
  assumes "writer_append C event (w, acc, h) = (r, (w', acc', t))" "live_writer sp w"
  shows "acc' = acc" "w_header w' = w_header w" "live_writer sp w'"
  using assms
  by (auto simp: writer_append_def live_writer_def dest: append_event_ok split: option.split_asm prod.split_asm)

lemma books_settled:
  assumes "books sp (ws @ w # vs, acc)" "settled sp (hdr_input_key (w_header w)) acc acc'"
  shows "books sp (ws @ vs, acc')" "within_limits base (sp_limits sp) acc \<Longrightarrow> within_limits base (sp_limits sp) acc'"
  using settled_consistent [OF assms(2), of "writer_keys (ws @ w # vs)"] assms(1) by (auto simp: books_def)

lemma spool_step_books:
  assumes "spool_step C sp s s'" "books sp s" "cipher_ok C"
  shows "books sp s' \<and> (within_limits base (sp_limits sp) (snd s) \<longrightarrow> within_limits base (sp_limits sp) (snd s'))"
  using assms(1,2)
proof cases
  case (Begin header acc h w acc' t ws)
  with begin_segment_effect [OF Begin(3)] assms(2) show ?thesis
    by (auto simp: books_def fresh_writer_def live_writer_def)
next
  case (Refused header acc h e acc' t ws)
  with begin_segment_effect [OF Refused(3)] assms(2) show ?thesis by (auto simp: books_def)
next
  case (Append event w acc h r w' acc' t ws vs)
  then have "live_writer sp w" using assms(2) by (auto simp: books_def)
  from writer_append_effect [OF Append(3) this] Append assms(2) show ?thesis by (auto simp: books_def)
next
  case (Seal meta w acc h r acc' t ws vs)
  then have "live_writer sp w" using assms(2) by (auto simp: books_def)
  with seal_effect [OF Seal(4) _ _ Seal(3) assms(3)] have "settled sp (hdr_input_key (w_header w)) acc acc'"
    by (auto simp: live_writer_def)
  from books_settled [OF _ this] Seal assms(2) show ?thesis by simp
next
  case (Abort w acc h r acc' t ws vs)
  then have "live_writer sp w" using assms(2) by (auto simp: books_def)
  with abort_effect [OF Abort(3)] have "settled sp (hdr_input_key (w_header w)) acc acc'" by (auto simp: live_writer_def)
  from books_settled [OF _ this] Abort assms(2) show ?thesis by simp
next
  case (Drop w acc h r acc' t ws vs)
  then have "live_writer sp w" using assms(2) by (auto simp: books_def)
  with drop_writer_effect [of sp w acc h acc' t] Drop(3) have "settled sp (hdr_input_key (w_header w)) acc acc'"
    by (auto simp: live_writer_def settled_def)
  from books_settled [OF _ this] Drop assms(2) show ?thesis by simp
next
  case (Compact s acc h r acc' t ws)
  from compact_effect [OF Compact(3)] remove_stored_consistent [of "sp_limits sp" _ acc] Compact assms(2)
  show ?thesis by (auto simp: books_def)
qed

lemma spool_run_books:
  assumes "rtranclp (spool_step C sp) s s'" "books sp s" "cipher_ok C"
  shows "books sp s' \<and> (within_limits base (sp_limits sp) (snd s) \<longrightarrow> within_limits base (sp_limits sp) (snd s'))"
  using assms(1)
proof induction
  case (step t u)
  with spool_step_books [OF step(2) _ assms(3)] show ?case by blast
qed (use assms(2) in simp)

lemma begin_segment_reserved:
  assumes "begin_segment C sp header (acc, h) = (Inr w, (acc', t))"
  shows "reserve (sp_limits sp) (hdr_input_key header) acc = (Inr (), acc')"
proof -
  obtain r0 a where a: "reserve (sp_limits sp) (hdr_input_key header) acc = (r0, a)" by force
  obtain r1 h1 where b: "begin_reserved_segment C sp header h = (r1, h1)" by force
  show ?thesis
    using assms a b
    by (cases r0; cases r1)
      (auto simp: begin_segment_def bnd_def on_accounts_def attempt_def on_snd_apply release_reservation_def)
qed

section \<open>Properties\<close>

text \<open>A spool opened on an empty private root, and one segment begun in it.\<close>

definition demo_limits :: spool_limits where
  "demo_limits = \<lparr>lim_segment = 1024, lim_input = 2048, lim_global = 4096\<rparr>"

definition demo_spool_host :: host where
  "demo_spool_host = \<lparr>nodes = [([], Dir 0x1C0)], umask = 0, process_id = 1, next_temp_file = 0,
     entropy = [replicate 16 9, replicate 32 8], faults = [], stopped = False\<rparr>"

text \<open>Opened, a segment begun, one event appended, sealed.\<close>

definition demo_open :: "spool_error + (spool \<times> accounting \<times> host)" where
  "demo_open =
     (case open_spool demo_crypto [''spool''] demo_spool_key demo_limits demo_spool_host of
        (Inr (sp, acc), h) \<Rightarrow> Inr (sp, acc, h) | (Inl e, _) \<Rightarrow> Inl e)"

definition demo_begin :: "spool_error + (spool \<times> accounting \<times> host \<times> segment_writer \<times> accounting \<times> host)" where
  "demo_begin = bindr demo_open (\<lambda>(sp, acc, h).
     case begin_segment demo_crypto sp demo_header (acc, h) of
       (Inr w, (acc', h')) \<Rightarrow> Inr (sp, acc, h, w, acc', h') | (Inl e, _) \<Rightarrow> Inl e)"

lemma demo_begins: "case demo_begin of Inr (sp, acc, h, w, acc', h') \<Rightarrow> acc_stored acc = 0 | Inl _ \<Rightarrow> False"
  by code_simp

lemma demo_begun:
  obtains sp acc h w acc' h' where
    "open_spool demo_crypto [''spool''] demo_spool_key demo_limits demo_spool_host = (Inr (sp, acc), h)"
    "begin_segment demo_crypto sp demo_header (acc, h) = (Inr w, (acc', h'))" "acc_stored acc = 0"
proof -
  obtain sp acc h w acc' h' where d: "demo_begin = Inr (sp, acc, h, w, acc', h')" "acc_stored acc = 0"
    using demo_begins by (auto split: sum.split_asm)
  then have r: "open_spool demo_crypto [''spool''] demo_spool_key demo_limits demo_spool_host = (Inr (sp, acc), h)"
    "begin_segment demo_crypto sp demo_header (acc, h) = (Inr w, (acc', h'))"
    by (auto simp: demo_begin_def demo_open_def bindr_def split: sum.split_asm prod.split_asm)
  from r d(2) show thesis by (rule that)
qed

text \<open>
  C30. The quota holds. After a successful startup, any sequence of begun, refused, appended, sealed,
  aborted and dropped writers and compactions, over any host and any faults, keeps the books: the
  reserved bytes are exactly one full segment per live writer, in total and per input, the stored bytes
  are the sum over the inputs. And no input, and not the whole spool, ever goes beyond its quota; one that
  startup found beyond its quota, which it does not refuse, never grows beyond what was found. Each
  input's bound depends on that input alone.
\<close>
theorem quota_never_exceeded:
  assumes "cipher_ok C" "open_spool C root key limits h = (Inr (sp, acc0), t)"
    and "rtranclp (spool_step C sp) ([], acc0) (ws, acc)"
  shows "(\<forall>k. unat (bytes_of (reserved_by_input acc) k) = count (writer_keys ws) k * unat (lim_segment limits)) \<and>
    unat (acc_reserved acc) = length ws * unat (lim_segment limits) \<and>
    unat (acc_stored acc) = table_total (stored_by_input acc) \<and>
    (\<forall>k. unat (bytes_of (stored_by_input acc) k) + unat (bytes_of (reserved_by_input acc) k) \<le>
       max (unat (bytes_of (stored_by_input acc0) k)) (unat (lim_input limits))) \<and>
    unat (acc_stored acc) + unat (acc_reserved acc) \<le> max (unat (acc_stored acc0)) (unat (lim_global limits))"
proof -
  from open_spool_consistent [OF assms(2)] have o: "sp_limits sp = limits" "books sp ([], acc0)"
    "\<forall>k. bytes_of (reserved_by_input acc0) k = 0" "acc_reserved acc0 = 0"
    by (auto simp: books_def consistent_def unat_eq_0)
  have "books sp (ws, acc)" "within_limits acc0 limits acc"
    using spool_run_books [OF assms(3) o(2) assms(1), of acc0] o(1) within_start [of acc0 limits] by simp_all
  then show ?thesis using o by (simp add: books_def consistent_def within_limits_def)
qed

lemma quota_never_exceeded_witness:
  "\<exists>sp acc0 ws acc. rtranclp (spool_step demo_crypto sp) ([], acc0) (ws, acc) \<and> length ws = 1 \<and>
     unat (acc_reserved acc) = 1024 \<and> unat (acc_stored acc) + unat (acc_reserved acc) \<le> 4096"
proof -
  obtain sp acc h w acc' h' where o: "open_spool demo_crypto [''spool''] demo_spool_key demo_limits demo_spool_host = (Inr (sp, acc), h)"
    "begin_segment demo_crypto sp demo_header (acc, h) = (Inr w, (acc', h'))" "acc_stored acc = 0"
    by (rule demo_begun)
  from spool_step.Begin [OF o(2)] have r: "rtranclp (spool_step demo_crypto sp) ([], acc) ([w], acc')"
    by (rule r_into_rtranclp)
  from quota_never_exceeded [OF demo_cipher o(1) r] o(3) r show ?thesis
    by (intro exI [of _ sp] exI [of _ acc] exI [of _ "[w]"] exI [of _ acc']) (simp add: demo_limits_def)
qed

text \<open>
  A new segment fits. When a segment is begun, whatever the accounting was before, its input and
  the whole spool are within their quotas with the full new segment counted.
\<close>
theorem begun_segment_fits:
  assumes "begin_segment C sp header (acc, h) = (Inr w, (acc', t))"
  shows "unat (bytes_of (stored_by_input acc') (hdr_input_key header)) +
      unat (bytes_of (reserved_by_input acc') (hdr_input_key header)) \<le> unat (lim_input (sp_limits sp)) \<and>
    unat (acc_stored acc') + unat (acc_reserved acc') \<le> unat (lim_global (sp_limits sp)) \<and>
    unat (acc_reserved acc') = unat (acc_reserved acc) + unat (lim_segment (sp_limits sp)) \<and>
    stored_by_input acc' = stored_by_input acc"
  using begin_segment_reserved [OF assms]
proof (cases rule: reserve_cases)
  case charged
  let ?n = "lim_segment (sp_limits sp)" and ?k = "hdr_input_key header"
  have a: "unat (acc_reserved acc) + unat ?n < 2 ^ 64" "unat (bytes_of (reserved_by_input acc) ?k) + unat ?n < 2 ^ 64"
    "acc' = acc\<lparr>acc_reserved := acc_reserved acc + ?n,
       reserved_by_input := (reserved_by_input acc)(?k \<mapsto> bytes_of (reserved_by_input acc) ?k + ?n)\<rparr>"
    using charged(1) unfolding charge_reservation_Ok by blast+
  have "unat (acc_reserved acc + ?n) = unat (acc_reserved acc) + unat ?n"
    "unat (bytes_of (reserved_by_input acc) ?k + ?n) = unat (bytes_of (reserved_by_input acc) ?k) + unat ?n"
    using a(1,2) by (simp_all add: unat_add_small)
  with charged(2,3) show ?thesis by (simp add: a(3))
qed simp

lemma begun_segment_fits_witness:
  "\<exists>sp acc h w acc' t. begin_segment demo_crypto sp demo_header (acc, h) = (Inr w, (acc', t)) \<and>
     unat (acc_stored acc') + unat (acc_reserved acc') \<le> unat (lim_global (sp_limits sp)) \<and>
     unat (acc_reserved acc') = unat (acc_reserved acc) + unat (lim_segment (sp_limits sp))"
proof -
  obtain sp acc h w acc' h' where o: "begin_segment demo_crypto sp demo_header (acc, h) = (Inr w, (acc', h'))"
    by (rule demo_begun)
  from begun_segment_fits [OF o] o show ?thesis by blast
qed

end
