(* ===== verification/Spool_Lifecycle.thy ===== *)
theory Spool_Lifecycle
  imports Spool_Quota
begin

text \<open>
  What the operations of the spool do to the files: the checks change nothing, a segment being written
  touches only its own open file, a ready file appears only as the complete image of its events, and
  the later transitions move a validated file or remove a delivered one.
\<close>

section \<open>The checks change nothing\<close>

definition spool_link_error :: "secure_store_error \<Rightarrow> spool_error" where
  "spool_link_error e =
     (case err_io_kind e of
        None \<Rightarrow> sp_error ''DBX-RS-SPOOL-PATH-0003'' ''path_validate'' ''spool path contains a symbolic link''
      | Some k \<Rightarrow> sp_io_error ''DBX-RS-SPOOL-PATH-0002'' ''path_validate'' ''failed to inspect a spool path'' k)"

text \<open>The link check of the spool is the one of the protected store, with other errors.\<close>

lemma reject_spool_links_map: "reject_spool_links as h = map_fail spool_link_error (reject_links as) h"
proof (induction as arbitrary: h)
  case (Cons a as)
  obtain r t where rt: "sys_lstat a h = (r, t)" by (metis prod.exhaust)
  then show ?case
    using Cons [of t]
    by (cases r) (auto simp: bnd_def attempt_def map_fail_def spool_link_error_def fs_error_def fs_io_error_def
        split: prod.splits)
qed (simp add: map_fail_def)

lemma hoare_reject_spool:
  "hoare (holds L D) (reject_spool_symlinks p) (\<lambda>_ h. holds L D h \<and> plain_in L p) (\<lambda>_. holds L D)"
proof -
  have "reject_spool_symlinks p = map_fail spool_link_error (reject_existing_ancestor_symlinks p)"
    by (rule ext) (simp add: reject_spool_symlinks_def reject_existing_ancestor_symlinks_def reject_spool_links_map)
  then show ?thesis using hoare_map_fail_const [OF hoare_reject] by metis
qed

lemma hoare_path_exists: "hoare (holds L D) (path_exists p) (\<lambda>_. holds L D) (\<lambda>_. E)"
proof (rule hoareI)
  fix h b t assume h: "holds L D h" and run: "path_exists p h = (Inr b, t)"
  then obtain r where "sys_stat p h = (r, t)" by (auto simp: path_exists_def split: prod.splits)
  then show "holds L D t"
    using hoare_Inr [OF hoare_sys_stat h] hoare_Inl [OF hoare_sys_stat h] by (cases r) auto
qed (auto simp: path_exists_def split: prod.splits)

lemma hoare_match:
  assumes "hoare P m R S" "\<And>a. hoare (R a) (g a) Q E" "\<And>e. hoare (S e) (f e) Q E"
  shows "hoare P (bnd (attempt m) (\<lambda>r. case r of Inl e \<Rightarrow> f e | Inr a \<Rightarrow> g a)) Q E"
proof -
  have "hoare P (attempt m) (\<lambda>r. case r of Inl e \<Rightarrow> S e | Inr a \<Rightarrow> R a) E"
    by (rule hoare_attempt) (use assms(1) in simp)
  then show ?thesis
    by (rule hoare_bnd) (auto split: sum.split intro: assms(2,3))
qed

lemma keepsD: "keeps P m \<Longrightarrow> P h \<Longrightarrow> m h = (r, t) \<Longrightarrow> P t"
  by (cases r) (auto dest: hoare_Inr hoare_Inl)

lemma hoare_post:
  "hoare P m (\<lambda>a h. Q a h \<and> R a h) E \<Longrightarrow> hoare P m Q E"
  by (erule hoare_weaken) auto

lemma hoare_inspect_directory: "hoare (holds L D) (inspect_directory p) (\<lambda>_. holds L D) (\<lambda>_. holds L D)"
  unfolding inspect_directory_def
  by (rule hoare_bnd [where R = "\<lambda>_. holds L D"], rule hoare_map_fail_const, rule hoare_weaken [OF hoare_sys_lstat [of L D p]])
    (auto intro!: hoare_if hoare_throw hoare_ret)

lemma hoare_validate_private_directory:
  "hoare (holds L D) (validate_private_directory p) (\<lambda>_ h. holds L D h \<and> plain_in L p) (\<lambda>_. holds L D)"
  unfolding validate_private_directory_def
  by (rule hoare_bnd [OF hoare_reject_spool], rule hoare_weaken
      [where P = "\<lambda>h. plain_in L p \<and> holds L D h"], rule hoare_when,
      rule hoare_bnd [OF hoare_inspect_directory], rule hoare_lift_res) auto

lemma hoare_ensure_private_directory:
  "hoare (holds L D) (ensure_private_directory p) (\<lambda>_ h. holds L D h \<and> plain_in L p) (\<lambda>_. holds L D)"
proof -
  have "hoare (holds L D) (map_fail from_secure_store (ensure_private_dir p)) (\<lambda>_. holds L D) (\<lambda>_. holds L D)"
    by (rule hoare_map_fail_const, rule hoare_weaken [OF hoare_ensure_private_dir [of L D]]) (auto intro: holds_mono)
  then show ?thesis
    unfolding ensure_private_directory_def
    by (intro hoare_bnd [OF hoare_post [OF hoare_reject_spool]] hoare_bnd [OF hoare_path_exists]
        hoare_bnd [where R = "\<lambda>_. holds L D"] hoare_if hoare_inspect_directory hoare_ret hoare_validate_private_directory)
qed

lemma hoare_validate_input_directory:
  "hoare (holds L D) (validate_input_directory p)
     (\<lambda>k h. holds L D h \<and> plain_in L p \<and> p \<noteq> [] \<and> decode_hex 32 (last p) = Some (input_key_bytes k)) (\<lambda>_. holds L D)"
  unfolding validate_input_directory_def
  by (rule hoare_bnd [OF hoare_validate_private_directory], rule hoare_lift_res) (auto split: if_split_asm)

lemma hoare_validate_private_file:
  "hoare (holds L D) (validate_private_file p)
     (\<lambda>n h. holds L D h \<and> plain_in L p \<and> is_file n \<and> L p = Some n) (\<lambda>_. holds L D)"
proof -
  have leafp: "L p = Some n" if "holds L D h" "plain_in L p" "resolve_entry h p = Inr q" "node_at h q = Some n"
      "is_file n" for h q n
  proof -
    have "plain h p" using that(1,2) by (simp add: holds_def)
    then have "q = p" using resolve_entry_plain [OF plain_butlast that(3)] by simp
    with that show ?thesis by (cases n) (auto simp: holds_def leaf_def)
  qed
  have stat: "hoare (\<lambda>h. plain_in L p \<and> holds L D h) (map_fail f (sys_lstat p))
      (\<lambda>n h. (is_file n \<longrightarrow> L p = Some n) \<and> plain_in L p \<and> holds L D h) (\<lambda>_. holds L D)" for f :: "io_kind \<Rightarrow> spool_error"
    by (rule hoare_when, rule hoare_map_fail_const, rule hoare_weaken [OF hoare_sys_lstat [of L D p]]) (auto intro: leafp)
  have rest: "hoare (\<lambda>h. (is_file n \<longrightarrow> L p = Some n) \<and> plain_in L p \<and> holds L D h)
      (if is_symlink n \<or> \<not> is_file n then throw e
       else bnd (lift_res (validate_file_mode n)) (\<lambda>_. ret n))
      (\<lambda>n h. holds L D h \<and> plain_in L p \<and> is_file n \<and> L p = Some n) (\<lambda>_. holds L D)" for n e
    by (auto simp: hoare_def bnd_def split: sum.split)
  show ?thesis
    unfolding validate_private_file_def
    by (rule hoare_bnd [OF hoare_weaken [OF hoare_reject_spool, where Q' = "\<lambda>_ h. plain_in L p \<and> holds L D h"]],
        simp, simp, simp, rule hoare_bnd [OF stat], rule rest)
qed

lemma hoare_open_private_file:
  "hoare (holds L D) (open_private_file p)
     (\<lambda>q h. holds L D h \<and> q = p \<and> plain_in L p \<and> (\<exists>c m. L p = Some (File c m))) (\<lambda>_. holds L D)"
  unfolding open_private_file_def
proof (rule hoare_bnd [OF hoare_validate_private_file])
  fix n
  have "hoare (\<lambda>h. (plain_in L p \<and> is_file n \<and> L p = Some n) \<and> holds L D h) (map_fail f (sys_open p))
      (\<lambda>q h. holds L D h \<and> q = p \<and> plain_in L p \<and> (\<exists>c m. L p = Some (File c m))) (\<lambda>_. holds L D)"
    for f :: "io_kind \<Rightarrow> spool_error"
    by (rule hoare_when, rule hoare_map_fail_const, rule hoare_weaken [OF hoare_sys_open [of L D p]])
      (auto simp: holds_def dest: resolve_path_plain elim: is_file.elims)
  then show "hoare (\<lambda>h. holds L D h \<and> plain_in L p \<and> is_file n \<and> L p = Some n) (map_fail f (sys_open p))
      (\<lambda>q h. holds L D h \<and> q = p \<and> plain_in L p \<and> (\<exists>c m. L p = Some (File c m))) (\<lambda>_. holds L D)"
    for f :: "io_kind \<Rightarrow> spool_error"
    by (rule hoare_weaken) auto
qed

lemma resolve_kind: "resolve h n cur cs = Inl e \<Longrightarrow> e \<noteq> AlreadyExists"
  by (induction h n cur cs rule: resolve.induct) (auto split: option.split_asm node.split_asm if_split_asm)

lemma chmod_kind: "sys_chmod p m h = (Inl e, t) \<Longrightarrow> e \<noteq> AlreadyExists"
  by (auto simp: sys_chmod_def syscall_def resolve_path_def bindr_def ok_or_def dest: resolve_kind
      split: if_split_asm list.split_asm option.split_asm fault.split_asm sum.split_asm)

text \<open>A stray file is left behind only when its mode could not be set.\<close>

lemma hoare_create_private_file:
  "hoare (holds L D) (create_private_file p)
     (\<lambda>q h. q = p \<and> plain_in L p \<and> L p = None \<and> holds (L(p \<mapsto> File [] 0x180)) D h)
     (\<lambda>e h. \<exists>L'. (\<forall>q. q \<noteq> p \<longrightarrow> L' q = L q) \<and> (sp_io_kind e = Some AlreadyExists \<longrightarrow> L' = L) \<and> holds L' D h)"
    (is "hoare _ _ ?Q ?E")
proof -
  have E: "?E e h" if "holds L D h" for e h using that by blast
  have E': "?E e h" if "holds (L(p \<mapsto> n)) D h" "sp_io_kind e \<noteq> Some AlreadyExists" for e h n
    using that by (intro exI [of _ "L(p \<mapsto> n)"]) simp
  have create: "hoare (\<lambda>h. plain_in L p \<and> holds L D h) (map_fail f (sys_create_new p 0x180))
      (\<lambda>q h. \<exists>m. (q = p \<and> L p = None \<and> plain_in L p) \<and> holds (L(p \<mapsto> File [] m)) D h) ?E" for f :: "io_kind \<Rightarrow> spool_error"
    by (rule hoare_when, rule hoare_map_fail, rule hoare_weaken [OF hoare_sys_create_new [of L p D "0x180"]])
      (auto intro: plain_butlast E)
  have mode: "hoare (\<lambda>h. (q = p \<and> L p = None \<and> plain_in L p) \<and> holds (L(p \<mapsto> File [] m)) D h)
      (bnd (set_file_mode p) (\<lambda>_. ret q)) ?Q ?E" for q m
  proof (rule hoare_when)
    assume q: "q = p \<and> L p = None \<and> plain_in L p"
    then have pl: "plain_in (L(p \<mapsto> File [] m)) p" by (simp add: plain_update)
    note chm = hoare_sys_chmod_file [of "L(p \<mapsto> File [] m)" p "File [] m" D "0x180", OF pl fun_upd_same]
    have "hoare (holds (L(p \<mapsto> File [] m)) D) (set_file_mode p)
        (\<lambda>_. holds (L(p \<mapsto> File [] 0x180)) D) ?E"
    proof (rule hoareI)
      fix h t and a :: unit assume "holds (L(p \<mapsto> File [] m)) D h" "set_file_mode p h = (Inr a, t)"
      with hoare_Inr [OF chm] show "holds (L(p \<mapsto> File [] 0x180)) D t" by (auto simp: set_file_mode_def)
    next
      fix h e t assume h: "holds (L(p \<mapsto> File [] m)) D h" and "set_file_mode p h = (Inl e, t)"
      then obtain e' where "sys_chmod p 0x180 h = (Inl e', t)"
          "e = sp_io_error ''DBX-RS-SPOOL-PATH-0011'' ''file_permissions'' ''failed to protect spool file permissions'' e'"
        by (auto simp: set_file_mode_def map_fail_eq_Inl)
      with hoare_Inl [OF chm h] chmod_kind show "?E e t" by (intro E') (auto simp: sp_io_error_def)
    qed
    then show "hoare (holds (L(p \<mapsto> File [] m)) D) (bnd (set_file_mode p) (\<lambda>_. ret q)) ?Q ?E"
      by (rule hoare_bnd) (use q in \<open>auto intro!: hoare_ret\<close>)
  qed
  show ?thesis
    unfolding create_private_file_def
    by (rule hoare_bnd [OF hoare_weaken [OF hoare_reject_spool, where Q' = "\<lambda>_ h. plain_in L p \<and> holds L D h"]],
        simp, simp, erule E, rule hoare_bnd [OF create], rule hoare_ex, rule mode)
qed

lemma hoare_sync_directory: "hoare (holds L D) (sync_directory p stage) (\<lambda>_. holds L D) (\<lambda>_. holds L D)"
  unfolding sync_directory_def
  by (rule hoare_bnd [OF hoare_post [OF hoare_validate_private_directory]], rule hoare_map_fail_const,
      rule hoare_bnd [OF hoare_post [OF hoare_sys_open]], rule hoare_sys_fsync)

lemma hoare_read_directory: "hoare (holds L D) (read_directory p stage) (\<lambda>_. holds L D) (\<lambda>_. holds L D)"
  unfolding read_directory_def
  by (rule hoare_bnd [OF hoare_post [OF hoare_validate_private_directory]], rule hoare_map_fail_const,
      rule hoare_sys_read_dir)

lemma hoare_next_entry: "hoare (holds L D) next_entry (\<lambda>_. holds L D) (\<lambda>_. holds L D)"
  unfolding next_entry_def by (rule hoare_map_fail_const, rule hoare_syscall) (auto simp: hoare_def)

section \<open>A segment being created\<close>

text \<open>The files \<open>p\<close> aside, nothing is changed.\<close>

definition only_at :: "path set \<Rightarrow> (path \<Rightarrow> node option) \<Rightarrow> (path \<Rightarrow> node option) \<Rightarrow> bool" where
  "only_at A L L' \<longleftrightarrow> (\<forall>p. p \<notin> A \<longrightarrow> L' p = L p)"

lemma only_at_refl [simp]: "only_at A L L"
  by (simp add: only_at_def)

lemma only_at_upd: "only_at A L L' \<Longrightarrow> p \<in> A \<Longrightarrow> only_at A L (L'(p := x))"
  by (auto simp: only_at_def)

text \<open>The writer of a segment with some events, on a host.\<close>

definition writer_ready ::
    "spool_crypto \<Rightarrow> spool \<Rightarrow> segment_header \<Rightarrow> (path \<Rightarrow> node option) \<Rightarrow> path set \<Rightarrow> path \<Rightarrow> bytes list
       \<Rightarrow> segment_writer \<Rightarrow> host \<Rightarrow> bool" where
  "writer_ready C sp header L D dir es w h \<longleftrightarrow>
     w_open_path w = dir @ [segment_file (w_id w) OPEN_EXTENSION] \<and> w_header w = header \<and> w_reserved w \<and>
     \<not> w_published w \<and> L (w_open_path w) = None \<and> plain_in L (w_open_path w) \<and>
     (\<exists>salt e. w_encoder w = Some e \<and> prefix_sized (key_id (sp_key sp)) salt (w_id w) FORMAT_VERSION \<and>
        writer_at C (sp_key sp) salt (w_id w) (lim_segment (sp_limits sp)) header L D (w_open_path w) 0x180 es (e, h))"

text \<open>A file that cannot be started is removed again.\<close>

lemma hoare_start_file:
  fixes sid :: segment_id and dir :: path
  defines "q \<equiv> dir @ [segment_file sid OPEN_EXTENSION]"
  assumes "cipher_ok C" "header_sized header" "prefix_sized (key_id (sp_key sp)) salt sid FORMAT_VERSION"
    and "plain_in L q" "L q = None"
  shows "hoare (holds (L(q \<mapsto> File [] 0x180)) D)
    (bnd (attempt (start_encoder C q (sp_key sp) salt sid header (lim_segment (sp_limits sp)))) (\<lambda>r.
         case r of
           Inl e \<Rightarrow> bnd (attempt (sys_remove_file q)) (\<lambda>_. throw e)
         | Inr encoder \<Rightarrow>
             ret \<lparr>w_encoder = Some encoder, w_open_path = q, w_header = header, w_id = sid,
               w_reserved = True, w_published = False\<rparr>))
     (\<lambda>w h. writer_ready C sp header L D dir [] w h)
     (\<lambda>_ h. \<exists>L'. only_at {q} L L' \<and> holds L' D h)" (is "hoare _ _ ?Q ?E")
proof (rule hoare_match [OF hoare_start [OF assms(2-4)]])
  show "hoare (\<lambda>t. writer_at C (sp_key sp) salt sid (lim_segment (sp_limits sp)) header L D q 0x180 [] (e, t))
      (ret \<lparr>w_encoder = Some e, w_open_path = q, w_header = header, w_id = sid,
               w_reserved = True, w_published = False\<rparr>) ?Q ?E" for e
    by (rule hoare_ret) (use assms(4-6) in \<open>auto simp: writer_ready_def q_def\<close>)
  fix e :: spool_error
  have pl: "plain_in (L(q \<mapsto> File x 0x180)) (butlast q)" for x
    using assms(5) by (auto intro: plain_update dest: plain_butlast)
  have "hoare (holds (L(q \<mapsto> File x 0x180)) D) (attempt (sys_remove_file q))
      (\<lambda>_ h. \<exists>L'. only_at {q} L L' \<and> holds L' D h) ?E" for x
    by (rule hoare_attempt, rule hoare_weaken [OF hoare_sys_remove_file [OF pl, of x D]])
      (auto simp: only_at_def intro: exI [of _ "L(q \<mapsto> File x 0x180)"] exI [of _ "(L(q \<mapsto> File x 0x180))(q := None)"])
  note remove = this
  show "hoare (\<lambda>t. \<exists>x. holds (L(q \<mapsto> File x 0x180)) D t) (bnd (attempt (sys_remove_file q)) (\<lambda>_. throw e)) ?Q ?E"
    by (rule hoare_ex, rule hoare_bnd [OF remove], rule hoare_throw)
qed

lemma hoare_create_segment:
  assumes "cipher_ok C" "header_sized header" "length (key_id (sp_key sp)) = 16"
  shows "hoare (holds L D) (create_segment C sp header dir n collided)
     (\<lambda>w h. writer_ready C sp header L D dir [] w h)
     (\<lambda>_ h. \<exists>L' sid. only_at {dir @ [segment_file sid OPEN_EXTENSION]} L L' \<and> holds L' D h)" (is "hoare _ _ ?Q ?E")
proof (induction n arbitrary: collided)
  case 0
  show ?case unfolding create_segment.simps by (rule hoare_throw) (auto intro: only_at_refl)
next
  case (Suc n)
  have rnd: "hoare (\<lambda>h. \<phi> \<and> holds L D h) (map_fail f (sys_random k)) (\<lambda>bs h. (\<phi> \<and> length bs = k) \<and> holds L D h) ?E"
    for k \<phi> and f :: "io_kind \<Rightarrow> spool_error"
    by (rule hoare_when, rule hoare_map_fail, rule hoare_weaken [OF hoare_sys_random]) (auto intro: only_at_refl)
  show ?case
    unfolding create_segment.simps Let_def
  proof (rule hoare_weaken [where P = "\<lambda>h. True \<and> holds L D h"], rule hoare_bnd [OF rnd], rule hoare_bnd [OF rnd],
      rule hoare_when, rule hoare_match [OF hoare_create_private_file])
    fix bs salt :: bytes and q
    let ?q = "dir @ [segment_file (SegmentId bs) OPEN_EXTENSION]"
    assume len: "(True \<and> length bs = 16) \<and> length salt = 32"
    let ?m = "\<lambda>q. bnd (attempt (start_encoder C q (sp_key sp) salt (SegmentId bs) header (lim_segment (sp_limits sp)))) (\<lambda>r.
         case r of
           Inl e \<Rightarrow> bnd (attempt (sys_remove_file ?q)) (\<lambda>_. throw e)
         | Inr encoder \<Rightarrow>
             ret \<lparr>w_encoder = Some encoder, w_open_path = ?q, w_header = header, w_id = SegmentId bs,
               w_reserved = True, w_published = False\<rparr>)"
    have "hoare (\<lambda>h. (q = ?q \<and> plain_in L ?q \<and> L ?q = None) \<and> holds (L(?q \<mapsto> File [] 0x180)) D h) (?m q) ?Q ?E"
    proof (rule hoare_when)
      assume q: "q = ?q \<and> plain_in L ?q \<and> L ?q = None"
      then have "hoare (holds (L(?q \<mapsto> File [] 0x180)) D) (?m ?q) ?Q ?E"
        by (intro hoare_weaken [OF hoare_start_file [OF assms(1,2)]])
          (use assms(3) len in \<open>auto simp: prefix_sized_def\<close>)
      with q show "hoare (holds (L(?q \<mapsto> File [] 0x180)) D) (?m q) ?Q ?E" by simp
    qed
    then show "hoare (\<lambda>h. q = ?q \<and> plain_in L ?q \<and> L ?q = None \<and> holds (L(?q \<mapsto> File [] 0x180)) D h) (?m q) ?Q ?E"
      by (rule hoare_weaken) auto
  next
    fix bs salt e
    let ?q = "dir @ [segment_file (SegmentId bs) OPEN_EXTENSION]"
    show "hoare (\<lambda>h. \<exists>L'. (\<forall>q. q \<noteq> ?q \<longrightarrow> L' q = L q) \<and> (sp_io_kind e = Some AlreadyExists \<longrightarrow> L' = L) \<and> holds L' D h)
        (if sp_io_kind e = Some AlreadyExists then create_segment C sp header dir n True else throw e) ?Q ?E"
    proof (rule hoare_if)
      assume "sp_io_kind e = Some AlreadyExists"
      then show "hoare (\<lambda>h. \<exists>L'. (\<forall>q. q \<noteq> ?q \<longrightarrow> L' q = L q) \<and> (sp_io_kind e = Some AlreadyExists \<longrightarrow> L' = L) \<and> holds L' D h)
          (create_segment C sp header dir n True) ?Q ?E"
        by (intro hoare_weaken [OF Suc.IH]) auto
    qed (rule hoare_throw, auto simp: only_at_def)
  qed (use assms in \<open>auto\<close>)
qed

section \<open>Names of segment files\<close>

lemma hex_no_dot: "CHR ''.'' \<notin> set (encode_hex bs)"
proof
  assume "CHR ''.'' \<in> set (encode_hex bs)"
  moreover have "list_all is_lower_hex (encode_hex bs)" using decode_pairs_encode by blast
  ultimately have "is_lower_hex (CHR ''.'')" by (auto simp: list_all_iff)
  then show False by (simp add: is_lower_hex_def)
qed

lemma split_name_dot:
  assumes "CHR ''.'' \<notin> set stem" "CHR ''.'' \<notin> set ext" "stem \<noteq> []"
  shows "split_name (stem @ CHR ''.'' # ext) = (stem, Some ext)"
proof -
  have "stem @ CHR ''.'' # ext \<noteq> ''..''" using assms by (cases stem) auto
  moreover have "dropWhile (\<lambda>c. c \<noteq> CHR ''.'') (rev (stem @ CHR ''.'' # ext)) = CHR ''.'' # rev stem"
    "takeWhile (\<lambda>c. c \<noteq> CHR ''.'') (rev (stem @ CHR ''.'' # ext)) = rev ext"
    using assms(2) by (auto simp: dropWhile_append takeWhile_append)
  ultimately show ?thesis using assms(3) by (simp add: split_name_def)
qed

lemma split_segment_file:
  assumes "length (segment_id_bytes sid) = 16" "CHR ''.'' \<notin> set ext"
  shows "split_name (segment_file sid ext) = (encode_hex (segment_id_bytes sid), Some ext)"
proof -
  have "length (encode_hex (segment_id_bytes sid)) = 32" using assms(1) by simp
  then have "encode_hex (segment_id_bytes sid) \<noteq> []" by (metis list.size(3) zero_neq_numeral)
  from split_name_dot [OF hex_no_dot assms(2) this] show ?thesis by (simp add: segment_file_def)
qed

lemma extension_dots [simp]:
  "CHR ''.'' \<notin> set OPEN_EXTENSION" "CHR ''.'' \<notin> set READY_EXTENSION"
  "CHR ''.'' \<notin> set DELIVERED_EXTENSION" "CHR ''.'' \<notin> set QUARANTINE_EXTENSION"
  by (simp_all add: OPEN_EXTENSION_def READY_EXTENSION_def DELIVERED_EXTENSION_def QUARANTINE_EXTENSION_def)

lemma with_extension_segment:
  "length (segment_id_bytes sid) = 16 \<Longrightarrow> CHR ''.'' \<notin> set ext \<Longrightarrow>
   with_extension (dir @ [segment_file sid ext]) ext' = dir @ [segment_file sid ext']"
  by (simp add: with_extension_def split_segment_file) (simp add: segment_file_def)

lemma parse_segment_file:
  "length (segment_id_bytes sid) = 16 \<Longrightarrow> CHR ''.'' \<notin> set ext \<Longrightarrow>
   parse_segment_name (dir @ [segment_file sid ext]) = Inr (sid, ext)"
  by (cases sid) (simp add: parse_segment_name_def split_segment_file decode_hex_encode)

lemma segment_file_inject:
  "length (segment_id_bytes sid) = 16 \<Longrightarrow> length (segment_id_bytes sid') = 16 \<Longrightarrow>
   CHR ''.'' \<notin> set ext \<Longrightarrow> CHR ''.'' \<notin> set ext' \<Longrightarrow>
   segment_file sid ext = segment_file sid' ext' \<longleftrightarrow> sid = sid' \<and> ext = ext'"
  by (metis parse_segment_file [of sid ext "[]"] parse_segment_file [of sid' ext' "[]"] sum.inject(2) prod.inject)

lemma extensions_differ [simp]: "OPEN_EXTENSION \<noteq> READY_EXTENSION" "READY_EXTENSION \<noteq> OPEN_EXTENSION"
  "READY_EXTENSION \<noteq> DELIVERED_EXTENSION" "DELIVERED_EXTENSION \<noteq> READY_EXTENSION"
  by (simp_all add: OPEN_EXTENSION_def READY_EXTENSION_def DELIVERED_EXTENSION_def)

section \<open>Appending and sealing\<close>

text \<open>A writer whose file may hold anything.\<close>

definition writer_torn ::
    "(path \<Rightarrow> node option) \<Rightarrow> path set \<Rightarrow> path \<Rightarrow> segment_writer \<Rightarrow> host \<Rightarrow> bool" where
  "writer_torn L D dir w h \<longleftrightarrow> w_open_path w = dir @ [segment_file (w_id w) OPEN_EXTENSION] \<and>
     \<not> w_published w \<and> L (w_open_path w) = None \<and> plain_in L (w_open_path w) \<and>
     (\<exists>x. holds (L(w_open_path w \<mapsto> File x 0x180)) D h)"

lemma append_step:
  assumes "writer_ready C sp header L D dir es w h" "writer_append C x (w, acc, h) = (r, (w', acc', t))"
    and "cipher_ok C" "header_sized header"
  shows "w_id w' = w_id w" "acc' = acc"
    "case r of Inr _ \<Rightarrow> writer_ready C sp header L D dir (es @ [x]) w' t | Inl _ \<Rightarrow> writer_torn L D dir w' t"
proof -
  obtain salt e where w: "w_encoder w = Some e" "prefix_sized (key_id (sp_key sp)) salt (w_id w) FORMAT_VERSION"
      "writer_at C (sp_key sp) salt (w_id w) (lim_segment (sp_limits sp)) header L D (w_open_path w) 0x180 es (e, h)"
    using assms(1) by (auto simp: writer_ready_def)
  have f: "w_open_path w = dir @ [segment_file (w_id w) OPEN_EXTENSION]" "w_header w = header" "w_reserved w"
     "\<not> w_published w" "L (w_open_path w) = None" "plain_in L (w_open_path w)"
    using assms(1) unfolding writer_ready_def by blast+
  obtain e' where a: "append_event C x (e, h) = (r, (e', t))" "w' = w\<lparr>w_encoder := Some e'\<rparr>" "acc' = acc"
    using assms(2) w(1) by (auto simp: writer_append_def split: prod.split_asm)
  then show "w_id w' = w_id w" "acc' = acc" by simp_all
  note ho = hoare_append_event [OF assms(3,4) w(2), of "lim_segment (sp_limits sp)" L D "w_open_path w" "0x180" es x]
  show "case r of Inr _ \<Rightarrow> writer_ready C sp header L D dir (es @ [x]) w' t | Inl _ \<Rightarrow> writer_torn L D dir w' t"
  proof (cases r)
    case (Inl er)
    from hoare_Inl [OF ho w(3) a(1) [unfolded Inl]] f show ?thesis
      by (auto simp: Inl writer_torn_def torn_def a(2))
  next
    case (Inr u)
    from hoare_Inr [OF ho w(3) a(1) [unfolded Inr]] w(2) f show ?thesis
      by (auto simp: Inr writer_ready_def a(2))
  qed
qed

lemma drop_removes:
  assumes "snd (drop_writer sp w (acc, h)) = (acc', t)" "writer_torn L D dir w h"
  shows "\<exists>L'. only_at {w_open_path w} L L' \<and> holds L' D t"
proof -
  obtain x where x: "holds (L(w_open_path w \<mapsto> File x 0x180)) D h" "\<not> w_published w"
    "plain_in L (w_open_path w)"
    using assms(2) unfolding writer_torn_def by blast
  have x3: "plain_in (L(w_open_path w \<mapsto> File x 0x180)) (butlast (w_open_path w))"
    by (rule plain_update [OF plain_butlast [OF x(3)]]) simp
  obtain r u where rm: "sys_remove_file (w_open_path w) h = (r, u)" by (metis prod.exhaust)
  then have "t = u" using assms(1) x(2)
    by (auto simp: drop_writer_def bnd_def attempt_def on_snd_apply on_accounts_def release_reservation_def split: if_split_asm)
  with rm hoare_Inr [OF hoare_sys_remove_file [OF x3] x(1)] hoare_Inl [OF hoare_sys_remove_file [OF x3] x(1)]
  have "holds (L(w_open_path w \<mapsto> File x 0x180)) D t \<or> holds ((L(w_open_path w \<mapsto> File x 0x180))(w_open_path w := None)) D t"
    by (cases r) auto
  then show ?thesis by (elim disjE) (rule exI, rule conjI, rule only_at_upd, rule only_at_refl, simp, simp)+
qed


lemma hoare_publish_file:
  assumes "L (w_open_path w) = Some n" "plain_in L (w_open_path w)" "butlast p = butlast (w_open_path w)"
  shows "hoare (holds L D) (publish_file w p) (\<lambda>_. holds ((L(w_open_path w := None))(p \<mapsto> n)) D) (\<lambda>_. holds L D)"
proof -
  have pl: "plain_in L (butlast (w_open_path w))" "plain_in L (butlast p)"
    using plain_butlast [OF assms(2)] assms(3) by simp_all
  show ?thesis
    unfolding publish_file_def
    by (intro hoare_bnd [OF hoare_path_exists] hoare_if hoare_throw
        hoare_map_fail_const [OF hoare_sys_rename [OF pl assms(1)]])
qed

text \<open>What a writer of some events leaves behind when it is gone.\<close>

definition publishes ::
    "spool_crypto \<Rightarrow> spool \<Rightarrow> segment_header \<Rightarrow> (path \<Rightarrow> node option) \<Rightarrow> path set \<Rightarrow> path \<Rightarrow> segment_id
       \<Rightarrow> bytes list \<Rightarrow> bytes \<Rightarrow> spool_error + ready_segment \<Rightarrow> host \<Rightarrow> bool" where
  "publishes C sp header L D dir sid es meta r t \<longleftrightarrow>
     (\<exists>L'. holds L' D t \<and>
       only_at {dir @ [segment_file sid OPEN_EXTENSION], dir @ [segment_file sid READY_EXTENSION]} L L' \<and>
       (let p = dir @ [segment_file sid READY_EXTENSION] in
        (L' p \<noteq> L p \<or> is_ok r \<longrightarrow>
          (\<exists>salt c. segment_image C (sp_key sp) salt sid FORMAT_VERSION header es meta = Some c \<and>
             prefix_sized (key_id (sp_key sp)) salt sid FORMAT_VERSION \<and>
             length c \<le> unat (lim_segment (sp_limits sp)) \<and>
             (\<forall>x \<in> set es. event_fits (lim_segment (sp_limits sp)) FORMAT_VERSION x) \<and>
             L' p = Some (File c 0x180) \<and> L' (dir @ [segment_file sid OPEN_EXTENSION]) = None \<and>
             (\<forall>rs. r = Inr rs \<longrightarrow> rs = \<lparr>rs_path = p, rs_header = header, rs_id = sid, rs_summary = summary_of C es,
                rs_version = FORMAT_VERSION, rs_metadata = meta, rs_len = of_nat (length c)\<rparr>)))))"

lemma publishes_removed:
  "only_at {dir @ [segment_file sid OPEN_EXTENSION]} L L' \<Longrightarrow> holds L' D t \<Longrightarrow>
   publishes C sp header L D dir sid es meta (Inl e) t"
  unfolding publishes_def Let_def
  by (intro exI [of _ L']) (auto simp: only_at_def segment_file_def OPEN_EXTENSION_def READY_EXTENSION_def)


text \<open>A seal that has renamed its file.\<close>

lemma seal_body_published:
  assumes "w_encoder w = Some e" "finish C meta (e, h) = (Inr (s, n), (e', h2))"
    and "publish_file w (with_extension (w_open_path w) READY_EXTENSION) h2 = (Inr u, h3)"
    and "with_extension (w_open_path w) READY_EXTENSION = p" "p \<noteq> []"
    and "seal_body C sp meta (w, (acc, h)) = (r1, (w1, (acc1, h1)))"
  shows "w_published w1" "\<not> w_reserved w1"
    "h1 = h3 \<or> (\<exists>y. sync_directory (butlast p) ''segment_seal'' h3 = (y, h1))"
    "r1 = Inr rs \<Longrightarrow> rs = \<lparr>rs_path = p, rs_header = w_header w, rs_id = w_id w, rs_summary = s,
       rs_version = FORMAT_VERSION, rs_metadata = meta, rs_len = n\<rparr>"
proof -
  obtain q a where q: "publish_reservation (sp_limits sp) (hdr_input_key (w_header w)) n acc = (q, a)" by (metis prod.exhaust)
  obtain y h4 where y: "sync_directory (butlast p) ''segment_seal'' h3 = (y, h4)" by (metis prod.exhaust)
  have eq: "seal_body C sp meta (w, (acc, h)) =
     (let w' = w\<lparr>w_encoder := None, w_published := True, w_reserved := False\<rparr> in
      case q of
        Inl x \<Rightarrow> (Inl x, (w', (a, h3)))
      | Inr _ \<Rightarrow>
          (case y of
             Inl x \<Rightarrow> (Inl x, (w', (a, h4)))
           | Inr _ \<Rightarrow> (Inr \<lparr>rs_path = p, rs_header = w_header w, rs_id = w_id w, rs_summary = s,
               rs_version = FORMAT_VERSION, rs_metadata = meta, rs_len = n\<rparr>, (w', (a, h4)))))"
    using assms(3,5) q y
    by (cases q; cases y)
      (simp_all add: seal_body_def bnd_def modify_writer_def consume_encoder_def on_host_def on_snd_def Let_def
        handle_def on_accounts_def assms(1,2,4))
  from assms(6) y show "w_published w1" "\<not> w_reserved w1"
    "h1 = h3 \<or> (\<exists>y. sync_directory (butlast p) ''segment_seal'' h3 = (y, h1))"
    "r1 = Inr rs \<Longrightarrow> rs = \<lparr>rs_path = p, rs_header = w_header w, rs_id = w_id w, rs_summary = s,
       rs_version = FORMAT_VERSION, rs_metadata = meta, rs_len = n\<rparr>"
    unfolding eq Let_def by (cases q; cases y; force)+
qed

lemma seal_steps:
  assumes "writer_ready C sp header L D dir es w h"
    and "seal_with_recovery_metadata C sp meta w (acc, h) = (r, (acc', t))"
    and "cipher_ok C" "length meta \<le> MAX_RECOVERY_METADATA_BYTES"
  shows "publishes C sp header L D dir (w_id w) es meta r t"
proof -
  let ?sid = "w_id w" and ?q = "w_open_path w" and ?p = "with_extension (w_open_path w) READY_EXTENSION"
  obtain salt e where w: "w_encoder w = Some e" "prefix_sized (key_id (sp_key sp)) salt ?sid FORMAT_VERSION"
      "writer_at C (sp_key sp) salt ?sid (lim_segment (sp_limits sp)) header L D ?q 0x180 es (e, h)"
    using assms(1) by (auto simp: writer_ready_def)
  have g: "?q = dir @ [segment_file ?sid OPEN_EXTENSION]" "w_header w = header" "w_reserved w"
     "\<not> w_published w" "L ?q = None" "plain_in L ?q"
    using assms(1) unfolding writer_ready_def by blast+
  have sid: "length (segment_id_bytes ?sid) = 16" using w(2) by (simp add: prefix_sized_def)
  have p: "?p = dir @ [segment_file ?sid READY_EXTENSION]"
    unfolding g(1) using sid by (simp add: with_extension_segment)
  have pq: "?p \<noteq> ?q" "butlast ?p = butlast ?q"
    unfolding p unfolding g(1) using sid by (simp_all add: segment_file_inject)
  obtain r1 w1 acc1 h1 where b: "seal_body C sp meta (w, (acc, h)) = (r1, (w1, (acc1, h1)))" by (metis prod.exhaust)
  with assms(2) have r: "r = r1" "snd (drop_writer sp w1 (acc1, h1)) = (acc', t)"
    by (simp_all add: seal_with_recovery_metadata_def consuming_def)
  have torn: ?thesis if "w1 = w\<lparr>w_encoder := None\<rparr>" "r1 = Inl x" "holds (L(?q \<mapsto> File y 0x180)) D h1" for x y
  proof -
    have "writer_torn L D dir w1 h1"
      unfolding writer_torn_def using that(1,3) g by auto
    from drop_removes [OF r(2) this] obtain L' where "only_at {w_open_path w1} L L'" "holds L' D t" by blast
    then show ?thesis unfolding r that(2) by (intro publishes_removed) (use that(1) g(1) in auto)
  qed
  obtain f e' h2 where f: "finish C meta (e, h) = (f, (e', h2))" by (metis prod.exhaust)
  note hf = hoare_finish [OF assms(3,4), of "sp_key sp" salt ?sid "lim_segment (sp_limits sp)" header L D ?q "0x180" es]
  show ?thesis
  proof (cases f)
    case (Inl x)
    from hoare_Inl [OF hf w(3) f [unfolded Inl]] obtain y where "holds (L(?q \<mapsto> File y 0x180)) D h2"
      by (auto simp: torn_def)
    moreover from b w(1) f Inl have "w1 = w\<lparr>w_encoder := None\<rparr>" "r1 = Inl x" "h1 = h2"
      by (auto simp: seal_body_def bnd_def modify_writer_def consume_encoder_def on_host_def on_snd_def)
    ultimately show ?thesis using torn by blast
  next
    case (Inr sn)
    obtain s n where sn: "sn = (s, n)" by (cases sn)
    from hoare_Inr [OF hf w(3) f [unfolded Inr]] obtain c where
      c: "segment_image C (sp_key sp) salt ?sid FORMAT_VERSION header es meta = Some c" "s = summary_of C es"
        "unat n = length c" "length c \<le> unat (lim_segment (sp_limits sp))" "holds (L(?q \<mapsto> File c 0x180)) D h2"
        "\<forall>x \<in> set es. event_fits (lim_segment (sp_limits sp)) FORMAT_VERSION x"
      by (auto simp: sealed_at_def sn)
    have pl: "plain_in (L(?q \<mapsto> File c 0x180)) ?q" by (rule plain_update [OF g(6)]) simp
    obtain pr h3 where pr: "publish_file w ?p h2 = (pr, h3)" by (metis prod.exhaust)
    note hp = hoare_publish_file [OF fun_upd_same pl pq(2), of D]
    show ?thesis
    proof (cases pr)
      case (Inl x)
      from hoare_Inl [OF hp c(5) pr [unfolded Inl]] have "holds (L(?q \<mapsto> File c 0x180)) D h3" .
      moreover from b w(1) f Inr sn pr Inl have "w1 = w\<lparr>w_encoder := None\<rparr>" "r1 = Inl x" "h1 = h3"
        by (auto simp: seal_body_def bnd_def modify_writer_def consume_encoder_def on_host_def on_snd_def Let_def)
      ultimately show ?thesis using torn by blast
    next
      case pr': (Inr u)
      have L: "L(?q := None) = L" using g(5) by (auto simp: fun_eq_iff)
      from hoare_Inr [OF hp c(5) pr [unfolded pr']] have h3: "holds (L(?p \<mapsto> File c 0x180)) D h3" by (simp add: L)
      obtain y h4 where y: "sync_directory (butlast ?p) ''segment_seal'' h3 = (y, h4)" by (metis prod.exhaust)
      have h4: "holds (L(?p \<mapsto> File c 0x180)) D h4"
        by (rule keepsD [OF hoare_sync_directory h3 y])
      note pub = seal_body_published [OF w(1) f [unfolded Inr sn] pr [unfolded pr'] refl _ b]
      have pne: "?p \<noteq> []" unfolding p by simp
      have body: "w_published w1 \<and> \<not> w_reserved w1 \<and> (h1 = h3 \<or> h1 = h4) \<and>
          (\<forall>rs. r1 = Inr rs \<longrightarrow> rs = \<lparr>rs_path = ?p, rs_header = header, rs_id = ?sid, rs_summary = s,
              rs_version = FORMAT_VERSION, rs_metadata = meta, rs_len = n\<rparr>)"
      proof (intro conjI allI impI)
        show "h1 = h3 \<or> h1 = h4" using pub(3) [OF pne] y by auto
        show "rs = \<lparr>rs_path = ?p, rs_header = header, rs_id = ?sid, rs_summary = s,
              rs_version = FORMAT_VERSION, rs_metadata = meta, rs_len = n\<rparr>" if "r1 = Inr rs" for rs
          using pub(4) [OF pne that] unfolding g(2) .
      qed (use pub(1,2) [OF pne] in simp_all)
      have t: "t = h1" using r(2) body
        by (auto simp: drop_writer_def bnd_def on_accounts_def split: if_split_asm)
      have n: "n = of_nat (length c)" using c(3) by (rule unat_eqD)
      have h1: "holds (L(?p \<mapsto> File c 0x180)) D t" using t body h3 h4 by blast
      have q: "dir @ [segment_file ?sid OPEN_EXTENSION] = ?q" using g(1) by simp
      show ?thesis
        unfolding publishes_def Let_def p [symmetric] q r(1)
      proof (rule exI [of _ "L(?p \<mapsto> File c 0x180)"], intro conjI impI, rule h1,
          goal_cases only image)
        case only
        show ?case by (simp add: only_at_def)
      next
        case image
        show ?case
        proof (rule exI [of _ salt], rule exI [of _ c], intro conjI)
          show "(L(?p \<mapsto> File c 0x180)) ?q = None" using pq(1) g(5) by simp
          show "\<forall>rs. r1 = Inr rs \<longrightarrow> rs = \<lparr>rs_path = ?p, rs_header = header, rs_id = ?sid, rs_summary = summary_of C es,
                rs_version = FORMAT_VERSION, rs_metadata = meta, rs_len = of_nat (length c)\<rparr>"
            using body unfolding c(2) n by blast
        qed (use c w(2) in simp_all)
      qed
    qed
  qed
qed

section \<open>A whole segment\<close>

text \<open>A client that writes one segment: it begins, appends every event, seals, and drops the writer on an error.\<close>

fun append_all :: "spool_crypto \<Rightarrow> bytes list \<Rightarrow> unit writing" where
  "append_all C [] = ret ()"
| "append_all C (x # xs) = bnd (writer_append C x) (\<lambda>_. append_all C xs)"

definition write_events ::
    "spool_crypto \<Rightarrow> spool \<Rightarrow> bytes list \<Rightarrow> bytes \<Rightarrow> segment_writer \<Rightarrow> ready_segment spool_op" where
  "write_events C sp es meta w = (\<lambda>s. case append_all C es (w, s) of
     (Inl e, (w', t)) \<Rightarrow> (Inl e, snd (drop_writer sp w' t))
   | (Inr _, (w', t)) \<Rightarrow> seal_with_recovery_metadata C sp meta w' t)"

definition write_segment ::
    "spool_crypto \<Rightarrow> spool \<Rightarrow> segment_header \<Rightarrow> bytes list \<Rightarrow> bytes \<Rightarrow> ready_segment spool_op" where
  "write_segment C sp header es meta = bnd (begin_segment C sp header) (write_events C sp es meta)"

lemma append_all_steps:
  assumes "append_all C xs (w, acc, h) = (r, (w', acc', t))" "writer_ready C sp header L D dir es w h"
    and "cipher_ok C" "header_sized header"
  shows "w_id w' = w_id w \<and> acc' = acc \<and>
    (case r of Inr _ \<Rightarrow> writer_ready C sp header L D dir (es @ xs) w' t | Inl _ \<Rightarrow> writer_torn L D dir w' t)"
  using assms(1,2)
proof (induction xs arbitrary: es w acc h)
  case (Cons x xs)
  obtain r1 w1 acc1 h1 where a: "writer_append C x (w, acc, h) = (r1, (w1, acc1, h1))" by (metis prod.exhaust)
  note st = append_step [OF Cons.prems(2) a assms(3,4)]
  show ?case
  proof (cases r1)
    case (Inl e)
    with Cons.prems(1) a st show ?thesis by (auto simp: bnd_def)
  next
    case (Inr u)
    with Cons.prems(1) a have "append_all C xs (w1, acc1, h1) = (r, (w', acc', t))" by (simp add: bnd_def)
    from Cons.IH [OF this, of "es @ [x]"] st Inr show ?thesis by (auto split: sum.splits)
  qed
qed auto

lemma hoare_begin_reserved:
  assumes "cipher_ok C" "header_sized header" "length (key_id (sp_key sp)) = 16"
  defines "dir \<equiv> spool_input_directory sp (hdr_input_key header)"
  shows "hoare (holds L D) (begin_reserved_segment C sp header)
     (\<lambda>w h. writer_ready C sp header L D dir [] w h)
     (\<lambda>_ h. \<exists>L' sid. only_at {dir @ [segment_file sid OPEN_EXTENSION]} L L' \<and> holds L' D h)"
  unfolding begin_reserved_segment_def Let_def dir_def
  by (rule hoare_bnd [where R = "\<lambda>_. holds L D"], rule hoare_weaken [OF hoare_ensure_private_directory])
    (use hoare_create_segment [OF assms(1-3)] only_at_refl in \<open>blast+\<close>)

lemma write_events_publishes:
  assumes "write_events C sp es meta w (acc, h) = (r, (acc', t))" "writer_ready C sp header L D dir [] w h"
    and "cipher_ok C" "header_sized header" "length meta \<le> MAX_RECOVERY_METADATA_BYTES"
  shows "publishes C sp header L D dir (w_id w) es meta r t"
proof -
  obtain r1 w1 acc1 h1 where a: "append_all C es (w, acc, h) = (r1, (w1, acc1, h1))" by (metis prod.exhaust)
  note st = append_all_steps [OF a assms(2-4)]
  show ?thesis
  proof (cases r1)
    case (Inl e)
    with assms(1) a have r: "r = Inl e" "snd (drop_writer sp w1 (acc1, h1)) = (acc', t)"
      by (simp_all add: write_events_def)
    have torn: "writer_torn L D dir w1 h1" using st Inl by simp
    then have "w_open_path w1 = dir @ [segment_file (w_id w) OPEN_EXTENSION]" using st by (simp add: writer_torn_def)
    with drop_removes [OF r(2) torn] show ?thesis unfolding r(1) by (metis publishes_removed)
  next
    case (Inr u)
    with assms(1) a have "seal_with_recovery_metadata C sp meta w1 (acc1, h1) = (r, (acc', t))"
      by (simp add: write_events_def)
    from seal_steps [OF _ this assms(3,5)] st Inr show ?thesis by auto
  qed
qed

lemma write_segment_publishes:
  assumes "write_segment C sp header es meta (acc, h) = (r, (acc', t))" "holds L D h"
    and "cipher_ok C" "header_sized header" "length (key_id (sp_key sp)) = 16" "length meta \<le> MAX_RECOVERY_METADATA_BYTES"
  shows "\<exists>sid. publishes C sp header L D (spool_input_directory sp (hdr_input_key header)) sid es meta r t"
proof -
  note hb = hoare_begin_reserved [OF assms(3-5), of L D]
  obtain r0 a where a: "reserve (sp_limits sp) (hdr_input_key header) acc = (r0, a)" by force
  obtain r1 h1 where b: "begin_reserved_segment C sp header h = (r1, h1)" by force
  show ?thesis
  proof (cases r0)
    case (Inl e)
    with assms(1) a have "r = Inl e" "t = h"
      by (auto simp: write_segment_def begin_segment_def bnd_def on_accounts_def)
    with assms(2) show ?thesis by (metis only_at_refl publishes_removed)
  next
    case r0: (Inr u)
    show ?thesis
    proof (cases r1)
      case (Inl e)
      with assms(1) a b r0 have "r = Inl e" "t = h1"
        by (auto simp: write_segment_def begin_segment_def bnd_def on_accounts_def attempt_def on_snd_apply release_reservation_def)
      with hoare_Inl [OF hb assms(2) b [unfolded Inl]] show ?thesis by (metis publishes_removed)
    next
      case (Inr w)
      with assms(1) a b r0 have "write_events C sp es meta w (a, h1) = (r, (acc', t))"
        by (auto simp: write_segment_def begin_segment_def bnd_def on_accounts_def attempt_def on_snd_apply)
      from write_events_publishes [OF this hoare_Inr [OF hb assms(2) b [unfolded Inr]] assms(3,4,6)]
      show ?thesis by blast
    qed
  qed
qed

section \<open>Property\<close>

text \<open>A small spool with one segment written into it.\<close>

definition demo_sp :: spool where
  "demo_sp = \<lparr>sp_segments = [''s''], sp_key = demo_spool_key, sp_limits = demo_limits, recovered_open_segments = 0\<rparr>"

definition demo_dirs :: host where
  "demo_dirs = demo_spool_host\<lparr>nodes := [([], Dir 0x1C0), ([''s''], Dir 0x1C0)]\<rparr>"

definition demo_written :: "(spool_error + ready_segment) \<times> accounting \<times> host" where
  "demo_written = write_segment demo_crypto demo_sp demo_header [[1, 2], [3]] [4] (no_accounting, demo_dirs)"

lemma demo_written_ok: "is_ok (fst demo_written)"
  by code_simp

lemma demo_dirs_ok: "tree_ok demo_dirs" "length (key_id (sp_key demo_sp)) = 16"
  by code_simp+

text \<open>
  C29. Segments are published whole. Writing a segment, whatever call fails or tears and wherever the process
  stops, touches at most the open and the ready file of one new identity. If the ready file changed
  at all, or sealing reported success, it is the complete image of all the events in order, under the spool's
  key and within its limit, and the open file is gone; the handle of a success describes it.
\<close>
theorem segment_published_whole:
  assumes "write_segment C sp header es meta (acc, h) = (r, (acc', t))" "tree_ok h"
    and "cipher_ok C" "header_sized header" "length (key_id (sp_key sp)) = 16"
    and "length meta \<le> MAX_RECOVERY_METADATA_BYTES"
  shows "\<exists>sid.
    let dir = spool_input_directory sp (hdr_input_key header);
        open_path = dir @ [segment_file sid OPEN_EXTENSION]; ready_path = dir @ [segment_file sid READY_EXTENSION] in
    tree_ok t \<and> (\<forall>p. p \<noteq> open_path \<and> p \<noteq> ready_path \<longrightarrow> leaf t p = leaf h p) \<and>
    (leaf t ready_path \<noteq> leaf h ready_path \<or> is_ok r \<longrightarrow>
      (\<exists>salt c. segment_image C (sp_key sp) salt sid FORMAT_VERSION header es meta = Some c \<and>
         length c \<le> unat (lim_segment (sp_limits sp)) \<and>
         leaf t ready_path = Some (File c 0x180) \<and> leaf t open_path = None \<and>
         (\<forall>rs. r = Inr rs \<longrightarrow> rs = \<lparr>rs_path = ready_path, rs_header = header, rs_id = sid,
            rs_summary = summary_of C es, rs_version = FORMAT_VERSION, rs_metadata = meta, rs_len = of_nat (length c)\<rparr>)))"
proof -
  have "holds (leaf h) {} h" using assms(2) by (simp add: holds_def)
  from write_segment_publishes [OF assms(1) this assms(3-6)] show ?thesis
    unfolding publishes_def holds_def only_at_def Let_def by blast
qed

lemma segment_published_whole_witness:
  "\<exists>rs acc' t c. write_segment demo_crypto demo_sp demo_header [[1, 2], [3]] [4] (no_accounting, demo_dirs) =
      (Inr rs, (acc', t)) \<and> leaf t (rs_path rs) = Some (File c 0x180) \<and> rs_len rs = of_nat (length c)"
proof -
  obtain rs acc' t where w: "demo_written = (Inr rs, (acc', t))"
    using demo_written_ok unfolding is_ok_iff by (metis prod.collapse)
  from segment_published_whole [OF w [unfolded demo_written_def] demo_dirs_ok(1) demo_cipher _ demo_dirs_ok(2)]
  show ?thesis
    using w [unfolded demo_written_def] demo_sizes by (auto simp: Let_def MAX_RECOVERY_METADATA_BYTES_def)
qed

end
