(* ===== verification/Spool_Reading.thy ===== *)
theory Spool_Reading
  imports Spool_Lifecycle Host_Quiet
begin

text \<open>
  Reading the spool back: an inspected segment is a complete image, a reader delivers exactly the events
  that were written, an inventory lists every segment of its state once, in order.
\<close>

section \<open>Opening\<close>

lemma hoare_open_decoder:
  "hoare (holds L D) (open_decoder C q key limit)
     (\<lambda>d h. holds L D h \<and> (\<exists>c m rd. L q = Some (File c m) \<and> length c \<le> unat limit \<and>
        open_reader C key limit (length c) rd = Inr d \<and> (broken rd = None \<longrightarrow> unread rd = c))) (\<lambda>_. holds L D)"
  unfolding open_decoder_def
proof (rule hoare_bnd [OF hoare_map_fail_const [OF hoare_sys_fstat]], rule hoare_if, rule hoare_throw, simp)
  fix n assume n: "\<not> (\<not> is_file n \<or> unat limit < node_len n)"
  then obtain c m where c: "n = File c m" "length c \<le> unat limit" by (cases n) auto
  have content: "hoare (\<lambda>h. L q = Some (File c m) \<and> holds L D h)
      (bnd (sys_reader q) (\<lambda>rd. lift_res (open_reader C key limit (node_len n) rd)))
      (\<lambda>d h. holds L D h \<and> (\<exists>c m rd. L q = Some (File c m) \<and> length c \<le> unat limit \<and>
        open_reader C key limit (length c) rd = Inr d \<and> (broken rd = None \<longrightarrow> unread rd = c))) (\<lambda>_. holds L D)"
    by (rule hoare_when, rule hoare_bnd [OF hoare_sys_reader], rule hoare_lift_res) (use c in auto)
  show "hoare (\<lambda>h. holds L D h \<and> node_at h q = Some n)
      (bnd (sys_reader q) (\<lambda>rd. lift_res (open_reader C key limit (node_len n) rd)))
      (\<lambda>d h. holds L D h \<and> (\<exists>c m rd. L q = Some (File c m) \<and> length c \<le> unat limit \<and>
        open_reader C key limit (length c) rd = Inr d \<and> (broken rd = None \<longrightarrow> unread rd = c))) (\<lambda>_. holds L D)"
    by (rule hoare_weaken [OF content]) (use c in \<open>auto simp: holds_def leaf_Some\<close>)
qed

text \<open>The file at a path is one complete image, and an inspection reports what it holds.\<close>

definition intact ::
    "spool_crypto \<Rightarrow> spool_key \<Rightarrow> u64 \<Rightarrow> (path \<Rightarrow> node option) \<Rightarrow> path \<Rightarrow> inspected_segment \<Rightarrow> bool" where
  "intact C key limit L p ins \<longleftrightarrow>
     (\<exists>c m salt es. L p = Some (File c m) \<and> length c \<le> unat limit \<and>
        segment_image C key salt (ins_id ins) (ins_version ins) (ins_header ins) es (ins_metadata ins) = Some c \<and>
        [] \<notin> set es \<and> ins_summary ins = summary_of C es \<and> ins_len ins = of_nat (length c))"

lemma read_through_intact:
  assumes "cipher_ok C" "open_reader C key limit (length c) rd = Inr d" "broken rd = None \<longrightarrow> unread rd = c"
    and "read_through C n d = Inr ins"
  shows "\<exists>salt es. segment_image C key salt (ins_id ins) (ins_version ins) (ins_header ins) es (ins_metadata ins) = Some c \<and>
    [] \<notin> set es \<and> ins_summary ins = summary_of C es \<and> ins_len ins = n"
proof -
  from assms(4) obtain es d' where d: "drain C d = (Inr es, d')"
    by (cases "drain C d") (auto simp: read_through_def split: sum.split_asm)
  from image_of_drain [OF assms(1,2) d] assms(3) obtain salt m where
    m: "segment_image C key salt (d_segment_id d) (d_version d) (d_header d) es m = Some c" "[] \<notin> set es"
      "same_segment d d'" "d_summary d' = Some (summary_of C es)" "d_metadata d' = Some m" by blast
  with assms(4) d have "ins_id ins = d_segment_id d \<and> ins_version ins = d_version d \<and> ins_header ins = d_header d \<and>
      ins_metadata ins = m \<and> ins_summary ins = summary_of C es \<and> ins_len ins = n"
    by (auto simp: read_through_def same_segment_def)
  with m show ?thesis by (intro exI [of _ salt] exI [of _ es]) simp
qed

lemma hoare_inspect_segment:
  assumes "cipher_ok C"
  shows "hoare (holds L D) (inspect_segment C p key limit)
     (\<lambda>ins h. holds L D h \<and> plain_in L p \<and> intact C key limit L p ins) (\<lambda>_. holds L D)"
  unfolding inspect_segment_def
proof (rule hoare_bnd [OF hoare_open_private_file])
  fix q :: path
  let ?Q = "\<lambda>ins h. holds L D h \<and> plain_in L p \<and> intact C key limit L p ins"
  have fin: "hoare (\<lambda>h. L p = Some n \<and> holds L D h)
      (bnd (open_decoder C p key limit) (\<lambda>decoder. lift_res (read_through C (of_nat (node_len n)) decoder)))
      ?Q (\<lambda>_. holds L D)" if "plain_in L p" for n
  proof (rule hoare_when, rule hoare_bnd [OF hoare_open_decoder], rule hoare_lift_res)
    fix d h ins
    assume n: "L p = Some n" and h: "holds L D h \<and> (\<exists>c m rd. L p = Some (File c m) \<and> length c \<le> unat limit \<and>
        open_reader C key limit (length c) rd = Inr d \<and> (broken rd = None \<longrightarrow> unread rd = c))"
      and r: "read_through C (of_nat (node_len n)) d = Inr ins"
    from h n obtain c m rd where c: "n = File c m" "length c \<le> unat limit"
      "open_reader C key limit (length c) rd = Inr d" "broken rd = None \<longrightarrow> unread rd = c" by auto
    from read_through_intact [OF assms c(3,4) r] c n h that show "?Q ins h" by (auto simp: intact_def)
  qed auto
  have "hoare (\<lambda>h. (q = p \<and> plain_in L p \<and> (\<exists>c m. L p = Some (File c m))) \<and> holds L D h)
      (bnd (map_fail x (sys_fstat q)) (\<lambda>n.
       bnd (open_decoder C q key limit) (\<lambda>decoder. lift_res (read_through C (of_nat (node_len n)) decoder))))
      ?Q (\<lambda>_. holds L D)" for x :: "io_kind \<Rightarrow> spool_error"
  proof (rule hoare_when, rule hoare_bnd [OF hoare_map_fail_const [OF hoare_sys_fstat]])
    fix n assume q: "q = p \<and> plain_in L p \<and> (\<exists>c m. L p = Some (File c m))"
    then have "hoare (\<lambda>h. holds L D h \<and> node_at h p = Some n)
      (bnd (open_decoder C p key limit) (\<lambda>decoder. lift_res (read_through C (of_nat (node_len n)) decoder)))
      ?Q (\<lambda>_. holds L D)"
      by (intro hoare_weaken [OF fin [of n]]) (auto simp: holds_def leaf_def split: option.split_asm if_split_asm)
    with q show "hoare (\<lambda>h. holds L D h \<and> node_at h q = Some n)
      (bnd (open_decoder C q key limit) (\<lambda>decoder. lift_res (read_through C (of_nat (node_len n)) decoder)))
      ?Q (\<lambda>_. holds L D)" by simp
  qed
  then show "hoare (\<lambda>h. holds L D h \<and> q = p \<and> plain_in L p \<and> (\<exists>c m. L p = Some (File c m)))
      (bnd (map_fail x (sys_fstat q)) (\<lambda>n.
       bnd (open_decoder C q key limit) (\<lambda>decoder. lift_res (read_through C (of_nat (node_len n)) decoder))))
      ?Q (\<lambda>_. holds L D)" for x :: "io_kind \<Rightarrow> spool_error"
    by (rule hoare_weaken) auto
qed

section \<open>Iterating\<close>

text \<open>\<open>collect\<close> over the iterator: the events up to the first error or the end.\<close>

lemma reader_next_shorter:
  "reader_next C r = (Some (Inr x), r') \<Longrightarrow> pending (sr_decoder r') < pending (sr_decoder r)"
  by (auto simp: reader_next_def dest!: next_event_shorter
      split: if_split_asm prod.split_asm sum.split_asm option.split_asm)

function reader_collect :: "spool_crypto \<Rightarrow> segment_reader \<Rightarrow> spool_error + bytes list" where
  "reader_collect C r =
     (case reader_next C r of
        (None, _) \<Rightarrow> Ok []
      | (Some (Inl e), _) \<Rightarrow> Err e
      | (Some (Inr x), r') \<Rightarrow> bindr (reader_collect C r') (\<lambda>xs. Ok (x # xs)))"
  by pat_completeness auto

termination
  by (relation "measure (\<lambda>(C, r). pending (sr_decoder r))") (auto dest: reader_next_shorter [OF sym])

declare reader_collect.simps [simp del]

lemma reader_collect_drain:
  assumes "\<not> sr_failed r"
  shows "reader_collect C r =
    (case drain C (sr_decoder r) of
       (Inl e, _) \<Rightarrow> Err e
     | (Inr es, d) \<Rightarrow>
         if d_summary d = Some (sr_summary r) \<and> d_metadata d = Some (sr_metadata r) then Ok es
         else Err (sp_error ''DBX-RS-SPOOL-FORMAT-0022'' ''footer_validate''
           ''spool footer changed after inventory validation''))"
  using assms
proof (induction C r rule: reader_collect.induct)
  case (1 C r)
  obtain q d where q: "next_event C (sr_decoder r) = (q, d)" by (metis prod.exhaust)
  show ?case
  proof (cases "\<exists>x. q = Inr (Some x)")
    case True
    then obtain x where x: "q = Inr (Some x)" by blast
    let ?r = "r\<lparr>sr_decoder := d\<rparr>"
    have n: "reader_next C r = (Some (Inr x), ?r)"
      using q x 1(2) by (simp add: reader_next_def)
    with 1(1) [OF n [symmetric] refl refl] 1(2) q x show ?thesis
      by (auto simp: reader_collect.simps [of C r] drain.simps [of C "sr_decoder r"] split: prod.split sum.split)
  next
    case False
    with q 1(2) show ?thesis
      by (cases q)
        (auto simp: reader_collect.simps [of C r] drain.simps [of C "sr_decoder r"] reader_next_def split: option.split)
  qed
qed

lemma hoare_validate_owned_path:
  "hoare (holds L D) (validate_owned_path sp p ext) (\<lambda>_. holds L D) (\<lambda>_. holds L D)"
  unfolding validate_owned_path_def
proof (intro hoare_if hoare_throw)
  show "hoare (holds L D)
      (bnd (validate_input_directory (butlast p)) (\<lambda>key.
       bnd (lift_res (parse_segment_name p)) (\<lambda>(_, parsed).
       if parsed \<noteq> ext \<or> butlast p \<noteq> spool_input_directory sp key then throw invalid_path else ret ())))
      (\<lambda>_. holds L D) (\<lambda>_. holds L D)"
    by (rule hoare_bnd [OF hoare_post [OF hoare_validate_input_directory]],
        rule hoare_bnd [where R = "\<lambda>_. holds L D"], rule hoare_lift_res)
      (auto intro!: hoare_if hoare_throw hoare_ret)
qed auto

lemma hoare_open_segment:
  "hoare (holds L D) (open_segment C sp s)
     (\<lambda>sr h. holds L D h \<and> \<not> sr_failed sr \<and> sr_summary sr = rs_summary s \<and> sr_metadata sr = rs_metadata s \<and>
        (\<exists>c m rd. L (rs_path s) = Some (File c m) \<and> length c \<le> unat (lim_segment (sp_limits sp)) \<and>
          open_reader C (sp_key sp) (lim_segment (sp_limits sp)) (length c) rd = Inr (sr_decoder sr) \<and>
          (broken rd = None \<longrightarrow> unread rd = c))) (\<lambda>_. holds L D)"
    (is "hoare _ _ ?Q _")
  unfolding open_segment_def
proof (rule hoare_bnd [OF hoare_validate_owned_path], rule hoare_bnd [OF hoare_open_private_file])
  fix q
  have "hoare (\<lambda>h. q = rs_path s \<and> holds L D h)
      (bnd (open_decoder C q (sp_key sp) (lim_segment (sp_limits sp))) (\<lambda>d.
       if d_segment_id d \<noteq> rs_id s \<or> d_header d \<noteq> rs_header s \<or> d_version d \<noteq> rs_version s
       then throw identity_mismatch
       else ret \<lparr>sr_decoder = d, sr_summary = rs_summary s, sr_metadata = rs_metadata s, sr_failed = False\<rparr>))
      ?Q (\<lambda>_. holds L D)"
    by (rule hoare_when, rule hoare_bnd [OF hoare_open_decoder])
      (auto intro!: hoare_if hoare_throw hoare_ret, metis option.distinct(1))
  then show "hoare (\<lambda>h. holds L D h \<and> q = rs_path s \<and> plain_in L (rs_path s) \<and> (\<exists>c m. L (rs_path s) = Some (File c m)))
      (bnd (open_decoder C q (sp_key sp) (lim_segment (sp_limits sp))) (\<lambda>d.
       if d_segment_id d \<noteq> rs_id s \<or> d_header d \<noteq> rs_header s \<or> d_version d \<noteq> rs_version s
       then throw identity_mismatch
       else ret \<lparr>sr_decoder = d, sr_summary = rs_summary s, sr_metadata = rs_metadata s, sr_failed = False\<rparr>))
      ?Q (\<lambda>_. holds L D)"
    by (rule hoare_weaken) auto
qed

text \<open>A reader over the image of some events yields them, unless reading breaks off.\<close>

lemma collect_image:
  assumes "cipher_ok C" "segment_image C key salt sid FORMAT_VERSION h es meta = Some c"
    and "prefix_sized (key_id key) salt sid FORMAT_VERSION" "header_sized h"
    and "length meta \<le> MAX_RECOVERY_METADATA_BYTES" "MIN_SEGMENT_BYTES \<le> limit" "length c \<le> unat limit"
    and "\<forall>e \<in> set es. event_fits limit FORMAT_VERSION e"
    and "open_reader C key limit (length c) rd = Inr (sr_decoder sr)" "broken rd = None \<longrightarrow> unread rd = c"
    and "\<not> sr_failed sr" "sr_summary sr = summary_of C es" "sr_metadata sr = meta"
  shows "if broken rd = None then reader_collect C sr = Inr es else \<not> is_ok (reader_collect C sr)"
proof (cases "broken rd")
  case None
  from image_accepted [OF assms(1-8)] obtain d d' where
    d: "open_reader C key limit (length c) \<lparr>unread = c, broken = None\<rparr> = Inr d" "drain C d = (Inr es, d')"
      "d_summary d' = Some (summary_of C es)" "d_metadata d' = Some meta" by blast
  have "rd = \<lparr>unread = c, broken = None\<rparr>" using None assms(10) by simp
  with d(1) assms(9) have "sr_decoder sr = d" by simp
  with d assms(11-13) None show ?thesis by (simp add: reader_collect_drain)
next
  case (Some e)
  have "\<not> is_ok (reader_collect C sr)"
  proof
    assume "is_ok (reader_collect C sr)"
    with assms(11) obtain es' d' where "drain C (sr_decoder sr) = (Inr es', d')"
      by (cases "drain C (sr_decoder sr)") (auto simp: reader_collect_drain is_ok_iff split: sum.split_asm)
    from image_of_drain [OF assms(1,9) this] Some show False by auto
  qed
  with Some show ?thesis by simp
qed

lemma published_image:
  assumes "write_segment C sp header es meta (acc, h) = (Inr rs, (acc', t))" "tree_ok h"
    and "cipher_ok C" "header_sized header" "length (key_id (sp_key sp)) = 16"
    and "length meta \<le> MAX_RECOVERY_METADATA_BYTES"
  obtains salt c where "segment_image C (sp_key sp) salt (rs_id rs) FORMAT_VERSION header es meta = Some c"
    "prefix_sized (key_id (sp_key sp)) salt (rs_id rs) FORMAT_VERSION"
    "length c \<le> unat (lim_segment (sp_limits sp))" "\<forall>x \<in> set es. event_fits (lim_segment (sp_limits sp)) FORMAT_VERSION x"
    "leaf t (rs_path rs) = Some (File c 0x180)" "rs_summary rs = summary_of C es" "rs_metadata rs = meta" "tree_ok t"
    "rs_path rs = spool_input_directory sp (hdr_input_key header) @ [segment_file (rs_id rs) READY_EXTENSION]"
    "rs_header rs = header" "rs_version rs = FORMAT_VERSION" "rs_len rs = of_nat (length c)"
proof -
  have "holds (leaf h) {} h" using assms(2) by (simp add: holds_def)
  from write_segment_publishes [OF assms(1) this assms(3-6)] obtain sid where
    "publishes C sp header (leaf h) {} (spool_input_directory sp (hdr_input_key header)) sid es meta (Inr rs) t" ..
  then show thesis unfolding publishes_def Let_def holds_def by (auto intro: that)
qed

section \<open>On a quiet host\<close>

lemma reject_spool_quiet:
  assumes "quiet h" "tree_ok h" "node_at h p = Some n" "\<not> is_symlink n"
  shows "reject_spool_symlinks p h = (Inr (), h)"
proof -
  have "reject_spool_links as h = (Inr (), h)" if "\<And>a. a \<in> set as \<Longrightarrow> \<exists>m. node_at h a = Some m \<and> \<not> is_symlink m" for as
    using that
  proof (induction as)
    case (Cons a as)
    then obtain m where "node_at h a = Some m" "\<not> is_symlink m" by auto
    with Cons show ?case by (simp add: bnd_def attempt_def lstat_quiet [OF assms(1,2)])
  qed (simp add: ret_def)
  from this [OF ancestor_there [OF assms(2,3) _ assms(4)]] show ?thesis
    by (simp add: reject_spool_symlinks_def)
qed

lemma input_directory_quiet:
  assumes "quiet h" "tree_ok h" "private_directory h d" "d \<noteq> []" "decode_hex 32 (last d) = Some bs"
  shows "validate_input_directory d h = (Inr (InputKey bs), h)"
proof -
  from assms(3) obtain m where m: "node_at h d = Some (Dir m)" "\<not> too_open m"
    by (auto simp: private_directory_def split: option.split_asm node.split_asm)
  with assms(4,5) show ?thesis
    by (simp add: validate_input_directory_def validate_private_directory_def inspect_directory_def bnd_def map_fail_def
        reject_spool_quiet [OF assms(1,2) m(1)] lstat_quiet [OF assms(1,2) m(1)] ret_def lift_res_def
        validate_directory_mode_def bindr_def ok_or_def)
qed

lemma private_file_quiet:
  assumes "quiet h" "tree_ok h" "node_at h p = Some (File c m)" "\<not> too_open m"
  shows "open_private_file p h = (Inr p, h)"
  using assms(4)
  by (simp add: open_private_file_def validate_private_file_def bnd_def map_fail_def reject_spool_quiet [OF assms(1-3)]
      lstat_quiet [OF assms(1-3)] open_quiet [OF assms(1-3)] validate_file_mode_def lift_res_def ret_def)

lemma owned_path_quiet:
  assumes "quiet h" "tree_ok h" "private_directory h (spool_input_directory sp key)"
    and "length (input_key_bytes key) = 32" "length (segment_id_bytes sid) = 16" "CHR ''.'' \<notin> set ext"
  shows "validate_owned_path sp (spool_input_directory sp key @ [segment_file sid ext]) ext h = (Inr (), h)"
proof -
  let ?d = "spool_input_directory sp key"
  have "validate_input_directory ?d h = (Inr key, h)"
    using input_directory_quiet [OF assms(1-3), of "input_key_bytes key"] assms(4)
    by (simp add: spool_input_directory_def decode_hex_encode)
  moreover have "path_extension (?d @ [segment_file sid ext]) = Some ext"
    using split_segment_file [OF assms(5,6)] by (simp add: path_extension_def)
  ultimately show ?thesis
    by (simp add: validate_owned_path_def bnd_def lift_res_def parse_segment_file [OF assms(5,6)] ret_def)
      (simp add: spool_input_directory_def butlast_append)
qed

lemma open_decoder_quiet:
  assumes "quiet h" "node_at h p = Some (File c m)" "length c \<le> unat limit"
  shows "open_decoder C p key limit h = (open_reader C key limit (length c) \<lparr>unread = c, broken = None\<rparr>, h)"
  using assms(3)
  by (simp add: open_decoder_def bnd_def map_fail_def fstat_quiet [OF assms(1,2)] reader_quiet [OF assms(1,2)] lift_res_def)

text \<open>The handle of a whole image opens and validates, and its reader delivers the events.\<close>

lemma whole_handle_reads:
  assumes "cipher_ok C" "segment_image C (sp_key sp) salt (rs_id rs) FORMAT_VERSION (rs_header rs) es (rs_metadata rs) = Some c"
    and "prefix_sized (key_id (sp_key sp)) salt (rs_id rs) FORMAT_VERSION" "header_sized (rs_header rs)"
    and "length (rs_metadata rs) \<le> MAX_RECOVERY_METADATA_BYTES" "MIN_SEGMENT_BYTES \<le> lim_segment (sp_limits sp)"
    and "length c \<le> unat (lim_segment (sp_limits sp))"
    and "\<forall>e \<in> set es. event_fits (lim_segment (sp_limits sp)) FORMAT_VERSION e"
    and "rs_summary rs = summary_of C es" "rs_version rs = FORMAT_VERSION" "rs_len rs = of_nat (length c)"
    and "rs_path rs = spool_input_directory sp (hdr_input_key (rs_header rs)) @ [segment_file (rs_id rs) READY_EXTENSION]"
    and "quiet u" "tree_ok u" "node_at u (rs_path rs) = Some (File c m)" "\<not> too_open m"
    and "private_directory u (butlast (rs_path rs))"
  shows "validate_ready_handle C sp rs u = (Inr (), u) \<and>
    (\<exists>sr. open_segment C sp rs u = (Inr sr, u) \<and> reader_collect C sr = Inr es)"
proof -
  from image_accepted [OF assms(1-8)] obtain d d' where
    d: "open_reader C (sp_key sp) (lim_segment (sp_limits sp)) (length c) \<lparr>unread = c, broken = None\<rparr> = Inr d"
      "drain C d = (Inr es, d')" "d_segment_id d = rs_id rs" "d_header d = rs_header rs" "d_version d = FORMAT_VERSION"
      "d_summary d' = Some (summary_of C es)" "d_metadata d' = Some (rs_metadata rs)" by blast
  have same: "same_segment d d'" using image_of_drain [OF assms(1) d(1,2)] by blast
  have owned: "validate_owned_path sp (rs_path rs) READY_EXTENSION u = (Inr (), u)"
    using owned_path_quiet [OF assms(13,14), of sp "hdr_input_key (rs_header rs)" "rs_id rs" READY_EXTENSION] assms(3,4,12,17)
    by (simp add: header_sized_def prefix_sized_def READY_EXTENSION_def)
  note opened = private_file_quiet [OF assms(13-16)] open_decoder_quiet [OF assms(13,15,7)] d(1)
  have through: "read_through C (of_nat (length c)) d =
      Inr \<lparr>ins_header = rs_header rs, ins_id = rs_id rs, ins_summary = summary_of C es, ins_version = FORMAT_VERSION,
        ins_metadata = rs_metadata rs, ins_len = of_nat (length c)\<rparr>"
    using d same by (simp add: read_through_def same_segment_def ok_or_def bindr_def)
  have "inspect_segment C (rs_path rs) (sp_key sp) (lim_segment (sp_limits sp)) u =
      (Inr \<lparr>ins_header = rs_header rs, ins_id = rs_id rs, ins_summary = summary_of C es, ins_version = FORMAT_VERSION,
        ins_metadata = rs_metadata rs, ins_len = of_nat (length c)\<rparr>, u)"
    by (simp add: inspect_segment_def bnd_def map_fail_def opened fstat_quiet [OF assms(13,15)] lift_res_def through)
  then have "validate_ready_handle C sp rs u = (Inr (), u)"
    using assms(9-11) by (simp add: validate_ready_handle_def bnd_def owned ret_def)
  moreover have "open_segment C sp rs u = (Inr \<lparr>sr_decoder = d, sr_summary = rs_summary rs,
      sr_metadata = rs_metadata rs, sr_failed = False\<rparr>, u)"
    using d(3-5) assms(10) by (simp add: open_segment_def bnd_def owned opened ret_def)
  ultimately show ?thesis using d(2,6,7) assms(9) by (simp add: reader_collect_drain)
qed

section \<open>Properties\<close>

text \<open>
  C32. What was sealed is what is read. After a successful write of a segment, on any later host that still
  has the file: a reader that opens the handle delivers exactly the events that were appended, in order,
  and then the end, or, when its file breaks off, ends with an error, never with fewer events. And where
  no call fails and the input's directory is still private, the handle is accepted: it validates, it opens,
  and the reader delivers the events.
\<close>
theorem published_segment_reads_back:
  assumes "write_segment C sp header es meta (acc, h) = (Inr rs, (acc', t))" "tree_ok h"
    and "cipher_ok C" "header_sized header" "length (key_id (sp_key sp)) = 16"
    and "length meta \<le> MAX_RECOVERY_METADATA_BYTES" "MIN_SEGMENT_BYTES \<le> lim_segment (sp_limits sp)"
    and "tree_ok u" "leaf u (rs_path rs) = leaf t (rs_path rs)"
  shows "(\<forall>sr v. open_segment C sp rs u = (Inr sr, v) \<longrightarrow>
      (if broken (d_reader (sr_decoder sr)) = None then reader_collect C sr = Inr es
       else \<not> is_ok (reader_collect C sr))) \<and>
    (quiet u \<and> private_directory u (butlast (rs_path rs)) \<longrightarrow>
      validate_ready_handle C sp rs u = (Inr (), u) \<and>
      (\<exists>sr. open_segment C sp rs u = (Inr sr, u) \<and> reader_collect C sr = Inr es))"
proof (intro conjI allI impI; (elim conjE)?)
  from published_image [OF assms(1-6)] obtain salt c where
    c: "segment_image C (sp_key sp) salt (rs_id rs) FORMAT_VERSION header es meta = Some c"
    "prefix_sized (key_id (sp_key sp)) salt (rs_id rs) FORMAT_VERSION"
    "length c \<le> unat (lim_segment (sp_limits sp))" "\<forall>x \<in> set es. event_fits (lim_segment (sp_limits sp)) FORMAT_VERSION x"
    "leaf t (rs_path rs) = Some (File c 0x180)" "rs_summary rs = summary_of C es" "rs_metadata rs = meta"
    "rs_path rs = spool_input_directory sp (hdr_input_key header) @ [segment_file (rs_id rs) READY_EXTENSION]"
    "rs_header rs = header" "rs_version rs = FORMAT_VERSION" "rs_len rs = of_nat (length c)" .
  {
    fix sr v assume o: "open_segment C sp rs u = (Inr sr, v)"
    have "holds (leaf u) {} u" using assms(8) by (simp add: holds_def)
    from hoare_Inr [OF hoare_open_segment this o] c(5-7) assms(9) obtain rd where
      o: "open_reader C (sp_key sp) (lim_segment (sp_limits sp)) (length c) rd = Inr (sr_decoder sr)"
        "broken rd = None \<longrightarrow> unread rd = c" "\<not> sr_failed sr" "sr_summary sr = summary_of C es" "sr_metadata sr = meta"
      by auto
    have "broken (d_reader (sr_decoder sr)) = broken rd"
      using open_reader_sound [OF o(1) assms(3)] by blast
    with collect_image [OF assms(3) c(1,2) assms(4,6,7) c(3,4) o]
    show "if broken (d_reader (sr_decoder sr)) = None then reader_collect C sr = Inr es
       else \<not> is_ok (reader_collect C sr)" by simp
  }
  assume u: "quiet u" "private_directory u (butlast (rs_path rs))"
  have "node_at u (rs_path rs) = Some (File c 0x180)" using c(5) assms(9) leaf_Some [of u] by simp
  moreover have "\<not> too_open 0x180" by (simp add: too_open_def)
  ultimately have "validate_ready_handle C sp rs u = (Inr (), u) \<and>
      (\<exists>sr. open_segment C sp rs u = (Inr sr, u) \<and> reader_collect C sr = Inr es)"
    using c assms(4,6,7) u
    by (intro whole_handle_reads [OF assms(3) _ c(2) _ _ assms(7) c(3,4) c(6,10,11) _ u(1) assms(8)]) simp_all
  then show "validate_ready_handle C sp rs u = (Inr (), u)"
    "\<exists>sr. open_segment C sp rs u = (Inr sr, u) \<and> reader_collect C sr = Inr es" by blast+
qed

lemma demo_reopened:
  "case demo_written of
     (Inr rs, (acc, t)) \<Rightarrow> tree_ok t \<and> faults t = [] \<and> \<not> stopped t \<and> private_directory t (butlast (rs_path rs))
   | (Inl _, _) \<Rightarrow> False"
  by code_simp

lemma published_segment_reads_back_witness:
  "\<exists>rs acc' t sr. write_segment demo_crypto demo_sp demo_header [[1, 2], [3]] [4] (no_accounting, demo_dirs) =
      (Inr rs, (acc', t)) \<and> validate_ready_handle demo_crypto demo_sp rs t = (Inr (), t) \<and>
    open_segment demo_crypto demo_sp rs t = (Inr sr, t) \<and> reader_collect demo_crypto sr = Inr [[1, 2], [3]]"
proof -
  obtain rs acc' t where w: "demo_written = (Inr rs, (acc', t))"
    using demo_written_ok unfolding is_ok_iff by (metis prod.collapse)
  from demo_reopened [unfolded w prod.case sum.case]
  have t: "tree_ok t" "quiet t" "private_directory t (butlast (rs_path rs))"
    unfolding quiet_def by blast+
  from published_segment_reads_back [OF w [unfolded demo_written_def] demo_dirs_ok(1) demo_cipher _ demo_dirs_ok(2) _ _ t(1) refl]
  have "validate_ready_handle demo_crypto demo_sp rs t = (Inr (), t) \<and>
    (\<exists>sr. open_segment demo_crypto demo_sp rs t = (Inr sr, t) \<and> reader_collect demo_crypto sr = Inr [[1, 2], [3]])"
    using t demo_sizes by (simp add: MAX_RECOVERY_METADATA_BYTES_def MIN_SEGMENT_BYTES_def demo_sp_def demo_limits_def)
  with w show ?thesis by (auto simp: demo_written_def)
qed

end
