(* ===== verification/Spool_Inventory.thy ===== *)
theory Spool_Inventory
  imports Spool_Reading
begin

text \<open>
  Directory scans of the spool: a listing names every entry once, so an inventory misses no segment, and
  startup accounts for every byte.
\<close>

section \<open>Listings\<close>

lemma hoare_sys_read_dir_names:
  assumes "plain_in L p"
  shows "hoare (holds L D) (sys_read_dir p)
     (\<lambda>ns h. holds L D h \<and> distinct ns \<and> (\<forall>c cs n. L (p @ c # cs) = Some n \<longrightarrow> c \<in> set ns)) (\<lambda>_. holds L D)"
  unfolding sys_read_dir_def
proof (rule hoare_syscall)
  have names: "distinct ns \<and> (\<forall>c cs n. L (p @ c # cs) = Some n \<longrightarrow> c \<in> set ns)"
    if h: "holds L D h" and ns: "ns = map last (filter (\<lambda>k. k \<noteq> [] \<and> butlast k = p \<and> node_at h k \<noteq> None)
      (remdups (map fst (nodes h))))" for h ns
  proof
    let ?ks = "filter (\<lambda>k. k \<noteq> [] \<and> butlast k = p \<and> node_at h k \<noteq> None) (remdups (map fst (nodes h)))"
    have "inj_on last (set ?ks)"
      by (rule inj_onI) (auto, metis append_butlast_last_id)
    then show "distinct ns" unfolding ns by (simp add: distinct_map)
    show "\<forall>c cs n. L (p @ c # cs) = Some n \<longrightarrow> c \<in> set ns"
    proof (intro allI impI)
      fix c cs n assume "L (p @ c # cs) = Some n"
      then have n: "node_at h (p @ c # cs) = Some n" using h by (auto simp: holds_def leaf_Some)
      have "node_at h (p @ [c]) \<noteq> None"
      proof (cases "cs = []")
        case False
        have "tree_ok h" using h by (simp add: holds_def)
        from tree_ok_prefix [OF this tree_okD [OF this n], of "Suc (length p)"] False
        have "dir_at h (p @ [c])" by (simp add: butlast_append)
        then show ?thesis by (auto simp: dir_at_def split: option.split_asm)
      qed (use n in simp)
      then have "p @ [c] \<in> set (map fst (nodes h))"
        unfolding node_at_def by (metis map_of_eq_None_iff set_map)
      then show "c \<in> set ns" unfolding ns using \<open>node_at h (p @ [c]) \<noteq> None\<close>
        by (force simp: image_iff)
    qed
  qed
  show "hoare (holds L D) (\<lambda>h. (bindr (resolve_path h p) (\<lambda>q. bindr (ok_or NotFound (node_at h q)) (\<lambda>n.
        if is_dir n
        then Ok (map last (filter (\<lambda>k. k \<noteq> [] \<and> butlast k = q \<and> node_at h k \<noteq> None)
               (remdups (map fst (nodes h)))))
        else Err NotADirectory)), h))
     (\<lambda>ns h. holds L D h \<and> distinct ns \<and> (\<forall>c cs n. L (p @ c # cs) = Some n \<longrightarrow> c \<in> set ns)) (\<lambda>_. holds L D)"
  proof (rule hoareI)
    fix h ns t assume h: "holds L D h" and run: "(bindr (resolve_path h p) (\<lambda>q. bindr (ok_or NotFound (node_at h q)) (\<lambda>n.
        if is_dir n
        then Ok (map last (filter (\<lambda>k. k \<noteq> [] \<and> butlast k = q \<and> node_at h k \<noteq> None)
               (remdups (map fst (nodes h)))))
        else Err NotADirectory)), h) = (Inr ns, t)"
    then obtain q where q: "resolve_path h p = Inr q" "t = h"
      "ns = map last (filter (\<lambda>k. k \<noteq> [] \<and> butlast k = q \<and> node_at h k \<noteq> None) (remdups (map fst (nodes h))))"
      by (cases "resolve_path h p") (auto split: if_split_asm simp: ok_or_def bindr_def split: option.split_asm)
    have "plain h p" using h assms by (simp add: holds_def)
    then have "q = p" by (rule resolve_path_plain [OF _ q(1)])
    with names [OF h] q h show "holds L D t \<and> distinct ns \<and> (\<forall>c cs n. L (p @ c # cs) = Some n \<longrightarrow> c \<in> set ns)"
      by simp
  qed auto
qed simp_all

lemma hoare_read_directory_names:
  "hoare (holds L D) (read_directory p stage)
     (\<lambda>ns h. holds L D h \<and> distinct ns \<and> (\<forall>c cs n. L (p @ c # cs) = Some n \<longrightarrow> c \<in> set ns)) (\<lambda>_. holds L D)"
  unfolding read_directory_def
  by (rule hoare_bnd [OF hoare_weaken [OF hoare_validate_private_directory, where Q' = "\<lambda>_ h. plain_in L p \<and> holds L D h"]],
      simp, simp, simp, rule hoare_when, rule hoare_map_fail_const, rule hoare_sys_read_dir_names)

lemma split_name_Some:
  assumes "split_name name = (stem, Some ext)"
  shows "name = stem @ CHR ''.'' # ext" "CHR ''.'' \<notin> set ext"
proof -
  let ?t = "takeWhile (\<lambda>c. c \<noteq> CHR ''.'') (rev name)" and ?d = "dropWhile (\<lambda>c. c \<noteq> CHR ''.'') (rev name)"
  from assms obtain c before where d: "?d = c # before" "stem = rev before" "ext = rev ?t"
    by (auto simp: split_name_def split: if_split_asm list.split_asm)
  then have "c = CHR ''.''" using hd_dropWhile [of "\<lambda>c. c \<noteq> CHR ''.''" "rev name"] by simp
  moreover have "rev name = ?t @ ?d" by simp
  ultimately show "name = stem @ CHR ''.'' # ext" using d by (metis append_Cons append_assoc append_Nil rev.simps(2) rev_append rev_rev_ident)
  show "CHR ''.'' \<notin> set ext" using d(3) by (auto dest: set_takeWhileD)
qed

lemma parse_segment_name_Ok:
  assumes "parse_segment_name (dir @ [name]) = Inr (sid, ext)"
  shows "name = segment_file sid ext" "path_extension (dir @ [name]) = Some ext" "length (segment_id_bytes sid) = 16"
proof -
  from assms obtain stem bs where s: "split_name name = (stem, Some ext)" "decode_hex 16 stem = Some bs" "sid = SegmentId bs"
    by (auto simp: parse_segment_name_def split: prod.split_asm option.split_asm)
  from split_name_Some [OF s(1)] encode_hex_decode [OF s(2)] s
  show "name = segment_file sid ext" "path_extension (dir @ [name]) = Some ext" "length (segment_id_bytes sid) = 16"
    by (simp_all add: segment_file_def path_extension_def)
qed

section \<open>Inventories\<close>

text \<open>An inventory entry: a complete image in the directory of its input, under its own name.\<close>

definition inspection :: "ready_segment \<Rightarrow> inspected_segment" where
  "inspection s = \<lparr>ins_header = rs_header s, ins_id = rs_id s, ins_summary = rs_summary s,
     ins_version = rs_version s, ins_metadata = rs_metadata s, ins_len = rs_len s\<rparr>"

definition listed :: "spool_crypto \<Rightarrow> spool \<Rightarrow> string \<Rightarrow> (path \<Rightarrow> node option) \<Rightarrow> ready_segment \<Rightarrow> bool" where
  "listed C sp ext L s \<longleftrightarrow>
     rs_path s = spool_input_directory sp (hdr_input_key (rs_header s)) @ [segment_file (rs_id s) ext] \<and>
     intact C (sp_key sp) (lim_segment (sp_limits sp)) L (rs_path s) (inspection s)"

lemma hoare_lifecycle_files:
  assumes "cipher_ok C" "dir = spool_input_directory sp input"
  shows "hoare (holds L D) (lifecycle_files C sp ext dir input names segments)
    (\<lambda>rs h. holds L D h \<and> (\<exists>new. rs = segments @ new \<and> (\<forall>s \<in> set new. listed C sp ext L s) \<and>
       map rs_path new = map (\<lambda>n. dir @ [n]) (filter (\<lambda>n. path_extension (dir @ [n]) = Some ext) names)))
    (\<lambda>_. holds L D)"
proof (induction names arbitrary: segments)
  case (Cons name names)
  let ?Q = "\<lambda>segments names rs h. holds L D h \<and> (\<exists>new. rs = segments @ new \<and> (\<forall>s \<in> set new. listed C sp ext L s) \<and>
       map rs_path new = map (\<lambda>n. dir @ [n]) (filter (\<lambda>n. path_extension (dir @ [n]) = Some ext) names))"
  show ?case
    unfolding lifecycle_files.simps Let_def
  proof (rule hoare_bnd [OF hoare_next_entry], rule hoare_bnd
      [where R = "\<lambda>r h. parse_segment_name (dir @ [name]) = Inr r \<and> holds L D h"], rule hoare_lift_res, simp, simp,
      rule hoare_when, clarify)
    fix sid state assume p: "parse_segment_name (dir @ [name]) = Inr (sid, state)"
    note pn = parse_segment_name_Ok [OF p]
    have inspect: "hoare (holds L D)
        (bnd (inspect_segment C (dir @ [name]) (sp_key sp) (lim_segment (sp_limits sp))) (\<lambda>ins.
          if hdr_input_key (ins_header ins) \<noteq> input \<or> ins_id ins \<noteq> sid then throw identity_mismatch
          else lifecycle_files C sp ext dir input names (segments @ [ready_of (dir @ [name]) sid ins])))
        (?Q segments (name # names)) (\<lambda>_. holds L D)" if "state = ext"
    proof (rule hoare_bnd [OF hoare_weaken [OF hoare_inspect_segment [OF assms(1)], where
          Q' = "\<lambda>ins h. intact C (sp_key sp) (lim_segment (sp_limits sp)) L (dir @ [name]) ins \<and> holds L D h"]],
        simp, simp, simp, rule hoare_when, rule hoare_if, rule hoare_throw, simp)
      fix ins assume ins: "intact C (sp_key sp) (lim_segment (sp_limits sp)) L (dir @ [name]) ins"
        "\<not> (hdr_input_key (ins_header ins) \<noteq> input \<or> ins_id ins \<noteq> sid)"
      let ?s = "ready_of (dir @ [name]) sid ins"
      have "inspection ?s = ins" using ins(2) by (cases ins) (simp add: ready_of_def inspection_def)
      then have s: "listed C sp ext L ?s" "rs_path ?s = dir @ [name]"
        using ins pn(1) assms(2) that by (simp_all add: listed_def) (simp_all add: ready_of_def)
      show "hoare (holds L D) (lifecycle_files C sp ext dir input names (segments @ [?s])) (?Q segments (name # names)) (\<lambda>_. holds L D)"
        by (rule hoare_weaken [OF Cons.IH]) (use s pn(2) that in auto)
    qed
    show "hoare (holds L D)
        (if state \<noteq> ext then lifecycle_files C sp ext dir input names segments
         else bnd (inspect_segment C (dir @ [name]) (sp_key sp) (lim_segment (sp_limits sp))) (\<lambda>ins.
          if hdr_input_key (ins_header ins) \<noteq> input \<or> ins_id ins \<noteq> sid then throw identity_mismatch
          else lifecycle_files C sp ext dir input names (segments @ [ready_of (dir @ [name]) sid ins])))
        (?Q segments (name # names)) (\<lambda>_. holds L D)"
      by (rule hoare_if, rule hoare_weaken [OF Cons.IH]) (use pn(2) inspect in auto)
  qed
qed (auto intro!: hoare_ret)

text \<open>The segments found below some input directories.\<close>

definition found_below ::
    "spool_crypto \<Rightarrow> spool \<Rightarrow> string \<Rightarrow> (path \<Rightarrow> node option) \<Rightarrow> string list \<Rightarrow> ready_segment list \<Rightarrow> bool" where
  "found_below C sp ext L inputs new \<longleftrightarrow>
     (\<forall>s \<in> set new. listed C sp ext L s \<and> path_extension (rs_path s) = Some ext \<and>
        (\<exists>i \<in> set inputs. butlast (rs_path s) = sp_segments sp @ [i])) \<and>
     (distinct inputs \<longrightarrow> distinct (map rs_path new)) \<and>
     (\<forall>i \<in> set inputs. \<forall>f n. L (sp_segments sp @ [i, f]) = Some n \<longrightarrow>
        path_extension (sp_segments sp @ [i, f]) = Some ext \<longrightarrow> sp_segments sp @ [i, f] \<in> rs_path ` set new)"

lemma found_below_Cons:
  assumes "\<forall>s \<in> set new. listed C sp ext L s" "distinct names"
    and "map rs_path new = map (\<lambda>n. (sp_segments sp @ [i]) @ [n]) (filter (\<lambda>n. path_extension ((sp_segments sp @ [i]) @ [n]) = Some ext) names)"
    and "\<forall>c cs n. L ((sp_segments sp @ [i]) @ c # cs) = Some n \<longrightarrow> c \<in> set names" "found_below C sp ext L inputs rest"
  shows "found_below C sp ext L (i # inputs) (new @ rest)"
proof -
  let ?dir = "sp_segments sp @ [i]"
  have paths: "rs_path ` set new = {?dir @ [n] | n. n \<in> set names \<and> path_extension (?dir @ [n]) = Some ext}"
    using arg_cong [OF assms(3), of set] by auto
  have below: "butlast (rs_path s) = ?dir" "path_extension (rs_path s) = Some ext" if "s \<in> set new" for s
    using imageI [OF that, of rs_path] unfolding paths by (auto simp: butlast_append)
  have d: "distinct (map rs_path new)" unfolding assms(3) using assms(2) by (simp add: distinct_map inj_on_def)
  have f: "?dir @ [f] \<in> rs_path ` set new" if "L (?dir @ [f]) = Some n" "path_extension (?dir @ [f]) = Some ext" for f n
    using assms(4) that unfolding paths by blast
  have disj: "rs_path ` set new \<inter> rs_path ` set rest = {}" if "i \<notin> set inputs"
    using that below assms(5) unfolding found_below_def by fastforce
  show ?thesis
    unfolding found_below_def
  proof (intro conjI ballI allI impI)
    fix s assume "s \<in> set (new @ rest)"
    then show "listed C sp ext L s" "path_extension (rs_path s) = Some ext" "\<exists>i \<in> set (i # inputs). butlast (rs_path s) = sp_segments sp @ [i]"
      using assms(1,5) below unfolding found_below_def by auto
  next
    assume "distinct (i # inputs)"
    then show "distinct (map rs_path (new @ rest))" using d disj assms(5) unfolding found_below_def by auto
  next
    fix j f n
    assume "j \<in> set (i # inputs)" "L (sp_segments sp @ [j, f]) = Some n" "path_extension (sp_segments sp @ [j, f]) = Some ext"
    then show "sp_segments sp @ [j, f] \<in> rs_path ` set (new @ rest)"
      using f [of f n] assms(5) unfolding found_below_def image_Un set_append by auto
  qed
qed

lemma hoare_scan_found:
  assumes "cipher_ok C"
  shows "hoare (holds L D) (scan_inputs (sp_segments sp) stage (lifecycle_files C sp ext) inputs segments)
    (\<lambda>rs h. holds L D h \<and> (\<exists>new. rs = segments @ new \<and> found_below C sp ext L inputs new)) (\<lambda>_. holds L D)"
proof (induction inputs arbitrary: segments)
  case (Cons i inputs)
  let ?dir = "sp_segments sp @ [i]"
  let ?Q = "\<lambda>rs h. holds L D h \<and> (\<exists>new. rs = segments @ new \<and> found_below C sp ext L (i # inputs) new)"
  show ?case
    unfolding scan_inputs.simps Let_def
  proof (rule hoare_bnd [OF hoare_next_entry], rule hoare_bnd [OF hoare_weaken [OF hoare_validate_input_directory,
        where Q' = "\<lambda>k h. decode_hex 32 i = Some (input_key_bytes k) \<and> holds L D h"]], simp, simp, simp, rule hoare_when)
    fix key assume "decode_hex 32 i = Some (input_key_bytes key)"
    then have dir: "?dir = spool_input_directory sp key"
      by (simp add: spool_input_directory_def encode_hex_decode)
    show "hoare (holds L D) (bnd (read_directory ?dir stage) (\<lambda>names. bnd (lifecycle_files C sp ext ?dir key names segments)
        (scan_inputs (sp_segments sp) stage (lifecycle_files C sp ext) inputs))) ?Q (\<lambda>_. holds L D)"
    proof (rule hoare_bnd [OF hoare_weaken [OF hoare_read_directory_names, where
          Q' = "\<lambda>ns h. (distinct ns \<and> (\<forall>c cs n. L (?dir @ c # cs) = Some n \<longrightarrow> c \<in> set ns)) \<and> holds L D h"]],
        simp, simp, simp, rule hoare_when)
      fix names assume n: "distinct names \<and> (\<forall>c cs n. L (?dir @ c # cs) = Some n \<longrightarrow> c \<in> set names)"
      have rest: "hoare (\<lambda>h. (\<exists>new. rs = segments @ new \<and> (\<forall>s \<in> set new. listed C sp ext L s) \<and>
          map rs_path new = map (\<lambda>n. ?dir @ [n]) (filter (\<lambda>n. path_extension (?dir @ [n]) = Some ext) names)) \<and> holds L D h)
          (scan_inputs (sp_segments sp) stage (lifecycle_files C sp ext) inputs rs) ?Q (\<lambda>_. holds L D)" for rs
      proof (rule hoare_when, elim exE conjE)
        fix new assume new: "rs = segments @ new" "\<forall>s \<in> set new. listed C sp ext L s"
          "map rs_path new = map (\<lambda>n. ?dir @ [n]) (filter (\<lambda>n. path_extension (?dir @ [n]) = Some ext) names)"
        show "hoare (holds L D) (scan_inputs (sp_segments sp) stage (lifecycle_files C sp ext) inputs rs) ?Q (\<lambda>_. holds L D)"
          by (rule hoare_weaken [OF Cons.IH [of rs]])
            (use new(1) found_below_Cons [OF new(2) _ new(3)] n in auto)
      qed
      show "hoare (holds L D) (bnd (lifecycle_files C sp ext ?dir key names segments)
        (scan_inputs (sp_segments sp) stage (lifecycle_files C sp ext) inputs)) ?Q (\<lambda>_. holds L D)"
        by (rule hoare_bnd [OF hoare_lifecycle_files [OF assms dir]], rule hoare_weaken [OF rest]) auto
    qed
  qed
qed (auto intro!: hoare_ret simp: found_below_def)

lemma hoare_scan_lifecycle:
  assumes "cipher_ok C"
  shows "hoare (holds L D) (scan_lifecycle C sp ext)
    (\<lambda>rs h. holds L D h \<and> distinct (map rs_path rs) \<and> (\<forall>s \<in> set rs. listed C sp ext L s) \<and>
       rs_path ` set rs = {p. \<exists>i f. p = sp_segments sp @ [i, f] \<and> L p \<noteq> None \<and> path_extension p = Some ext})
    (\<lambda>_. holds L D)"
  unfolding scan_lifecycle_def
proof (rule hoare_bnd [OF hoare_weaken [OF hoare_read_directory_names, where
      Q' = "\<lambda>ns h. (distinct ns \<and> (\<forall>c cs n. L (sp_segments sp @ c # cs) = Some n \<longrightarrow> c \<in> set ns)) \<and> holds L D h"]],
    simp, simp, simp, rule hoare_when)
  fix inputs assume n: "distinct inputs \<and> (\<forall>c cs n. L (sp_segments sp @ c # cs) = Some n \<longrightarrow> c \<in> set inputs)"
  have paths: "rs_path ` set rs = {p. \<exists>i f. p = sp_segments sp @ [i, f] \<and> L p \<noteq> None \<and> path_extension p = Some ext}"
    if "found_below C sp ext L inputs rs" for rs
  proof (intro equalityI subsetI)
    fix p assume "p \<in> rs_path ` set rs"
    then obtain s where s: "s \<in> set rs" "p = rs_path s" by blast
    with that have "listed C sp ext L s" "path_extension p = Some ext" by (auto simp: found_below_def)
    then show "p \<in> {p. \<exists>i f. p = sp_segments sp @ [i, f] \<and> L p \<noteq> None \<and> path_extension p = Some ext}"
      using s(2) by (auto simp: listed_def intact_def spool_input_directory_def)
  next
    fix p assume "p \<in> {p. \<exists>i f. p = sp_segments sp @ [i, f] \<and> L p \<noteq> None \<and> path_extension p = Some ext}"
    with n that show "p \<in> rs_path ` set rs" unfolding found_below_def by blast
  qed
  show "hoare (holds L D) (scan_inputs (sp_segments sp) ''inventory_scan'' (lifecycle_files C sp ext) inputs [])
    (\<lambda>rs h. holds L D h \<and> distinct (map rs_path rs) \<and> (\<forall>s \<in> set rs. listed C sp ext L s) \<and>
       rs_path ` set rs = {p. \<exists>i f. p = sp_segments sp @ [i, f] \<and> L p \<noteq> None \<and> path_extension p = Some ext})
    (\<lambda>_. holds L D)"
    by (rule hoare_weaken [OF hoare_scan_found [OF assms]]) (use n paths in \<open>auto simp: found_below_def\<close>)
qed

section \<open>Property\<close>

lemma demo_listed:
  "case demo_written of
     (Inr rs, (acc, t)) \<Rightarrow> tree_ok t \<and> (case list_ready demo_crypto demo_sp t of (Inr l, _) \<Rightarrow> l = [rs] | (Inl _, _) \<Rightarrow> False)
   | (Inl _, _) \<Rightarrow> False"
  by code_simp

text \<open>
  C37. The inventory is exact. A successful listing of the ready segments changes nothing and returns, in the
  stable order and without repetition, exactly the files of the spool whose extension is \<open>ready\<close>;
  each is a complete image under the spool's key, in the directory of its input and under its own
  identity, and its handle carries the header, summary, metadata and length it holds.
\<close>
theorem list_ready_exact:
  assumes "list_ready C sp h = (Inr rs, t)" "tree_ok h" "cipher_ok C"
  shows "leaf t = leaf h \<and> sorted (map segment_order rs) \<and> distinct (map rs_path rs) \<and>
    (\<forall>s \<in> set rs. listed C sp READY_EXTENSION (leaf h) s) \<and>
    rs_path ` set rs = {p. \<exists>i f. p = sp_segments sp @ [i, f] \<and> leaf h p \<noteq> None \<and> path_extension p = Some READY_EXTENSION}"
proof -
  have h: "holds (leaf h) {} h" using assms(2) by (simp add: holds_def)
  from assms(1) obtain l where l: "scan_lifecycle C sp READY_EXTENSION h = (Inr l, t)" "rs = sort_key segment_order l"
    unfolding list_ready_def bnd_eq_Inr ret_apply by blast
  have "distinct (map rs_path rs) \<longleftrightarrow> distinct (map rs_path l)"
    unfolding l(2) by (rule mset_eq_imp_distinct_iff) simp
  with hoare_Inr [OF hoare_scan_lifecycle [OF assms(3)] h l(1)] show ?thesis
    unfolding l(2) by (simp add: holds_def)
qed

lemma list_ready_exact_witness:
  "\<exists>rs t. demo_written = (Inr rs, t) \<and> rs_path ` {rs} = {p. \<exists>i f. p = [''s''] @ [i, f] \<and>
     leaf (snd t) p \<noteq> None \<and> path_extension p = Some READY_EXTENSION}"
proof -
  obtain rs acc' t where w: "demo_written = (Inr rs, (acc', t))"
    using demo_written_ok unfolding is_ok_iff by (metis prod.collapse)
  obtain r v where r: "list_ready demo_crypto demo_sp t = (r, v)" by force
  from demo_listed [unfolded w prod.case sum.case r] r have "list_ready demo_crypto demo_sp t = (Inr [rs], v)" "tree_ok t"
    by (auto split: sum.split_asm)
  from list_ready_exact [OF this demo_cipher] w show ?thesis by (auto simp: demo_sp_def)
qed

end
