(* ===== verification/Spool_Delivered.thy ===== *)
theory Spool_Delivered
  imports Spool_Inventory
begin

text \<open>
  The transitions of whole files: a ready segment is renamed to delivered, a delivered one deleted.
  Nothing else moves, and nothing unvalidated is ever delivered or deleted.
\<close>

section \<open>Delivered segments\<close>

lemma hoare_seq:
  "hoare P m R S \<Longrightarrow> (\<And>e s. S e s \<Longrightarrow> E e s) \<Longrightarrow> (\<And>a. hoare (R a) (k a) Q E) \<Longrightarrow> hoare P (bnd m k) Q E"
  by (rule hoare_bnd [where R = R]) (auto intro: hoare_weaken [of P m R S])

lemma hoare_seq_weaken:
  "hoare P m R S \<Longrightarrow> (\<And>a s. R a s \<Longrightarrow> R' a s) \<Longrightarrow> (\<And>e s. S e s \<Longrightarrow> E e s) \<Longrightarrow>
   (\<And>a. hoare (R' a) (k a) Q E) \<Longrightarrow> hoare P (bnd m k) Q E"
  by (rule hoare_bnd [where R = R']) (auto intro: hoare_weaken [of P m R S])

lemma hoare_owned_path:
  "hoare (holds L D) (validate_owned_path sp p ext)
     (\<lambda>_ h. (\<exists>key sid. p = spool_input_directory sp key @ [segment_file sid ext] \<and>
        length (segment_id_bytes sid) = 16 \<and> CHR ''.'' \<notin> set ext) \<and> holds L D h) (\<lambda>_. holds L D)"
  unfolding validate_owned_path_def
proof (rule hoare_if, rule hoare_throw, simp, rule hoare_if, rule hoare_throw, simp)
  assume p: "\<not> (p = [] \<or> butlast p = [])"
  have step: "hoare (holds L D)
      (bnd (lift_res (parse_segment_name p)) (\<lambda>(sid, parsed).
        if parsed \<noteq> ext \<or> butlast p \<noteq> spool_input_directory sp key then throw invalid_path else ret ()))
      (\<lambda>_ h. (\<exists>key sid. p = spool_input_directory sp key @ [segment_file sid ext] \<and>
        length (segment_id_bytes sid) = 16 \<and> CHR ''.'' \<notin> set ext) \<and> holds L D h) (\<lambda>_. holds L D)" for key
  proof (rule hoare_bnd [where R = "\<lambda>r h. parse_segment_name p = Inr r \<and> holds L D h"], rule hoare_lift_res, simp, simp,
      rule hoare_when, clarify, rule hoare_if, rule hoare_throw, simp, rule hoare_ret)
    fix sid parsed h
    assume a: "parse_segment_name p = Inr (sid, parsed)" "\<not> (parsed \<noteq> ext \<or> butlast p \<noteq> spool_input_directory sp key)"
      and h: "holds L D h"
    have p': "p = butlast p @ [last p]" using p by simp
    note pn = parse_segment_name_Ok [of "butlast p" "last p" sid parsed, folded p', OF a(1)]
    have "split_name (last p) = (fst (split_name (last p)), Some ext)"
      using pn(2) a(2) p by (simp add: path_extension_def prod_eq_iff)
    then have "CHR ''.'' \<notin> set ext" by (rule split_name_Some(2))
    then show "(\<exists>key sid. p = spool_input_directory sp key @ [segment_file sid ext] \<and>
        length (segment_id_bytes sid) = 16 \<and> CHR ''.'' \<notin> set ext) \<and> holds L D h"
      using pn a(2) p' h by metis
  qed
  show "hoare (holds L D)
      (bnd (validate_input_directory (butlast p)) (\<lambda>key.
       bnd (lift_res (parse_segment_name p)) (\<lambda>(sid, parsed).
        if parsed \<noteq> ext \<or> butlast p \<noteq> spool_input_directory sp key then throw invalid_path else ret ())))
      (\<lambda>_ h. (\<exists>key sid. p = spool_input_directory sp key @ [segment_file sid ext] \<and>
        length (segment_id_bytes sid) = 16 \<and> CHR ''.'' \<notin> set ext) \<and> holds L D h) (\<lambda>_. holds L D)"
    by (rule hoare_bnd [OF hoare_post [OF hoare_validate_input_directory]], rule step)
qed

text \<open>The file of a handle is the complete image the handle describes.\<close>

abbreviation handle_intact :: "spool_crypto \<Rightarrow> spool \<Rightarrow> (path \<Rightarrow> node option) \<Rightarrow> ready_segment \<Rightarrow> bool" where
  "handle_intact C sp L s \<equiv> intact C (sp_key sp) (lim_segment (sp_limits sp)) L (rs_path s) (inspection s)"

abbreviation owned :: "spool \<Rightarrow> path \<Rightarrow> string \<Rightarrow> bool" where
  "owned sp p ext \<equiv> \<exists>key sid. p = spool_input_directory sp key @ [segment_file sid ext] \<and>
     length (segment_id_bytes sid) = 16 \<and> CHR ''.'' \<notin> set ext"

lemma hoare_validate_ready_handle:
  assumes "cipher_ok C"
  shows "hoare (holds L D) (validate_ready_handle C sp s)
     (\<lambda>_ h. (owned sp (rs_path s) READY_EXTENSION \<and> plain_in L (rs_path s) \<and> handle_intact C sp L s) \<and> holds L D h)
     (\<lambda>_. holds L D)"
  unfolding validate_ready_handle_def
proof (rule hoare_bnd [OF hoare_owned_path], rule hoare_when, rule hoare_bnd [OF hoare_inspect_segment [OF assms]],
    rule hoare_if, rule hoare_throw, simp, rule hoare_ret)
  fix ins :: inspected_segment and h :: host
  assume "\<not> (ins_header ins \<noteq> rs_header s \<or> ins_id ins \<noteq> rs_id s \<or> ins_summary ins \<noteq> rs_summary s \<or>
        ins_version ins \<noteq> rs_version s \<or> ins_metadata ins \<noteq> rs_metadata s \<or> ins_len ins \<noteq> rs_len s)"
  then have "ins = inspection s" by (cases ins) (simp add: inspection_def)
  then show "owned sp (rs_path s) READY_EXTENSION \<Longrightarrow>
      holds L D h \<and> plain_in L (rs_path s) \<and> intact C (sp_key sp) (lim_segment (sp_limits sp)) L (rs_path s) ins \<Longrightarrow>
      (owned sp (rs_path s) READY_EXTENSION \<and> plain_in L (rs_path s) \<and> handle_intact C sp L s) \<and> holds L D h"
    by simp
qed

lemma hoare_validate_delivered_handle:
  assumes "cipher_ok C"
  shows "hoare (holds L D) (validate_delivered_handle C sp s)
     (\<lambda>_ h. (owned sp (ds_path s) DELIVERED_EXTENSION \<and> plain_in L (ds_path s) \<and> handle_intact C sp L (as_ready s)) \<and>
        holds L D h) (\<lambda>_. holds L D)"
  unfolding validate_delivered_handle_def
proof (rule hoare_bnd [OF hoare_owned_path], rule hoare_when, rule hoare_bnd [OF hoare_inspect_segment [OF assms]],
    rule hoare_if, rule hoare_throw, simp, rule hoare_ret)
  fix ins :: inspected_segment and h :: host
  assume "\<not> (ins_header ins \<noteq> ds_header s \<or> ins_id ins \<noteq> ds_id s \<or> ins_summary ins \<noteq> ds_summary s \<or>
        ins_version ins \<noteq> ds_version s \<or> ins_metadata ins \<noteq> ds_metadata s \<or> ins_len ins \<noteq> ds_len s)"
  then have "ins = inspection (as_ready s)" by (cases ins) (simp add: inspection_def as_ready_def)
  then show "owned sp (ds_path s) DELIVERED_EXTENSION \<Longrightarrow>
      holds L D h \<and> plain_in L (ds_path s) \<and> intact C (sp_key sp) (lim_segment (sp_limits sp)) L (ds_path s) ins \<Longrightarrow>
      (owned sp (ds_path s) DELIVERED_EXTENSION \<and> plain_in L (ds_path s) \<and> handle_intact C sp L (as_ready s)) \<and> holds L D h"
    by (simp add: as_ready_def)
qed

definition moved :: "path \<Rightarrow> path \<Rightarrow> (path \<Rightarrow> node option) \<Rightarrow> path \<Rightarrow> node option" where
  "moved p q L = (L(p := None))(q := L p)"

lemma hoare_mark_delivered:
  assumes "cipher_ok C"
  defines "q s \<equiv> with_extension (rs_path s) DELIVERED_EXTENSION"
  shows "hoare (holds L D) (mark_delivered C sp s)
     (\<lambda>ds h. owned sp (rs_path s) READY_EXTENSION \<and> handle_intact C sp L s \<and> holds (moved (rs_path s) (q s) L) D h \<and>
        ds = (from_ready s)\<lparr>ds_path := q s\<rparr>)
     (\<lambda>_ h. holds L D h \<or> owned sp (rs_path s) READY_EXTENSION \<and> handle_intact C sp L s \<and>
        holds (moved (rs_path s) (q s) L) D h)" (is "hoare _ _ ?Q ?E")
  unfolding mark_delivered_def Let_def q_def [symmetric]
proof (rule hoare_seq [OF hoare_validate_ready_handle [OF assms(1)]], simp, rule hoare_when, elim conjE)
  assume own: "owned sp (rs_path s) READY_EXTENSION" "plain_in L (rs_path s)" "handle_intact C sp L s"
  then obtain c m where c: "L (rs_path s) = Some (File c m)" by (auto simp: intact_def)
  have dir: "butlast (q s) = butlast (rs_path s)" "q s \<noteq> []"
    using own(1) by (auto simp: q_def with_extension_segment)
  have pl: "plain_in L (butlast (rs_path s))" "plain_in L (butlast (q s))" using plain_butlast [OF own(2)] dir by simp_all
  let ?L = "moved (rs_path s) (q s) L"
  have rn: "hoare (holds L D) (map_fail x (sys_rename (rs_path s) (q s))) (\<lambda>_. holds ?L D) ?E"
    for x :: "io_kind \<Rightarrow> spool_error"
    by (rule hoare_weaken [OF hoare_map_fail_const [OF hoare_sys_rename [OF pl c]]]) (simp, simp add: moved_def c, blast)
  have fin: "hoare (holds ?L D) (bnd (sync_directory (butlast (q s)) st) (\<lambda>_. ret ((from_ready s)\<lparr>ds_path := q s\<rparr>))) ?Q ?E" for st
    by (rule hoare_seq [OF hoare_sync_directory]) (use own in \<open>auto intro!: hoare_ret\<close>)
  show "hoare (holds L D) (bnd (path_exists (q s)) (\<lambda>b. if b then throw x else
      bnd (map_fail y (sys_rename (rs_path s) (q s))) (\<lambda>_. if q s = [] then throw z else
      bnd (sync_directory (butlast (q s)) st) (\<lambda>_. ret ((from_ready s)\<lparr>ds_path := q s\<rparr>))))) ?Q ?E" for x y z st
    unfolding if_not_P [OF dir(2)]
    by (rule hoare_bnd [OF hoare_path_exists], rule hoare_if, rule hoare_throw, simp, rule hoare_bnd [OF rn], rule fin)
qed

lemma compact_steps:
  assumes "compact_delivered C sp s (acc, h) = (r, (acc', t))" "holds L D h" "cipher_ok C"
  shows "(r \<noteq> Inr () \<and> acc' = acc \<and> holds L D t) \<or>
    (owned sp (ds_path s) DELIVERED_EXTENSION \<and> handle_intact C sp L (as_ready s) \<and> holds (L(ds_path s := None)) D t \<and>
      (r = Inr () \<longrightarrow> remove_stored (hdr_input_key (ds_header s)) (ds_len s) acc = (Inr (), acc')))"
proof -
  obtain v h1 where v: "validate_delivered_handle C sp s h = (v, h1)" by (metis prod.exhaust)
  obtain q h2 where q: "sys_remove_file (ds_path s) h1 = (q, h2)" by (metis prod.exhaust)
  obtain y h3 where y: "sync_directory (butlast (ds_path s)) ''compact_delivered'' h2 = (y, h3)" by (metis prod.exhaust)
  note hv = hoare_validate_delivered_handle [OF assms(3), of L D sp s]
  show ?thesis
  proof (cases v)
    case (Inl e)
    with assms(1) v have "r = Inl e" "acc' = acc" "t = h1" by (auto simp: compact_delivered_def bnd_def on_snd_def)
    with hoare_Inl [OF hv assms(2) v [unfolded Inl]] show ?thesis by simp
  next
    case (Inr u)
    from hoare_Inr [OF hv assms(2) v [unfolded Inr]] have own:
      "owned sp (ds_path s) DELIVERED_EXTENSION" "plain_in L (ds_path s)" "handle_intact C sp L (as_ready s)" "holds L D h1"
      by blast+
    note hr = hoare_sys_remove_file [OF plain_butlast [OF own(2)], of D]
    have ne: "ds_path s \<noteq> []" using own(1) by auto
    show ?thesis
    proof (cases q)
      case q': (Inl e)
      with assms(1) v Inr q have "r \<noteq> Inr ()" "acc' = acc" "t = h2"
        by (auto simp: compact_delivered_def bnd_def on_snd_def map_fail_def)
      with hoare_Inl [OF hr own(4) q [unfolded q']] show ?thesis by simp
    next
      case q': (Inr u)
      from hoare_Inr [OF hr own(4) q [unfolded q']] have h2: "holds (L(ds_path s := None)) D h2" by blast
      note h3 = keepsD [OF hoare_sync_directory h2 y]
      have "t = h3" "r = Inr () \<longrightarrow> remove_stored (hdr_input_key (ds_header s)) (ds_len s) acc = (Inr (), acc')"
        using assms(1) v Inr q q' y ne
        by (cases y; auto simp: compact_delivered_def bnd_def on_snd_def map_fail_def on_accounts_def split: prod.split_asm)+
      with own h3 show ?thesis by blast
    qed
  qed
qed

section \<open>Properties of the delivered state\<close>

definition demo_delivered :: "(spool_error + delivered_segment) \<times> host" where
  "demo_delivered = (case demo_written of
     (Inr rs, (acc, t)) \<Rightarrow> mark_delivered demo_crypto demo_sp rs t | (Inl e, (acc, t)) \<Rightarrow> (Inl e, t))"

lemma demo_delivered_ok: "is_ok (fst demo_delivered) \<and> tree_ok (snd (snd demo_written))"
  by code_simp

text \<open>
  C33. Delivery moves one validated file. Marking a segment delivered either changes nothing and fails, or
  moves exactly the file of its handle from \<open>.ready\<close> to \<open>.delivered\<close> beside it, bytes unchanged, and only
  after that file proved to be the complete image the handle describes; a success did move it.
\<close>
theorem delivered_moves_validated:
  assumes "mark_delivered C sp s h = (r, t)" "tree_ok h" "cipher_ok C"
  shows "(leaf t = leaf h \<and> \<not> is_ok r) \<or>
    (\<exists>key sid. rs_path s = spool_input_directory sp key @ [segment_file sid READY_EXTENSION] \<and>
      handle_intact C sp (leaf h) s \<and>
      (let q = spool_input_directory sp key @ [segment_file sid DELIVERED_EXTENSION] in
       leaf t = moved (rs_path s) q (leaf h) \<and> (\<forall>ds. r = Inr ds \<longrightarrow> ds = (from_ready s)\<lparr>ds_path := q\<rparr>)))"
proof -
  have h: "holds (leaf h) {} h" using assms(2) by (simp add: holds_def)
  let ?q = "with_extension (rs_path s) DELIVERED_EXTENSION"
  note ho = hoare_mark_delivered [OF assms(3), of "leaf h" "{}" sp s]
  have "(leaf t = leaf h \<and> \<not> is_ok r) \<or> (owned sp (rs_path s) READY_EXTENSION \<and> handle_intact C sp (leaf h) s \<and>
      leaf t = moved (rs_path s) ?q (leaf h) \<and> (\<forall>ds. r = Inr ds \<longrightarrow> ds = (from_ready s)\<lparr>ds_path := ?q\<rparr>))"
    using assms(1) hoare_Inr [OF ho h] hoare_Inl [OF ho h] by (cases r) (auto simp: holds_def)
  then show ?thesis
    by (elim disjE conjE exE) (auto simp: with_extension_segment Let_def)
qed

lemma delivered_moves_validated_witness:
  "\<exists>rs acc t ds u. demo_written = (Inr rs, (acc, t)) \<and> mark_delivered demo_crypto demo_sp rs t = (Inr ds, u) \<and>
     leaf u (rs_path rs) = None \<and> leaf u (ds_path ds) = leaf t (rs_path rs) \<and> leaf t (rs_path rs) \<noteq> None"
proof -
  obtain rs acc t where w: "demo_written = (Inr rs, (acc, t))"
    using demo_written_ok unfolding is_ok_iff by (metis prod.collapse)
  obtain ds u where d: "mark_delivered demo_crypto demo_sp rs t = (Inr ds, u)"
    using demo_delivered_ok unfolding demo_delivered_def w is_ok_iff by (auto intro: that prod.collapse [symmetric] simp: prod_eq_iff)
  have "tree_ok t" using demo_delivered_ok by (simp add: w)
  from delivered_moves_validated [OF d this demo_cipher] obtain key sid where
    k: "rs_path rs = spool_input_directory demo_sp key @ [segment_file sid READY_EXTENSION]" "handle_intact demo_crypto demo_sp (leaf t) rs"
      "leaf u = moved (rs_path rs) (ds_path ds) (leaf t)"
      "ds_path ds = spool_input_directory demo_sp key @ [segment_file sid DELIVERED_EXTENSION]"
    by (auto simp: Let_def)
  have "rs_path rs \<noteq> ds_path ds" unfolding k(1,4) by (simp add: segment_file_def READY_EXTENSION_def DELIVERED_EXTENSION_def)
  then have "leaf u (rs_path rs) = None" "leaf u (ds_path ds) = leaf t (rs_path rs)" unfolding k(3) by (simp_all add: moved_def)
  moreover have "leaf t (rs_path rs) \<noteq> None" using k(2) by (auto simp: intact_def)
  ultimately show ?thesis using w d by blast
qed

text \<open>
  C34. Compaction deletes only what was delivered. Compacting a segment either changes nothing and fails,
  or removes exactly one file, a \<open>.delivered\<close> file of the spool that proved to be the complete image its
  handle describes; a success also took its length out of the books.
\<close>
theorem compact_deletes_delivered:
  assumes "compact_delivered C sp s (acc, h) = (r, (acc', t))" "tree_ok h" "cipher_ok C"
  shows "(r \<noteq> Inr () \<and> acc' = acc \<and> leaf t = leaf h) \<or>
    (\<exists>key sid. ds_path s = spool_input_directory sp key @ [segment_file sid DELIVERED_EXTENSION] \<and>
      handle_intact C sp (leaf h) (as_ready s) \<and> leaf t = (leaf h)(ds_path s := None) \<and>
      (r = Inr () \<longrightarrow> remove_stored (hdr_input_key (ds_header s)) (ds_len s) acc = (Inr (), acc')))"
proof -
  have "holds (leaf h) {} h" using assms(2) by (simp add: holds_def)
  from compact_steps [OF assms(1) this assms(3)] show ?thesis unfolding holds_def by blast
qed

lemma demo_compacts:
  "case demo_written of
     (Inr rs, (acc, t)) \<Rightarrow>
       (case mark_delivered demo_crypto demo_sp rs t of
          (Inr ds, u) \<Rightarrow> tree_ok u \<and> is_ok (fst (compact_delivered demo_crypto demo_sp ds (acc, u))) | (Inl _, _) \<Rightarrow> False)
   | (Inl _, _) \<Rightarrow> False"
  by code_simp

lemma compact_deletes_delivered_witness:
  "\<exists>rs acc t ds u acc' v. demo_written = (Inr rs, (acc, t)) \<and> mark_delivered demo_crypto demo_sp rs t = (Inr ds, u) \<and>
     compact_delivered demo_crypto demo_sp ds (acc, u) = (Inr (), (acc', v)) \<and>
     leaf u (ds_path ds) \<noteq> None \<and> leaf v = (leaf u)(ds_path ds := None)"
proof -
  obtain rs acc t where w: "demo_written = (Inr rs, (acc, t))"
    using demo_written_ok unfolding is_ok_iff by (metis prod.collapse)
  obtain r u where d: "mark_delivered demo_crypto demo_sp rs t = (r, u)" by force
  obtain ds where ds: "r = Inr ds" "tree_ok u" "is_ok (fst (compact_delivered demo_crypto demo_sp ds (acc, u)))"
    using demo_compacts [unfolded w prod.case sum.case d] by (cases r) auto
  obtain r2 acc' v where c: "compact_delivered demo_crypto demo_sp ds (acc, u) = (r2, (acc', v))" by (metis prod.exhaust)
  with ds(3) have r2: "r2 = Inr ()" by (cases r2) auto
  from compact_deletes_delivered [OF c [unfolded r2] ds(2) demo_cipher]
  have k: "handle_intact demo_crypto demo_sp (leaf u) (as_ready ds)" "leaf v = (leaf u)(ds_path ds := None)" by auto
  from k(1) have "leaf u (ds_path ds) \<noteq> None" by (auto simp: intact_def as_ready_def)
  with w d ds(1) c r2 k(2) show ?thesis by blast
qed

end
