(* ===== verification/Spool_Startup.thy ===== *)
theory Spool_Startup
  imports Spool_Delivered
begin

text \<open>
  Startup of the spool: an open segment left by a stopped process is set aside, nothing else moves, and the
  accounting is rebuilt from the files.
\<close>

section \<open>Recovery of open segments\<close>

text \<open>One incomplete segment set aside: its file moves to the quarantine directory of its input.\<close>

inductive quarantine_step ::
    "path \<Rightarrow> path \<Rightarrow> (path \<Rightarrow> node option) \<Rightarrow> (path \<Rightarrow> node option) \<Rightarrow> bool" for segs quar where
  "L (segs @ [k, segment_file sid OPEN_EXTENSION]) = Some (File c m) \<Longrightarrow> length (segment_id_bytes sid) = 16 \<Longrightarrow>
   quarantine_step segs quar L
     (moved (segs @ [k, segment_file sid OPEN_EXTENSION]) (quar @ [k, segment_file sid QUARANTINE_EXTENSION]) L)"

inductive_cases quarantine_stepE: "quarantine_step segs quar L L'"

abbreviation recovering :: "path \<Rightarrow> path \<Rightarrow> (path \<Rightarrow> node option) \<Rightarrow> path set \<Rightarrow> host \<Rightarrow> bool" where
  "recovering segs quar L D h \<equiv> \<exists>L'. rtranclp (quarantine_step segs quar) L L' \<and> holds L' D h"

definition apart :: "path \<Rightarrow> path \<Rightarrow> bool" where
  "apart segs quar \<longleftrightarrow> segs \<noteq> quar \<and> length segs = length quar"

text \<open>A file that is no open segment and not in quarantine stays; no open file appears.\<close>

definition open_file :: "path \<Rightarrow> path \<Rightarrow> bool" where
  "open_file segs p \<longleftrightarrow> (\<exists>k f. p = segs @ [k, f] \<and> path_extension p = Some OPEN_EXTENSION)"

lemma segment_extension:
  "length (segment_id_bytes sid) = 16 \<Longrightarrow> CHR ''.'' \<notin> set ext \<Longrightarrow> path_extension (dir @ [segment_file sid ext]) = Some ext"
  by (simp add: path_extension_def split_segment_file)

lemma quarantine_step_keeps:
  assumes "quarantine_step segs quar L L'" "apart segs quar"
  shows "\<not> open_file segs p \<Longrightarrow> (\<forall>k f. p \<noteq> quar @ [k, f]) \<Longrightarrow> L' p = L p"
    "open_file segs p \<Longrightarrow> L' p = L p \<or> L' p = None"
proof -
  from assms(1) obtain k sid where L': "length (segment_id_bytes sid) = 16"
    "L' = moved (segs @ [k, segment_file sid OPEN_EXTENSION]) (quar @ [k, segment_file sid QUARANTINE_EXTENSION]) L"
    by (rule quarantine_stepE) blast
  have "open_file segs (segs @ [k, segment_file sid OPEN_EXTENSION])"
    using segment_extension [OF L'(1), of OPEN_EXTENSION "segs @ [k]"] by (auto simp: open_file_def)
  then show "\<not> open_file segs p \<Longrightarrow> (\<forall>k f. p \<noteq> quar @ [k, f]) \<Longrightarrow> L' p = L p"
    by (auto simp: L'(2) moved_def)
  show "open_file segs p \<Longrightarrow> L' p = L p \<or> L' p = None"
    using assms(2) by (auto simp: L'(2) moved_def open_file_def apart_def)
qed

lemma quarantine_steps_keep:
  assumes "rtranclp (quarantine_step segs quar) L L'" "apart segs quar"
  shows "\<not> open_file segs p \<Longrightarrow> (\<forall>k f. p \<noteq> quar @ [k, f]) \<Longrightarrow> L' p = L p"
    "open_file segs p \<Longrightarrow> L' p = L p \<or> L' p = None"
  using assms by (induction) (auto dest: quarantine_step_keeps)

lemma hoare_quarantine_move:
  fixes segs quar :: path and name
  assumes "dir = segs @ [encode_hex (input_key_bytes key)]" "parse_segment_name (dir @ [name]) = Inr (sid, OPEN_EXTENSION)"
    and "apart segs quar"
  defines "p \<equiv> dir @ [name]" and "qd \<equiv> quar @ [encode_hex (input_key_bytes key)]"
  defines "q \<equiv> qd @ [segment_file sid QUARANTINE_EXTENSION]"
  shows "hoare (holds L D) (quarantine_one quar dir key p sid n)
     (\<lambda>_ h. (\<exists>c m. L p = Some (File c m)) \<and> holds (moved p q L) D h)
     (\<lambda>_ h. holds L D h \<or> (\<exists>c m. L p = Some (File c m)) \<and> holds (moved p q L) D h)" (is "hoare _ _ ?Q ?E")
proof -
  let ?L = "moved p q L"
  have main: "hoare (holds L D)
      (bnd (ensure_private_directory qd) (\<lambda>_. bnd (path_exists q) (\<lambda>b. if b then throw x else
        bnd (map_fail y (sys_rename p q)) (\<lambda>_. bnd (sync_directory dir st) (\<lambda>_. bnd (sync_directory qd st) (\<lambda>_.
          lift_res (ok_or z (checked_add n 1))))))))
      ?Q ?E" if a: "plain_in L p" "L p = Some (File c m)" for c m x y z st
  proof (rule hoare_seq [OF hoare_ensure_private_directory], simp, rule hoare_weaken
      [where P = "\<lambda>h. plain_in L qd \<and> holds L D h"], rule hoare_when)
    assume qd: "plain_in L qd"
    have pl: "plain_in L (butlast p)" "plain_in L (butlast q)"
      using plain_butlast [OF a(1)] qd by (simp_all only: q_def butlast_snoc)
    have rn: "hoare (holds L D) (map_fail y (sys_rename p q)) (\<lambda>_. holds ?L D) ?E"
      by (rule hoare_weaken [OF hoare_map_fail_const [OF hoare_sys_rename [OF pl a(2)]]])
        (simp, simp add: moved_def a(2), simp)
    show "hoare (holds L D) (bnd (path_exists q) (\<lambda>b. if b then throw x else
        bnd (map_fail y (sys_rename p q)) (\<lambda>_. bnd (sync_directory dir st) (\<lambda>_. bnd (sync_directory qd st) (\<lambda>_.
          lift_res (ok_or z (checked_add n 1))))))) ?Q ?E"
      by (rule hoare_bnd [OF hoare_path_exists], rule hoare_if, rule hoare_throw, simp,
          rule hoare_bnd [OF rn], rule hoare_seq [OF hoare_sync_directory], use a(2) in simp,
          rule hoare_seq [OF hoare_sync_directory], use a(2) in simp, rule hoare_lift_res)
        (use a(2) in simp_all)
  qed auto
  show ?thesis
    unfolding quarantine_one_def Let_def qd_def [symmetric] q_def [symmetric]
  proof (rule hoare_seq [OF hoare_validate_private_file], simp,
      rule hoare_weaken [where P = "\<lambda>h. (plain_in L p \<and> (\<exists>c m. L p = Some (File c m))) \<and> holds L D h"], rule hoare_when,
      elim conjE exE, rule main)
    fix node s assume "holds L D s \<and> plain_in L p \<and> is_file node \<and> L p = Some node"
    then show "(plain_in L p \<and> (\<exists>c m. L p = Some (File c m))) \<and> holds L D s" by (cases node) auto
  qed auto
qed

lemma hoare_quarantine_one:
  assumes "dir = segs @ [encode_hex (input_key_bytes key)]" "parse_segment_name (dir @ [name]) = Inr (sid, OPEN_EXTENSION)"
    and "apart segs quar"
  shows "hoare (holds L D) (quarantine_one quar dir key (dir @ [name]) sid n)
     (\<lambda>_ h. \<exists>L'. quarantine_step segs quar L L' \<and> L' (dir @ [name]) = None \<and> holds L' D h)
     (\<lambda>_. recovering segs quar L D)"
proof -
  let ?p = "dir @ [name]" and ?q = "(quar @ [encode_hex (input_key_bytes key)]) @ [segment_file sid QUARANTINE_EXTENSION]"
  note pn = parse_segment_name_Ok [OF assms(2)]
  have neq: "?p \<noteq> ?q" using assms(1,3) by (simp add: apart_def)
  define N where "N = moved ?p ?q L"
  have step: "quarantine_step segs quar L N" if "\<exists>c m. L ?p = Some (File c m)"
    using quarantine_step.intros [of L segs "encode_hex (input_key_bytes key)" sid _ _ quar] that assms(1) pn
    by (auto simp: N_def)
  have gone: "N ?p = None" using neq unfolding N_def moved_def by (simp only: fun_upd_apply if_False) simp
  show ?thesis
    by (rule hoare_weaken [OF hoare_quarantine_move [OF assms, where L = L, folded N_def]])
      (use step gone in blast)+
qed

lemma hoare_recover_files:
  assumes "dir = segs @ [encode_hex (input_key_bytes key)]" "apart segs quar"
  shows "hoare (holds L D) (recover_files quar dir key names n)
     (\<lambda>_ h. \<exists>L'. rtranclp (quarantine_step segs quar) L L' \<and> holds L' D h \<and>
        (\<forall>name \<in> set names. path_extension (dir @ [name]) = Some OPEN_EXTENSION \<longrightarrow> L' (dir @ [name]) = None))
     (\<lambda>_. recovering segs quar L D)"
proof (induction names arbitrary: L n)
  case (Cons name names)
  let ?E = "\<lambda>_. recovering segs quar L D"
  let ?Q = "\<lambda>names L h. \<exists>L'. rtranclp (quarantine_step segs quar) L L' \<and> holds L' D h \<and>
        (\<forall>name \<in> set names. path_extension (dir @ [name]) = Some OPEN_EXTENSION \<longrightarrow> L' (dir @ [name]) = None)"
  have E: "recovering segs quar L D h" if "holds L D h" for h using that by blast
  show ?case
    unfolding recover_files.simps Let_def
  proof (rule hoare_seq [OF hoare_next_entry], rule E, assumption, rule hoare_bnd
      [where R = "\<lambda>r h. parse_segment_name (dir @ [name]) = Inr r \<and> holds L D h"], rule hoare_lift_res, simp, simp add: E,
      rule hoare_when, clarify)
    fix sid ext assume p: "parse_segment_name (dir @ [name]) = Inr (sid, ext)"
    note ext = parse_segment_name_Ok(2) [OF p]
    have quarantine: "hoare (holds L D) (bnd (quarantine_one quar dir key (dir @ [name]) sid n) (recover_files quar dir key names))
        (\<lambda>_. ?Q (name # names) L) ?E" if o: "ext = OPEN_EXTENSION"
    proof (rule hoare_bnd [OF hoare_quarantine_one [OF assms(1) p [unfolded o] assms(2)]], rule hoare_ex)
      fix m L1
      have "hoare (\<lambda>h. (quarantine_step segs quar L L1 \<and> L1 (dir @ [name]) = None) \<and> holds L1 D h) (recover_files quar dir key names m)
          (\<lambda>_. ?Q (name # names) L) ?E"
      proof (rule hoare_when, elim conjE)
        assume s: "quarantine_step segs quar L L1" "L1 (dir @ [name]) = None"
        have "open_file segs (dir @ [name])" using ext o assms(1) by (auto simp: open_file_def)
        then have "L' (dir @ [name]) = None" if "rtranclp (quarantine_step segs quar) L1 L'" for L'
          using quarantine_steps_keep(2) [OF that assms(2)] s(2) by metis
        with s(1) show "hoare (holds L1 D) (recover_files quar dir key names m) (\<lambda>_. ?Q (name # names) L) ?E"
          by (intro hoare_weaken [OF Cons.IH [of L1]]) (auto intro: converse_rtranclp_into_rtranclp)
      qed
      then show "hoare (\<lambda>h. quarantine_step segs quar L L1 \<and> L1 (dir @ [name]) = None \<and> holds L1 D h)
          (recover_files quar dir key names m) (\<lambda>_. ?Q (name # names) L) ?E"
        by (rule hoare_weaken) auto
    qed
    show "hoare (holds L D) (if ext \<noteq> OPEN_EXTENSION then recover_files quar dir key names n
        else bnd (quarantine_one quar dir key (dir @ [name]) sid n) (recover_files quar dir key names))
        (\<lambda>_. ?Q (name # names) L) ?E"
      by (rule hoare_if, rule hoare_weaken [OF Cons.IH]) (use ext quarantine in auto)
  qed
qed (auto intro!: hoare_ret)

lemma hoare_recover_inputs:
  assumes "apart segs quar"
  shows "hoare (holds L D) (scan_inputs segs stage (recover_files quar) inputs n)
     (\<lambda>_ h. \<exists>L'. rtranclp (quarantine_step segs quar) L L' \<and> holds L' D h \<and>
        (\<forall>i \<in> set inputs. \<forall>f. path_extension (segs @ [i, f]) = Some OPEN_EXTENSION \<longrightarrow> L' (segs @ [i, f]) = None))
     (\<lambda>_. recovering segs quar L D)"
proof (induction inputs arbitrary: L n)
  case (Cons i inputs)
  let ?E = "\<lambda>_. recovering segs quar L D"
  let ?clean = "\<lambda>L' i. \<forall>f. path_extension (segs @ [i, f]) = Some OPEN_EXTENSION \<longrightarrow> L' (segs @ [i, f]) = None"
  let ?Q = "\<lambda>_ h. \<exists>L'. rtranclp (quarantine_step segs quar) L L' \<and> holds L' D h \<and> (\<forall>i \<in> set (i # inputs). ?clean L' i)"
  let ?dir = "segs @ [i]"
  have E: "recovering segs quar L D h" if "holds L D h" for h using that by blast
  have rest: "hoare (\<lambda>h. (rtranclp (quarantine_step segs quar) L L1 \<and> ?clean L1 i) \<and> holds L1 D h)
      (scan_inputs segs stage (recover_files quar) inputs m) ?Q ?E" for L1 m
  proof (rule hoare_when, elim conjE)
    assume s: "rtranclp (quarantine_step segs quar) L L1" "?clean L1 i"
    have "?clean L' i" if "rtranclp (quarantine_step segs quar) L1 L'" for L'
      using quarantine_steps_keep(2) [OF that assms] s(2) unfolding open_file_def by metis
    with s(1) show "hoare (holds L1 D) (scan_inputs segs stage (recover_files quar) inputs m) ?Q ?E"
      by (intro hoare_weaken [OF Cons.IH [of L1]]) (auto, (meson rtranclp_trans)+)
  qed
  show ?case
    unfolding scan_inputs.simps Let_def
  proof (rule hoare_seq [OF hoare_next_entry], rule E, assumption, rule hoare_seq_weaken [OF hoare_validate_input_directory,
        where R' = "\<lambda>k h. decode_hex 32 i = Some (input_key_bytes k) \<and> holds L D h"], simp, rule E, assumption,
      rule hoare_when)
    fix key assume "decode_hex 32 i = Some (input_key_bytes key)"
    then have dir: "?dir = segs @ [encode_hex (input_key_bytes key)]" by (simp add: encode_hex_decode)
    show "hoare (holds L D) (bnd (read_directory ?dir stage) (\<lambda>names. bnd (recover_files quar ?dir key names n)
        (scan_inputs segs stage (recover_files quar) inputs))) ?Q ?E"
    proof (rule hoare_seq_weaken [OF hoare_read_directory_names, where
          R' = "\<lambda>ns h. (\<forall>c cs n. L (?dir @ c # cs) = Some n \<longrightarrow> c \<in> set ns) \<and> holds L D h"],
        simp, rule E, assumption, rule hoare_when, rule hoare_bnd [OF hoare_recover_files [OF dir assms]], rule hoare_ex)
      fix names m L1 assume n: "\<forall>c cs n. L (?dir @ c # cs) = Some n \<longrightarrow> c \<in> set names"
      have clean: "?clean L1 i" if "rtranclp (quarantine_step segs quar) L L1"
        "\<forall>name \<in> set names. path_extension (?dir @ [name]) = Some OPEN_EXTENSION \<longrightarrow> L1 (?dir @ [name]) = None"
      proof (intro allI impI)
        fix f assume f: "path_extension (segs @ [i, f]) = Some OPEN_EXTENSION"
        show "L1 (segs @ [i, f]) = None"
        proof (cases "L (segs @ [i, f])")
          case None
          with quarantine_steps_keep(2) [OF that(1) assms] f show ?thesis unfolding open_file_def by metis
        next
          case (Some x)
          with n [rule_format, of f "[]" x] have "f \<in> set names" by simp
          with that(2) f show ?thesis by simp
        qed
      qed
      show "hoare (\<lambda>h. rtranclp (quarantine_step segs quar) L L1 \<and> holds L1 D h \<and>
          (\<forall>name \<in> set names. path_extension (?dir @ [name]) = Some OPEN_EXTENSION \<longrightarrow> L1 (?dir @ [name]) = None))
          (scan_inputs segs stage (recover_files quar) inputs m) ?Q ?E"
        by (rule hoare_weaken [OF rest [of L1 m]]) (use clean in blast)+
    qed
  qed
qed (auto intro!: hoare_ret)

lemma hoare_recover_open_segments:
  assumes "apart segs quar"
  shows "hoare (holds L D) (recover_open_segments segs quar)
     (\<lambda>_ h. \<exists>L'. rtranclp (quarantine_step segs quar) L L' \<and> (\<forall>p. open_file segs p \<longrightarrow> L' p = None) \<and> holds L' D h)
     (\<lambda>_. recovering segs quar L D)"
  unfolding recover_open_segments_def
proof (rule hoare_seq_weaken [OF hoare_read_directory_names, where
      R' = "\<lambda>ns h. (\<forall>c cs n. L (segs @ c # cs) = Some n \<longrightarrow> c \<in> set ns) \<and> holds L D h"],
    simp, blast, rule hoare_when)
  fix inputs assume n: "\<forall>c cs n. L (segs @ c # cs) = Some n \<longrightarrow> c \<in> set inputs"
  have clean: "L' p = None" if "rtranclp (quarantine_step segs quar) L L'" "open_file segs p"
    "\<forall>i \<in> set inputs. \<forall>f. path_extension (segs @ [i, f]) = Some OPEN_EXTENSION \<longrightarrow> L' (segs @ [i, f]) = None" for L' p
  proof -
    from that(2) obtain i f where p: "p = segs @ [i, f]" "path_extension p = Some OPEN_EXTENSION" by (auto simp: open_file_def)
    show ?thesis
    proof (cases "L p")
      case None
      with quarantine_steps_keep(2) [OF that(1) assms that(2)] show ?thesis by metis
    next
      case (Some x)
      with n [rule_format, of i "[f]" x] p(1) have "i \<in> set inputs" by simp
      with that(3) p show ?thesis by simp
    qed
  qed
  show "hoare (holds L D) (scan_inputs segs ''startup_recovery'' (recover_files quar) inputs 0)
     (\<lambda>_ h. \<exists>L'. rtranclp (quarantine_step segs quar) L L' \<and> (\<forall>p. open_file segs p \<longrightarrow> L' p = None) \<and> holds L' D h)
     (\<lambda>_. recovering segs quar L D)"
    by (rule hoare_weaken [OF hoare_recover_inputs [OF assms]]) (use clean in blast)+
qed

section \<open>Rebuilding the accounting\<close>

definition file_len :: "(path \<Rightarrow> node option) \<Rightarrow> path \<Rightarrow> nat" where
  "file_len L p = (case L p of Some n \<Rightarrow> node_len n | None \<Rightarrow> 0)"

text \<open>The bytes of the files in a directory.\<close>

definition bytes_in :: "(path \<Rightarrow> node option) \<Rightarrow> path \<Rightarrow> nat" where
  "bytes_in L dir = (\<Sum>f \<in> {f. L (dir @ [f]) \<noteq> None}. file_len L (dir @ [f]))"

definition charged :: "accounting \<Rightarrow> accounting \<Rightarrow> (input_key \<Rightarrow> nat) \<Rightarrow> bool" where
  "charged acc acc' amount \<longleftrightarrow>
     (\<forall>j. unat (bytes_of (stored_by_input acc') j) = unat (bytes_of (stored_by_input acc) j) + amount j)"

lemma charged_trans: "charged a b f \<Longrightarrow> charged b c g \<Longrightarrow> charged a c (\<lambda>j. f j + g j)"
  by (simp add: charged_def)

definition only_for :: "input_key \<Rightarrow> nat \<Rightarrow> input_key \<Rightarrow> nat" where
  "only_for k n j = (if j = k then n else 0)"

lemma charge_stored_charged: "charge_stored acc k n = Inr acc' \<Longrightarrow> charged acc acc' (only_for k (unat n))"
  by (auto simp: charge_stored_def add_stored_def charged_def only_for_def try_in_eq_Inr Let_def checked_add_Some
      unat_add_small split: prod.split_asm sum.split_asm)

lemma charged_more:
  "charge_stored acc k n = Inr acc1 \<Longrightarrow> unat n = m \<Longrightarrow> charged acc1 acc' (only_for k r) \<Longrightarrow> charged acc acc' (only_for k (m + r))"
  using charge_stored_charged [of acc k n acc1] by (auto simp: charged_def only_for_def)

definition small_files :: "(path \<Rightarrow> node option) \<Rightarrow> bool" where
  "small_files L \<longleftrightarrow> (\<forall>p n. L p = Some n \<longrightarrow> node_len n < 2 ^ 64)"

abbreviation charges ::
    "(path \<Rightarrow> node option) \<Rightarrow> path set \<Rightarrow> path \<Rightarrow> input_key \<Rightarrow> string list \<Rightarrow> accounting \<Rightarrow> accounting \<Rightarrow> host \<Rightarrow> bool" where
  "charges L D dir key names acc acc' h \<equiv> ((\<forall>n \<in> set names. L (dir @ [n]) \<noteq> None) \<and>
     charged acc acc' (only_for key (sum_list (map (\<lambda>n. file_len L (dir @ [n])) names)))) \<and> holds L D h"

lemma hoare_scan_segment_files:
  assumes "cipher_ok C"
  shows "hoare (holds L D) (scan_segment_files C key limits dir input names acc) (charges L D dir input names acc)
    (\<lambda>_. holds L D)"
proof (induction names arbitrary: acc)
  case (Cons name names)
  let ?p = "dir @ [name]"
  show ?case
    unfolding scan_segment_files.simps Let_def
  proof (rule hoare_bnd [OF hoare_next_entry], rule hoare_bnd [where R = "\<lambda>_. holds L D"], rule hoare_lift_res, simp, simp,
      clarify, rule hoare_if, rule hoare_throw, simp,
      rule hoare_seq_weaken [OF hoare_inspect_segment [OF assms],
        where R' = "\<lambda>ins h. intact C key (lim_segment limits) L ?p ins \<and> holds L D h"], simp, simp, rule hoare_when,
      rule hoare_if, rule hoare_throw, simp,
      rule hoare_bnd [where R = "\<lambda>acc' h. charge_stored acc input (ins_len ins) = Inr acc' \<and> holds L D h" for ins],
      rule hoare_lift_res, simp, simp, rule hoare_when)
    fix ins acc1 assume ins: "intact C key (lim_segment limits) L ?p ins" and c: "charge_stored acc input (ins_len ins) = Inr acc1"
    have len: "L ?p \<noteq> None \<and> unat (ins_len ins) = file_len L ?p"
    proof -
      from ins obtain b m where b: "L ?p = Some (File b m)" "length b \<le> unat (lim_segment limits)" "ins_len ins = of_nat (length b)"
        unfolding intact_def by blast
      then have "unat (ins_len ins) = length b"
        using unat_of_nat_small [of "length b", where 'a = 64] u64_bound [of "lim_segment limits"] by simp
      with b(1) show ?thesis by (simp add: file_len_def)
    qed
    show "hoare (holds L D) (scan_segment_files C key limits dir input names acc1) (charges L D dir input (name # names) acc)
        (\<lambda>_. holds L D)"
      by (rule hoare_weaken [OF Cons.IH]) (use len c in \<open>auto intro: charged_more\<close>)
  qed
qed (auto intro!: hoare_ret simp: charged_def only_for_def)

lemma hoare_scan_quarantine_files:
  assumes "small_files L"
  shows "hoare (holds L D) (scan_quarantine_files dir input names acc) (charges L D dir input names acc) (\<lambda>_. holds L D)"
proof (induction names arbitrary: acc)
  case (Cons name names)
  let ?p = "dir @ [name]"
  show ?case
    unfolding scan_quarantine_files.simps Let_def
  proof (rule hoare_bnd [OF hoare_next_entry], rule hoare_bnd [where R = "\<lambda>_. holds L D"], rule hoare_lift_res, simp, simp,
      clarify, rule hoare_if, rule hoare_throw, simp,
      rule hoare_seq_weaken [OF hoare_validate_private_file, where R' = "\<lambda>n h. L ?p = Some n \<and> holds L D h"], simp, simp,
      rule hoare_when,
      rule hoare_bnd [where R = "\<lambda>acc' h. charge_stored acc input (of_nat (node_len n)) = Inr acc' \<and> holds L D h" for n],
      rule hoare_lift_res, simp, simp, rule hoare_when)
    fix n acc1 assume n: "L ?p = Some n" and c: "charge_stored acc input (of_nat (node_len n)) = Inr acc1"
    have "unat (of_nat (node_len n) :: u64) = file_len L ?p"
      using assms n unat_of_nat_small [of "node_len n", where 'a = 64] by (simp add: small_files_def file_len_def)
    then show "hoare (holds L D) (scan_quarantine_files dir input names acc1) (charges L D dir input (name # names) acc)
        (\<lambda>_. holds L D)"
      by (intro hoare_weaken [OF Cons.IH]) (use n c in \<open>auto intro: charged_more\<close>)
  qed
qed (auto intro!: hoare_ret simp: charged_def only_for_def)

lemma encode_hex_inject [simp]: "encode_hex a = encode_hex b \<longleftrightarrow> a = b"
  by (metis decode_pairs_encode option.inject)

text \<open>The bytes the scan of some input directories adds for each input.\<close>

definition scanned :: "(path \<Rightarrow> node option) \<Rightarrow> path \<Rightarrow> string list \<Rightarrow> input_key \<Rightarrow> nat" where
  "scanned L root inputs j =
     (if encode_hex (input_key_bytes j) \<in> set inputs then bytes_in L (root @ [encode_hex (input_key_bytes j)]) else 0)"

lemma listing_sum:
  assumes "distinct names" "\<forall>n \<in> set names. L (dir @ [n]) \<noteq> None" "\<forall>c cs n. L (dir @ c # cs) = Some n \<longrightarrow> c \<in> set names"
  shows "sum_list (map (\<lambda>n. file_len L (dir @ [n])) names) = bytes_in L dir"
proof -
  have "set names = {f. L (dir @ [f]) \<noteq> None}" using assms(2,3) by blast
  with assms(1) show ?thesis by (simp add: sum_list_distinct_conv_sum_set bytes_in_def)
qed

lemma hoare_scan_charges:
  assumes visit: "\<And>dir key names acc. hoare (holds L D) (visit dir key names acc) (charges L D dir key names acc) (\<lambda>_. holds L D)"
  shows "hoare (holds L D) (scan_inputs root stage visit inputs acc)
    (\<lambda>acc' h. (distinct inputs \<longrightarrow> charged acc acc' (scanned L root inputs)) \<and> holds L D h) (\<lambda>_. holds L D)"
proof (induction inputs arbitrary: acc)
  case (Cons i inputs)
  let ?dir = "root @ [i]"
  let ?Q = "\<lambda>acc' h. (distinct (i # inputs) \<longrightarrow> charged acc acc' (scanned L root (i # inputs))) \<and> holds L D h"
  show ?case
    unfolding scan_inputs.simps Let_def
  proof (rule hoare_bnd [OF hoare_next_entry], rule hoare_seq_weaken [OF hoare_validate_input_directory,
        where R' = "\<lambda>k h. decode_hex 32 i = Some (input_key_bytes k) \<and> holds L D h"], simp, simp, rule hoare_when,
      rule hoare_seq_weaken [OF hoare_read_directory_names, where
          R' = "\<lambda>ns h. (distinct ns \<and> (\<forall>c cs n. L (?dir @ c # cs) = Some n \<longrightarrow> c \<in> set ns)) \<and> holds L D h"],
      simp, simp, rule hoare_when, rule hoare_bnd [OF visit], rule hoare_when)
    fix key names acc1
    assume k: "decode_hex 32 i = Some (input_key_bytes key)"
      and n: "distinct names \<and> (\<forall>c cs n. L (?dir @ c # cs) = Some n \<longrightarrow> c \<in> set names)"
      and c: "(\<forall>n \<in> set names. L (?dir @ [n]) \<noteq> None) \<and>
        charged acc acc1 (only_for key (sum_list (map (\<lambda>n. file_len L (?dir @ [n])) names)))"
    have i: "i = encode_hex (input_key_bytes key)" using encode_hex_decode [OF k] by simp
    have "sum_list (map (\<lambda>n. file_len L (?dir @ [n])) names) = bytes_in L ?dir" using listing_sum n c by blast
    with c have c1: "charged acc acc1 (only_for key (bytes_in L ?dir))" by simp
    have "charged acc acc2 (scanned L root (i # inputs))" if "i \<notin> set inputs" "charged acc1 acc2 (scanned L root inputs)" for acc2
    proof -
      have "only_for key (bytes_in L ?dir) j + scanned L root inputs j = scanned L root (i # inputs) j" for j
        using that(1) by (cases j; cases key) (auto simp: only_for_def scanned_def i)
      with charged_trans [OF c1 that(2)] show ?thesis by (simp add: charged_def)
    qed
    then show "hoare (holds L D) (scan_inputs root stage visit inputs acc1) ?Q (\<lambda>_. holds L D)"
      by (intro hoare_weaken [OF Cons.IH]) auto
  qed
qed (auto intro!: hoare_ret simp: charged_def scanned_def)

lemma scanned_all:
  assumes "\<forall>c cs n. L (root @ c # cs) = Some n \<longrightarrow> c \<in> set inputs"
  shows "scanned L root inputs j = bytes_in L (root @ [encode_hex (input_key_bytes j)])"
proof (cases "encode_hex (input_key_bytes j) \<in> set inputs")
  case False
  then have "L (root @ encode_hex (input_key_bytes j) # [f]) = None" for f using assms by (metis not_None_eq)
  then show ?thesis using False by (simp add: scanned_def bytes_in_def)
qed (simp add: scanned_def)

lemma hoare_scan_accounting:
  assumes "cipher_ok C" "small_files L"
  shows "hoare (holds L D) (scan_accounting C segs quar key limits)
    (\<lambda>acc h. (\<forall>j. unat (bytes_of (stored_by_input acc) j) =
       bytes_in L (segs @ [encode_hex (input_key_bytes j)]) + bytes_in L (quar @ [encode_hex (input_key_bytes j)])) \<and> holds L D h)
    (\<lambda>_. holds L D)"
  unfolding scan_accounting_def
proof (rule hoare_seq_weaken [OF hoare_read_directory_names, where
      R' = "\<lambda>ns h. (distinct ns \<and> (\<forall>c cs n. L (segs @ c # cs) = Some n \<longrightarrow> c \<in> set ns)) \<and> holds L D h"],
    simp, simp, rule hoare_when, rule hoare_bnd [OF hoare_scan_charges [OF hoare_scan_segment_files [OF assms(1)]]], rule hoare_when,
    rule hoare_seq_weaken [OF hoare_read_directory_names, where
      R' = "\<lambda>ns h. (distinct ns \<and> (\<forall>c cs n. L (quar @ c # cs) = Some n \<longrightarrow> c \<in> set ns)) \<and> holds L D h"],
    simp, simp, rule hoare_when)
  fix segments acc inputs
  assume s: "distinct segments \<and> (\<forall>c cs n. L (segs @ c # cs) = Some n \<longrightarrow> c \<in> set segments)"
    and c: "distinct segments \<longrightarrow> charged no_accounting acc (scanned L segs segments)"
    and q: "distinct inputs \<and> (\<forall>c cs n. L (quar @ c # cs) = Some n \<longrightarrow> c \<in> set inputs)"
  have all: "scanned L segs segments j + scanned L quar inputs j =
      bytes_in L (segs @ [encode_hex (input_key_bytes j)]) + bytes_in L (quar @ [encode_hex (input_key_bytes j)])" for j
    using scanned_all [of L segs segments j] scanned_all [of L quar inputs j] s q by simp
  have "unat (bytes_of (stored_by_input acc') j) =
      bytes_in L (segs @ [encode_hex (input_key_bytes j)]) + bytes_in L (quar @ [encode_hex (input_key_bytes j)])"
    if "charged acc acc' (scanned L quar inputs)" for acc' j
    using charged_trans [of no_accounting acc "scanned L segs segments" acc'] c s that all [of j]
    by (simp add: charged_def no_accounting_def bytes_of_def)
  with q show "hoare (holds L D) (scan_inputs quar ''quarantine_scan'' scan_quarantine_files inputs acc)
    (\<lambda>acc h. (\<forall>j. unat (bytes_of (stored_by_input acc) j) =
       bytes_in L (segs @ [encode_hex (input_key_bytes j)]) + bytes_in L (quar @ [encode_hex (input_key_bytes j)])) \<and> holds L D h)
    (\<lambda>_. holds L D)"
    by (intro hoare_weaken [OF hoare_scan_charges [OF hoare_scan_quarantine_files [OF assms(2)]]]) auto
qed

section \<open>Startup as a whole\<close>

lemma small_moved: "small_files L \<Longrightarrow> small_files (moved p q L)"
  by (auto simp: small_files_def moved_def)

lemma small_steps: "rtranclp (quarantine_step segs quar) L L' \<Longrightarrow> small_files L \<Longrightarrow> small_files L'"
  by (induction rule: rtranclp_induct) (auto intro: small_moved elim!: quarantine_stepE)

lemma apart_roots: "apart (root @ [SEGMENTS_DIRECTORY]) (root @ [QUARANTINE_DIRECTORY])"
  by (simp add: apart_def SEGMENTS_DIRECTORY_def QUARANTINE_DIRECTORY_def)

lemma hoare_open_spool:
  fixes root :: path
  defines "segs \<equiv> root @ [SEGMENTS_DIRECTORY]" and "quar \<equiv> root @ [QUARANTINE_DIRECTORY]"
  assumes "cipher_ok C" "small_files L"
  shows "hoare (holds L D) (open_spool C root key limits)
     (\<lambda>(sp, acc) h. \<exists>L'. rtranclp (quarantine_step segs quar) L L' \<and> (\<forall>p. open_file segs p \<longrightarrow> L' p = None) \<and>
        (\<forall>j. unat (bytes_of (stored_by_input acc) j) =
          bytes_in L' (segs @ [encode_hex (input_key_bytes j)]) + bytes_in L' (quar @ [encode_hex (input_key_bytes j)])) \<and>
        holds L' D h)
     (\<lambda>_. recovering segs quar L D)" (is "hoare _ _ ?Q ?E")
proof -
  have E: "recovering segs quar L D h" if "holds L D h" for h using that by blast
  have ensure: "hoare (holds L D) (ensure_private_directory p) (\<lambda>_. holds L D) ?E" for p
    by (rule hoare_weaken [OF hoare_ensure_private_directory]) (auto intro: E)
  have scan: "hoare (\<lambda>h. (rtranclp (quarantine_step segs quar) L L' \<and> (\<forall>p. open_file segs p \<longrightarrow> L' p = None)) \<and> holds L' D h)
      (bnd (scan_accounting C segs quar key limits) (\<lambda>acc. ret (\<lparr>sp_segments = segs, sp_key = key, sp_limits = limits,
         recovered_open_segments = n\<rparr>, acc))) ?Q ?E" for L' n
  proof (rule hoare_when, elim conjE)
    assume s: "rtranclp (quarantine_step segs quar) L L'" "\<forall>p. open_file segs p \<longrightarrow> L' p = None"
    show "hoare (holds L' D) (bnd (scan_accounting C segs quar key limits) (\<lambda>acc. ret (\<lparr>sp_segments = segs, sp_key = key, sp_limits = limits,
         recovered_open_segments = n\<rparr>, acc))) ?Q ?E"
      by (rule hoare_seq [OF hoare_scan_accounting [OF assms(3) small_steps [OF s(1) assms(4)]]])
        (use s in \<open>auto intro!: hoare_ret exI [of _ L']\<close>)
  qed
  show ?thesis
    unfolding open_spool_def Let_def segs_def [symmetric] quar_def [symmetric]
    by (rule hoare_bnd [OF ensure], rule hoare_bnd [OF ensure], rule hoare_bnd [OF ensure],
        rule hoare_bnd [OF hoare_recover_open_segments [OF apart_roots [of root, folded segs_def quar_def]]], rule hoare_ex,
        rule hoare_weaken [OF scan]) auto
qed

section \<open>Files already in quarantine\<close>

text \<open>
  The destination of a quarantined segment is looked at first. On a quiet host the answer is true, so a file
  that is already there is never replaced; \<open>Path::exists\<close> answers no when its \<open>stat\<close> fails, so with
  failing calls this is not so.
\<close>

lemma keeps_quiet_spool [keeps_rules]:
  "keeps quiet (reject_spool_links as)"
  by (induction as) (simp_all only: reject_spool_links.simps, (intro keeps_rules; assumption)+)

lemma keeps_quiet_exists [keeps_rules]: "keeps quiet (path_exists p)"
proof -
  have "quiet t" if "quiet h" "path_exists p h = (r, t)" for h t and r :: "'a + bool"
    using that by (auto simp: path_exists_def sys_stat_def syscall_quiet)
  then show ?thesis by (rule keepsI)
qed

lemma keeps_quiet_next [keeps_rules]: "keeps quiet next_entry"
  unfolding next_entry_def by (intro keeps_rules)

lemma keeps_quiet_directories [keeps_rules]:
  "keeps quiet (validate_private_directory p)" "keeps quiet (ensure_private_directory p)"
  "keeps quiet (validate_input_directory p)" "keeps quiet (read_directory p stage)" "keeps quiet (sync_directory p stage)"
  unfolding validate_private_directory_def ensure_private_directory_def validate_input_directory_def
    read_directory_def sync_directory_def reject_spool_symlinks_def inspect_directory_def
  by (intro keeps_rules)+

lemma keeps_quiet_files [keeps_rules]:
  "keeps quiet (validate_private_file p)" "keeps quiet (open_private_file p)"
  unfolding open_private_file_def validate_private_file_def reject_spool_symlinks_def
  by (intro keeps_rules)+

lemma keeps_quiet_inspect [keeps_rules]: "keeps quiet (inspect_segment C p key limit)"
  unfolding inspect_segment_def open_decoder_def by (intro keeps_rules)

lemma keeps_quiet_scans [keeps_rules]:
  "keeps quiet (scan_segment_files C key limits dir input names acc)"
  "keeps quiet (scan_quarantine_files dir input names acc)"
  by (induction names arbitrary: acc)
    (simp_all only: scan_segment_files.simps scan_quarantine_files.simps Let_def, (intro keeps_rules; assumption)+)

lemma keeps_inputs [keeps_rules]:
  assumes "keeps P next_entry" "\<And>p. keeps P (validate_input_directory p)" "\<And>p st. keeps P (read_directory p st)"
    and "\<And>dir key names acc. keeps P (visit dir key names acc)"
  shows "keeps P (scan_inputs root stage visit inputs acc)"
  by (induction inputs arbitrary: acc)
    (simp_all only: scan_inputs.simps Let_def, (intro keeps_rules assms; assumption)+)

lemma keeps_quiet_accounting [keeps_rules]: "keeps quiet (scan_accounting C segs quar key limits)"
  unfolding scan_accounting_def by (intro keeps_rules)

lemma keeps_file_directories [keeps_rules]:
  "keeps (quiet_file q n) (validate_private_directory p)" "keeps (quiet_file q n) (ensure_private_directory p)"
  "keeps (quiet_file q n) (validate_input_directory p)" "keeps (quiet_file q n) (read_directory p stage)"
  "keeps (quiet_file q n) (sync_directory p stage)" "keeps (quiet_file q n) next_entry"
  by (rule keeps_quiet_file; intro hoare_post [OF hoare_validate_private_directory]
      hoare_post [OF hoare_ensure_private_directory] hoare_post [OF hoare_validate_input_directory]
      hoare_read_directory hoare_sync_directory hoare_next_entry keeps_rules)+

lemma keeps_file_scans [keeps_rules]:
  assumes "cipher_ok C"
  shows "keeps (quiet_file q n) (scan_accounting C segs quar key limits)"
proof -
  have [keeps_rules]: "keeps (quiet_file q n) (validate_private_file p)"
      "keeps (quiet_file q n) (inspect_segment C p k limit)" for p k limit
    by (rule keeps_quiet_file; intro hoare_post [OF hoare_validate_private_file]
        hoare_post [OF hoare_inspect_segment [OF assms]] keeps_rules)+
  have [keeps_rules]: "keeps (quiet_file q n) (scan_segment_files C key limits dir input names acc)"
      "keeps (quiet_file q n) (scan_quarantine_files dir input names acc)" for dir input names acc
    by (induction names arbitrary: acc)
      (simp_all only: scan_segment_files.simps scan_quarantine_files.simps Let_def, (intro keeps_rules; assumption)+)
  show ?thesis unfolding scan_accounting_def by (intro keeps_rules)
qed

lemma keeps_quarantine_one:
  assumes "dir = segs @ [encode_hex (input_key_bytes key)]" "parse_segment_name (dir @ [name]) = Inr (sid, OPEN_EXTENSION)"
    and "apart segs quar" "is_file n"
  shows "keeps (quiet_file (quar @ [k, f]) n) (quarantine_one quar dir key (dir @ [name]) sid c)"
proof (cases "[k, f] = [encode_hex (input_key_bytes key), segment_file sid QUARANTINE_EXTENSION]")
  case True
  let ?q = "(quar @ [encode_hex (input_key_bytes key)]) @ [segment_file sid QUARANTINE_EXTENSION]"
  define q where "q = ?q"
  have q: "quar @ [k, f] = q" using True by (simp add: q_def)
  have "(path_exists q :: bool spool_io) h = (Inr True, h)" if "quiet_file q n h" for h
  proof -
    have "\<not> is_symlink n" using assms(4) by (cases n) auto
    with that have "sys_stat q h = (Inr n, h)" by (intro stat_quiet) (simp_all add: quiet_file_def leaf_Some)
    then show ?thesis by (simp add: path_exists_def)
  qed
  then have exists: "hoare (quiet_file q n) (path_exists q :: bool spool_io) (\<lambda>b h. b \<and> quiet_file q n h) (\<lambda>_. quiet_file q n)"
    unfolding hoare_def by simp
  have valid: "keeps (quiet_file q n) (validate_private_file p)" for p
    by (rule keeps_quiet_file; intro hoare_post [OF hoare_validate_private_file] keeps_rules)
  show ?thesis
    unfolding quarantine_one_def Let_def q q_def [symmetric]
    by (rule keeps_steps(1) [OF valid keeps_steps(1) [OF keeps_file_directories(2)]], rule hoare_bnd [OF exists],
        rule hoare_when) (simp add: hoare_throw)
next
  case False
  let ?p = "dir @ [name]"
  let ?q = "(quar @ [encode_hex (input_key_bytes key)]) @ [segment_file sid QUARANTINE_EXTENSION]"
  have other: "quar @ [k, f] \<noteq> ?q" "quar @ [k, f] \<noteq> ?p" using False assms(1,3) by (auto simp: apart_def)
  have "quiet_file (quar @ [k, f]) n t" if h: "quiet_file (quar @ [k, f]) n h"
    and run: "quarantine_one quar dir key ?p sid c h = (r, t)" for h r t
  proof -
    from h have "holds (leaf h) {} h" by (simp add: quiet_file_def holds_def)
    then have "holds (leaf h) {} t \<or> holds (moved ?p ?q (leaf h)) {} t"
      using hoare_Inr [OF hoare_quarantine_move [OF assms(1-3), where n = c]]
        hoare_Inl [OF hoare_quarantine_move [OF assms(1-3), where n = c]] run
      by (cases r) blast+
    then have "tree_ok t \<and> (leaf t = leaf h \<or> leaf t = moved ?p ?q (leaf h))"
      unfolding holds_def by blast
    moreover have "quiet t"
    proof (rule keepsD [where P = quiet and m = "quarantine_one quar dir key (dir @ [name]) sid c"])
      show "keeps quiet (quarantine_one quar dir key ?p sid c)"
        unfolding quarantine_one_def Let_def by (intro keeps_rules)
      show "quiet h" using h by (simp add: quiet_file_def)
      show "quarantine_one quar dir key ?p sid c h = (r, t)" by (fact run)
    qed
    ultimately show ?thesis using h other by (auto simp: quiet_file_def moved_def)
  qed
  then show ?thesis by (rule keepsI)
qed

lemma keeps_recover_files:
  assumes "dir = segs @ [encode_hex (input_key_bytes key)]" "apart segs quar" "is_file n"
  shows "keeps (quiet_file (quar @ [k, f]) n) (recover_files quar dir key names c)"
proof (induction names arbitrary: c)
  case (Cons name names)
  show ?case
    unfolding recover_files.simps Let_def
  proof (rule keeps_steps(1) [OF keeps_file_directories(6)], rule hoare_bnd
      [where R = "\<lambda>r h. parse_segment_name (dir @ [name]) = Inr r \<and> quiet_file (quar @ [k, f]) n h"], rule hoare_lift_res,
      simp, simp, rule hoare_when, clarify)
    fix sid ext assume "parse_segment_name (dir @ [name]) = Inr (sid, ext)"
    then show "keeps (quiet_file (quar @ [k, f]) n) (if ext \<noteq> OPEN_EXTENSION then recover_files quar dir key names c
        else bnd (quarantine_one quar dir key (dir @ [name]) sid c) (recover_files quar dir key names))"
      using keeps_steps(1) [OF keeps_quarantine_one [OF assms(1) _ assms(2,3)] Cons.IH] Cons.IH by auto
  qed
qed (simp add: keeps_rules)

lemma keeps_recover_inputs:
  assumes "apart segs quar" "is_file n"
  shows "keeps (quiet_file (quar @ [k, f]) n) (scan_inputs segs stage (recover_files quar) inputs c)"
proof (induction inputs arbitrary: c)
  case (Cons i inputs)
  let ?P = "quiet_file (quar @ [k, f]) n"
  have key: "hoare ?P (validate_input_directory p) (\<lambda>key h. p = butlast p @ [encode_hex (input_key_bytes key)] \<and> ?P h) (\<lambda>_. ?P)" for p
  proof (rule hoareI)
    fix h key t assume h: "?P h" and run: "validate_input_directory p h = (Inr key, t)"
    from h have "holds (leaf h) {} h" by (simp add: quiet_file_def holds_def)
    from hoare_Inr [OF hoare_validate_input_directory this run] have "p \<noteq> []" "last p = encode_hex (input_key_bytes key)"
      by (auto dest: encode_hex_decode)
    then show "p = butlast p @ [encode_hex (input_key_bytes key)] \<and> ?P t"
      using keepsD [where P = ?P, OF keeps_file_directories(3) h run] by (metis append_butlast_last_id)
  next
    fix h e t assume "?P h" "validate_input_directory p h = (Inl e, t)"
    then show "?P t" by (rule keepsD [OF keeps_file_directories(3)])
  qed
  show ?case
    unfolding scan_inputs.simps Let_def
    by (rule keeps_steps(1) [OF keeps_file_directories(6)], rule hoare_bnd [OF key], rule hoare_when,
        intro keeps_steps(1) keeps_file_directories keeps_recover_files [OF _ assms] Cons.IH) simp
qed (simp add: keeps_rules)

lemma quarantined_stays:
  fixes root :: path
  defines "segs \<equiv> root @ [SEGMENTS_DIRECTORY]" and "quar \<equiv> root @ [QUARANTINE_DIRECTORY]"
  assumes "cipher_ok C" "is_file n"
  shows "keeps (quiet_file (quar @ [k, f]) n) (open_spool C root key limits)"
proof -
  have ap: "apart segs quar" unfolding segs_def quar_def by (rule apart_roots)
  show ?thesis
    unfolding open_spool_def Let_def segs_def [symmetric] quar_def [symmetric] recover_open_segments_def
    by (intro keeps_rules keeps_recover_inputs [OF ap assms(4)] assms(3))
qed

text \<open>A root with one ready and one open segment, left by a stopped process.\<close>

definition demo_left :: host where
  "demo_left = demo_spool_host\<lparr>nodes :=
     [([], Dir 0x1C0), ([''spool''], Dir 0x1C0), ([''spool'', ''segments''], Dir 0x1C0),
      ([''spool'', ''segments'', encode_hex (replicate 32 3)], Dir 0x1C0),
      ([''spool'', ''segments'', encode_hex (replicate 32 3), segment_file (SegmentId (replicate 16 5)) OPEN_EXTENSION],
        File [1, 2, 3] 0x180)]\<rparr>"

lemma demo_restart: "is_ok (fst (open_spool demo_crypto [''spool''] demo_spool_key demo_limits demo_left)) \<and> tree_ok demo_left"
  by code_simp

lemma demo_left_small: "small_files (leaf demo_left)"
proof -
  have "node_at demo_left p = Some n \<Longrightarrow> node_len n \<le> 3" for p n
    by (auto simp: node_at_def demo_left_def split: if_split_asm)
  then show ?thesis by (fastforce simp: small_files_def leaf_Some)
qed

text \<open>
  C35. Startup recovers. Opening a spool moves at most open segment files, each to the quarantine
  directory of its input with its bytes unchanged; every other file outside the quarantine stays as it was,
  the ready and delivered ones above all, whatever fails, and as long as no call fails no file that is
  already in quarantine is replaced either. After a success no open segment is left.
\<close>
theorem startup_recovers:
  assumes "open_spool C root key limits h = (r, t)" "tree_ok h" "cipher_ok C" "small_files (leaf h)"
  shows "let segs = root @ [SEGMENTS_DIRECTORY]; quar = root @ [QUARANTINE_DIRECTORY] in
    rtranclp (quarantine_step segs quar) (leaf h) (leaf t) \<and>
    (\<forall>p. \<not> open_file segs p \<and> (\<forall>k f. p \<noteq> quar @ [k, f]) \<longrightarrow> leaf t p = leaf h p) \<and>
    (quiet h \<longrightarrow> (\<forall>k f c m. leaf h (quar @ [k, f]) = Some (File c m) \<longrightarrow>
       leaf t (quar @ [k, f]) = Some (File c m))) \<and>
    (is_ok r \<longrightarrow> (\<forall>p. open_file segs p \<longrightarrow> leaf t p = None))"
proof -
  let ?segs = "root @ [SEGMENTS_DIRECTORY]" and ?quar = "root @ [QUARANTINE_DIRECTORY]"
  have h: "holds (leaf h) {} h" using assms(2) by (simp add: holds_def)
  note ho = hoare_open_spool [OF assms(3,4), of "{}" root key limits]
  have "rtranclp (quarantine_step ?segs ?quar) (leaf h) (leaf t) \<and> (is_ok r \<longrightarrow> (\<forall>p. open_file ?segs p \<longrightarrow> leaf t p = None))"
    using assms(1) hoare_Inr [OF ho h] hoare_Inl [OF ho h] by (cases r) (auto simp: holds_def split: prod.split_asm)
  moreover have "leaf t (?quar @ [k, f]) = Some (File c m)"
    if "quiet h" "leaf h (?quar @ [k, f]) = Some (File c m)" for k f c m
    using keepsD [where P = "quiet_file (?quar @ [k, f]) (File c m)", OF quarantined_stays [OF assms(3)] _ assms(1)] that assms(2)
    by (simp add: quiet_file_def)
  ultimately show ?thesis using quarantine_steps_keep(1) [OF _ apart_roots] unfolding Let_def by blast
qed

lemma startup_recovers_witness:
  "\<exists>r t. open_spool demo_crypto [''spool''] demo_spool_key demo_limits demo_left = (Inr r, t) \<and>
     leaf t [''spool'', ''segments'', encode_hex (replicate 32 3), segment_file (SegmentId (replicate 16 5)) OPEN_EXTENSION] = None"
proof -
  obtain r t where o: "open_spool demo_crypto [''spool''] demo_spool_key demo_limits demo_left = (Inr r, t)"
    using demo_restart unfolding is_ok_iff by (metis prod.collapse)
  have "open_file ([''spool''] @ [SEGMENTS_DIRECTORY])
      [''spool'', ''segments'', encode_hex (replicate 32 3), segment_file (SegmentId (replicate 16 5)) OPEN_EXTENSION]"
    using segment_extension [of "SegmentId (replicate 16 5)" OPEN_EXTENSION "[''spool'', ''segments'', encode_hex (replicate 32 3)]"]
    by (simp add: open_file_def SEGMENTS_DIRECTORY_def)
  with startup_recovers [OF o conjunct2 [OF demo_restart] demo_cipher demo_left_small] o show ?thesis
    unfolding Let_def by auto
qed

text \<open>
  C36. Startup accounts for every byte. After a successful opening, the stored bytes of each input are the
  lengths of all files in its segment directory and in its quarantine directory, and the total is their sum.
\<close>
theorem startup_accounts_exactly:
  assumes "open_spool C root key limits h = (Inr (sp, acc), t)" "tree_ok h" "cipher_ok C" "small_files (leaf h)"
  shows "(\<forall>j. unat (bytes_of (stored_by_input acc) j) =
      bytes_in (leaf t) (root @ [SEGMENTS_DIRECTORY, encode_hex (input_key_bytes j)]) +
      bytes_in (leaf t) (root @ [QUARANTINE_DIRECTORY, encode_hex (input_key_bytes j)])) \<and>
    unat (acc_stored acc) = table_total (stored_by_input acc) \<and> acc_reserved acc = 0"
proof -
  have h: "holds (leaf h) {} h" using assms(2) by (simp add: holds_def)
  from hoare_Inr [OF hoare_open_spool [OF assms(3,4), of "{}" root key limits] h assms(1)]
  have "\<forall>j. unat (bytes_of (stored_by_input acc) j) =
      bytes_in (leaf t) (root @ [SEGMENTS_DIRECTORY, encode_hex (input_key_bytes j)]) +
      bytes_in (leaf t) (root @ [QUARANTINE_DIRECTORY, encode_hex (input_key_bytes j)])"
    by (auto simp: holds_def)
  moreover have "consistent limits {#} acc" using open_spool_consistent [OF assms(1)] by blast
  ultimately show ?thesis by (auto simp: consistent_def dest: unat_eqD)
qed

lemma startup_accounts_exactly_witness:
  "\<exists>sp acc t. open_spool demo_crypto [''spool''] demo_spool_key demo_limits demo_left = (Inr (sp, acc), t) \<and>
     unat (bytes_of (stored_by_input acc) (InputKey (replicate 32 3))) =
       bytes_in (leaf t) ([''spool''] @ [SEGMENTS_DIRECTORY, encode_hex (replicate 32 3)]) +
       bytes_in (leaf t) ([''spool''] @ [QUARANTINE_DIRECTORY, encode_hex (replicate 32 3)])"
proof -
  obtain sp acc t where o: "open_spool demo_crypto [''spool''] demo_spool_key demo_limits demo_left = (Inr (sp, acc), t)"
    using demo_restart unfolding is_ok_iff by (metis prod.collapse)
  from startup_accounts_exactly [OF o conjunct2 [OF demo_restart] demo_cipher demo_left_small] o show ?thesis
    by (intro exI [of _ sp] exI [of _ acc] exI [of _ t]) simp
qed

end
