(* ===== verification/Spool_Streaming.thy ===== *)
theory Spool_Streaming
imports Spool_Codec
begin

text \<open>
  The decoder of \<open>src/crates/dbx-rs-spool/src/format.rs\<close> as its callers run it: one
  \<open>next_event\<close> after the other. What a call returns and leaves behind is well typed whether it
  succeeds or fails, and the calls come to an end after a number that the length of the file bounds.
\<close>

section \<open>Every frame consumes its own bytes\<close>

text \<open>A frame is at least its length, its number and a ciphertext of seventeen bytes.\<close>

lemma frame_read_consumes: "read_frame C d = (Inr pt, d') \<Longrightarrow> pending d' + 29 \<le> pending d"
proof -
  assume "read_frame C d = (Inr pt, d')"
  then obtain len c rest where f: "frame_read C d pt len c rest d'" unfolding read_frame_iff by blast
  then have "17 \<le> unat len" by (simp add: frame_read_def word_le_nat_alt)
  with f show ?thesis by (simp add: frame_read_def length_be_bytes del: be_bytes_numeral)
qed

lemma next_event_consumes: "next_event C d = (Inr (Some e), d') \<Longrightarrow> pending d' + 29 \<le> pending d"
proof (induction C d rule: next_event.induct)
  case (1 C d)
  have "\<not> d_done d" using 1(2) by (auto simp: next_event.simps [of C d])
  with 1(2) show ?case
  proof (cases rule: next_event_cases)
    case (event e' u)
    then show ?thesis using frame_read_consumes [OF event(2)] by (auto dest: accept_event_pending)
  next
    case (metadata m u)
    have "new_recovery_metadata m = Inr m"
      using metadata(2) by (simp add: new_recovery_metadata_def MAX_RECOVERY_METADATA_BYTES_def)
    with 1(1) [OF \<open>\<not> d_done d\<close> metadata(1) [symmetric]] metadata(3-5) frame_read_consumes [OF metadata(1)]
    show ?thesis by (fastforce simp: frame_types)
  qed simp
qed

text \<open>
  The loop of the callers with the number of its calls bounded by the first argument; \<open>None\<close> when the
  bound was reached before the decoder reported the end or an error.
\<close>

fun pull :: "spool_crypto \<Rightarrow> nat \<Rightarrow> segment_decoder \<Rightarrow> (spool_error + bytes list) option" where
  "pull C 0 d = None"
| "pull C (Suc n) d =
     (case next_event C d of
        (Inl e, _) \<Rightarrow> Some (Err e)
      | (Inr None, _) \<Rightarrow> Some (Ok [])
      | (Inr (Some e), d') \<Rightarrow> map_option (\<lambda>r. bindr r (\<lambda>es. Ok (e # es))) (pull C n d'))"

lemma pull_drain: "pending d < 29 * n \<Longrightarrow> pull C n d = Some (fst (drain C d))"
proof (induction n arbitrary: d)
  case (Suc n)
  show ?case
  proof (cases "next_event C d")
    case (Pair r d')
    show ?thesis
    proof (cases r)
      case (Inr x)
      show ?thesis
      proof (cases x)
        case (Some e)
        from next_event_consumes [of C d e d'] Pair Inr Some Suc.prems have "pending d' < 29 * n" by simp
        from Suc.IH [OF this] Pair Inr Some show ?thesis
          by (simp add: drain.simps [of C d] split: prod.split sum.split)
      qed (use Pair Inr in \<open>simp add: drain.simps [of C d]\<close>)
    qed (use Pair in \<open>simp add: drain.simps [of C d]\<close>)
  qed
qed simp

section \<open>Well-typed decoders\<close>

text \<open>
  What the array and enumeration types of the source say of a decoder, and what its options mean: a
  summary exactly when the end was reached, and then metadata and no byte left unread.
\<close>

definition decoder_typed :: "segment_decoder \<Rightarrow> bool" where
  "decoder_typed d \<longleftrightarrow>
     length (d_prefix d) = PREFIX_BYTES \<and> length (segment_id_bytes (d_segment_id d)) = 16 \<and>
     d_version d \<in> {LEGACY_FORMAT_VERSION, FORMAT_VERSION} \<and> header_sized (d_header d) \<and>
     pred_option (\<lambda>m. length m \<le> MAX_RECOVERY_METADATA_BYTES) (d_metadata d) \<and>
     pred_option summary_sized (d_summary d) \<and>
     d_done d = (d_summary d \<noteq> None) \<and>
     (if d_done d then d_metadata d \<noteq> None \<and> unread (d_reader d) = []
      else d_version d = LEGACY_FORMAT_VERSION \<longrightarrow> d_metadata d = None)"

text \<open>Whatever happens to a frame, the rest of the decoder stays.\<close>

definition still :: "segment_decoder \<Rightarrow> segment_decoder \<Rightarrow> bool" where
  "still d d' \<longleftrightarrow> d_prefix d' = d_prefix d \<and> d_segment_id d' = d_segment_id d \<and> d_version d' = d_version d \<and>
     d_header d' = d_header d \<and> d_metadata d' = d_metadata d \<and> d_summary d' = d_summary d \<and> d_done d' = d_done d"

lemma still_refl [simp]: "still d d"
  by (simp add: still_def)

lemma still_trans: "still d e \<Longrightarrow> still e f \<Longrightarrow> still d f"
  by (simp add: still_def)

lemma decoder_typed_still: "still d d' \<Longrightarrow> \<not> d_done d \<Longrightarrow> decoder_typed d' = decoder_typed d"
  by (simp add: still_def decoder_typed_def)

lemma still_bnd:
  "still d (snd (f d)) \<Longrightarrow> (\<And>x e. f d = (Inr x, e) \<Longrightarrow> still e (snd (g x e))) \<Longrightarrow> still d (snd (bnd f g d))"
  by (cases "f d"; cases "fst (f d)") (auto simp: bnd_def intro: still_trans)

lemma still_decoder_read: "still d (snd (decoder_read n stage d))"
  by (simp add: decoder_read_def still_def split: prod.split)

lemma still_open_frame: "still d (snd (open_frame C len seq rem c d))"
  by (simp add: open_frame_def Let_def try_in_def still_def split: sum.split)

lemma still_read_frame: "still d (snd (read_frame C d))"
  unfolding read_frame_def read_sized_def read_numbered_def Let_def
  by (auto intro!: still_bnd still_decoder_read still_open_frame)

lemma still_accept_event: "still d (snd (accept_event p d))"
  by (simp add: accept_event_def Let_def try_in_def still_def split: sum.split)

lemma typed_accept_footer:
  assumes "decoder_typed d" "\<not> d_done d"
  shows "decoder_typed (snd (accept_footer C p d))"
proof (cases "accept_footer C p d")
  case (Pair r d')
  show ?thesis
  proof (cases r)
    case (Inl e)
    have "still d d'"
      using Pair Inl
      by (auto simp: accept_footer_def try_in_def still_def split: if_split_asm sum.split_asm list.split_asm option.split_asm)
    from decoder_typed_still [OF this] assms Pair show ?thesis by simp
  next
    case (Inr u)
    with Pair obtain s where "decode_footer p = Inr s" "unread (d_reader d) = []" "d' = mark_done s d"
      "\<not> (d_version d = FORMAT_VERSION \<and> d_metadata d = None)"
      by (cases u) (auto simp: accept_footer_Ok)
    with assms Pair show ?thesis
      by (auto simp: decoder_typed_def mark_done_def spool_versions dest: encode_footer_decode)
  qed
qed

lemma typed_next_event: "decoder_typed d \<Longrightarrow> decoder_typed (snd (next_event C d))"
proof (induction C d rule: next_event.induct)
  case (1 C d)
  show ?case
  proof (cases "d_done d")
    case False
    obtain r u where r: "read_frame C d = (r, u)" by force
    have "still d u" using still_read_frame [of d C] r by simp
    with False 1(2) decoder_typed_still [OF this] have u: "decoder_typed u" "\<not> d_done u"
      by (simp_all add: still_def)
    show ?thesis
    proof (cases r)
      case (Inr pt)
      show ?thesis
      proof (cases pt)
        case (Cons ft p)
        have ev: "decoder_typed (snd (bnd (accept_event p) (\<lambda>e. ret (Some e)) u))"
        proof -
          obtain r' v where "accept_event p u = (r', v)" by force
          with still_accept_event [of u p] decoder_typed_still [of u v] u show ?thesis
            by (cases r') (simp_all add: bnd_def ret_def)
        qed
        have fo: "decoder_typed (snd (bnd (accept_footer C p) (\<lambda>_. ret None) u))"
        proof -
          obtain r' v where "accept_footer C p u = (r', v)" by force
          with typed_accept_footer [OF u, of C p] show ?thesis by (cases r') (simp_all add: bnd_def ret_def)
        qed
        have me: "decoder_typed (u\<lparr>d_metadata := Some m\<rparr>)"
          if "new_recovery_metadata p = Inr m" "d_version u = FORMAT_VERSION" for m
          using u that by (auto simp: decoder_typed_def new_recovery_metadata_def spool_versions split: if_split_asm)
        have ih: "decoder_typed (snd (next_event C (u\<lparr>d_metadata := Some m\<rparr>)))"
          if "ft = FRAME_RECOVERY_METADATA" "new_recovery_metadata p = Inr m" "d_version u = FORMAT_VERSION"
            "d_metadata u = None" for m
          using 1(1) [OF False r [symmetric] Inr Cons _ that(1) _ _ that(2)] that me [OF that(2,3)]
          by (simp add: frame_types)
        have "next_event C d =
          (if ft = FRAME_EVENT then bnd (accept_event p) (\<lambda>e. ret (Some e)) u
           else if ft = FRAME_RECOVERY_METADATA then
             (if d_version u \<noteq> FORMAT_VERSION then (Err invalid_frame_type, u)
              else if d_metadata u \<noteq> None then (Err repeated_metadata_error, u)
              else (case new_recovery_metadata p of
                Inl e \<Rightarrow> (Err e, u) | Inr m \<Rightarrow> next_event C (u\<lparr>d_metadata := Some m\<rparr>)))
           else if ft = FRAME_FOOTER then bnd (accept_footer C p) (\<lambda>_. ret None) u
           else if ft = FRAME_HEADER
           then (Err (sp_error ''DBX-RS-SPOOL-FORMAT-0012'' ''frame_order''
             ''spool segment contains a repeated header''), u)
           else (Err invalid_frame_type, u))"
          unfolding next_event.simps [of C d] using False r Inr Cons by simp
        then show ?thesis using u(1) ev fo ih by (auto split: sum.split)
      qed (use False r Inr u in \<open>simp add: next_event.simps [of C d]\<close>)
    qed (use False r u in \<open>simp add: next_event.simps [of C d]\<close>)
  qed (use 1(2) in \<open>simp add: next_event.simps [of C d]\<close>)
qed

lemma typed_events: "decoder_typed d \<Longrightarrow> decoder_typed (((snd \<circ> next_event C) ^^ k) d)"
  by (induction k) (simp_all add: typed_next_event)

lemma typed_open_reader:
  assumes "open_reader C key limit len rd = Inr d"
  shows "decoder_typed d"
  using assms
proof (cases rule: open_reader_parts)
  case (opened prefix rd' version sid salt e frame u h)
  note ps = encode_prefix_decode [OF opened(2,4)] and hs = encode_header_decode [OF opened(8)]
  show ?thesis
    using still_read_frame [of e C] opened ps hs
    by (auto simp: still_def decoder_typed_def prefix_sized_def PREFIX_BYTES_def)
qed

section \<open>Properties\<close>

text \<open>
  C39. A decoder is well typed after every call. Once a segment has opened, whatever its content and
  however often \<open>next_event\<close> is called, also after an error, the decoder keeps arrays of their length, a
  known version, metadata within the limit, and a summary exactly when the end was reached; then the
  metadata is there and no byte is left.
\<close>
theorem decoder_stays_typed:
  assumes "open_reader C key limit len rd = Inr d"
  shows "decoder_typed (((snd \<circ> next_event C) ^^ k) d)"
  using typed_events [OF typed_open_reader [OF assms]] .

lemma decoder_stays_typed_witness:
  "\<exists>c d. open_reader demo_crypto demo_spool_key 1024 (length c) \<lparr>unread = c, broken = None\<rparr> = Inr d \<and>
     decoder_typed (((snd \<circ> next_event demo_crypto) ^^ 3) d)"
proof -
  obtain c d where "open_reader demo_crypto demo_spool_key 1024 (length c) \<lparr>unread = c, broken = None\<rparr> = Inr d"
    using demo_image demo_open by metis
  from this decoder_stays_typed [OF this, of 3] show ?thesis by blast
qed

text \<open>
  C38. Reading ends. The loop that takes the next event until there is none, or an error, is over after at
  most one call per 29 bytes of the file and one for the end, whatever the bytes are, and gives the
  events or the error of reading the file to its end.
\<close>
theorem reading_terminates:
  "pull C (Suc (pending d div 29) + k) d = Some (fst (drain C d))"
proof (rule pull_drain)
  have "pending d < 29 * Suc (pending d div 29)" using dividend_less_times_div [of 29 "pending d"] by simp
  then show "pending d < 29 * (Suc (pending d div 29) + k)" by simp
qed

end
