(* ===== verification/Daemon_Base.thy ===== *)
theory Daemon_Base
  imports Spool State_Store
begin

text \<open>
  The error value that the daemon's modules share, \<open>crates/dbx-rs-daemon/src/error.rs\<close>, and how it is
  made from the errors of the stores.
\<close>

record daemon_error =
  de_code :: string
  de_class :: string
  de_stage :: string
  de_message :: string
  de_retryable :: bool
  de_configuration :: bool
  de_io_kind :: "io_kind option"

definition daemon_err :: "string \<Rightarrow> string \<Rightarrow> string \<Rightarrow> string \<Rightarrow> bool \<Rightarrow> bool \<Rightarrow> daemon_error" where
  "daemon_err code class stage message retry config =
     \<lparr>de_code = code, de_class = class, de_stage = stage, de_message = message,
      de_retryable = retry, de_configuration = config, de_io_kind = None\<rparr>"

definition daemon_of_secure :: "secure_store_error \<Rightarrow> daemon_error" where
  "daemon_of_secure e =
     \<lparr>de_code = err_code e, de_class = err_class e, de_stage = err_stage e, de_message = err_message e,
      de_retryable = retryable e, de_configuration = configuration_error e, de_io_kind = err_io_kind e\<rparr>"

definition daemon_of_spool :: "spool_error \<Rightarrow> daemon_error" where
  "daemon_of_spool e =
     \<lparr>de_code = sp_code e, de_class = ''storage'', de_stage = sp_stage e,
      de_message = ''durable spool operation failed'', de_retryable = False, de_configuration = False,
      de_io_kind = sp_io_kind e\<rparr>"

end
