(* ===== verification/Rising_Metadata.thy ===== *)
theory Rising_Metadata
  imports Daemon_Base
begin

text \<open>
  The recovery metadata of a sealed rising page, \<open>crates/dbx-rs-daemon/src/rising_metadata.rs\<close>: eighty
  bytes with the row count, whether the page was cut, the fingerprint of the request it answers and its
  two cursors, and the fingerprint itself. SHA-256 is a parameter.
\<close>

section \<open>Layout\<close>

definition METADATA_VERSION :: u16 where "METADATA_VERSION = 2"
definition FLAG_TRUNCATED :: u8 where "FLAG_TRUNCATED = 1"
definition FLAG_CHECKPOINT_CANDIDATE :: u8 where "FLAG_CHECKPOINT_CANDIDATE = 2"
definition FLAG_SCAN_RESUME :: u8 where "FLAG_SCAN_RESUME = 4"
definition SUPPORTED_FLAGS :: u8 where
  "SUPPORTED_FLAGS = FLAG_TRUNCATED OR FLAG_CHECKPOINT_CANDIDATE OR FLAG_SCAN_RESUME"
definition ENCODED_BYTES :: nat where "ENCODED_BYTES = 80"
definition REQUEST_FINGERPRINT_DOMAIN :: bytes where
  "REQUEST_FINGERPRINT_DOMAIN = ascii ''dbx-rs/rising-request-fingerprint/v1'' @ [0]"

lemmas metadata_flags = FLAG_TRUNCATED_def FLAG_CHECKPOINT_CANDIDATE_def FLAG_SCAN_RESUME_def

datatype rising_metadata_error =
    InvalidLength
  | UnsupportedVersion
  | UnsupportedFlags
  | NonCanonicalReservedByte
  | NonCanonicalAbsentCursor
  | InvalidCursor
  | InvalidSemantics
  | SpoolMetadataLimit
  | InvalidRequestFingerprint

definition rising_metadata_code :: "rising_metadata_error \<Rightarrow> string" where
  "rising_metadata_code e =
     (case e of
        InvalidLength \<Rightarrow> ''DBX-RS-DAEMON-RISING-METADATA-0001''
      | UnsupportedVersion \<Rightarrow> ''DBX-RS-DAEMON-RISING-METADATA-0002''
      | UnsupportedFlags \<Rightarrow> ''DBX-RS-DAEMON-RISING-METADATA-0003''
      | NonCanonicalReservedByte \<Rightarrow> ''DBX-RS-DAEMON-RISING-METADATA-0004''
      | NonCanonicalAbsentCursor \<Rightarrow> ''DBX-RS-DAEMON-RISING-METADATA-0005''
      | InvalidCursor \<Rightarrow> ''DBX-RS-DAEMON-RISING-METADATA-0006''
      | InvalidSemantics \<Rightarrow> ''DBX-RS-DAEMON-RISING-METADATA-0007''
      | SpoolMetadataLimit \<Rightarrow> ''DBX-RS-DAEMON-RISING-METADATA-0008''
      | InvalidRequestFingerprint \<Rightarrow> ''DBX-RS-DAEMON-RISING-METADATA-0009'')"

record rising_metadata =
  rm_rows :: u64
  rm_truncated :: bool
  rm_fingerprint :: bytes
  rm_candidate :: "timestamp_id_cursor option"
  rm_resume :: "timestamp_id_cursor option"

section \<open>Validation\<close>

definition metadata_validate :: "rising_metadata \<Rightarrow> rising_metadata_error + unit" where
  "metadata_validate m =
     (if list_all (\<lambda>b. b = 0) (rm_fingerprint m) then Err InvalidRequestFingerprint
      else if rm_rows m = 0 then
        (if rm_truncated m \<or> rm_candidate m \<noteq> None \<or> rm_resume m \<noteq> None then Err InvalidSemantics else Ok ())
      else
        (case (rm_candidate m, rm_resume m) of
           (Some candidate, Some resume) \<Rightarrow>
             if position_cmp candidate resume = Less then Err InvalidSemantics else Ok ()
         | _ \<Rightarrow> Err InvalidSemantics))"

definition new_rising_metadata ::
    "u64 \<Rightarrow> bool \<Rightarrow> bytes \<Rightarrow> timestamp_id_cursor option \<Rightarrow> timestamp_id_cursor option
       \<Rightarrow> rising_metadata_error + rising_metadata" where
  "new_rising_metadata rows partial fingerprint candidate resume =
     (let m = \<lparr>rm_rows = rows, rm_truncated = partial, rm_fingerprint = fingerprint,
        rm_candidate = candidate, rm_resume = resume\<rparr> in
      bindr (metadata_validate m) (\<lambda>_. Ok m))"

section \<open>Encoding and decoding\<close>

definition cursor_slot :: "timestamp_id_cursor option \<Rightarrow> bytes" where
  "cursor_slot c = (case c of Some c \<Rightarrow> to_canonical_bytes c | None \<Rightarrow> replicate 18 0)"

definition metadata_flag_bits :: "rising_metadata \<Rightarrow> u8" where
  "metadata_flag_bits m =
     (if rm_truncated m then FLAG_TRUNCATED else 0) OR
     (if rm_candidate m \<noteq> None then FLAG_CHECKPOINT_CANDIDATE else 0) OR
     (if rm_resume m \<noteq> None then FLAG_SCAN_RESUME else 0)"

definition encode_metadata :: "rising_metadata \<Rightarrow> rising_metadata_error + bytes" where
  "encode_metadata m =
     map_err (\<lambda>_. SpoolMetadataLimit)
       (new_recovery_metadata (be_bytes 2 METADATA_VERSION @ [metadata_flag_bits m, 0] @ be_bytes 8 (rm_rows m) @
          rm_fingerprint m @ cursor_slot (rm_candidate m) @ cursor_slot (rm_resume m)))"

definition decode_cursor_slot :: "bytes \<Rightarrow> bool \<Rightarrow> rising_metadata_error + timestamp_id_cursor option" where
  "decode_cursor_slot bs present =
     (if \<not> present then (if list_ex (\<lambda>b. b \<noteq> 0) bs then Err NonCanonicalAbsentCursor else Ok None)
      else bindr (map_err (\<lambda>_. InvalidCursor) (from_canonical_bytes bs)) (\<lambda>c. Ok (Some c)))"

definition decode_metadata :: "bytes \<Rightarrow> rising_metadata_error + rising_metadata" where
  "decode_metadata bs =
     (if length bs \<noteq> ENCODED_BYTES then Err InvalidLength
      else if from_be (take 2 bs) \<noteq> METADATA_VERSION then Err UnsupportedVersion
      else
        let flags = bs ! 2 in
        if flags AND NOT SUPPORTED_FLAGS \<noteq> 0 then Err UnsupportedFlags
        else if bs ! 3 \<noteq> 0 then Err NonCanonicalReservedByte
        else
          bindr (decode_cursor_slot (take 18 (drop 44 bs)) (flags AND FLAG_CHECKPOINT_CANDIDATE \<noteq> 0)) (\<lambda>candidate.
          bindr (decode_cursor_slot (drop 62 bs) (flags AND FLAG_SCAN_RESUME \<noteq> 0)) (\<lambda>resume.
            new_rising_metadata (from_be (take 8 (drop 4 bs))) (flags AND FLAG_TRUNCATED \<noteq> 0)
              (take 32 (drop 12 bs)) candidate resume)))"

section \<open>The request fingerprint\<close>

definition optional_cursor_bytes :: "timestamp_id_cursor option \<Rightarrow> bytes" where
  "optional_cursor_bytes c = (case c of Some c \<Rightarrow> 1 # to_canonical_bytes c | None \<Rightarrow> [0])"

definition request_text :: "bytes \<Rightarrow> timestamp_id_cursor_request \<Rightarrow> bytes" where
  "request_text identity request =
     REQUEST_FINGERPRINT_DOMAIN @ identity @
       optional_cursor_bytes (req_committed request) @ optional_cursor_bytes (req_resume_after request)"

definition rising_request_fingerprint :: "hash \<Rightarrow> bytes \<Rightarrow> timestamp_id_cursor_request \<Rightarrow> bytes" where
  "rising_request_fingerprint sha identity request = sha (request_text identity request)"

section \<open>Facts\<close>

lemma length_cursor_slot [simp]: "length (cursor_slot c) = 18"
  by (simp add: cursor_slot_def split: option.split)

lemma flag_byte:
  "metadata_flag_bits m AND NOT SUPPORTED_FLAGS = 0"
  "metadata_flag_bits m AND FLAG_TRUNCATED \<noteq> 0 \<longleftrightarrow> rm_truncated m"
  "metadata_flag_bits m AND FLAG_CHECKPOINT_CANDIDATE \<noteq> 0 \<longleftrightarrow> rm_candidate m \<noteq> None"
  "metadata_flag_bits m AND FLAG_SCAN_RESUME \<noteq> 0 \<longleftrightarrow> rm_resume m \<noteq> None"
  by (simp_all add: metadata_flag_bits_def SUPPORTED_FLAGS_def metadata_flags)

lemma decode_cursor_slot_encode: "decode_cursor_slot (cursor_slot c) (c \<noteq> None) = Inr c"
  by (cases c) (simp_all add: decode_cursor_slot_def cursor_slot_def from_to_canonical list_ex_iff)

lemma zero_bytes: "\<not> list_ex (\<lambda>b. b \<noteq> 0) bs \<Longrightarrow> bs = replicate (length bs) (0 :: u8)"
  by (rule replicate_eqI) (auto simp: list_ex_iff)

lemma encode_cursor_slot_decode:
  "decode_cursor_slot bs p = Inr c \<Longrightarrow> length bs = 18 \<Longrightarrow> cursor_slot c = bs \<and> (p \<longleftrightarrow> c \<noteq> None)"
  by (auto simp: decode_cursor_slot_def cursor_slot_def to_from_canonical split: if_split_asm
      dest!: zero_bytes)

definition metadata_ok :: "rising_metadata \<Rightarrow> bool" where
  "metadata_ok m \<longleftrightarrow> metadata_validate m = Inr () \<and> length (rm_fingerprint m) = 32"

lemma encode_metadata_Ok:
  "length (rm_fingerprint m) = 32 \<Longrightarrow>
   encode_metadata m = Inr (be_bytes 2 METADATA_VERSION @ [metadata_flag_bits m, 0] @ be_bytes 8 (rm_rows m) @
     rm_fingerprint m @ cursor_slot (rm_candidate m) @ cursor_slot (rm_resume m))"
  by (simp add: encode_metadata_def new_recovery_metadata_def MAX_RECOVERY_METADATA_BYTES_def length_be_bytes
      del: be_bytes_numeral)

lemma decode_encode_metadata:
  assumes "metadata_ok m" "encode_metadata m = Inr bs"
  shows "decode_metadata bs = Inr m"
proof -
  from assms(1) have len: "length (rm_fingerprint m) = 32" by (simp add: metadata_ok_def)
  obtain v0 v1 where v: "be_bytes 2 METADATA_VERSION = [v0, v1]" "from_be [v0, v1] = METADATA_VERSION"
  proof -
    have "length (be_bytes 2 METADATA_VERSION) = 2" by (rule length_be_bytes)
    then obtain x y where "be_bytes 2 METADATA_VERSION = [x, y]"
      by (auto simp: numeral_2_eq_2 length_Suc_conv simp del: be_bytes_numeral)
    moreover have "from_be (be_bytes 2 METADATA_VERSION) = METADATA_VERSION" by (rule from_be_be_bytes_full) simp
    ultimately show thesis by (intro that [of x y]) (simp_all del: be_bytes_numeral)
  qed
  obtain rows where rows: "be_bytes 8 (rm_rows m) = rows" "length rows = 8" "from_be rows = rm_rows m"
    by (simp add: length_be_bytes del: be_bytes_numeral)
  have bs: "bs = [v0, v1, metadata_flag_bits m, 0] @ rows @ rm_fingerprint m @ cursor_slot (rm_candidate m) @
      cursor_slot (rm_resume m)"
    using assms(2) unfolding encode_metadata_Ok [OF len] v rows by simp
  have parts: "length bs = ENCODED_BYTES" "take 2 bs = [v0, v1]" "bs ! 2 = metadata_flag_bits m" "bs ! 3 = 0"
    "take 18 (drop 44 bs) = cursor_slot (rm_candidate m)" "drop 62 bs = cursor_slot (rm_resume m)"
    "take 8 (drop 4 bs) = rows" "take 32 (drop 12 bs) = rm_fingerprint m"
    unfolding bs using rows(2) len by (simp_all add: ENCODED_BYTES_def)
  show ?thesis
    unfolding decode_metadata_def parts Let_def
    using assms(1) rows(3) v(2)
    by (cases m)
      (simp add: flag_byte decode_cursor_slot_encode [simplified] new_rising_metadata_def metadata_ok_def Let_def)
qed

lemma flags_of_bits:
  fixes f :: u8
  assumes "f AND NOT SUPPORTED_FLAGS = 0"
  shows "(if f AND FLAG_TRUNCATED \<noteq> 0 then FLAG_TRUNCATED else 0) OR
    (if f AND FLAG_CHECKPOINT_CANDIDATE \<noteq> 0 then FLAG_CHECKPOINT_CANDIDATE else 0) OR
    (if f AND FLAG_SCAN_RESUME \<noteq> 0 then FLAG_SCAN_RESUME else 0) = f"
proof -
  have "f = (f AND 7) OR (f AND NOT 7)" by (rule bit_word_eqI) (auto simp: bit_simps)
  also have "f AND NOT 7 = 0" using assms by (simp add: SUPPORTED_FLAGS_def metadata_flags)
  finally have "f = take_bit 3 f" by (simp add: take_bit_eq_mask mask_eq_exp_minus_1)
  then have "unat f < 8" using take_bit_nat_less_exp [of 3 "unat f"] by (simp add: unsigned_take_bit_eq word_unat_eq_iff)
  then have "unat f \<in> {0, 1, 2, 3, 4, 5, 6, 7}" by auto
  then have "f \<in> {0, 1, 2, 3, 4, 5, 6, 7}" by (simp add: word_unat_eq_iff)
  then show ?thesis by (auto simp: metadata_flags)
qed

lemma encode_decode_metadata:
  assumes "decode_metadata bs = Inr m"
  shows "metadata_ok m \<and> encode_metadata m = Inr bs"
proof -
  define f where "f = bs ! 2"
  from assms obtain c r where len: "length bs = 80" and ver: "from_be (take 2 bs) = METADATA_VERSION" and
    fl: "f AND NOT SUPPORTED_FLAGS = 0" and zero: "bs ! 3 = 0" and
    c: "decode_cursor_slot (take 18 (drop 44 bs)) (f AND FLAG_CHECKPOINT_CANDIDATE \<noteq> 0) = Inr c" and
    r: "decode_cursor_slot (drop 62 bs) (f AND FLAG_SCAN_RESUME \<noteq> 0) = Inr r" and
    m: "m = \<lparr>rm_rows = from_be (take 8 (drop 4 bs)), rm_truncated = (f AND FLAG_TRUNCATED \<noteq> 0),
      rm_fingerprint = take 32 (drop 12 bs), rm_candidate = c, rm_resume = r\<rparr>" and
    ok: "metadata_validate m = Inr ()"
    unfolding decode_metadata_def Let_def new_rising_metadata_def f_def
    by (auto simp: ENCODED_BYTES_def split: if_split_asm)
  note cs = encode_cursor_slot_decode [OF c] and rs = encode_cursor_slot_decode [OF r]
  have bits: "metadata_flag_bits m = f"
    using cs rs len flags_of_bits [OF fl] by (simp add: m metadata_flag_bits_def)
  have v: "be_bytes 2 METADATA_VERSION = take 2 bs"
    using be_bytes_from_be [of "take 2 bs", where 'a = 16] len by (simp add: ver del: be_bytes_numeral)
  have rows: "be_bytes 8 (rm_rows m) = take 8 (drop 4 bs)"
    using be_bytes_from_be [of "take 8 (drop 4 bs)", where 'a = 64] len by (simp add: m del: be_bytes_numeral)
  have two: "[f, 0] = take 2 (drop 2 bs)"
    using len zero by (auto simp: f_def numeral_2_eq_2 take_Suc_conv_app_nth hd_drop_conv_nth numeral_eq_Suc)
  have "take 2 bs @ take 2 (drop 2 bs) @ take 8 (drop 4 bs) @ take 32 (drop 12 bs) @ take 18 (drop 44 bs) @ drop 62 bs = bs"
    using take_add [of 2 2 bs] take_add [of 4 8 bs] take_add [of 12 32 bs] take_add [of 44 18 bs]
      append_take_drop_id [of 62 bs] by simp
  with cs rs len v rows two bits show ?thesis
    using ok by (simp add: metadata_ok_def m encode_metadata_Ok)
qed

lemma to_canonical_inj: "to_canonical_bytes c = to_canonical_bytes d \<longleftrightarrow> c = d"
  by (metis from_to_canonical sum.inject(2))

lemma optional_cursor_bytes_inj:
  "optional_cursor_bytes a @ x = optional_cursor_bytes b @ y \<Longrightarrow> a = b \<and> x = y"
  by (auto simp: optional_cursor_bytes_def to_canonical_inj split: option.split_asm)

section \<open>Properties\<close>

definition demo_metadata :: rising_metadata where
  "demo_metadata = \<lparr>rm_rows = 7, rm_truncated = True, rm_fingerprint = replicate 32 68,
     rm_candidate = Some (TimestampIdCursor 1234567 88), rm_resume = Some (TimestampIdCursor 1234567 87)\<rparr>"

text \<open>
  C9. One encoding per value. Bytes decode to recovery metadata exactly when the metadata is valid and
  they are its encoding, so a page has one metadata frame, and a frame one meaning.
\<close>
theorem metadata_codec:
  "decode_metadata bs = Inr m \<longleftrightarrow> metadata_ok m \<and> encode_metadata m = Inr bs"
  using decode_encode_metadata encode_decode_metadata by blast

text \<open>
  The request fingerprint binds the request: the hashed text determines the cursor identity, the
  committed position and the resume position, so only two texts that collide share a fingerprint.
\<close>
lemma request_text_binds:
  assumes "request_text a r = request_text b q" "length a = length b"
  shows "a = b \<and> req_committed r = req_committed q \<and> req_resume_after r = req_resume_after q"
proof -
  from assms(1) have "a @ optional_cursor_bytes (req_committed r) @ optional_cursor_bytes (req_resume_after r) =
      b @ optional_cursor_bytes (req_committed q) @ optional_cursor_bytes (req_resume_after q)"
    unfolding request_text_def by (metis same_append_eq)
  with assms(2) have "a = b" and
    c: "optional_cursor_bytes (req_committed r) @ optional_cursor_bytes (req_resume_after r) =
      optional_cursor_bytes (req_committed q) @ optional_cursor_bytes (req_resume_after q)"
    by simp_all
  from optional_cursor_bytes_inj [OF c]
  have "req_committed r = req_committed q" "optional_cursor_bytes (req_resume_after r) @ [] =
      optional_cursor_bytes (req_resume_after q) @ []" by simp_all
  with optional_cursor_bytes_inj [of "req_resume_after r" "[]" "req_resume_after q" "[]"] \<open>a = b\<close>
  show "a = b \<and> req_committed r = req_committed q \<and> req_resume_after r = req_resume_after q" by simp
qed

end
