(* ===== verification/Prepared.thy ===== *)
theory Prepared
  imports Daemon_Base State_Envelope
begin

text \<open>
  Input preparation, \<open>crates/dbx-rs-daemon/src/prepared.rs\<close>, over the configuration values it reads
  (\<open>crates/dbx-rs-config/src/lib.rs\<close>): query and certificate files are read once, and every setting is
  bound by a fingerprint. A \<open>String\<close> is its UTF-8 bytes; SHA-256 is the parameter \<open>sha\<close>.
\<close>

section \<open>Configuration values\<close>

datatype hec_state = Hec_Enabled | Hec_Disabled
datatype hec_input_management = Managed | External
datatype tls_verification = Verify_Full | Verify_Disabled
datatype indexer_acknowledgment = Ack_Enabled | Ack_Disabled
datatype tls_mode = Tls_Disable | Tls_Require | Tls_VerifyCa | Tls_VerifyFull
datatype query_source = Query_File path | Query_Inline string

record hec_config =
  hc_state :: hec_state
  hc_input_management :: hec_input_management
  hc_url :: string
  hc_input_name :: string
  hc_listen_port :: u16
  hc_accept_from :: string
  hc_tls_verification :: tls_verification
  hc_timeout :: duration
  hc_batch_max_events :: nat
  hc_batch_max_bytes :: u64
  hc_max_event_bytes :: u64
  hc_index :: string
  hc_sourcetype :: string
  hc_source :: string
  hc_acknowledgment :: indexer_acknowledgment

record rising_input_config =
  ric_input_id :: bytes
  ric_timestamp_field :: string
  ric_id_field :: string
  ric_overlap :: duration

datatype collection_mode = Mode_Batch | Mode_Rising rising_input_config

record input_config =
  ic_name :: string
  ic_disabled :: bool
  ic_mode :: collection_mode
  ic_connector :: string
  ic_interval :: duration
  ic_host :: string
  ic_port :: u16
  ic_database :: string
  ic_username :: string
  ic_secret_ref :: string
  ic_tls_mode :: string
  ic_tls_server_name :: "string option"
  ic_tls_ca_file :: "path option"
  ic_query :: query_source
  ic_connect_timeout :: duration
  ic_probe_timeout :: duration
  ic_max_rows :: u64
  ic_max_bytes :: u64
  ic_query_timeout :: duration
  ic_index :: string
  ic_sourcetype :: string
  ic_source :: string

definition MAX_QUERY_BYTES :: nat where "MAX_QUERY_BYTES = 1024 * 1024"
definition MAX_TLS_CA_BYTES :: nat where "MAX_TLS_CA_BYTES = 1024 * 1024"

definition parse_tls_mode :: "string \<Rightarrow> tls_mode option" where
  "parse_tls_mode s =
     (if s = ''disable'' then Some Tls_Disable
      else if s = ''require'' then Some Tls_Require
      else if s = ''verify-ca'' then Some Tls_VerifyCa
      else if s = ''verify-full'' then Some Tls_VerifyFull
      else None)"

section \<open>Prepared inputs\<close>

record prepared_rising =
  pr_state_input_id :: bytes
  pr_cursor_spec :: timestamp_id_cursor_spec
  pr_cursor_identity :: bytes

record connection_config =
  cc_connector :: string
  cc_host :: string
  cc_port :: u16
  cc_database :: string
  cc_username :: string
  cc_tls_mode :: tls_mode
  cc_tls_server_name :: "string option"
  cc_tls_ca_pem :: "bytes option"
  cc_connect_timeout :: duration
  cc_probe_timeout :: duration

record prepared_schedule =
  ps_disabled :: bool
  ps_interval :: duration

record prepared_limits =
  pl_max_rows :: u64
  pl_max_bytes :: u64
  pl_query_timeout :: duration

record prepared_output =
  po_index :: string
  po_sourcetype :: string
  po_source :: string

record prepared_input =
  pi_input_id :: bytes
  pi_rising :: "prepared_rising option"
  pi_name :: string
  pi_connector :: string
  pi_secret_ref :: string
  pi_connection :: connection_config
  pi_query :: string
  pi_schedule :: prepared_schedule
  pi_limits :: prepared_limits
  pi_output :: prepared_output
  pi_query_fingerprint :: bytes
  pi_lineage :: bytes
  pi_revision :: bytes

section \<open>The canonical encoding\<close>

definition preparation_error :: "string \<Rightarrow> string \<Rightarrow> string \<Rightarrow> daemon_error" where
  "preparation_error code stage message = daemon_err code ''configuration'' stage message False True"

definition fingerprint_size_error :: daemon_error where
  "fingerprint_size_error =
     daemon_err ''DBX-RS-PREP-0005'' ''internal'' ''input_fingerprint''
       ''prepared input field exceeds the canonical fingerprint limit'' False False"

text \<open>What each method of \<open>FingerprintEncoder\<close> appends to the hashed context.\<close>

type_synonym field = "daemon_error + bytes"

definition field_u8 :: "u8 \<Rightarrow> u8 \<Rightarrow> field" where "field_u8 tag v = Ok [tag, v]"

definition field_boolean :: "u8 \<Rightarrow> bool \<Rightarrow> field" where
  "field_boolean tag b = field_u8 tag (if b then 1 else 0)"

definition field_u16 :: "u8 \<Rightarrow> u16 \<Rightarrow> field" where "field_u16 tag v = Ok (tag # be_bytes 2 v)"
definition field_u64 :: "u8 \<Rightarrow> u64 \<Rightarrow> field" where "field_u64 tag v = Ok (tag # be_bytes 8 v)"

definition field_usize :: "u8 \<Rightarrow> nat \<Rightarrow> field" where
  "field_usize tag n = bindr (ok_or fingerprint_size_error (u64_of_len n)) (field_u64 tag)"

definition field_duration :: "u8 \<Rightarrow> duration \<Rightarrow> field" where
  "field_duration tag d = Ok (tag # be_bytes 8 (as_secs d) @ be_bytes 4 (subsec_nanos d))"

definition field_bytes :: "u8 \<Rightarrow> bytes \<Rightarrow> field" where
  "field_bytes tag bs =
     (if length bs < 2 ^ 32 then Ok (tag # be_bytes 4 (of_nat (length bs) :: u32) @ bs) else Err fingerprint_size_error)"

definition field_fixed :: "u8 \<Rightarrow> bytes \<Rightarrow> field" where "field_fixed tag bs = Ok (tag # bs)"

definition field_optional_bytes :: "u8 \<Rightarrow> bytes option \<Rightarrow> field" where
  "field_optional_bytes tag v =
     (case v of
        None \<Rightarrow> Ok [tag, 0]
      | Some bs \<Rightarrow>
          if length bs < 2 ^ 32 then Ok ([tag, 1] @ be_bytes 4 (of_nat (length bs) :: u32) @ bs)
          else Err fingerprint_size_error)"

definition field_optional_digest :: "hash \<Rightarrow> u8 \<Rightarrow> bytes option \<Rightarrow> field" where
  "field_optional_digest sha tag v =
     (case v of None \<Rightarrow> Ok [tag, 0] | Some bs \<Rightarrow> Ok ([tag, 1] @ sha bs))"

fun append_fields :: "bytes \<Rightarrow> field list \<Rightarrow> daemon_error + bytes" where
  "append_fields context [] = Ok context"
| "append_fields context (f # fs) = bindr f (\<lambda>bs. append_fields (context @ bs) fs)"

definition fingerprint_of :: "hash \<Rightarrow> bytes \<Rightarrow> field list \<Rightarrow> daemon_error + bytes" where
  "fingerprint_of sha domain fs = bindr (append_fields domain fs) (\<lambda>context. Ok (sha context))"

definition PREPARED_FINGERPRINT_VERSION :: u16 where "PREPARED_FINGERPRINT_VERSION = 1"
definition CONTRACT_MAJOR :: u16 where "CONTRACT_MAJOR = 1"
definition CONTRACT_MINOR :: u16 where "CONTRACT_MINOR = 2"

definition INPUT_ID_DOMAIN :: bytes where "INPUT_ID_DOMAIN = ascii ''dbx-rs/batch-input-id/v1'' @ [0]"
definition QUERY_FINGERPRINT_DOMAIN :: bytes where
  "QUERY_FINGERPRINT_DOMAIN = ascii ''dbx-rs/query-fingerprint/v1'' @ [0]"
definition LINEAGE_FINGERPRINT_DOMAIN :: bytes where
  "LINEAGE_FINGERPRINT_DOMAIN = ascii ''dbx-rs/lineage-fingerprint/v1'' @ [0]"
definition REVISION_FINGERPRINT_DOMAIN :: bytes where
  "REVISION_FINGERPRINT_DOMAIN = ascii ''dbx-rs/revision-fingerprint/v1'' @ [0]"
definition RISING_INPUT_KEY_DOMAIN :: bytes where
  "RISING_INPUT_KEY_DOMAIN = ascii ''dbx-rs/rising-input-key/v1'' @ [0]"
definition RISING_LINEAGE_FINGERPRINT_DOMAIN :: bytes where
  "RISING_LINEAGE_FINGERPRINT_DOMAIN = ascii ''dbx-rs/rising-source-lineage-fingerprint/v1'' @ [0]"
definition RISING_CURSOR_FINGERPRINT_DOMAIN :: bytes where
  "RISING_CURSOR_FINGERPRINT_DOMAIN = ascii ''dbx-rs/rising-cursor-identity-fingerprint/v1'' @ [0]"
definition RISING_REVISION_FINGERPRINT_DOMAIN :: bytes where
  "RISING_REVISION_FINGERPRINT_DOMAIN = ascii ''dbx-rs/rising-revision-fingerprint/v1'' @ [0]"

fun tls_mode_tag :: "tls_mode \<Rightarrow> u8" where
  "tls_mode_tag Tls_Disable = 0"
| "tls_mode_tag Tls_Require = 1"
| "tls_mode_tag Tls_VerifyCa = 2"
| "tls_mode_tag Tls_VerifyFull = 3"

fun hec_state_tag :: "hec_state \<Rightarrow> u8" where
  "hec_state_tag Hec_Enabled = 1"
| "hec_state_tag Hec_Disabled = 0"

fun hec_management_tag :: "hec_input_management \<Rightarrow> u8" where
  "hec_management_tag Managed = 1"
| "hec_management_tag External = 0"

fun tls_verification_tag :: "tls_verification \<Rightarrow> u8" where
  "tls_verification_tag Verify_Full = 1"
| "tls_verification_tag Verify_Disabled = 0"

fun acknowledgment_tag :: "indexer_acknowledgment \<Rightarrow> u8" where
  "acknowledgment_tag Ack_Enabled = 1"
| "acknowledgment_tag Ack_Disabled = 0"

fun cursor_null_policy_tag :: "cursor_null_policy \<Rightarrow> u8" where
  "cursor_null_policy_tag Reject = 0"

section \<open>Fingerprints\<close>

definition batch_input_id :: "hash \<Rightarrow> string \<Rightarrow> daemon_error + bytes" where
  "batch_input_id sha name = fingerprint_of sha INPUT_ID_DOMAIN [field_bytes 1 (ascii name)]"

definition rising_key_fields :: "bytes \<Rightarrow> field list" where
  "rising_key_fields state_id = [field_u16 1 PREPARED_FINGERPRINT_VERSION, field_fixed 2 state_id]"

definition rising_input_key :: "hash \<Rightarrow> bytes \<Rightarrow> daemon_error + bytes" where
  "rising_input_key sha state_id = fingerprint_of sha RISING_INPUT_KEY_DOMAIN (rising_key_fields state_id)"

definition query_fields :: "string \<Rightarrow> bytes \<Rightarrow> field list" where
  "query_fields connector query =
     [field_u16 1 PREPARED_FINGERPRINT_VERSION, field_bytes 2 (ascii connector), field_u16 3 CONTRACT_MAJOR,
      field_u16 4 CONTRACT_MINOR, field_bytes 5 query]"

definition query_fingerprint :: "hash \<Rightarrow> string \<Rightarrow> bytes \<Rightarrow> daemon_error + bytes" where
  "query_fingerprint sha connector query = fingerprint_of sha QUERY_FINGERPRINT_DOMAIN (query_fields connector query)"

definition batch_lineage_fields :: "bytes \<Rightarrow> input_config \<Rightarrow> bytes \<Rightarrow> field list" where
  "batch_lineage_fields input_id input query_fp =
     [field_u16 1 PREPARED_FINGERPRINT_VERSION, field_fixed 2 input_id, field_bytes 3 (ascii (ic_host input)),
      field_u16 4 (ic_port input), field_bytes 5 (ascii (ic_database input)),
      field_bytes 6 (ascii (ic_username input)), field_fixed 7 query_fp]"

definition batch_lineage_fingerprint :: "hash \<Rightarrow> bytes \<Rightarrow> input_config \<Rightarrow> bytes \<Rightarrow> daemon_error + bytes" where
  "batch_lineage_fingerprint sha input_id input query_fp =
     fingerprint_of sha LINEAGE_FINGERPRINT_DOMAIN (batch_lineage_fields input_id input query_fp)"

definition rising_lineage_fields :: "bytes \<Rightarrow> input_config \<Rightarrow> bytes \<Rightarrow> field list" where
  "rising_lineage_fields state_id input query_fp =
     [field_u16 1 PREPARED_FINGERPRINT_VERSION, field_fixed 2 state_id, field_bytes 3 (ascii (ic_connector input)),
      field_u16 4 CONTRACT_MAJOR, field_u16 5 CONTRACT_MINOR, field_bytes 6 (ascii (ic_host input)),
      field_u16 7 (ic_port input), field_bytes 8 (ascii (ic_database input)),
      field_bytes 9 (ascii (ic_username input)), field_fixed 10 query_fp]"

definition rising_lineage_fingerprint :: "hash \<Rightarrow> bytes \<Rightarrow> input_config \<Rightarrow> bytes \<Rightarrow> daemon_error + bytes" where
  "rising_lineage_fingerprint sha state_id input query_fp =
     fingerprint_of sha RISING_LINEAGE_FINGERPRINT_DOMAIN (rising_lineage_fields state_id input query_fp)"

definition cursor_fields :: "timestamp_id_cursor_spec \<Rightarrow> field list" where
  "cursor_fields sp =
     [field_u16 1 PREPARED_FINGERPRINT_VERSION, field_u16 2 CONTRACT_MAJOR, field_u16 3 CONTRACT_MINOR,
      field_u16 4 TIMESTAMP_ID_CURSOR_FORMAT_VERSION, field_bytes 5 (ascii (timestamp_field sp)),
      field_bytes 6 (ascii (id_field sp)), field_u8 7 (cursor_null_policy_tag (null_policy sp))]"

definition cursor_spec_fingerprint :: "hash \<Rightarrow> timestamp_id_cursor_spec \<Rightarrow> daemon_error + bytes" where
  "cursor_spec_fingerprint sha sp = fingerprint_of sha RISING_CURSOR_FINGERPRINT_DOMAIN (cursor_fields sp)"

definition rising_revision_fields :: "bytes \<Rightarrow> bytes \<Rightarrow> duration \<Rightarrow> field list" where
  "rising_revision_fields operational cursor_fp ovl =
     [field_u16 1 PREPARED_FINGERPRINT_VERSION, field_fixed 2 operational, field_u8 3 1,
      field_fixed 4 cursor_fp, field_duration 5 ovl]"

definition rising_revision_fingerprint :: "hash \<Rightarrow> bytes \<Rightarrow> bytes \<Rightarrow> duration \<Rightarrow> daemon_error + bytes" where
  "rising_revision_fingerprint sha operational cursor_fp ovl =
     fingerprint_of sha RISING_REVISION_FINGERPRINT_DOMAIN (rising_revision_fields operational cursor_fp ovl)"

definition revision_fields :: "hash \<Rightarrow> bytes \<Rightarrow> input_config \<Rightarrow> hec_config \<Rightarrow> tls_mode \<Rightarrow> bytes option \<Rightarrow> field list" where
  "revision_fields sha lineage input hec mode ca =
     [field_u16 1 PREPARED_FINGERPRINT_VERSION, field_fixed 2 lineage,
      field_bytes 3 (ascii (ic_secret_ref input)), field_u8 4 (tls_mode_tag mode),
      field_optional_bytes 5 (map_option ascii (ic_tls_server_name input)), field_optional_digest sha 6 ca,
      field_duration 7 (ic_connect_timeout input), field_duration 8 (ic_probe_timeout input),
      field_duration 9 (ic_query_timeout input), field_duration 10 (ic_interval input),
      field_boolean 11 (ic_disabled input), field_u64 12 (ic_max_rows input), field_u64 13 (ic_max_bytes input),
      field_bytes 14 (ascii (ic_index input)), field_bytes 15 (ascii (ic_sourcetype input)),
      field_bytes 16 (ascii (ic_source input)), field_u8 17 (hec_state_tag (hc_state hec)),
      field_bytes 18 (ascii (hc_url hec)), field_u8 19 (hec_management_tag (hc_input_management hec)),
      field_bytes 20 (ascii (hc_input_name hec)), field_u16 21 (hc_listen_port hec),
      field_bytes 22 (ascii (hc_accept_from hec)), field_u8 23 (tls_verification_tag (hc_tls_verification hec)),
      field_duration 24 (hc_timeout hec), field_usize 25 (hc_batch_max_events hec),
      field_u64 26 (hc_batch_max_bytes hec), field_u64 27 (hc_max_event_bytes hec),
      field_u8 28 (acknowledgment_tag (hc_acknowledgment hec))]"

definition operational_revision ::
    "hash \<Rightarrow> bytes \<Rightarrow> input_config \<Rightarrow> hec_config \<Rightarrow> tls_mode \<Rightarrow> bytes option \<Rightarrow> daemon_error + bytes" where
  "operational_revision sha lineage input hec mode ca =
     fingerprint_of sha REVISION_FINGERPRINT_DOMAIN (revision_fields sha lineage input hec mode ca)"

section \<open>Preparation\<close>

text \<open>\<open>String::from_utf8\<close>: the well-formed byte sequences of the Unicode standard.\<close>

definition continuation :: "u8 \<Rightarrow> bool" where "continuation b \<longleftrightarrow> 0x80 \<le> b \<and> b \<le> 0xBF"

fun utf8_ok :: "bytes \<Rightarrow> bool" where
  "utf8_ok [] = True"
| "utf8_ok (a # rest) =
     (if a < 0x80 then utf8_ok rest
      else case rest of
        [] \<Rightarrow> False
      | b # rest \<Rightarrow>
          if 0xC2 \<le> a \<and> a \<le> 0xDF then continuation b \<and> utf8_ok rest
          else case rest of
            [] \<Rightarrow> False
          | c # rest \<Rightarrow>
              if 0xE0 \<le> a \<and> a \<le> 0xEF
              then continuation b \<and> (a = 0xE0 \<longrightarrow> 0xA0 \<le> b) \<and> (a = 0xED \<longrightarrow> b \<le> 0x9F) \<and> continuation c \<and> utf8_ok rest
              else case rest of
                [] \<Rightarrow> False
              | d # rest \<Rightarrow>
                  0xF0 \<le> a \<and> a \<le> 0xF4 \<and> continuation b \<and> (a = 0xF0 \<longrightarrow> 0x90 \<le> b) \<and> (a = 0xF4 \<longrightarrow> b \<le> 0x8F) \<and>
                  continuation c \<and> continuation d \<and> utf8_ok rest)"

definition text_of :: "bytes \<Rightarrow> string" where "text_of bs = map (\<lambda>b. char_of (unat b)) bs"

type_synonym 'a preparing = "(host, daemon_error, 'a) op"

definition resolve_query :: "query_source \<Rightarrow> string preparing" where
  "resolve_query source =
     (case source of
        Query_Inline query \<Rightarrow> ret query
      | Query_File p \<Rightarrow>
          bnd (map_fail (\<lambda>_. preparation_error ''DBX-RS-PREP-0001'' ''query_input''
              ''configured query file could not be read'') (read_limited p MAX_QUERY_BYTES)) (\<lambda>bs.
          if utf8_ok bs then ret (text_of bs)
          else throw (preparation_error ''DBX-RS-PREP-0002'' ''query_input''
            ''configured query file is not valid UTF-8'')))"

record prepared_identity =
  pid_input_id :: bytes
  pid_rising :: "prepared_rising option"
  pid_lineage :: bytes

definition prepare_rising_spec :: "rising_input_config \<Rightarrow> timestamp_id_cursor_spec" where
  "prepare_rising_spec configured =
     \<lparr>timestamp_field = ric_timestamp_field configured, id_field = ric_id_field configured,
      overlap = ric_overlap configured, null_policy = Reject\<rparr>"

definition prepare_identity :: "hash \<Rightarrow> input_config \<Rightarrow> bytes \<Rightarrow> daemon_error + prepared_identity" where
  "prepare_identity sha input query_fp =
     (case ic_mode input of
        Mode_Batch \<Rightarrow>
          bindr (batch_input_id sha (ic_name input)) (\<lambda>input_id.
          bindr (batch_lineage_fingerprint sha input_id input query_fp) (\<lambda>lineage.
            Ok \<lparr>pid_input_id = input_id, pid_rising = None, pid_lineage = lineage\<rparr>))
      | Mode_Rising configured \<Rightarrow>
          if ic_connector input = ''oracle''
          then Err (preparation_error ''DBX-RS-PREP-0007'' ''cursor_configuration''
            ''Oracle rising collection is not supported'')
          else
          let state_id = ric_input_id configured; sp = prepare_rising_spec configured in
          bindr (rising_input_key sha state_id) (\<lambda>input_id.
          bindr (map_err (\<lambda>_. preparation_error ''DBX-RS-PREP-0006'' ''cursor_configuration''
              ''configured rising cursor is invalid'') (spec_validate sp)) (\<lambda>_.
          bindr (cursor_spec_fingerprint sha sp) (\<lambda>cursor_fp.
          bindr (rising_lineage_fingerprint sha state_id input query_fp) (\<lambda>lineage.
            Ok \<lparr>pid_input_id = input_id,
                pid_rising = Some \<lparr>pr_state_input_id = state_id, pr_cursor_spec = sp, pr_cursor_identity = cursor_fp\<rparr>,
                pid_lineage = lineage\<rparr>)))))"

definition read_tls_ca :: "path option \<Rightarrow> bytes option preparing" where
  "read_tls_ca p =
     (case p of
        None \<Rightarrow> ret None
      | Some p \<Rightarrow>
          bnd (map_fail (\<lambda>_. preparation_error ''DBX-RS-PREP-0003'' ''tls_ca_input''
              ''configured database CA file could not be read'') (read_limited p MAX_TLS_CA_BYTES)) (\<lambda>pem. ret (Some pem)))"

definition prepared_connection :: "input_config \<Rightarrow> tls_mode \<Rightarrow> bytes option \<Rightarrow> connection_config" where
  "prepared_connection input mode ca =
     \<lparr>cc_connector = ic_connector input, cc_host = ic_host input, cc_port = ic_port input,
      cc_database = ic_database input, cc_username = ic_username input, cc_tls_mode = mode,
      cc_tls_server_name = ic_tls_server_name input, cc_tls_ca_pem = ca,
      cc_connect_timeout = ic_connect_timeout input, cc_probe_timeout = ic_probe_timeout input\<rparr>"

definition prepare_resolved ::
    "hash \<Rightarrow> input_config \<Rightarrow> hec_config \<Rightarrow> string \<Rightarrow> tls_mode \<Rightarrow> bytes option \<Rightarrow> daemon_error + prepared_input" where
  "prepare_resolved sha input hec query mode ca =
     bindr (query_fingerprint sha (ic_connector input) (ascii query)) (\<lambda>query_fp.
     bindr (prepare_identity sha input query_fp) (\<lambda>identity.
     bindr (operational_revision sha (pid_lineage identity) input hec mode ca) (\<lambda>operational.
     bindr (case pid_rising identity of
         Some rising \<Rightarrow>
           rising_revision_fingerprint sha operational (pr_cursor_identity rising) (overlap (pr_cursor_spec rising))
       | None \<Rightarrow> Ok operational) (\<lambda>revision.
       Ok \<lparr>pi_input_id = pid_input_id identity, pi_rising = pid_rising identity, pi_name = ic_name input,
           pi_connector = ic_connector input, pi_secret_ref = ic_secret_ref input,
           pi_connection = prepared_connection input mode ca, pi_query = query,
           pi_schedule = \<lparr>ps_disabled = ic_disabled input, ps_interval = ic_interval input\<rparr>,
           pi_limits = \<lparr>pl_max_rows = ic_max_rows input, pl_max_bytes = ic_max_bytes input,
             pl_query_timeout = ic_query_timeout input\<rparr>,
           pi_output = \<lparr>po_index = ic_index input, po_sourcetype = ic_sourcetype input, po_source = ic_source input\<rparr>,
           pi_query_fingerprint = query_fp, pi_lineage = pid_lineage identity, pi_revision = revision\<rparr>))))"

definition prepare_input :: "hash \<Rightarrow> input_config \<Rightarrow> hec_config \<Rightarrow> prepared_input preparing" where
  "prepare_input sha input hec =
     bnd (resolve_query (ic_query input)) (\<lambda>query.
     bnd (read_tls_ca (ic_tls_ca_file input)) (\<lambda>ca.
     bnd (lift_res (ok_or (preparation_error ''DBX-RS-PREP-0004'' ''tls_configuration''
         ''configured database TLS mode is invalid'') (parse_tls_mode (ic_tls_mode input)))) (\<lambda>mode.
       lift_res (prepare_resolved sha input hec query mode ca))))"

section \<open>The encoding is one to one\<close>

text \<open>Two lists of fields with the same encoding; each kind of field is cut off in turn.\<close>

definition same_encoding :: "field list \<Rightarrow> field list \<Rightarrow> bool" where
  "same_encoding fs gs \<longleftrightarrow> (\<exists>bs. append_fields [] fs = Inr bs \<and> append_fields [] gs = Inr bs)"

lemma append_fields_context: "append_fields c fs = bindr (append_fields [] fs) (\<lambda>r. Ok (c @ r))"
proof (induction fs arbitrary: c)
  case (Cons f fs)
  show ?case
  proof (cases f)
    case (Inr a)
    show ?thesis
      using Cons.IH [of "c @ a"] Cons.IH [of a] Inr by (cases "append_fields [] fs") simp_all
  qed simp
qed simp

lemma append_field: "append_fields [] (Inr a # fs) = Inr bs \<longleftrightarrow> (\<exists>r. append_fields [] fs = Inr r \<and> bs = a @ r)"
  using append_fields_context [of a fs] by auto

lemma same_encoding_cut:
  assumes "\<And>r s. a @ r = b @ s \<longleftrightarrow> P \<and> r = s"
  shows "same_encoding (Inr a # fs) (Inr b # gs) \<longleftrightarrow> P \<and> same_encoding fs gs"
  unfolding same_encoding_def append_field using assms by metis

lemma same_encoding_Err [simp]: "\<not> same_encoding (Inl e # fs) gs" "\<not> same_encoding fs (Inl e # gs)"
  by (simp_all add: same_encoding_def)

lemma same_encoding_Nil [simp]: "same_encoding [] []" by (simp add: same_encoding_def)

lemma same_u8 [simp]:
  "same_encoding (field_u8 t v # fs) (field_u8 t w # gs) \<longleftrightarrow> v = w \<and> same_encoding fs gs"
  unfolding field_u8_def by (rule same_encoding_cut) simp

lemma same_boolean [simp]:
  "same_encoding (field_boolean t v # fs) (field_boolean t w # gs) \<longleftrightarrow> v = w \<and> same_encoding fs gs"
  by (simp add: field_boolean_def)

lemma same_u16 [simp]:
  "same_encoding (field_u16 t v # fs) (field_u16 t w # gs) \<longleftrightarrow> v = w \<and> same_encoding fs gs"
  unfolding field_u16_def
  by (rule same_encoding_cut) (auto simp: length_be_bytes simp del: be_bytes_numeral dest: be_bytes_inj [rotated])

lemma same_u64 [simp]:
  "same_encoding (field_u64 t v # fs) (field_u64 t w # gs) \<longleftrightarrow> v = w \<and> same_encoding fs gs"
  unfolding field_u64_def
  by (rule same_encoding_cut) (auto simp: length_be_bytes simp del: be_bytes_numeral dest: be_bytes_inj [rotated])

lemma word_of_nat_inject:
  "m < 2 ^ LENGTH('a) \<Longrightarrow> n < 2 ^ LENGTH('a) \<Longrightarrow> (of_nat m :: 'a::len word) = of_nat n \<longleftrightarrow> m = n"
  by (metis mod_less unat_of_nat)

lemma same_usize [simp]:
  "same_encoding (field_usize t m # fs) (field_usize t n # gs) \<longleftrightarrow> m = n \<and> m < 2 ^ 64 \<and> same_encoding fs gs"
  by (auto simp: field_usize_def u64_of_len_def word_of_nat_inject)

lemma same_duration [simp]:
  "same_encoding (field_duration t v # fs) (field_duration t w # gs) \<longleftrightarrow> v = w \<and> same_encoding fs gs"
  unfolding field_duration_def
  by (rule same_encoding_cut)
    (cases v; cases w; auto simp: length_be_bytes simp del: be_bytes_numeral dest: be_bytes_inj [rotated])

lemma sized_bytes_cut:
  assumes "length v < 2 ^ 32" "length w < 2 ^ 32"
  shows "be_bytes 4 (of_nat (length v) :: u32) @ v @ r = be_bytes 4 (of_nat (length w) :: u32) @ w @ s \<longleftrightarrow>
    v = w \<and> r = s"
proof
  assume e: "be_bytes 4 (of_nat (length v) :: u32) @ v @ r = be_bytes 4 (of_nat (length w) :: u32) @ w @ s"
  then have len: "be_bytes 4 (of_nat (length v) :: u32) = be_bytes 4 (of_nat (length w) :: u32) \<and> v @ r = w @ s"
    by (simp add: length_be_bytes del: be_bytes_numeral)
  then have t: "v @ r = w @ s" by blast
  from len have "(of_nat (length v) :: u32) = of_nat (length w)" by (intro be_bytes_inj [where n = 4]) auto
  then have "length v = length w" using assms by (simp add: word_of_nat_inject)
  with t show "v = w \<and> r = s" by simp
qed simp

lemma same_bytes [simp]:
  "same_encoding (field_bytes t v # fs) (field_bytes t w # gs) \<longleftrightarrow>
     v = w \<and> length v < 2 ^ 32 \<and> same_encoding fs gs"
proof (cases "length v < 2 ^ 32 \<and> length w < 2 ^ 32")
  case True
  then have "same_encoding (field_bytes t v # fs) (field_bytes t w # gs) \<longleftrightarrow> v = w \<and> same_encoding fs gs"
    unfolding field_bytes_def
    by (simp only: if_True simp_thms) (rule same_encoding_cut, use sized_bytes_cut in simp)
  with True show ?thesis by auto
qed (auto simp: field_bytes_def)

lemma same_fixed:
  "length v = length w \<Longrightarrow>
   same_encoding (field_fixed t v # fs) (field_fixed t w # gs) \<longleftrightarrow> v = w \<and> same_encoding fs gs"
  unfolding field_fixed_def by (rule same_encoding_cut) simp

lemma same_presence [simp]:
  "same_encoding (Inr [t, 0] # fs) (Inr [t, 0] # gs) \<longleftrightarrow> same_encoding fs gs"
  "\<not> same_encoding (Inr (a # 0 # r) # fs) (Inr (b # 1 # s) # gs)"
  "\<not> same_encoding (Inr (a # 1 # r) # fs) (Inr (b # 0 # s) # gs)"
  using same_encoding_cut [of "[t, 0]" "[t, 0]" True fs gs] same_encoding_cut [of "a # 0 # r" "b # 1 # s" False fs gs]
    same_encoding_cut [of "a # 1 # r" "b # 0 # s" False fs gs]
  by simp_all

lemma same_optional_bytes [simp]:
  "same_encoding (field_optional_bytes t v # fs) (field_optional_bytes t w # gs) \<longleftrightarrow>
     v = w \<and> (\<forall>bs. v = Some bs \<longrightarrow> length bs < 2 ^ 32) \<and> same_encoding fs gs"
proof -
  have some: "same_encoding (field_optional_bytes t (Some x) # fs) (field_optional_bytes t (Some y) # gs) \<longleftrightarrow>
      x = y \<and> length x < 2 ^ 32 \<and> same_encoding fs gs" for x y
  proof (cases "length x < 2 ^ 32 \<and> length y < 2 ^ 32")
    case True
    then have "same_encoding (field_optional_bytes t (Some x) # fs) (field_optional_bytes t (Some y) # gs) \<longleftrightarrow>
        x = y \<and> same_encoding fs gs"
      unfolding field_optional_bytes_def option.case
      by (simp only: if_True simp_thms) (rule same_encoding_cut, use sized_bytes_cut in simp)
    with True show ?thesis by auto
  qed (auto simp: field_optional_bytes_def)
  show ?thesis
    using some by (cases v; cases w) (auto simp: field_optional_bytes_def)
qed

lemma same_optional_digest:
  assumes "sha_sized sha"
  shows "same_encoding (field_optional_digest sha t v # fs) (field_optional_digest sha t w # gs) \<longleftrightarrow>
     map_option sha v = map_option sha w \<and> same_encoding fs gs"
proof -
  have "same_encoding (Inr ([t, 1] @ sha x) # fs) (Inr ([t, 1] @ sha y) # gs) \<longleftrightarrow> sha x = sha y \<and> same_encoding fs gs"
    for x y
    by (rule same_encoding_cut) (use assms in \<open>simp add: sha_sized_def\<close>)
  then show ?thesis by (cases v; cases w) (simp_all add: field_optional_digest_def)
qed

lemmas same_field = same_fixed same_optional_digest

section \<open>What a fingerprint binds\<close>

text \<open>The texts that are hashed while an input is prepared.\<close>

definition hashed_text :: "bytes \<Rightarrow> field list \<Rightarrow> bytes set" where
  "hashed_text domain fs = {text. append_fields domain fs = Inr text}"

definition hashed_texts :: "hash \<Rightarrow> input_config \<Rightarrow> hec_config \<Rightarrow> prepared_input \<Rightarrow> bytes set" where
  "hashed_texts sha input hec p =
     (let fs = revision_fields sha (pi_lineage p) input hec (cc_tls_mode (pi_connection p)) (cc_tls_ca_pem (pi_connection p)) in
      hashed_text QUERY_FINGERPRINT_DOMAIN (query_fields (pi_connector p) (ascii (pi_query p))) \<union>
      hashed_text REVISION_FINGERPRINT_DOMAIN fs \<union> set_option (cc_tls_ca_pem (pi_connection p)) \<union>
      (case pi_rising p of
         None \<Rightarrow>
           hashed_text INPUT_ID_DOMAIN [field_bytes 1 (ascii (pi_name p))] \<union>
           hashed_text LINEAGE_FINGERPRINT_DOMAIN (batch_lineage_fields (pi_input_id p) input (pi_query_fingerprint p))
       | Some rising \<Rightarrow>
           hashed_text RISING_LINEAGE_FINGERPRINT_DOMAIN
             (rising_lineage_fields (pr_state_input_id rising) input (pi_query_fingerprint p)) \<union>
           hashed_text RISING_CURSOR_FINGERPRINT_DOMAIN (cursor_fields (pr_cursor_spec rising)) \<union>
           (\<Union>text \<in> hashed_text REVISION_FINGERPRINT_DOMAIN fs.
              hashed_text RISING_REVISION_FINGERPRINT_DOMAIN
                (rising_revision_fields (sha text) (pr_cursor_identity rising) (overlap (pr_cursor_spec rising))))))"

text \<open>Equal fingerprints of one domain come from equal fields, when the two texts do not collide.\<close>

definition collision :: "hash \<Rightarrow> bytes set \<Rightarrow> bytes set \<Rightarrow> bool" where
  "collision sha A B \<longleftrightarrow> (\<exists>x\<in>A. \<exists>y\<in>B. x \<noteq> y \<and> sha x = sha y)"

lemma fingerprint_of_Ok: "fingerprint_of sha d fs = Inr f \<longleftrightarrow> (\<exists>x\<in>hashed_text d fs. f = sha x)"
  by (auto simp: fingerprint_of_def hashed_text_def)

lemma hashed_text_iff: "x \<in> hashed_text d fs \<longleftrightarrow> (\<exists>r. append_fields [] fs = Inr r \<and> x = d @ r)"
  unfolding hashed_text_def mem_Collect_eq by (subst append_fields_context) auto

lemma hashed_text_same:
  "x \<in> hashed_text d fs \<Longrightarrow> x \<in> hashed_text d gs \<Longrightarrow> same_encoding fs gs"
  by (auto simp: hashed_text_iff same_encoding_def)

lemma same_fingerprint:
  assumes "fingerprint_of sha d fs = Inr f" "fingerprint_of sha d gs = Inr f"
    and "\<not> collision sha A B" "hashed_text d fs \<subseteq> A" "hashed_text d gs \<subseteq> B"
  shows "same_encoding fs gs"
proof -
  obtain x y where xy: "x \<in> hashed_text d fs" "y \<in> hashed_text d gs" "sha x = sha y"
    using assms(1,2) unfolding fingerprint_of_Ok by metis
  then have "x \<in> A" "y \<in> B" using assms(4,5) by blast+
  with xy(3) assms(3) have "x = y" unfolding collision_def by blast
  with xy show ?thesis using hashed_text_same by blast
qed

lemma other_domain:
  assumes "x \<in> hashed_text d fs" "x \<in> hashed_text e gs" "n \<le> length d" "n \<le> length e"
  shows "take n d = take n e"
proof -
  obtain r s where "x = d @ r" "x = e @ s" using assms(1,2) unfolding hashed_text_iff by blast
  then have "take n (d @ r) = take n (e @ s)" by simp
  with assms(3,4) show ?thesis by simp
qed

lemma prepare_identity_Ok:
  assumes "prepare_identity sha input query_fp = Inr identity"
  shows "case pid_rising identity of
      None \<Rightarrow> ic_mode input = Mode_Batch \<and> batch_input_id sha (ic_name input) = Inr (pid_input_id identity) \<and>
        batch_lineage_fingerprint sha (pid_input_id identity) input query_fp = Inr (pid_lineage identity)
    | Some rising \<Rightarrow> \<exists>configured. ic_mode input = Mode_Rising configured \<and>
        pr_state_input_id rising = ric_input_id configured \<and> null_policy (pr_cursor_spec rising) = Reject \<and>
        rising_input_key sha (pr_state_input_id rising) = Inr (pid_input_id identity) \<and>
        cursor_spec_fingerprint sha (pr_cursor_spec rising) = Inr (pr_cursor_identity rising) \<and>
        rising_lineage_fingerprint sha (pr_state_input_id rising) input query_fp = Inr (pid_lineage identity)"
proof (cases "ic_mode input")
  case Mode_Batch
  then show ?thesis using assms by (auto simp: prepare_identity_def)
next
  case (Mode_Rising configured)
  then show ?thesis
    using assms by (auto simp: prepare_identity_def prepare_rising_spec_def Let_def split: if_split_asm)
qed

definition revision_of ::
    "hash \<Rightarrow> input_config \<Rightarrow> hec_config \<Rightarrow> prepared_input \<Rightarrow> daemon_error + bytes" where
  "revision_of sha input hec p =
     operational_revision sha (pi_lineage p) input hec (cc_tls_mode (pi_connection p)) (cc_tls_ca_pem (pi_connection p))"

text \<open>A prepared input and the configuration it was made of.\<close>

definition prepared_from :: "hash \<Rightarrow> input_config \<Rightarrow> hec_config \<Rightarrow> prepared_input \<Rightarrow> bool" where
  "prepared_from sha input hec p \<longleftrightarrow>
     pi_connector p = ic_connector input \<and> pi_name p = ic_name input \<and> pi_secret_ref p = ic_secret_ref input \<and>
     pi_connection p = prepared_connection input (cc_tls_mode (pi_connection p)) (cc_tls_ca_pem (pi_connection p)) \<and>
     pi_schedule p = \<lparr>ps_disabled = ic_disabled input, ps_interval = ic_interval input\<rparr> \<and>
     pi_limits p = \<lparr>pl_max_rows = ic_max_rows input, pl_max_bytes = ic_max_bytes input,
       pl_query_timeout = ic_query_timeout input\<rparr> \<and>
     pi_output p = \<lparr>po_index = ic_index input, po_sourcetype = ic_sourcetype input, po_source = ic_source input\<rparr> \<and>
     query_fingerprint sha (pi_connector p) (ascii (pi_query p)) = Inr (pi_query_fingerprint p) \<and>
     (\<exists>op. revision_of sha input hec p = Inr op \<and>
       (case pi_rising p of
          None \<Rightarrow> batch_input_id sha (pi_name p) = Inr (pi_input_id p) \<and>
            batch_lineage_fingerprint sha (pi_input_id p) input (pi_query_fingerprint p) = Inr (pi_lineage p) \<and>
            pi_revision p = op
        | Some rising \<Rightarrow> \<exists>configured. ic_mode input = Mode_Rising configured \<and>
            pr_state_input_id rising = ric_input_id configured \<and> null_policy (pr_cursor_spec rising) = Reject \<and>
            rising_input_key sha (pr_state_input_id rising) = Inr (pi_input_id p) \<and>
            cursor_spec_fingerprint sha (pr_cursor_spec rising) = Inr (pr_cursor_identity rising) \<and>
            rising_lineage_fingerprint sha (pr_state_input_id rising) input (pi_query_fingerprint p) = Inr (pi_lineage p) \<and>
            rising_revision_fingerprint sha op (pr_cursor_identity rising) (overlap (pr_cursor_spec rising)) =
              Inr (pi_revision p)))"

lemma prepare_resolved_from:
  assumes "prepare_resolved sha input hec query mode ca = Inr p"
  shows "prepared_from sha input hec p"
proof -
  obtain query_fp identity op revision where
    ok: "query_fingerprint sha (ic_connector input) (ascii query) = Inr query_fp"
      "prepare_identity sha input query_fp = Inr identity"
      "operational_revision sha (pid_lineage identity) input hec mode ca = Inr op"
      "(case pid_rising identity of
         Some rising \<Rightarrow>
           rising_revision_fingerprint sha op (pr_cursor_identity rising) (overlap (pr_cursor_spec rising))
       | None \<Rightarrow> Ok op) = Inr revision"
    and p: "p = \<lparr>pi_input_id = pid_input_id identity, pi_rising = pid_rising identity, pi_name = ic_name input,
           pi_connector = ic_connector input, pi_secret_ref = ic_secret_ref input,
           pi_connection = prepared_connection input mode ca, pi_query = query,
           pi_schedule = \<lparr>ps_disabled = ic_disabled input, ps_interval = ic_interval input\<rparr>,
           pi_limits = \<lparr>pl_max_rows = ic_max_rows input, pl_max_bytes = ic_max_bytes input,
             pl_query_timeout = ic_query_timeout input\<rparr>,
           pi_output = \<lparr>po_index = ic_index input, po_sourcetype = ic_sourcetype input, po_source = ic_source input\<rparr>,
           pi_query_fingerprint = query_fp, pi_lineage = pid_lineage identity, pi_revision = revision\<rparr>"
    using assms unfolding prepare_resolved_def bindr_eq_Inr
    by (elim exE conjE) (rule that, assumption, assumption, assumption, assumption, simp)
  show ?thesis
    using ok prepare_identity_Ok [OF ok(2)]
    by (auto simp: prepared_from_def p revision_of_def prepared_connection_def split: option.splits)
qed

lemma prepare_input_from:
  assumes "prepare_input sha input hec h = (Inr p, h')"
  shows "prepared_from sha input hec p"
  using assms by (auto simp: prepare_input_def bnd_eq_Inr dest: prepare_resolved_from)

lemma unat_of_char: "unat (of_char c :: u8) = of_char c"
proof -
  have "(of_char c :: u8) = of_nat (of_char c)" by (rule of_nat_of_char [symmetric])
  then show ?thesis using nat_of_char_less_256 [of c] by (simp add: unat_of_nat)
qed

lemma ascii_inject [simp]: "ascii a = ascii b \<longleftrightarrow> a = b"
proof
  assume "ascii a = ascii b"
  then have "map (char_of \<circ> unat) (ascii a) = map (char_of \<circ> unat) (ascii b)" by simp
  then show "a = b" by (simp add: ascii_def comp_def unat_of_char)
qed simp

lemma tls_mode_tag_inject [simp]: "tls_mode_tag a = tls_mode_tag b \<longleftrightarrow> a = b" by (cases a; cases b) simp_all
lemma hec_state_tag_inject [simp]: "hec_state_tag a = hec_state_tag b \<longleftrightarrow> a = b" by (cases a; cases b) simp_all
lemma hec_management_tag_inject [simp]: "hec_management_tag a = hec_management_tag b \<longleftrightarrow> a = b"
  by (cases a; cases b) simp_all
lemma tls_verification_tag_inject [simp]: "tls_verification_tag a = tls_verification_tag b \<longleftrightarrow> a = b"
  by (cases a; cases b) simp_all
lemma acknowledgment_tag_inject [simp]: "acknowledgment_tag a = acknowledgment_tag b \<longleftrightarrow> a = b"
  by (cases a; cases b) simp_all

lemmas tags_inject = tls_mode_tag_inject hec_state_tag_inject hec_management_tag_inject tls_verification_tag_inject
  acknowledgment_tag_inject

lemma fingerprint_length: "sha_sized sha \<Longrightarrow> fingerprint_of sha d fs = Inr f \<Longrightarrow> length f = 32"
  by (auto simp: fingerprint_of_def sha_sized_def)

text \<open>The delivery settings that a revision covers: all but the three defaults an input overrides.\<close>

definition same_delivery :: "hec_config \<Rightarrow> hec_config \<Rightarrow> bool" where
  "same_delivery a b \<longleftrightarrow>
     a\<lparr>hc_index := hc_index b, hc_sourcetype := hc_sourcetype b, hc_source := hc_source b\<rparr> = b"

lemma same_revision_fields:
  assumes "same_encoding (revision_fields sha lineage input hec mode ca) (revision_fields sha lineage' input' hec' mode' ca')"
    and "sha_sized sha" "length lineage = length lineage'"
  shows "lineage = lineage' \<and> mode = mode' \<and> map_option sha ca = map_option sha ca' \<and> same_delivery hec hec' \<and>
    ic_secret_ref input = ic_secret_ref input' \<and> ic_tls_server_name input = ic_tls_server_name input' \<and>
    ic_connect_timeout input = ic_connect_timeout input' \<and> ic_probe_timeout input = ic_probe_timeout input' \<and>
    ic_query_timeout input = ic_query_timeout input' \<and> ic_interval input = ic_interval input' \<and>
    ic_disabled input = ic_disabled input' \<and> ic_max_rows input = ic_max_rows input' \<and>
    ic_max_bytes input = ic_max_bytes input' \<and> ic_index input = ic_index input' \<and>
    ic_sourcetype input = ic_sourcetype input' \<and> ic_source input = ic_source input'"
proof -
  have server: "ic_tls_server_name input = ic_tls_server_name input'"
    if "map_option ascii (ic_tls_server_name input) = map_option ascii (ic_tls_server_name input')"
    using that by (cases "ic_tls_server_name input"; cases "ic_tls_server_name input'") simp_all
  note fs = assms(1) [unfolded revision_fields_def same_u16 same_fixed [OF assms(3)] same_bytes same_u8
      same_optional_bytes same_optional_digest [OF assms(2)] same_duration same_boolean same_u64 same_usize
      tags_inject ascii_inject]
  then have "same_delivery hec hec'" by (cases hec; cases hec') (simp add: same_delivery_def)
  with fs server show ?thesis by blast
qed

lemma same_query_fields: "same_encoding (query_fields c q) (query_fields c' q') \<Longrightarrow> c = c' \<and> q = q'"
  by (simp add: query_fields_def)

lemma same_batch_lineage_fields:
  assumes "same_encoding (batch_lineage_fields i input q) (batch_lineage_fields i' input' q')"
    and "length i = length i'" "length q = length q'"
  shows "i = i' \<and> q = q' \<and> ic_host input = ic_host input' \<and> ic_port input = ic_port input' \<and>
    ic_database input = ic_database input' \<and> ic_username input = ic_username input'"
  using assms(1) by (simp add: batch_lineage_fields_def same_fixed [OF assms(2)] same_fixed [OF assms(3)])

lemma same_rising_lineage_fields:
  assumes "same_encoding (rising_lineage_fields i input q) (rising_lineage_fields i' input' q')"
    and "length i = length i'" "length q = length q'"
  shows "i = i' \<and> q = q' \<and> ic_host input = ic_host input' \<and> ic_port input = ic_port input' \<and>
    ic_database input = ic_database input' \<and> ic_username input = ic_username input'"
  using assms(1) by (simp add: rising_lineage_fields_def same_fixed [OF assms(2)] same_fixed [OF assms(3)])

lemma same_cursor_fields:
  assumes "same_encoding (cursor_fields a) (cursor_fields b)"
  shows "timestamp_field a = timestamp_field b \<and> id_field a = id_field b"
  using assms by (simp add: cursor_fields_def)

lemma same_rising_revision_fields:
  assumes "same_encoding (rising_revision_fields op c d) (rising_revision_fields op' c' d')"
    and "length op = length op'" "length c = length c'"
  shows "op = op' \<and> c = c' \<and> d = d'"
  using assms(1) by (simp add: rising_revision_fields_def same_fixed [OF assms(2)] same_fixed [OF assms(3)])

text \<open>The fields of the revision that an input was prepared with, and the texts they are hashed in.\<close>

definition own_revision_fields :: "hash \<Rightarrow> input_config \<Rightarrow> hec_config \<Rightarrow> prepared_input \<Rightarrow> field list" where
  "own_revision_fields sha input hec p =
     revision_fields sha (pi_lineage p) input hec (cc_tls_mode (pi_connection p)) (cc_tls_ca_pem (pi_connection p))"

lemma hashed_texts_parts:
  "hashed_text QUERY_FINGERPRINT_DOMAIN (query_fields (pi_connector p) (ascii (pi_query p))) \<subseteq> hashed_texts sha input hec p"
  "hashed_text REVISION_FINGERPRINT_DOMAIN (own_revision_fields sha input hec p) \<subseteq> hashed_texts sha input hec p"
  "set_option (cc_tls_ca_pem (pi_connection p)) \<subseteq> hashed_texts sha input hec p"
  "pi_rising p = None \<Longrightarrow>
     hashed_text INPUT_ID_DOMAIN [field_bytes 1 (ascii (pi_name p))] \<subseteq> hashed_texts sha input hec p"
  "pi_rising p = None \<Longrightarrow>
     hashed_text LINEAGE_FINGERPRINT_DOMAIN (batch_lineage_fields (pi_input_id p) input (pi_query_fingerprint p))
       \<subseteq> hashed_texts sha input hec p"
  "pi_rising p = Some rising \<Longrightarrow>
     hashed_text RISING_LINEAGE_FINGERPRINT_DOMAIN
       (rising_lineage_fields (pr_state_input_id rising) input (pi_query_fingerprint p)) \<subseteq> hashed_texts sha input hec p"
  "pi_rising p = Some rising \<Longrightarrow>
     hashed_text RISING_CURSOR_FINGERPRINT_DOMAIN (cursor_fields (pr_cursor_spec rising)) \<subseteq> hashed_texts sha input hec p"
  "pi_rising p = Some rising \<Longrightarrow> revision_of sha input hec p = Inr op \<Longrightarrow>
     hashed_text RISING_REVISION_FINGERPRINT_DOMAIN
       (rising_revision_fields op (pr_cursor_identity rising) (overlap (pr_cursor_spec rising)))
       \<subseteq> hashed_texts sha input hec p"
  unfolding hashed_texts_def Let_def own_revision_fields_def
  by (auto simp: revision_of_def operational_revision_def fingerprint_of_Ok)

lemma set_option_collision:
  "\<not> collision sha A B \<Longrightarrow> set_option a \<subseteq> A \<Longrightarrow> set_option b \<subseteq> B \<Longrightarrow> map_option sha a = map_option sha b \<Longrightarrow> a = b"
  by (cases a; cases b) (auto simp: collision_def)

text \<open>Everything but the kind of the input and its identity is settled by the operational revision.\<close>

lemma operational_binds:
  assumes "sha_sized sha" "prepared_from sha input hec p" "prepared_from sha input' hec' q"
    and "\<not> collision sha (hashed_texts sha input hec p) (hashed_texts sha input' hec' q)"
    and "revision_of sha input hec p = Inr op" "revision_of sha input' hec' q = Inr op"
    and "length (pi_lineage p) = length (pi_lineage q)"
    and "pi_lineage p = pi_lineage q \<Longrightarrow> pi_query_fingerprint p = pi_query_fingerprint q \<and>
      ic_host input = ic_host input' \<and> ic_port input = ic_port input' \<and>
      ic_database input = ic_database input' \<and> ic_username input = ic_username input'"
  shows "pi_lineage p = pi_lineage q \<and> same_delivery hec hec' \<and> pi_query_fingerprint p = pi_query_fingerprint q \<and>
    pi_connector p = pi_connector q \<and> pi_query p = pi_query q \<and> pi_secret_ref p = pi_secret_ref q \<and>
    pi_connection p = pi_connection q \<and> pi_schedule p = pi_schedule q \<and> pi_limits p = pi_limits q \<and>
    pi_output p = pi_output q"
proof -
  have "same_encoding (own_revision_fields sha input hec p) (own_revision_fields sha input' hec' q)"
    by (rule same_fingerprint [OF _ _ assms(4) hashed_texts_parts(2) hashed_texts_parts(2)])
      (use assms(5,6) in \<open>simp_all add: revision_of_def operational_revision_def own_revision_fields_def\<close>)
  note r = same_revision_fields [OF this [unfolded own_revision_fields_def] assms(1,7)]
  then have lineage: "pi_lineage p = pi_lineage q" by blast
  note src = assms(8) [OF lineage]
  have "same_encoding (query_fields (pi_connector p) (ascii (pi_query p))) (query_fields (pi_connector q) (ascii (pi_query q)))"
    by (rule same_fingerprint [OF _ _ assms(4) hashed_texts_parts(1) hashed_texts_parts(1)])
      (use assms(2,3) src in \<open>auto simp: prepared_from_def query_fingerprint_def\<close>)
  then have query: "pi_connector p = pi_connector q" "pi_query p = pi_query q" by (auto dest: same_query_fields)
  have ca: "cc_tls_ca_pem (pi_connection p) = cc_tls_ca_pem (pi_connection q)"
    by (rule set_option_collision [OF assms(4) hashed_texts_parts(3) hashed_texts_parts(3)]) (use r in blast)
  have made: "pi_connection p = prepared_connection input (cc_tls_mode (pi_connection p)) (cc_tls_ca_pem (pi_connection p))"
    "pi_connection q = prepared_connection input' (cc_tls_mode (pi_connection q)) (cc_tls_ca_pem (pi_connection q))"
    "pi_connector p = ic_connector input" "pi_connector q = ic_connector input'"
    using assms(2,3) unfolding prepared_from_def by blast+
  have "pi_connection p = pi_connection q"
    by (subst made(1), subst made(2)) (use r src ca query made in \<open>simp add: prepared_connection_def\<close>)
  then show ?thesis
    using assms(2,3) r lineage src query unfolding prepared_from_def by simp
qed

lemma batch_binds:
  assumes "sha_sized sha" "prepared_from sha input hec p" "prepared_from sha input' hec' q"
    and "\<not> collision sha (hashed_texts sha input hec p) (hashed_texts sha input' hec' q)"
    and "pi_revision p = pi_revision q" "pi_rising p = None" "pi_rising q = None"
  shows "p = q \<and> same_delivery hec hec'"
proof -
  have p: "revision_of sha input hec p = Inr (pi_revision p)" "batch_input_id sha (pi_name p) = Inr (pi_input_id p)"
    "batch_lineage_fingerprint sha (pi_input_id p) input (pi_query_fingerprint p) = Inr (pi_lineage p)"
    and q: "revision_of sha input' hec' q = Inr (pi_revision q)" "batch_input_id sha (pi_name q) = Inr (pi_input_id q)"
    "batch_lineage_fingerprint sha (pi_input_id q) input' (pi_query_fingerprint q) = Inr (pi_lineage q)"
    and fps: "query_fingerprint sha (pi_connector p) (ascii (pi_query p)) = Inr (pi_query_fingerprint p)"
    "query_fingerprint sha (pi_connector q) (ascii (pi_query q)) = Inr (pi_query_fingerprint q)"
    using assms(2,3,6,7) unfolding prepared_from_def by auto
  note len = fingerprint_length [OF assms(1)]
  have sizes: "length (pi_lineage p) = length (pi_lineage q)" "length (pi_input_id p) = length (pi_input_id q)"
    "length (pi_query_fingerprint p) = length (pi_query_fingerprint q)"
    using p(2,3) q(2,3) fps by (simp_all add: batch_input_id_def batch_lineage_fingerprint_def query_fingerprint_def len)
  have source: "pi_input_id p = pi_input_id q \<and> pi_query_fingerprint p = pi_query_fingerprint q \<and>
      ic_host input = ic_host input' \<and> ic_port input = ic_port input' \<and>
      ic_database input = ic_database input' \<and> ic_username input = ic_username input'"
    if "pi_lineage p = pi_lineage q"
  proof (rule same_batch_lineage_fields [OF _ sizes(2,3)])
    show "same_encoding (batch_lineage_fields (pi_input_id p) input (pi_query_fingerprint p))
        (batch_lineage_fields (pi_input_id q) input' (pi_query_fingerprint q))"
      by (rule same_fingerprint [OF _ _ assms(4) hashed_texts_parts(5) [OF assms(6)] hashed_texts_parts(5) [OF assms(7)]])
        (use p(3) q(3) that in \<open>simp_all add: batch_lineage_fingerprint_def\<close>)
  qed
  then have src: "pi_query_fingerprint p = pi_query_fingerprint q \<and> ic_host input = ic_host input' \<and>
      ic_port input = ic_port input' \<and> ic_database input = ic_database input' \<and> ic_username input = ic_username input'"
    if "pi_lineage p = pi_lineage q" using that by blast
  note same = operational_binds [OF assms(1-4) p(1) q(1) [folded assms(5)] sizes(1) src]
  then have "pi_input_id p = pi_input_id q" using source by blast
  moreover have "same_encoding [field_bytes 1 (ascii (pi_name p))] [field_bytes 1 (ascii (pi_name q))]"
    by (rule same_fingerprint [OF _ _ assms(4) hashed_texts_parts(4) [OF assms(6)] hashed_texts_parts(4) [OF assms(7)]])
      (use p(2) q(2) calculation in \<open>simp_all add: batch_input_id_def\<close>)
  ultimately have "p = q" using same assms(5-7) by (cases p; cases q) simp
  with same show ?thesis by blast
qed

lemma rising_binds:
  assumes "sha_sized sha" "prepared_from sha input hec p" "prepared_from sha input' hec' q"
    and "\<not> collision sha (hashed_texts sha input hec p) (hashed_texts sha input' hec' q)"
    and "pi_revision p = pi_revision q" "pi_rising p = Some rp" "pi_rising q = Some rq"
    and "length (pr_state_input_id rp) = length (pr_state_input_id rq)"
  shows "p = q\<lparr>pi_name := pi_name p\<rparr> \<and> same_delivery hec hec'"
proof -
  obtain op oq where p: "revision_of sha input hec p = Inr op" "rising_input_key sha (pr_state_input_id rp) = Inr (pi_input_id p)"
    "rising_lineage_fingerprint sha (pr_state_input_id rp) input (pi_query_fingerprint p) = Inr (pi_lineage p)"
    "cursor_spec_fingerprint sha (pr_cursor_spec rp) = Inr (pr_cursor_identity rp)"
    "rising_revision_fingerprint sha op (pr_cursor_identity rp) (overlap (pr_cursor_spec rp)) = Inr (pi_revision p)"
    and q: "revision_of sha input' hec' q = Inr oq" "rising_input_key sha (pr_state_input_id rq) = Inr (pi_input_id q)"
    "rising_lineage_fingerprint sha (pr_state_input_id rq) input' (pi_query_fingerprint q) = Inr (pi_lineage q)"
    "cursor_spec_fingerprint sha (pr_cursor_spec rq) = Inr (pr_cursor_identity rq)"
    "rising_revision_fingerprint sha oq (pr_cursor_identity rq) (overlap (pr_cursor_spec rq)) = Inr (pi_revision q)"
    and fps: "query_fingerprint sha (pi_connector p) (ascii (pi_query p)) = Inr (pi_query_fingerprint p)"
    "query_fingerprint sha (pi_connector q) (ascii (pi_query q)) = Inr (pi_query_fingerprint q)"
    using assms(2,3,6,7) unfolding prepared_from_def by auto
  note len = fingerprint_length [OF assms(1)]
  have sizes: "length (pi_lineage p) = length (pi_lineage q)" "length op = length oq"
    "length (pr_cursor_identity rp) = length (pr_cursor_identity rq)"
    "length (pi_query_fingerprint p) = length (pi_query_fingerprint q)"
    using p q fps
    by (simp_all add: rising_lineage_fingerprint_def query_fingerprint_def revision_of_def operational_revision_def
        cursor_spec_fingerprint_def len)
  have "same_encoding (rising_revision_fields op (pr_cursor_identity rp) (overlap (pr_cursor_spec rp)))
      (rising_revision_fields oq (pr_cursor_identity rq) (overlap (pr_cursor_spec rq)))"
    by (rule same_fingerprint [OF _ _ assms(4) hashed_texts_parts(8) [OF assms(6) p(1)] hashed_texts_parts(8) [OF assms(7) q(1)]])
      (use p(5) q(5) assms(5) in \<open>simp_all add: rising_revision_fingerprint_def\<close>)
  note rev = same_rising_revision_fields [OF this sizes(2,3)]
  have "same_encoding (cursor_fields (pr_cursor_spec rp)) (cursor_fields (pr_cursor_spec rq))"
    by (rule same_fingerprint [OF _ _ assms(4) hashed_texts_parts(7) [OF assms(6)] hashed_texts_parts(7) [OF assms(7)]])
      (use p(4) q(4) rev in \<open>simp_all add: cursor_spec_fingerprint_def\<close>)
  note fields = same_cursor_fields [OF this]
  have "null_policy (pr_cursor_spec rp) = null_policy (pr_cursor_spec rq)"
    by (cases "null_policy (pr_cursor_spec rp)"; cases "null_policy (pr_cursor_spec rq)") simp
  with fields rev have spec: "pr_cursor_spec rp = pr_cursor_spec rq"
    by (cases "pr_cursor_spec rp"; cases "pr_cursor_spec rq") simp
  have source: "pr_state_input_id rp = pr_state_input_id rq \<and> pi_query_fingerprint p = pi_query_fingerprint q \<and>
      ic_host input = ic_host input' \<and> ic_port input = ic_port input' \<and>
      ic_database input = ic_database input' \<and> ic_username input = ic_username input'"
    if "pi_lineage p = pi_lineage q"
  proof (rule same_rising_lineage_fields [OF _ assms(8) sizes(4)])
    show "same_encoding (rising_lineage_fields (pr_state_input_id rp) input (pi_query_fingerprint p))
        (rising_lineage_fields (pr_state_input_id rq) input' (pi_query_fingerprint q))"
      by (rule same_fingerprint [OF _ _ assms(4) hashed_texts_parts(6) [OF assms(6)] hashed_texts_parts(6) [OF assms(7)]])
        (use p(3) q(3) that in \<open>simp_all add: rising_lineage_fingerprint_def\<close>)
  qed
  then have src: "pi_query_fingerprint p = pi_query_fingerprint q \<and> ic_host input = ic_host input' \<and>
      ic_port input = ic_port input' \<and> ic_database input = ic_database input' \<and> ic_username input = ic_username input'"
    if "pi_lineage p = pi_lineage q" using that by blast
  have "op = oq" using rev by blast
  note same = operational_binds [OF assms(1-4) p(1) q(1) [folded this] sizes(1) src]
  then have state: "pr_state_input_id rp = pr_state_input_id rq" using source by blast
  then have "rp = rq" using spec rev by (cases rp; cases rq) simp
  moreover have "pi_input_id p = pi_input_id q" using p(2) q(2) state by simp
  ultimately have "p = q\<lparr>pi_name := pi_name p\<rparr>" using same assms(5-7) by (cases p; cases q) simp
  with same show ?thesis by blast
qed

lemma kinds_apart:
  assumes "prepared_from sha input hec p" "prepared_from sha input' hec' q"
    and "\<not> collision sha (hashed_texts sha input hec p) (hashed_texts sha input' hec' q)"
    and "pi_revision p = pi_revision q" "pi_rising p = None" "pi_rising q = Some rq"
  shows False
proof -
  have "revision_of sha input hec p = Inr (pi_revision p)"
    using assms(1,5) unfolding prepared_from_def by auto
  then obtain x where x: "x \<in> hashed_text REVISION_FINGERPRINT_DOMAIN (own_revision_fields sha input hec p)" "pi_revision p = sha x"
    by (auto simp: revision_of_def operational_revision_def own_revision_fields_def fingerprint_of_Ok)
  obtain oq where q: "revision_of sha input' hec' q = Inr oq"
    "rising_revision_fingerprint sha oq (pr_cursor_identity rq) (overlap (pr_cursor_spec rq)) = Inr (pi_revision q)"
    using assms(2,6) unfolding prepared_from_def by auto
  then obtain y where y: "y \<in> hashed_text RISING_REVISION_FINGERPRINT_DOMAIN
      (rising_revision_fields oq (pr_cursor_identity rq) (overlap (pr_cursor_spec rq)))" "pi_revision q = sha y"
    by (auto simp: rising_revision_fingerprint_def fingerprint_of_Ok)
  have "x = y"
    using x y assms(3,4) hashed_texts_parts(2) [of sha input hec p] hashed_texts_parts(8) [OF assms(6) q(1)]
    unfolding collision_def by fastforce
  then have "take 9 REVISION_FINGERPRINT_DOMAIN = take 9 RISING_REVISION_FINGERPRINT_DOMAIN"
    using other_domain [OF x(1) y(1) [folded \<open>x = y\<close>], of 9]
    by (simp add: REVISION_FINGERPRINT_DOMAIN_def RISING_REVISION_FINGERPRINT_DOMAIN_def ascii_def)
  then show False
    by (simp add: REVISION_FINGERPRINT_DOMAIN_def RISING_REVISION_FINGERPRINT_DOMAIN_def ascii_def)
qed

section \<open>Properties\<close>

definition demo_seconds :: duration where "demo_seconds = \<lparr>as_secs = 30, subsec_nanos = 0\<rparr>"

definition demo_hec :: hec_config where
  "demo_hec = \<lparr>hc_state = Hec_Enabled, hc_input_management = Managed, hc_url = ''u'', hc_input_name = ''i'',
     hc_listen_port = 8088, hc_accept_from = ''a'', hc_tls_verification = Verify_Full, hc_timeout = demo_seconds,
     hc_batch_max_events = 10, hc_batch_max_bytes = 1000, hc_max_event_bytes = 500, hc_index = ''x'',
     hc_sourcetype = ''t'', hc_source = ''s'', hc_acknowledgment = Ack_Enabled\<rparr>"

definition demo_config :: "string \<Rightarrow> input_config" where
  "demo_config n = \<lparr>ic_name = n, ic_disabled = False,
     ic_mode = Mode_Rising \<lparr>ric_input_id = replicate 16 5, ric_timestamp_field = ''ts'', ric_id_field = ''id'',
       ric_overlap = \<lparr>as_secs = 0, subsec_nanos = 0\<rparr>\<rparr>,
     ic_connector = ''mysql'', ic_interval = demo_seconds, ic_host = ''h'', ic_port = 3306, ic_database = ''d'',
     ic_username = ''u'', ic_secret_ref = ''r'', ic_tls_mode = ''require'', ic_tls_server_name = None,
     ic_tls_ca_file = None, ic_query = Query_Inline ''q'', ic_connect_timeout = demo_seconds,
     ic_probe_timeout = demo_seconds, ic_max_rows = 10, ic_max_bytes = 1000, ic_query_timeout = demo_seconds,
     ic_index = ''x'', ic_sourcetype = ''t'', ic_source = ''s''\<rparr>"

lemma append_fields_Ok: "list_all is_ok fs \<Longrightarrow> \<exists>bs. append_fields c fs = Inr bs"
proof (induction fs arbitrary: c)
  case (Cons f fs)
  then show ?case by (cases f) simp_all
qed simp

lemma demo_fingerprint_Ok: "list_all is_ok fs \<Longrightarrow> fingerprint_of demo_sha d fs = Inr (replicate 32 49)"
  using append_fields_Ok [of fs d] by (auto simp: fingerprint_of_def demo_sha_def)

lemmas field_defs = field_u8_def field_boolean_def field_u16_def field_u64_def field_usize_def field_duration_def
  field_bytes_def field_fixed_def field_optional_bytes_def field_optional_digest_def u64_of_len_def

lemma demo_cursor_valid:
  "spec_validate \<lparr>timestamp_field = ''ts'', id_field = ''id'', overlap = \<lparr>as_secs = 0, subsec_nanos = 0\<rparr>,
     null_policy = Reject\<rparr> = Inr ()"
  by (simp add: spec_validate_def as_micros_def i64_of_micros_def)

definition demo_identity :: prepared_identity where
  "demo_identity = \<lparr>pid_input_id = replicate 32 49, pid_rising = Some \<lparr>pr_state_input_id = replicate 16 5,
     pr_cursor_spec = prepare_rising_spec \<lparr>ric_input_id = replicate 16 5, ric_timestamp_field = ''ts'',
       ric_id_field = ''id'', ric_overlap = \<lparr>as_secs = 0, subsec_nanos = 0\<rparr>\<rparr>,
     pr_cursor_identity = replicate 32 49\<rparr>, pid_lineage = replicate 32 49\<rparr>"

lemma demo_prepare_identity:
  "length n < 2 ^ 32 \<Longrightarrow> prepare_identity demo_sha (demo_config n) (replicate 32 49) = Inr demo_identity"
  by (simp add: prepare_identity_def demo_config_def Let_def demo_cursor_valid rising_input_key_def
      cursor_spec_fingerprint_def rising_lineage_fingerprint_def demo_fingerprint_Ok field_defs
      rising_key_fields_def cursor_fields_def rising_lineage_fields_def ascii_def prepare_rising_spec_def
      demo_identity_def)

lemma demo_prepares:
  assumes "length n < 2 ^ 32"
  obtains p where "prepare_input demo_sha (demo_config n) demo_hec h = (Inr p, h)" "pi_revision p = replicate 32 49"
proof -
  have "query_fingerprint demo_sha (ic_connector (demo_config n)) (ascii ''q'') = Inr (replicate 32 49)"
    by (simp add: query_fingerprint_def demo_fingerprint_Ok query_fields_def field_defs ascii_def demo_config_def)
  moreover have "operational_revision demo_sha l (demo_config n) demo_hec Tls_Require None = Inr (replicate 32 49)" for l
    by (simp add: operational_revision_def demo_fingerprint_Ok revision_fields_def field_defs ascii_def demo_config_def
        demo_hec_def)
  moreover have "rising_revision_fingerprint demo_sha op i d = Inr (replicate 32 49)" for op i d
    by (simp add: rising_revision_fingerprint_def demo_fingerprint_Ok rising_revision_fields_def field_defs)
  ultimately obtain p where "prepare_resolved demo_sha (demo_config n) demo_hec ''q'' Tls_Require None = Inr p"
    "pi_revision p = replicate 32 49"
    using demo_prepare_identity [OF assms] by (simp add: prepare_resolved_def demo_identity_def)
  moreover have "resolve_query (ic_query (demo_config n)) h = (Inr ''q'', h)"
    "read_tls_ca (ic_tls_ca_file (demo_config n)) h = (Inr None, h)" "parse_tls_mode (ic_tls_mode (demo_config n)) = Some Tls_Require"
    by (simp_all add: demo_config_def resolve_query_def read_tls_ca_def parse_tls_mode_def)
  ultimately show thesis using that by (simp add: prepare_input_def bnd_def)
qed

text \<open>
  C10. A configuration revision binds the configuration. Two inputs prepared with the same revision
  fingerprint are the same input but for the stanza name of a rising one, and their delivery settings
  are the same but for the overridden defaults: query text, connection, certificate, limits, schedule,
  output, secret reference, cursor and identity all agree, unless two of the texts hashed for them
  collide under SHA-256.
\<close>
theorem revision_binds_configuration:
  assumes "sha_sized sha" "prepare_input sha input hec h = (Inr p, h')" "prepare_input sha input' hec' g = (Inr q, g')"
    and "pi_revision p = pi_revision q"
    and "\<And>rising. pi_rising p = Some rising \<or> pi_rising q = Some rising \<Longrightarrow> length (pr_state_input_id rising) = 16"
  shows "p = q\<lparr>pi_name := pi_name p\<rparr> \<and> (pi_rising p = None \<longrightarrow> p = q) \<and> same_delivery hec hec' \<or>
    collision sha (hashed_texts sha input hec p) (hashed_texts sha input' hec' q)"
proof (rule disjCI)
  assume no: "\<not> collision sha (hashed_texts sha input hec p) (hashed_texts sha input' hec' q)"
  then have no': "\<not> collision sha (hashed_texts sha input' hec' q) (hashed_texts sha input hec p)"
    unfolding collision_def by metis
  note from_p = prepare_input_from [OF assms(2)] and from_q = prepare_input_from [OF assms(3)]
  show "p = q\<lparr>pi_name := pi_name p\<rparr> \<and> (pi_rising p = None \<longrightarrow> p = q) \<and> same_delivery hec hec'"
  proof (cases "pi_rising p")
    case None
    then have "pi_rising q = None"
      using kinds_apart [OF from_p from_q no assms(4)] by (cases "pi_rising q") auto
    from batch_binds [OF assms(1) from_p from_q no assms(4) None this] show ?thesis by simp
  next
    case (Some rp)
    then obtain rq where q: "pi_rising q = Some rq"
      using kinds_apart [OF from_q from_p no' assms(4) [symmetric]] by (cases "pi_rising q") auto
    have "length (pr_state_input_id rp) = length (pr_state_input_id rq)" using assms(5) Some q by simp
    from rising_binds [OF assms(1) from_p from_q no assms(4) Some q this] Some show ?thesis by simp
  qed
qed

lemma revision_binds_configuration_witness:
  "\<exists>p q. prepare_input demo_sha (demo_config ''a'') demo_hec demo_host = (Inr p, demo_host) \<and>
     prepare_input demo_sha (demo_config ''b'') demo_hec demo_host = (Inr q, demo_host) \<and>
     (p = q\<lparr>pi_name := pi_name p\<rparr> \<or>
      collision demo_sha (hashed_texts demo_sha (demo_config ''a'') demo_hec p)
        (hashed_texts demo_sha (demo_config ''b'') demo_hec q))"
proof -
  obtain p where p: "prepare_input demo_sha (demo_config ''a'') demo_hec demo_host = (Inr p, demo_host)"
    "pi_revision p = replicate 32 49" by (rule demo_prepares [of "''a''" demo_host]) simp
  obtain q where q: "prepare_input demo_sha (demo_config ''b'') demo_hec demo_host = (Inr q, demo_host)"
    "pi_revision q = replicate 32 49" by (rule demo_prepares [of "''b''" demo_host]) simp
  have id: "length (pr_state_input_id r) = 16" if "prepared_from demo_sha (demo_config n) demo_hec x" "pi_rising x = Some r" for n x r
    using that by (auto simp: prepared_from_def demo_config_def)
  show ?thesis
    using revision_binds_configuration [OF demo_sha_sized p(1) q(1)] p q
      id [OF prepare_input_from [OF p(1)]] id [OF prepare_input_from [OF q(1)]] by auto
qed

end
