(* ===== verification/Rising_Plan.thy ===== *)
theory Rising_Plan
  imports Rising_Metadata Prepared "HOL-Library.AList"
begin

text \<open>
  The decisions of the rising coordinator, \<open>crates/dbx-rs-daemon/src/rising.rs\<close>, as functions of the
  durable state and of the segments the spool holds for an input: which segments are expected, which one
  was sealed but not yet recorded, and the next durable state of every step. \<open>Rising\<close> performs them.
\<close>

section \<open>Errors\<close>

definition rising_metadata_err :: "rising_metadata_error \<Rightarrow> daemon_error" where
  "rising_metadata_err e =
     daemon_err (rising_metadata_code e) ''storage'' ''rising_recovery''
       ''authenticated rising recovery metadata is invalid'' False False"

definition state_store_err :: "state_store_error \<Rightarrow> daemon_error" where
  "state_store_err e =
     daemon_err ''DBX-RS-RISING-0003'' ''storage'' ''checkpoint_state''
       ''durable rising checkpoint operation failed'' False False"

definition checkpoint_invariant_error :: daemon_error where
  "checkpoint_invariant_error =
     daemon_err ''DBX-RS-RISING-0004'' ''storage'' ''checkpoint_transition''
       ''durable rising checkpoint invariants are inconsistent'' False False"

definition missing_state_error :: daemon_error where
  "missing_state_error =
     daemon_err ''DBX-RS-RISING-0005'' ''storage'' ''checkpoint_state''
       ''durable rising checkpoint state is missing'' False False"

definition identity_migration_error :: daemon_error where
  "identity_migration_error =
     daemon_err ''DBX-RS-RISING-0006'' ''configuration'' ''rising_identity''
       ''rising source or cursor identity requires explicit migration'' False True"

definition configuration_activation_error :: daemon_error where
  "configuration_activation_error =
     daemon_err ''DBX-RS-RISING-0007'' ''configuration'' ''configuration_activation''
       ''rising configuration activation is blocked by durable work'' False True"

definition inventory_error :: "string \<Rightarrow> daemon_error" where
  "inventory_error message =
     daemon_err ''DBX-RS-RISING-0008'' ''storage'' ''spool_recovery'' message False False"

definition page_context_error :: daemon_error where
  "page_context_error =
     daemon_err ''DBX-RS-RISING-0009'' ''storage'' ''page_fence''
       ''rising page completion has a stale durable fence'' False False"

definition cursor_request_error :: daemon_error where
  "cursor_request_error =
     daemon_err ''DBX-RS-RISING-0010'' ''configuration'' ''cursor_bound''
       ''rising cursor lower bound cannot be represented'' False True"

definition empty_completion_error :: daemon_error where
  "empty_completion_error =
     daemon_err ''DBX-RS-RISING-0011'' ''internal'' ''collection_accounting''
       ''rising empty completion has inconsistent collection facts'' False False"

definition detached_identity_error :: daemon_error where
  "detached_identity_error =
     daemon_err ''DBX-RS-RISING-0012'' ''configuration'' ''rising_identity''
       ''persisted rising checkpoint identity is not configured'' False True"

definition require_rising :: "prepared_input \<Rightarrow> daemon_error + prepared_rising" where
  "require_rising input =
     ok_or (daemon_err ''DBX-RS-RISING-0001'' ''configuration'' ''rising_configuration''
       ''scheduled input is not configured for rising collection'' False True) (pi_rising input)"

section \<open>Identities, counters and contexts\<close>

definition INITIAL_CONFIGURATION_GENERATION :: u64 where "INITIAL_CONFIGURATION_GENERATION = 1"
definition INITIAL_CHECKPOINT_GENERATION :: u64 where "INITIAL_CHECKPOINT_GENERATION = 0"

definition spool_input_key :: "prepared_input \<Rightarrow> input_key" where
  "spool_input_key input = InputKey (pi_input_id input)"

definition rising_state_key :: "hash \<Rightarrow> prepared_rising \<Rightarrow> state_key" where
  "rising_state_key sha rising = state_key_for_input sha (InputId (pr_state_input_id rising))"

definition initial_state :: "hash \<Rightarrow> prepared_input \<Rightarrow> prepared_rising \<Rightarrow> durable_state" where
  "initial_state sha input rising =
     (let fp = Fingerprint (pi_revision input) in
      new_durable_state (InputId (pr_state_input_id rising)) (Fingerprint (pi_lineage input))
        (Fingerprint (pr_cursor_identity rising)) fp INITIAL_CONFIGURATION_GENERATION
        (new_snapshot (configuration_fence_id sha fp INITIAL_CONFIGURATION_GENERATION)
          INITIAL_CHECKPOINT_GENERATION None)
        None)"

definition validate_prepared_identity ::
    "durable_state \<Rightarrow> prepared_input \<Rightarrow> prepared_rising \<Rightarrow> daemon_error + unit" where
  "validate_prepared_identity st input rising =
     (if state_input_id st \<noteq> InputId (pr_state_input_id rising)
       \<or> source_lineage_fingerprint st \<noteq> Fingerprint (pi_lineage input)
       \<or> cursor_identity_fingerprint st \<noteq> Fingerprint (pr_cursor_identity rising)
      then Err identity_migration_error else Ok ())"

definition sealed_rows :: "active_scan \<Rightarrow> daemon_error + u64" where
  "sealed_rows sc = ok_or checkpoint_invariant_error (sum_rows (compacted_rows sc) (segments sc))"

definition rising_segment_count :: "active_scan \<Rightarrow> daemon_error + u64" where
  "rising_segment_count sc =
     bindr (ok_or checkpoint_invariant_error (u64_of_len (length (segments sc)))) (\<lambda>retained.
       ok_or checkpoint_invariant_error (checked_add (compacted_through_sequence sc) retained))"

definition active_fence :: "durable_state \<Rightarrow> daemon_error + attempt_fence" where
  "active_fence st = ok_or checkpoint_invariant_error (map_option fence (active (coordinator st)))"

definition require_scan :: "durable_state \<Rightarrow> daemon_error + active_scan" where
  "require_scan st = ok_or checkpoint_invariant_error (scan st)"

definition cursor_request_of :: "durable_state \<Rightarrow> active_scan \<Rightarrow> prepared_rising \<Rightarrow> timestamp_id_cursor_request" where
  "cursor_request_of st sc rising =
     \<lparr>spec = pr_cursor_spec rising, req_committed = committed (coordinator st), req_resume_after = resume_after sc\<rparr>"

definition expected_request_fingerprint :: "hash \<Rightarrow> durable_state \<Rightarrow> prepared_input \<Rightarrow> daemon_error + bytes" where
  "expected_request_fingerprint sha st input =
     bindr (require_rising input) (\<lambda>rising.
     bindr (require_scan st) (\<lambda>sc.
       Ok (rising_request_fingerprint sha (pr_cursor_identity rising) (cursor_request_of st sc rising))))"

record rising_page_context =
  pc_configuration_generation :: u64
  pc_checkpoint_generation :: u64
  pc_attempt :: attempt_id
  pc_page :: u64
  pc_request :: timestamp_id_cursor_request
  pc_input_key :: input_key
  pc_fingerprint :: spool_fingerprint

definition validate_page_context ::
    "durable_state \<Rightarrow> prepared_input \<Rightarrow> prepared_rising \<Rightarrow> rising_page_context \<Rightarrow> daemon_error + unit" where
  "validate_page_context st input rising context =
     bindr (ok_or page_context_error (active (coordinator st))) (\<lambda>a.
     bindr (ok_or page_context_error (scan st)) (\<lambda>sc.
     if pc_input_key context \<noteq> spool_input_key input
      \<or> pc_fingerprint context \<noteq> SpoolFingerprint (pi_revision input)
      \<or> pc_configuration_generation context \<noteq> configuration_generation st
      \<or> pc_checkpoint_generation context \<noteq> generation (coordinator st)
      \<or> pc_attempt context \<noteq> fence_attempt (fence a)
      \<or> pc_page context \<noteq> next_page sc
      \<or> pc_request context \<noteq> cursor_request_of st sc rising
     then Err page_context_error else Ok ()))"

section \<open>Segments of the spool\<close>

datatype located_segment = Located_Ready ready_segment | Located_Delivered delivered_segment

fun view_header :: "located_segment \<Rightarrow> segment_header" where
  "view_header (Located_Ready s) = rs_header s"
| "view_header (Located_Delivered s) = ds_header s"

fun view_id :: "located_segment \<Rightarrow> bytes" where
  "view_id (Located_Ready s) = segment_id_bytes (rs_id s)"
| "view_id (Located_Delivered s) = segment_id_bytes (ds_id s)"

fun view_event_count :: "located_segment \<Rightarrow> u64" where
  "view_event_count (Located_Ready s) = sum_events (rs_summary s)"
| "view_event_count (Located_Delivered s) = sum_events (ds_summary s)"

fun view_digest :: "spool_crypto \<Rightarrow> located_segment \<Rightarrow> bytes" where
  "view_digest C (Located_Ready s) = reference_digest C s"
| "view_digest C (Located_Delivered s) = delivered_reference_digest C s"

fun view_metadata :: "located_segment \<Rightarrow> daemon_error + rising_metadata" where
  "view_metadata (Located_Ready s) = map_err rising_metadata_err (decode_metadata (rs_metadata s))"
| "view_metadata (Located_Delivered s) = map_err rising_metadata_err (decode_metadata (ds_metadata s))"

definition validate_common_segment ::
    "durable_state \<Rightarrow> prepared_input \<Rightarrow> located_segment \<Rightarrow> daemon_error + rising_metadata" where
  "validate_common_segment st input seg =
     bindr (ok_or (inventory_error ''rising spool data has no active checkpoint attempt'')
       (active (coordinator st))) (\<lambda>a.
     let h = view_header seg in
     if hdr_input_key h \<noteq> spool_input_key input
      \<or> hdr_fingerprint h \<noteq> SpoolFingerprint (pi_revision input)
      \<or> hdr_generation h \<noteq> configuration_generation st
      \<or> hdr_batch_id h \<noteq> BatchId (attempt_bytes (fence_attempt (fence a)))
      \<or> hdr_batch_sequence h \<noteq> generation (coordinator st)
      \<or> hdr_segment_sequence h = 0
     then Err (inventory_error ''rising spool segment is outside the active durable fence'')
     else
     bindr (view_metadata seg) (\<lambda>m.
     if rm_rows m \<noteq> view_event_count seg \<or> rm_rows m = 0
     then Err (inventory_error ''rising spool metadata does not match the authenticated footer'')
     else Ok m))"

definition validate_reference ::
    "spool_crypto \<Rightarrow> durable_state \<Rightarrow> prepared_input \<Rightarrow> active_scan \<Rightarrow> segment_ref \<Rightarrow> located_segment
       \<Rightarrow> daemon_error + unit" where
  "validate_reference C st input sc ref seg =
     bindr (validate_common_segment st input seg) (\<lambda>m.
     if ref_sequence ref \<noteq> ref_page ref
      \<or> hdr_segment_sequence (view_header seg) \<noteq> ref_page ref
      \<or> view_id seg \<noteq> ref_segment_id ref
      \<or> view_event_count seg \<noteq> ref_rows ref
      \<or> view_digest C seg \<noteq> ref_digest ref
     then Err (inventory_error ''rising spool segment does not match its durable reference'')
     else
     bindr (rising_segment_count sc) (\<lambda>last_sequence.
     if (ref_sequence ref < last_sequence \<or> \<not> scan_complete sc) \<and> \<not> rm_truncated m
     then Err (inventory_error ''rising spool page termination does not match durable scan state'')
     else Ok ()))"

definition validate_delivered_for_reference ::
    "spool_crypto \<Rightarrow> durable_state \<Rightarrow> prepared_input \<Rightarrow> u64 \<Rightarrow> delivered_segment \<Rightarrow> daemon_error + unit" where
  "validate_delivered_for_reference C st input sequence delivered =
     bindr (require_scan st) (\<lambda>sc.
     bindr (ok_or checkpoint_invariant_error (find (\<lambda>ref. ref_sequence ref = sequence) (segments sc))) (\<lambda>ref.
       validate_reference C st input sc ref (Located_Delivered delivered)))"

section \<open>The plan of a reconciliation\<close>

text \<open>Ordered maps are association lists with distinct keys.\<close>

record input_inventory =
  inv_ready :: "ready_segment list"
  inv_delivered :: "delivered_segment list"

record inventory_plan =
  plan_orphan :: "ready_segment option"
  plan_pending :: "(u64 \<times> located_segment) list"
  plan_receipted :: "delivered_segment list"

definition is_clean_for_collection :: "inventory_plan \<Rightarrow> bool" where
  "is_clean_for_collection plan \<longleftrightarrow> plan_orphan plan = None \<and> plan_pending plan = [] \<and> plan_receipted plan = []"

fun index_segments ::
    "durable_state \<Rightarrow> prepared_input \<Rightarrow> located_segment list \<Rightarrow> (bytes \<times> located_segment) list
       \<Rightarrow> daemon_error + (bytes \<times> located_segment) list" where
  "index_segments st input [] by_id = Ok by_id"
| "index_segments st input (seg # segs) by_id =
     bindr (validate_common_segment st input seg) (\<lambda>_.
     if map_of by_id (view_id seg) \<noteq> None
     then Err (inventory_error ''duplicate rising spool segment identity'')
     else index_segments st input segs (AList.update (view_id seg) seg by_id))"

definition index_inventory ::
    "durable_state \<Rightarrow> prepared_input \<Rightarrow> input_inventory \<Rightarrow> daemon_error + (bytes \<times> located_segment) list" where
  "index_inventory st input inventory =
     bindr (index_segments st input (map Located_Ready (inv_ready inventory)) []) (\<lambda>by_id.
       index_segments st input (map Located_Delivered (inv_delivered inventory)) by_id)"

definition adoptable_orphan ::
    "active_scan \<Rightarrow> (bytes \<times> located_segment) list \<Rightarrow> daemon_error + ready_segment option" where
  "adoptable_orphan sc by_id =
     (case by_id of
        [] \<Rightarrow> Ok None
      | [(_, Located_Ready ready)] \<Rightarrow>
          if \<not> scan_complete sc \<and> hdr_segment_sequence (rs_header ready) = next_page sc \<and>
             0 < sum_events (rs_summary ready)
          then Ok (Some ready)
          else Err (inventory_error ''unreferenced rising spool data is not an adoptable next ready page'')
      | [(_, Located_Delivered _)] \<Rightarrow>
          Err (inventory_error ''unreferenced rising spool data is not an adoptable next ready page'')
      | _ \<Rightarrow> Err (inventory_error ''multiple unreferenced rising spool segments are retained''))"

fun match_references ::
    "spool_crypto \<Rightarrow> durable_state \<Rightarrow> prepared_input \<Rightarrow> active_scan \<Rightarrow> segment_ref list
       \<Rightarrow> (bytes \<times> located_segment) list \<Rightarrow> (u64 \<times> located_segment) list \<Rightarrow> delivered_segment list
       \<Rightarrow> daemon_error + (bytes \<times> located_segment) list \<times> (u64 \<times> located_segment) list \<times> delivered_segment list" where
  "match_references C st input sc [] by_id waiting receipted = Ok (by_id, waiting, receipted)"
| "match_references C st input sc (ref # refs) by_id waiting receipted =
     (let located = map_of by_id (ref_segment_id ref);
          by_id = AList.delete (ref_segment_id ref) by_id in
      if ref_sequence ref \<le> delivered_through_sequence sc then
        (case located of
           None \<Rightarrow> match_references C st input sc refs by_id waiting receipted
         | Some (Located_Delivered delivered) \<Rightarrow>
             bindr (validate_reference C st input sc ref (Located_Delivered delivered)) (\<lambda>_.
               match_references C st input sc refs by_id waiting (receipted @ [delivered]))
         | Some (Located_Ready _) \<Rightarrow>
             Err (inventory_error ''a receipted rising segment is still in ready state''))
      else
        (case located of
           None \<Rightarrow> Err (inventory_error ''a referenced rising segment is missing'')
         | Some seg \<Rightarrow>
             bindr (validate_reference C st input sc ref seg) (\<lambda>_.
             if map_of waiting (ref_sequence ref) \<noteq> None
             then Err (inventory_error ''duplicate rising segment sequence'')
             else match_references C st input sc refs by_id (AList.update (ref_sequence ref) seg waiting) receipted)))"

definition validate_inventory ::
    "spool_crypto \<Rightarrow> durable_state \<Rightarrow> prepared_input \<Rightarrow> input_inventory \<Rightarrow> daemon_error + inventory_plan" where
  "validate_inventory C st input inventory =
     bindr (index_inventory st input inventory) (\<lambda>by_id.
     case scan st of
       None \<Rightarrow>
         if by_id = [] then Ok \<lparr>plan_orphan = None, plan_pending = [], plan_receipted = []\<rparr>
         else Err (inventory_error ''retained rising spool data has no active durable scan'')
     | Some sc \<Rightarrow>
         bindr (match_references C st input sc (segments sc) by_id [] []) (\<lambda>(by_id, waiting, receipted).
         bindr (adoptable_orphan sc by_id) (\<lambda>orphan.
           Ok \<lparr>plan_orphan = orphan, plan_pending = waiting, plan_receipted = receipted\<rparr>)))"

section \<open>The next durable states\<close>

text \<open>A coordinator call on a copy of the state; every error is the same invariant error.\<close>

definition coordinate ::
    "(snapshot, checkpoint_error, 'r) op \<Rightarrow> durable_state \<Rightarrow> daemon_error + 'r \<times> durable_state" where
  "coordinate m st =
     (case m (coordinator st) of
        (Inl e, _) \<Rightarrow> Err checkpoint_invariant_error
      | (Inr r, k) \<Rightarrow> Ok (r, st\<lparr>coordinator := k\<rparr>))"

definition started_state :: "attempt_id \<Rightarrow> durable_state \<Rightarrow> daemon_error + durable_state" where
  "started_state i st =
     (let f = \<lparr>fence_attempt = i, fence_configuration = configuration_id (coordinator st),
        fence_generation = generation (coordinator st)\<rparr> in
      bindr (coordinate (start_attempt f) st) (\<lambda>(_, st').
        Ok (st'\<lparr>scan := Some
          \<lparr>scan_attempt = i, base_committed = committed (coordinator st'), resume_after = None,
           maximum_candidate = None, compacted_through_sequence = 0, compacted_rows = 0, next_page = 1,
           scan_complete = False, segments = [], delivered_through_sequence = 0\<rparr>\<rparr>)))"

text \<open>The page a worker may collect next, when no collected page still waits.\<close>

definition page_context ::
    "durable_state \<Rightarrow> prepared_input \<Rightarrow> prepared_rising \<Rightarrow> daemon_error + rising_page_context option" where
  "page_context st input rising =
     bindr (ok_or checkpoint_invariant_error (active (coordinator st))) (\<lambda>a.
     bindr (require_scan st) (\<lambda>sc.
     bindr (if scan_complete sc \<or> collection a \<noteq> Coll_InProgress \<or> delivery a \<noteq> Del_InProgress then Ok True
       else bindr (rising_segment_count sc) (\<lambda>n. Ok (delivered_through_sequence sc \<noteq> n))) (\<lambda>waits.
     if waits then Ok None
     else
     bindr (map_err (\<lambda>_. cursor_request_error) (effective_bound (cursor_request_of st sc rising))) (\<lambda>_.
       Ok (Some \<lparr>pc_configuration_generation = configuration_generation st,
         pc_checkpoint_generation = generation (coordinator st), pc_attempt = fence_attempt (fence a),
         pc_page = next_page sc, pc_request = cursor_request_of st sc rising,
         pc_input_key = spool_input_key input, pc_fingerprint = SpoolFingerprint (pi_revision input)\<rparr>)))))"

definition emptied_state :: "rising_page_context \<Rightarrow> durable_state \<Rightarrow> daemon_error + durable_state" where
  "emptied_state context st =
     bindr (active_fence st) (\<lambda>f.
     bindr (require_scan st) (\<lambda>sc.
     if scan_complete sc \<or> next_page sc \<noteq> pc_page context then Err page_context_error
     else
     bindr (sealed_rows (sc\<lparr>scan_complete := True\<rparr>)) (\<lambda>rows.
     bindr (coordinate (collection_completed f rows (maximum_candidate sc))
       (st\<lparr>scan := Some (sc\<lparr>scan_complete := True\<rparr>)\<rparr>)) (\<lambda>(_, st'). Ok st'))))"

text \<open>The record of a sealed page: its reference and the progress its metadata reports.\<close>

definition adopted_scan ::
    "spool_crypto \<Rightarrow> ready_segment \<Rightarrow> rising_metadata \<Rightarrow> active_scan \<Rightarrow> daemon_error + active_scan" where
  "adopted_scan C orphan m sc =
     (if scan_complete sc \<or> hdr_segment_sequence (rs_header orphan) \<noteq> next_page sc \<or> rm_rows m = 0 \<or>
        rm_rows m \<noteq> sum_events (rs_summary orphan)
      then Err (inventory_error ''sealed rising page does not match the active scan'')
      else
      bindr (rising_segment_count sc) (\<lambda>count.
      bindr (ok_or checkpoint_invariant_error (checked_add count 1)) (\<lambda>sequence.
      if sequence \<noteq> next_page sc \<or> length (segments sc) \<ge> MAX_SEGMENTS_PER_SCAN
      then Err (inventory_error ''sealed rising page exceeds the active scan bounds'')
      else
      bindr (ok_or checkpoint_invariant_error (checked_add (next_page sc) 1)) (\<lambda>next.
        Ok (sc\<lparr>segments := segments sc @
              [\<lparr>ref_segment_id = segment_id_bytes (rs_id orphan), ref_sequence = sequence,
                ref_page = next_page sc, ref_rows = rm_rows m, ref_digest = reference_digest C orphan\<rparr>],
            resume_after := rm_resume m, maximum_candidate := rm_candidate m, next_page := next,
            scan_complete := \<not> rm_truncated m\<rparr>)))))"

definition adopt_orphan ::
    "spool_crypto \<Rightarrow> hash \<Rightarrow> durable_state \<Rightarrow> prepared_input \<Rightarrow> ready_segment \<Rightarrow> daemon_error + durable_state" where
  "adopt_orphan C sha st input orphan =
     bindr (validate_common_segment st input (Located_Ready orphan)) (\<lambda>m.
     bindr (expected_request_fingerprint sha st input) (\<lambda>expected.
     if rm_fingerprint m \<noteq> expected
     then Err (inventory_error ''sealed rising page does not match the durable cursor request'')
     else
     bindr (active_fence st) (\<lambda>f.
     bindr (require_scan st) (\<lambda>sc.
     bindr (adopted_scan C orphan m sc) (\<lambda>page.
     bindr (sealed_rows page) (\<lambda>rows.
     if scan_complete page
     then bindr (coordinate (collection_completed f rows (maximum_candidate page)) (st\<lparr>scan := Some page\<rparr>))
       (\<lambda>(_, adopted). Ok adopted)
     else Ok (st\<lparr>scan := Some page\<rparr>)))))))"

definition receipted_state :: "u64 \<Rightarrow> durable_state \<Rightarrow> daemon_error + durable_state" where
  "receipted_state sequence st =
     bindr (require_scan st) (\<lambda>sc. Ok (st\<lparr>scan := Some (sc\<lparr>delivered_through_sequence := sequence\<rparr>)\<rparr>))"

text \<open>The acknowledged prefix leaves the record; \<open>None\<close> when there is nothing to remove.\<close>

definition pruned_state :: "durable_state \<Rightarrow> daemon_error + durable_state option" where
  "pruned_state st =
     bindr (require_scan st) (\<lambda>sc.
     let removable = length (takeWhile (\<lambda>ref. ref_sequence ref \<le> delivered_through_sequence sc) (segments sc)) in
     if removable = 0 then Ok None
     else
     bindr (ok_or checkpoint_invariant_error (sum_rows 0 (take removable (segments sc)))) (\<lambda>removed_rows.
     bindr (ok_or checkpoint_invariant_error (checked_add (compacted_rows sc) removed_rows)) (\<lambda>rows.
       Ok (Some (st\<lparr>scan := Some (sc\<lparr>compacted_through_sequence := ref_sequence (segments sc ! (removable - 1)),
         compacted_rows := rows, segments := drop removable (segments sc)\<rparr>)\<rparr>)))))"

text \<open>The delivery is confirmed once; \<open>None\<close> when that was recorded before.\<close>

definition confirmed_state :: "durable_state \<Rightarrow> daemon_error + durable_state option" where
  "confirmed_state st =
     bindr (require_scan st) (\<lambda>sc.
     bindr (active_fence st) (\<lambda>f.
     bindr (sealed_rows sc) (\<lambda>rows.
     bindr (ok_or checkpoint_invariant_error (active (coordinator st))) (\<lambda>a.
     case delivery a of
       Del_InProgress \<Rightarrow> bindr (coordinate (delivery_confirmed f rows) st) (\<lambda>(_, st'). Ok (Some st'))
     | Del_Confirmed delivered_rows \<Rightarrow>
         if delivered_rows = rows then Ok None else Err checkpoint_invariant_error
     | _ \<Rightarrow> Err checkpoint_invariant_error))))"

definition committed_state :: "attempt_fence \<Rightarrow> durable_state \<Rightarrow> daemon_error + commit_outcome \<times> durable_state" where
  "committed_state f st =
     bindr (coordinate (commit f) st) (\<lambda>(outcome, st'). Ok (outcome, st'\<lparr>scan := None\<rparr>))"

record rising_state_status =
  rst_configuration_generation :: u64
  rst_checkpoint_generation :: u64
  rst_committed :: "timestamp_id_cursor option"
  rst_active :: bool
  rst_next_page :: "u64 option"
  rst_delivered_through :: u64

definition rising_status :: "durable_state \<Rightarrow> rising_state_status" where
  "rising_status st =
     \<lparr>rst_configuration_generation = configuration_generation st,
      rst_checkpoint_generation = generation (coordinator st), rst_committed = committed (coordinator st),
      rst_active = (active (coordinator st) \<noteq> None), rst_next_page = map_option next_page (scan st),
      rst_delivered_through = (case scan st of None \<Rightarrow> 0 | Some sc \<Rightarrow> delivered_through_sequence sc)\<rparr>"

end
