(* ===== verification/Rising_Steps.thy ===== *)
theory Rising_Steps
  imports Rising_Plan
begin

text \<open>
  The next durable states of the rising coordinator are steps the store accepts: each one is valid and
  passes the transition check against the state it was made from. The coordinator can thus be stopped
  by its environment, but not by its own record.
\<close>

section \<open>Counters of a valid scan\<close>

lemma rising_segment_count_Ok:
  assumes "scan_spec s a sc"
  shows "rising_segment_count sc = Inr n \<longleftrightarrow> unat n = sealed_pages sc"
proof -
  have len: "length (segments sc) \<le> MAX_SEGMENTS_PER_SCAN" using assms by (simp add: scan_spec_def)
  have "rising_segment_count sc = Inr n \<longleftrightarrow> scan_segment_count sc = Inr n"
    by (auto simp: rising_segment_count_def scan_segment_count_def)
  with scan_segment_count_Ok [OF len] show ?thesis by simp
qed

lemma sealed_rows_Ok:
  assumes "scan_spec s a sc"
  shows "sealed_rows sc = Inr r \<longleftrightarrow> unat r = sealed_row_count sc"
  using assms by (auto simp: sealed_rows_def sum_rows_Some sealed_row_count_def scan_spec_def)

lemma rising_counts:
  assumes "scan_spec s a sc"
  obtains n r where "rising_segment_count sc = Inr n" "unat n = sealed_pages sc"
    "sealed_rows sc = Inr r" "unat r = sealed_row_count sc"
proof -
  have "sealed_pages sc < 2 ^ 64" "sealed_row_count sc < 2 ^ 64"
    using assms u64_bound [of "next_page sc"] by (simp_all add: scan_spec_def)
  then have "unat (of_nat (sealed_pages sc) :: u64) = sealed_pages sc"
    "unat (of_nat (sealed_row_count sc) :: u64) = sealed_row_count sc" by (simp_all add: unat_of_nat)
  with that show thesis by (simp add: rising_segment_count_Ok [OF assms] sealed_rows_Ok [OF assms])
qed

lemma scan_spec_committed: "scan_spec s a sc \<Longrightarrow> committed k = committed s \<Longrightarrow> scan_spec k a sc"
  by (clarsimp simp: scan_spec_def)

text \<open>A valid state whose coordinator and scan are replaced stays valid when they fit together.\<close>

lemma valid_replace:
  assumes "state_validate sha st = Inr ()" "valid_snapshot k" "configuration_id k = configuration_id (coordinator st)"
    and "case s of Some sc \<Rightarrow> \<exists>a. active k = Some a \<and> scan_spec k a sc | None \<Rightarrow> active k = None"
  shows "state_validate sha (st\<lparr>coordinator := k, scan := s\<rparr>) = Inr ()"
  using assms by (cases s) (simp_all add: state_validate_Ok)

lemma valid_scan_replace:
  "state_validate sha st = Inr () \<Longrightarrow> active (coordinator st) = Some a \<Longrightarrow> scan_spec (coordinator st) a sc \<Longrightarrow>
   state_validate sha (st\<lparr>scan := Some sc\<rparr>) = Inr ()"
  by (simp add: state_validate_Ok)

lemma valid_coordinator_replace:
  "state_validate sha st = Inr () \<Longrightarrow> scan st = Some sc \<Longrightarrow> valid_snapshot k \<Longrightarrow>
   configuration_id k = configuration_id (coordinator st) \<Longrightarrow> active k = Some a \<Longrightarrow> scan_spec k a sc \<Longrightarrow>
   state_validate sha (st\<lparr>coordinator := k\<rparr>) = Inr ()"
  by (simp add: state_validate_Ok)

definition accepted :: "hash \<Rightarrow> durable_state \<Rightarrow> durable_state \<Rightarrow> bool" where
  "accepted sha cur nxt \<longleftrightarrow> state_validate sha nxt = Inr () \<and> validate_transition cur nxt = Inr ()"

lemma acceptedI:
  assumes "state_validate sha cur = Inr ()" "state_validate sha nxt = Inr ()" "durable_step cur nxt"
  shows "accepted sha cur nxt"
  using assms durable_step_complete by (simp add: accepted_def)

lemma accepted_step:
  "state_validate sha cur = Inr () \<Longrightarrow> accepted sha cur nxt \<Longrightarrow> durable_step cur nxt"
  by (simp add: accepted_def durable_step_sound)

lemma valid_parts:
  assumes "state_validate sha st = Inr ()" "scan st = Some sc"
  obtains a where "active (coordinator st) = Some a" "scan_spec (coordinator st) a sc"
    "valid_snapshot (coordinator st)"
  using valid_scan_facts [OF assms] assms(1) that by (auto simp: state_validate_Ok)

lemma coordinate_Ok:
  "coordinate m st = Inr (r, st') \<longleftrightarrow> (\<exists>k. m (coordinator st) = (Inr r, k) \<and> st' = st\<lparr>coordinator := k\<rparr>)"
  by (auto simp: coordinate_def split: prod.split sum.split)

section \<open>Starting and completing\<close>

lemma started_accepted:
  assumes "state_validate sha st = Inr ()" "active (coordinator st) = None"
  shows "\<exists>nxt. started_state i st = Inr nxt \<and> accepted sha st nxt"
proof -
  let ?f = "\<lparr>fence_attempt = i, fence_configuration = configuration_id (coordinator st),
        fence_generation = generation (coordinator st)\<rparr>"
  let ?a = "\<lparr>fence = ?f, collection = Coll_InProgress, delivery = Del_InProgress\<rparr>"
  let ?k = "(coordinator st)\<lparr>active := Some ?a\<rparr>"
  have v: "valid_snapshot (coordinator st)" "scan st = None"
    using assms by (auto simp: state_validate_Ok split: option.split_asm)
  have start: "start_attempt ?f (coordinator st) = (Inr Started, ?k)"
    using v assms(2) by (simp add: start_attempt_def require_current_context_def require_snapshot_context_def)
  let ?n = "st\<lparr>coordinator := ?k, scan := Some (fresh_scan i (committed (coordinator st)))\<rparr>"
  have "started_state i st = Inr ?n"
    by (simp add: started_state_def Let_def coordinate_def start fresh_scan_def)
  moreover have step: "durable_step st ?n"
  proof -
    have "coordinator_step Tr_StartAttempt (coordinator st) ?k" using v assms(2) by (intro cs_start) simp_all
    from ds_start [OF v(2) this] show ?thesis by simp
  qed
  moreover have "state_validate sha ?n = Inr ()"
    using valid_start_attempt [OF start]
    by (intro valid_replace [OF assms(1)])
      (simp_all add: scan_spec_def fresh_scan_def sealed_pages_def sealed_row_count_def behind_def)
  ultimately show ?thesis using acceptedI [OF assms(1)] by blast
qed

text \<open>The candidate of a valid scan is one the coordinator takes, whole scan and new page alike.\<close>

lemma scan_candidate_Ok:
  assumes "scan_spec s a sc" "unat r = sealed_row_count sc"
  shows "validate_candidate (committed s) r (maximum_candidate sc) = Inr ()"
proof -
  have "r = 0 \<longleftrightarrow> sealed_pages sc = 0"
    using assms sealed_zero [of "unat (compacted_through_sequence sc) + 1" sc]
    by (simp add: scan_spec_def unat_eq_0 [symmetric])
  with assms(1) show ?thesis
    by (auto simp: validate_candidate_Ok scan_spec_def behind_def not_less split: option.split_asm)
qed

lemma collected_Ok:
  assumes "valid_snapshot s" "active s = Some a" "collection a = Coll_InProgress"
    and "validate_candidate (committed s) r c = Inr ()"
  shows "collection_completed (fence a) r c s = (Inr Recorded, s\<lparr>active := Some (a\<lparr>collection := Coll_Completed r c\<rparr>)\<rparr>)"
  using assms by (simp add: collection_completed_def active_fence_own)

lemma emptied_accepted:
  assumes "state_validate sha st = Inr ()" "scan st = Some sc" "active (coordinator st) = Some a"
    and "collection a = Coll_InProgress" "next_page sc = pc_page context"
  shows "\<exists>nxt. emptied_state context st = Inr nxt \<and> accepted sha st nxt"
proof -
  obtain a' where "active (coordinator st) = Some a'" and spec: "scan_spec (coordinator st) a' sc"
    and v: "valid_snapshot (coordinator st)" by (rule valid_parts [OF assms(1,2)])
  with assms(3) have a': "a' = a" by simp
  obtain n r where n: "rising_segment_count sc = Inr n" "unat n = sealed_pages sc" and
    r: "sealed_rows sc = Inr r" "unat r = sealed_row_count sc" by (rule rising_counts [OF spec])
  have open_scan: "\<not> scan_complete sc" using spec assms(4) by (simp add: scan_spec_def a')
  let ?k = "(coordinator st)\<lparr>active := Some (a\<lparr>collection := Coll_Completed r (maximum_candidate sc)\<rparr>)\<rparr>"
  let ?s = "sc\<lparr>scan_complete := True\<rparr>"
  note cand = scan_candidate_Ok [OF spec r(2)]
  note collects = collected_Ok [OF v assms(3,4) cand]
  let ?n = "st\<lparr>coordinator := ?k, scan := Some ?s\<rparr>"
  have "sealed_rows ?s = Inr r" using r(1) by (simp add: sealed_rows_def)
  then have "emptied_state context st = Inr ?n"
    using open_scan assms(2,3,5) by (simp add: emptied_state_def active_fence_def require_scan_def coordinate_def collects)
  moreover have "durable_step st ?n"
    by (rule ds_complete [OF assms(2) cs_collected open_scan]) (use v assms(3,4) cand in auto)
  moreover have "sealed_pages ?s = sealed_pages sc" "sealed_row_count ?s = sealed_row_count sc"
    by (simp_all add: sealed_pages_def sealed_row_count_def)
  then have "scan_spec ?k (a\<lparr>collection := Coll_Completed r (maximum_candidate sc)\<rparr>) ?s"
    using spec r(2) a' by (clarsimp simp: scan_spec_def)
  then have "state_validate sha ?n = Inr ()"
    using valid_collection_completed [OF collects] by (intro valid_replace [OF assms(1)]) simp_all
  ultimately show ?thesis using acceptedI [OF assms(1)] by blast
qed

section \<open>Receipts and compaction\<close>

lemma receipted_accepted:
  assumes "state_validate sha st = Inr ()" "scan st = Some sc"
    and "unat (delivered_through_sequence sc) < sealed_pages sc"
  shows "\<exists>nxt. receipted_state (delivered_through_sequence sc + 1) st = Inr nxt \<and> accepted sha st nxt"
proof -
  obtain a where a: "active (coordinator st) = Some a" and spec: "scan_spec (coordinator st) a sc"
    and v: "valid_snapshot (coordinator st)" by (rule valid_parts [OF assms(1,2)])
  let ?s = "sc\<lparr>delivered_through_sequence := delivered_through_sequence sc + 1\<rparr>"
  have "sealed_pages sc < 2 ^ 64" using spec u64_bound [of "next_page sc"] by (simp add: scan_spec_def)
  with assms(3) have d: "unat (delivered_through_sequence sc + 1) = unat (delivered_through_sequence sc) + 1"
    by (simp add: unat_word_ariths)
  have "scan_spec (coordinator st) a ?s"
    using spec assms(3) d
    by (auto simp: scan_spec_def sealed_pages_def sealed_row_count_def word_le_nat_alt
        split: collection_state.splits)
  then have "state_validate sha (st\<lparr>scan := Some ?s\<rparr>) = Inr ()"
    by (rule valid_scan_replace [OF assms(1) a])
  moreover have "durable_step st (st\<lparr>scan := Some ?s\<rparr>)" by (rule ds_receipt [OF assms(2,3)])
  ultimately show ?thesis
    using acceptedI [OF assms(1)] assms(2) by (simp add: receipted_state_def require_scan_def)
qed

lemma take_while_numbered:
  assumes "numbered_from first segs" "first + length segs < 2 ^ 64"
  shows "length (takeWhile (\<lambda>ref. ref_sequence ref \<le> d) segs) = min (length segs) (Suc (unat d) - first)"
  using assms
proof (induction segs arbitrary: first)
  case (Cons seg segs)
  then have seg: "unat (ref_sequence seg) = first" "numbered_from (Suc first) segs" by simp_all
  show ?case
    using Cons.IH [OF seg(2)] Cons.prems(2) seg(1) by (auto simp: word_le_nat_alt)
qed simp

lemma scan_spec_compact:
  assumes "scan_spec s a sc" "0 < k" "unat (compacted_through_sequence sc) + k \<le> unat (delivered_through_sequence sc)"
  shows "scan_spec s a (compact_pages k sc)"
proof -
  note spec = assms(1) [unfolded scan_spec_def]
  have k: "k \<le> length (segments sc)" using spec assms(3) by (simp add: sealed_pages_def)
  have b: "unat (compacted_through_sequence sc) + k < 2 ^ 64"
    using assms(3) u64_bound [of "delivered_through_sequence sc"] by simp
  then have c: "unat (compacted_through_sequence sc + of_nat k) = unat (compacted_through_sequence sc) + k"
    by (simp add: unat_word_ariths unat_of_nat)
  have total: "rows_of (take k (segments sc)) + rows_of (drop k (segments sc)) = rows_of (segments sc)"
    by (rule rows_of_take)
  have "unat (compacted_rows sc) + rows_of (take k (segments sc)) < 2 ^ 64"
    using spec total by (simp add: sealed_row_count_def)
  then have r: "unat (compacted_rows sc + of_nat (rows_of (take k (segments sc)))) =
      unat (compacted_rows sc) + rows_of (take k (segments sc))"
    by (simp add: unat_word_ariths unat_of_nat)
  have num: "numbered_from (unat (compacted_through_sequence sc) + 1) (segments sc)" using spec by simp
  have "rows_of (take k (segments sc)) \<noteq> 0"
  proof -
    obtain x xs where x: "segments sc = x # xs" "ref_rows x \<noteq> 0" using num k assms(2) by (cases "segments sc") auto
    with assms(2) show ?thesis by (cases k) (simp_all add: unat_eq_0)
  qed
  then have pos: "compacted_rows sc + of_nat (rows_of (take k (segments sc))) \<noteq> 0"
    "compacted_through_sequence sc + of_nat k \<noteq> 0"
    using r c assms(2) by (auto simp: unat_eq_0 [symmetric])
  have pages: "sealed_pages (compact_pages k sc) = sealed_pages sc"
    using k by (simp add: sealed_pages_def compact_pages_def c)
  have rows: "sealed_row_count (compact_pages k sc) = sealed_row_count sc"
    using total by (simp add: sealed_row_count_def compact_pages_def r)
  have fields: "scan_attempt (compact_pages k sc) = scan_attempt sc" "base_committed (compact_pages k sc) = base_committed sc"
    "next_page (compact_pages k sc) = next_page sc" "resume_after (compact_pages k sc) = resume_after sc"
    "maximum_candidate (compact_pages k sc) = maximum_candidate sc" "scan_complete (compact_pages k sc) = scan_complete sc"
    "segments (compact_pages k sc) = drop k (segments sc)"
    "compacted_through_sequence (compact_pages k sc) = compacted_through_sequence sc + of_nat k"
    "compacted_rows (compact_pages k sc) = compacted_rows sc + of_nat (rows_of (take k (segments sc)))"
    by (simp_all add: compact_pages_def)
  have n: "numbered_from (unat (compacted_through_sequence sc + of_nat k) + 1) (drop k (segments sc))"
    unfolding c using numbered_from_drop [OF num, of k] by (simp add: add.commute add.left_commute)
  show ?thesis
    unfolding scan_spec_def fields pages rows
    using spec n c pos assms(3) by (auto simp: word_le_nat_alt split: collection_state.split)
qed

lemma pruned_accepted:
  assumes "state_validate sha st = Inr ()" "scan st = Some sc"
  shows "\<exists>p. pruned_state st = Inr p \<and>
    (case p of
       None \<Rightarrow> compacted_through_sequence sc = delivered_through_sequence sc
     | Some nxt \<Rightarrow> accepted sha st nxt \<and>
         nxt = st\<lparr>scan := Some (compact_pages
           (unat (delivered_through_sequence sc) - unat (compacted_through_sequence sc)) sc)\<rparr>)"
proof -
  obtain a where a: "active (coordinator st) = Some a" and spec: "scan_spec (coordinator st) a sc"
    and v: "valid_snapshot (coordinator st)" by (rule valid_parts [OF assms])
  note s = spec [unfolded scan_spec_def]
  let ?k = "unat (delivered_through_sequence sc) - unat (compacted_through_sequence sc)"
  let ?t = "takeWhile (\<lambda>ref. ref_sequence ref \<le> delivered_through_sequence sc) (segments sc)"
  have num: "numbered_from (unat (compacted_through_sequence sc) + 1) (segments sc)" using s by simp
  have "unat (compacted_through_sequence sc) + 1 + length (segments sc) < 2 ^ 64"
    using s u64_bound [of "next_page sc"] by (simp add: sealed_pages_def)
  note len = take_while_numbered [OF num this, of "delivered_through_sequence sc"]
  have k: "length ?t = ?k" "?k \<le> length (segments sc)"
    using len s by (auto simp: sealed_pages_def word_le_nat_alt)
  show ?thesis
  proof (cases "?k = 0")
    case True
    have "compacted_through_sequence sc = delivered_through_sequence sc"
      using True s by (simp add: word_le_nat_alt word_unat_eq_iff)
    with True k show ?thesis
      using assms(2) by (intro exI [of _ None]) (simp add: pruned_state_def require_scan_def)
  next
    case False
    then have pos: "0 < ?k" "unat (compacted_through_sequence sc) + ?k \<le> unat (delivered_through_sequence sc)"
      by simp_all
    have last: "ref_sequence (segments sc ! (?k - 1)) = compacted_through_sequence sc + of_nat ?k"
    proof (rule word_unat_eq_iff [THEN iffD2])
      have "unat (ref_sequence (segments sc ! (?k - 1))) = unat (compacted_through_sequence sc) + 1 + (?k - 1)"
        using num k(2) pos(1) by (simp add: numbered_from_def)
      moreover have "unat (compacted_through_sequence sc + of_nat ?k) = unat (compacted_through_sequence sc) + ?k"
        using pos(2) u64_bound [of "delivered_through_sequence sc"] by (simp add: unat_word_ariths unat_of_nat)
      ultimately show "unat (ref_sequence (segments sc ! (?k - 1))) = unat (compacted_through_sequence sc + of_nat ?k)"
        using pos(1) by simp
    qed
    have rows: "unat (compacted_rows sc) + rows_of (take ?k (segments sc)) < 2 ^ 64"
      using s rows_of_take [of ?k "segments sc"] by (simp add: sealed_row_count_def)
    then have sums: "sum_rows 0 (take ?k (segments sc)) = Some (of_nat (rows_of (take ?k (segments sc))))"
      "checked_add (compacted_rows sc) (of_nat (rows_of (take ?k (segments sc)))) =
         Some (compacted_rows sc + of_nat (rows_of (take ?k (segments sc))))"
      by (auto simp: sum_rows_Some checked_add_def unat_of_nat)
    have removed: "?t \<noteq> []" using k(1) pos(1) by (metis list.size(3) less_numeral_extra(3))
    let ?n = "st\<lparr>scan := Some (compact_pages ?k sc)\<rparr>"
    have "pruned_state st = Inr (Some ?n)"
      using assms(2) False last removed
      by (simp add: pruned_state_def Let_def require_scan_def k(1) sums compact_pages_def)
    moreover have "durable_step st ?n" by (rule ds_compact [OF assms(2) pos])
    moreover have "state_validate sha ?n = Inr ()"
      by (rule valid_scan_replace [OF assms(1) a scan_spec_compact [OF spec pos]])
    ultimately show ?thesis using acceptedI [OF assms(1)] by (intro exI [of _ "Some ?n"]) simp
  qed
qed

section \<open>Confirmation and commit\<close>

lemma confirmed_accepted:
  assumes "state_validate sha st = Inr ()" "scan st = Some sc" "active (coordinator st) = Some a"
    and "scan_complete sc" "unat (delivered_through_sequence sc) = sealed_pages sc"
    and "delivery a \<noteq> Del_Failed" "delivery a \<noteq> Del_Uncertain"
  shows "\<exists>p. confirmed_state st = Inr p \<and>
    (case p of
       None \<Rightarrow> \<exists>r. delivery a = Del_Confirmed r
     | Some nxt \<Rightarrow> accepted sha st nxt \<and> scan nxt = Some sc \<and>
         (\<exists>r. unat r = sealed_row_count sc \<and>
           coordinator nxt = (coordinator st)\<lparr>active := Some (a\<lparr>delivery := Del_Confirmed r\<rparr>)\<rparr>))"
proof -
  obtain a' where "active (coordinator st) = Some a'" and spec: "scan_spec (coordinator st) a' sc"
    and v: "valid_snapshot (coordinator st)" by (rule valid_parts [OF assms(1,2)])
  with assms(3) have a': "a' = a" by simp
  obtain n r where r: "sealed_rows sc = Inr r" "unat r = sealed_row_count sc"
    by (rule rising_counts [OF spec])
  have go: "confirmed_state st = (case delivery a of
       Del_InProgress \<Rightarrow> bindr (coordinate (delivery_confirmed (fence a) r) st) (\<lambda>(_, st'). Ok (Some st'))
     | Del_Confirmed delivered_rows \<Rightarrow> if delivered_rows = r then Ok None else Err checkpoint_invariant_error
     | _ \<Rightarrow> Err checkpoint_invariant_error)"
    using assms(2,3) r(1) by (simp add: confirmed_state_def require_scan_def active_fence_def)
  show ?thesis
  proof (cases "delivery a")
    case Del_InProgress
    let ?k = "(coordinator st)\<lparr>active := Some (a\<lparr>delivery := Del_Confirmed r\<rparr>)\<rparr>"
    let ?n = "st\<lparr>coordinator := ?k\<rparr>"
    have collects: "delivery_confirmed (fence a) r (coordinator st) = (Inr Recorded, ?k)"
      using v assms(3) Del_InProgress by (simp add: delivery_confirmed_def active_fence_own)
    have "confirmed_state st = Inr (Some ?n)" unfolding go by (simp add: Del_InProgress coordinate_def collects)
    moreover have "durable_step st ?n"
      by (rule ds_delivery [OF assms(2) cs_delivered [OF v assms(3) Del_InProgress]])
        (use assms(4,5) in \<open>simp_all add: full_receipt_def\<close>)
    moreover have "scan_spec ?k (a\<lparr>delivery := Del_Confirmed r\<rparr>) sc"
      using spec a' assms(4,5) r(2) by (auto simp: scan_spec_def split: collection_state.splits)
    then have "state_validate sha ?n = Inr ()"
      using valid_delivery_confirmed [OF collects] by (intro valid_coordinator_replace [OF assms(1,2)]) simp_all
    ultimately show ?thesis
      using acceptedI [OF assms(1)] assms(2) r(2) by (intro exI [of _ "Some ?n"]) auto
  next
    case (Del_Confirmed q)
    then have "unat q = unat r" using spec r(2) by (simp add: scan_spec_def a')
    then have "q = r" by (rule unsigned_word_eqI)
    then show ?thesis unfolding go by (intro exI [of _ None]) (simp add: Del_Confirmed)
  qed (use assms(6,7) in simp_all)
qed

lemma committed_accepted:
  assumes "state_validate sha st = Inr ()" "scan st = Some sc" "active (coordinator st) = Some a"
    and "delivery a = Del_Confirmed r" "checked_add (generation (coordinator st)) 1 = Some g"
  shows "\<exists>adv nxt. committed_state (fence a) st = Inr (Committed g adv, nxt) \<and> accepted sha st nxt \<and>
    generation (coordinator nxt) = g"
proof -
  obtain a' where "active (coordinator st) = Some a'" and spec: "scan_spec (coordinator st) a' sc"
    and v: "valid_snapshot (coordinator st)" by (rule valid_parts [OF assms(1,2)])
  with assms(3) have a': "a' = a" by simp
  note s = spec [unfolded scan_spec_def a']
  have full: "full_receipt sc" using s assms(4) by (simp add: full_receipt_def)
  obtain q c where "collection a = Coll_Completed q c" "unat q = unat r"
    using s assms(4) by (cases "collection a") auto
  then have "commit_rows a = Inr c" using assms(4) by (simp add: commit_rows_def word_unat_eq_iff)
  from commit_ready [OF v assms(3) this assms(5)] obtain adv k where
    k: "commit (fence a) (coordinator st) = (Inr (Committed g adv), k)" by blast
  then have after: "active k = None" "configuration_id k = configuration_id (coordinator st)" "generation k = g"
    by (auto elim!: commit_Committed)
  let ?n = "st\<lparr>coordinator := k, scan := None\<rparr>"
  have "committed_state (fence a) st = Inr (Committed g adv, ?n)"
    by (simp add: committed_state_def coordinate_def k)
  moreover have "durable_step st ?n" by (rule ds_commit [OF assms(2) cs_commit [OF k] full])
  moreover have "state_validate sha ?n = Inr ()"
    using valid_commit [OF k] after by (intro valid_replace [OF assms(1)]) simp_all
  ultimately show ?thesis using acceptedI [OF assms(1)] after(3) by fastforce
qed

section \<open>Adopting a sealed page\<close>

definition page_ref :: "spool_crypto \<Rightarrow> ready_segment \<Rightarrow> rising_metadata \<Rightarrow> active_scan \<Rightarrow> segment_ref" where
  "page_ref C orphan m sc = \<lparr>ref_segment_id = segment_id_bytes (rs_id orphan), ref_sequence = next_page sc,
     ref_page = next_page sc, ref_rows = rm_rows m, ref_digest = reference_digest C orphan\<rparr>"

lemma adopted_scan_Ok:
  assumes "scan_spec s a sc"
  shows "adopted_scan C orphan m sc = Inr page \<longleftrightarrow>
    \<not> scan_complete sc \<and> hdr_segment_sequence (rs_header orphan) = next_page sc \<and> rm_rows m \<noteq> 0 \<and>
    rm_rows m = sum_events (rs_summary orphan) \<and> length (segments sc) < MAX_SEGMENTS_PER_SCAN \<and>
    unat (next_page sc) + 1 < 2 ^ 64 \<and>
    page = (append_page (page_ref C orphan m sc) (rm_resume m) (rm_candidate m) sc)\<lparr>scan_complete := \<not> rm_truncated m\<rparr>"
proof -
  obtain count where n: "rising_segment_count sc = Inr count" "unat count = sealed_pages sc"
    by (rule rising_counts [OF assms])
  have "unat (next_page sc) = unat count + 1" using assms n(2) by (simp add: scan_spec_def)
  then have c: "checked_add count 1 = Some (next_page sc)"
    using u64_bound [of "next_page sc"] by (simp add: checked_add_def word_unat_eq_iff unat_word_ariths)
  have p: "checked_add (next_page sc) 1 = (if unat (next_page sc) + 1 < 2 ^ 64 then Some (next_page sc + 1) else None)"
    by (simp add: checked_add_def)
  show ?thesis
    by (auto simp: adopted_scan_def n(1) c p page_ref_def append_page_def not_le)
qed

lemma common_metadata:
  assumes "validate_common_segment st input seg = Inr m"
  shows "view_metadata seg = Inr m" "metadata_ok m" "rm_rows m = view_event_count seg" "rm_rows m \<noteq> 0"
proof -
  from assms show v: "view_metadata seg = Inr m" "rm_rows m = view_event_count seg" "rm_rows m \<noteq> 0"
    by (auto simp: validate_common_segment_def Let_def split: if_split_asm)
  then show "metadata_ok m" by (cases seg) (auto dest: encode_decode_metadata)
qed

lemma metadata_cursors:
  assumes "metadata_ok m" "rm_rows m \<noteq> 0"
  obtains c r where "rm_candidate m = Some c" "rm_resume m = Some r" "\<not> behind (rm_candidate m) (rm_resume m)"
  using assms
  by (auto simp: metadata_ok_def metadata_validate_def behind_def split: if_split_asm option.split_asm)

lemma scan_spec_append:
  assumes "scan_spec s a sc" "unat (next_page sc) + 1 < 2 ^ 64" "length (segments sc) < MAX_SEGMENTS_PER_SCAN"
    and "collection a = Coll_InProgress" "metadata_ok m" "rm_rows m \<noteq> 0"
    and "sealed_row_count sc + unat (rm_rows m) < 2 ^ 64" "\<not> behind (rm_candidate m) (committed s)"
    and "segment_id_bytes (rs_id orphan) \<notin> ref_segment_id ` set (segments sc)"
    and "collection b = (if rm_truncated m then Coll_InProgress else Coll_Completed rows (rm_candidate m))"
    and "unat rows = sealed_row_count sc + unat (rm_rows m)" "fence b = fence a" "delivery b = delivery a"
  shows "scan_spec s b ((append_page (page_ref C orphan m sc) (rm_resume m) (rm_candidate m) sc)\<lparr>scan_complete := \<not> rm_truncated m\<rparr>)"
    (is "scan_spec s b ?s")
proof -
  obtain c r where cr: "rm_candidate m = Some c" "rm_resume m = Some r" "\<not> behind (rm_candidate m) (rm_resume m)"
    by (rule metadata_cursors [OF assms(5,6)])
  note spec = assms(1) [unfolded scan_spec_def]
  have pages: "sealed_pages ?s = sealed_pages sc + 1" by (simp add: sealed_pages_def append_page_def)
  have rowsum: "sealed_row_count ?s = sealed_row_count sc + unat (rm_rows m)"
    by (simp add: sealed_row_count_def append_page_def page_ref_def)
  have np: "unat (next_page sc + 1) = sealed_pages sc + 2" using assms(2) spec by (simp add: unat_word_ariths)
  have num: "numbered_from (unat (compacted_through_sequence sc) + 1) (segments sc @ [page_ref C orphan m sc])"
    using spec assms(6,9) unfolding numbered_from_snoc by (auto simp: page_ref_def sealed_pages_def image_iff)
  have "delivery a \<noteq> Del_Confirmed q" for q using spec assms(4) by auto
  with spec assms cr num np show ?thesis
    unfolding scan_spec_def pages rowsum
    by (simp add: append_page_def split: if_split_asm)
qed

text \<open>What a successful adoption builds.\<close>

lemma adopt_orphan_Inr:
  assumes "state_validate sha st = Inr ()" "scan st = Some sc" "active (coordinator st) = Some a"
    and "adopt_orphan C sha st input orphan = Inr nxt"
  obtains m page rows where "validate_common_segment st input (Located_Ready orphan) = Inr m"
    "adopted_scan C orphan m sc = Inr page" "sealed_rows page = Inr rows"
    "page = (append_page (page_ref C orphan m sc) (rm_resume m) (rm_candidate m) sc)\<lparr>scan_complete := \<not> rm_truncated m\<rparr>"
    "(if scan_complete page
     then bindr (coordinate (collection_completed (fence a) rows (maximum_candidate page)) (st\<lparr>scan := Some page\<rparr>)) (\<lambda>(_, adopted). Ok adopted)
     else Ok (st\<lparr>scan := Some page\<rparr>)) = Inr nxt" "scan nxt = Some page"
proof -
  from assms(4) obtain m page rows where m: "validate_common_segment st input (Located_Ready orphan) = Inr m"
    "adopted_scan C orphan m sc = Inr page" "sealed_rows page = Inr rows"
    "(if scan_complete page
     then bindr (coordinate (collection_completed (fence a) rows (maximum_candidate page)) (st\<lparr>scan := Some page\<rparr>)) (\<lambda>(_, adopted). Ok adopted)
     else Ok (st\<lparr>scan := Some page\<rparr>)) = Inr nxt"
    unfolding adopt_orphan_def
    by (auto simp: require_scan_def active_fence_def assms(2,3) split: if_split_asm)
  obtain a' where "scan_spec (coordinator st) a' sc" using valid_parts [OF assms(1,2)] by metis
  from m(2) [unfolded adopted_scan_Ok [OF this]] have "page = (append_page (page_ref C orphan m sc) (rm_resume m) (rm_candidate m) sc)
      \<lparr>scan_complete := \<not> rm_truncated m\<rparr>" by blast
  moreover have "scan nxt = Some page" using m(4) by (auto simp: coordinate_Ok split: if_split_asm)
  ultimately show thesis using m by (intro that)
qed

text \<open>The progress that makes an adopted page acceptable.\<close>

lemma adopted_accepted:
  assumes "state_validate sha st = Inr ()" "scan st = Some sc" "active (coordinator st) = Some a"
    and "collection a = Coll_InProgress" "adopt_orphan C sha st input orphan = Inr nxt"
    and "validate_common_segment st input (Located_Ready orphan) = Inr m"
    and "cursor_strictly_advances (resume_after sc) (rm_resume m)"
    and "\<not> cursor_regresses (maximum_candidate sc) (rm_candidate m)"
    and "\<not> behind (rm_candidate m) (committed (coordinator st))"
    and "segment_id_bytes (rs_id orphan) \<notin> ref_segment_id ` set (segments sc)"
  shows "accepted sha st nxt"
proof -
  obtain a' where "active (coordinator st) = Some a'" and spec: "scan_spec (coordinator st) a' sc"
    and v: "valid_snapshot (coordinator st)" by (rule valid_parts [OF assms(1,2)])
  with assms(3) have a': "a' = a" by simp
  let ?s = "(append_page (page_ref C orphan m sc) (rm_resume m) (rm_candidate m) sc)\<lparr>scan_complete := \<not> rm_truncated m\<rparr>"
  from assms(5) obtain page rows where page: "adopted_scan C orphan m sc = Inr page" "sealed_rows page = Inr rows" and
    res: "(if scan_complete page
     then bindr (coordinate (collection_completed (fence a) rows (maximum_candidate page)) (st\<lparr>scan := Some page\<rparr>)) (\<lambda>(_, adopted). Ok adopted)
     else Ok (st\<lparr>scan := Some page\<rparr>)) = Inr nxt"
    unfolding adopt_orphan_def assms(6)
    by (auto simp: require_scan_def active_fence_def assms(2,3) split: if_split_asm)
  note ok = page(1) [unfolded adopted_scan_Ok [OF spec]]
  then have p: "page = ?s" by blast
  note m = common_metadata [OF assms(6)]
  have can: "can_append (rm_resume m) (rm_candidate m) sc" using ok assms(7,8) by (simp add: can_append_def)
  have rows: "sealed_row_count sc + unat (rm_rows m) < 2 ^ 64" "unat rows = sealed_row_count sc + unat (rm_rows m)"
    using page(2) unfolding p
    by (auto simp: sealed_rows_def sum_rows_Some sealed_row_count_def append_page_def page_ref_def)
  note sp = scan_spec_append [OF spec [unfolded a'], where C = C and m = m and orphan = orphan and rows = rows]
  show ?thesis
  proof (cases "rm_truncated m")
    case True
    then have n: "nxt = st\<lparr>scan := Some ?s\<rparr>" using res by (simp add: p)
    have "?s = append_page (page_ref C orphan m sc) (rm_resume m) (rm_candidate m) sc"
      using True ok append_page_open [of sc] by simp
    then have "durable_step st nxt" unfolding n using ds_append [OF assms(2,3,4) can] by simp
    moreover have "state_validate sha nxt = Inr ()"
      unfolding n using sp [of a] ok assms(4,9,10) m(2,4) rows True
      by (intro valid_scan_replace [OF assms(1,3)]) simp
    ultimately show ?thesis using acceptedI [OF assms(1)] n by simp
  next
    case False
    let ?b = "a\<lparr>collection := Coll_Completed rows (rm_candidate m)\<rparr>"
    let ?k = "(coordinator st)\<lparr>active := Some ?b\<rparr>"
    have "maximum_candidate ?s = rm_candidate m" "scan_complete ?s" using False by (simp_all add: append_page_def)
    with res obtain q k where "collection_completed (fence a) rows (rm_candidate m) (coordinator st) = (Inr q, k)"
      and n': "nxt = st\<lparr>scan := Some ?s, coordinator := k\<rparr>" by (auto simp: p coordinate_Ok)
    moreover from this(1) have cand: "validate_candidate (committed (coordinator st)) rows (rm_candidate m) = Inr ()"
      by (auto simp: collection_completed_def try_in_eq_Inr)
    moreover note collects = collected_Ok [OF v assms(3,4) cand]
    ultimately have n: "nxt = st\<lparr>coordinator := ?k, scan := Some ?s\<rparr>" by simp
    have "coordinator_step Tr_CollectionCompleted (coordinator st) ?k" by (rule cs_collected [OF v assms(3,4) cand])
    from ds_append_complete [OF assms(2) this can] have "durable_step st nxt" unfolding n using False by simp
    moreover have "scan_spec (coordinator st) ?b ?s"
      using sp [of ?b] ok assms(4,9,10) m(2,4) rows False by simp
    then have "scan_spec ?k ?b ?s" by (rule scan_spec_committed) simp
    then have "state_validate sha nxt = Inr ()"
      unfolding n using valid_collection_completed [OF collects] by (intro valid_replace [OF assms(1)]) simp_all
    ultimately show ?thesis using acceptedI [OF assms(1)] n by simp
  qed
qed

lemma scan_fields:
  "(x :: active_scan) = y \<Longrightarrow> segments x = segments y \<and> resume_after x = resume_after y \<and>
    maximum_candidate x = maximum_candidate y"
  by simp

lemma drop_not_longer [simp]: "drop k xs \<noteq> xs @ [x]"
  by (metis append_take_drop_id length_append_singleton length_drop lessI linorder_not_le diff_le_self)

lemma adopted_progress:
  assumes "state_validate sha st = Inr ()" "scan st = Some sc" "active (coordinator st) = Some a"
    and "scan nxt = Some ((append_page (page_ref C orphan m sc) (rm_resume m) (rm_candidate m) sc)\<lparr>scan_complete := \<not> rm_truncated m\<rparr>)"
    and "accepted sha st nxt"
  shows "collection a = Coll_InProgress" "cursor_strictly_advances (resume_after sc) (rm_resume m)"
    "\<not> cursor_regresses (maximum_candidate sc) (rm_candidate m)" "\<not> behind (rm_candidate m) (committed (coordinator st))"
    "segment_id_bytes (rs_id orphan) \<notin> ref_segment_id ` set (segments sc)"
proof -
  let ?s = "(append_page (page_ref C orphan m sc) (rm_resume m) (rm_candidate m) sc)\<lparr>scan_complete := \<not> rm_truncated m\<rparr>"
  have longer: "segments ?s = segments sc @ [page_ref C orphan m sc]" by (simp add: append_page_def)
  have "durable_step st nxt" by (rule accepted_step [OF assms(1,5)])
  then have "collection a = Coll_InProgress \<and> can_append (rm_resume m) (rm_candidate m) sc"
    using assms(2,3,4) longer
    by cases (auto simp: append_page_def compact_pages_def dest!: scan_fields elim!: coordinator_step.cases)
  then show "collection a = Coll_InProgress" "cursor_strictly_advances (resume_after sc) (rm_resume m)"
    "\<not> cursor_regresses (maximum_candidate sc) (rm_candidate m)" by (simp_all add: can_append_def)
  have "state_validate sha nxt = Inr ()" using assms(5) by (simp add: accepted_def)
  from valid_parts [OF this assms(4)] obtain b where new: "scan_spec (coordinator nxt) b ?s" by metis
  obtain a' where "scan_spec (coordinator st) a' sc" using valid_parts [OF assms(1,2)] by metis
  then have "base_committed ?s = committed (coordinator st)" by (simp add: scan_spec_def append_page_def)
  moreover have "\<not> behind (maximum_candidate ?s) (base_committed ?s)" using new unfolding scan_spec_def by blast
  moreover have "maximum_candidate ?s = rm_candidate m" by (simp add: append_page_def)
  ultimately show "\<not> behind (rm_candidate m) (committed (coordinator st))" by simp
  from new longer have "distinct (map ref_segment_id (segments sc @ [page_ref C orphan m sc]))"
    by (simp add: scan_spec_def numbered_from_def)
  then show "segment_id_bytes (rs_id orphan) \<notin> ref_segment_id ` set (segments sc)" by (auto simp: page_ref_def)
qed

section \<open>Properties\<close>

text \<open>The demonstration input, its first attempt, and the first page it sealed.\<close>

definition demo_rising :: prepared_rising where
  "demo_rising = \<lparr>pr_state_input_id = replicate 16 5, pr_cursor_spec = spec (demo_request None),
     pr_cursor_identity = replicate 32 2\<rparr>"

definition demo_input :: prepared_input where
  "demo_input = \<lparr>pi_input_id = replicate 32 3, pi_rising = Some demo_rising, pi_name = ''orders'',
     pi_connector = ''mysql'', pi_secret_ref = ''db'',
     pi_connection = prepared_connection (demo_config ''orders'') Tls_Require None, pi_query = ''q'',
     pi_schedule = \<lparr>ps_disabled = False, ps_interval = demo_seconds\<rparr>,
     pi_limits = \<lparr>pl_max_rows = 10, pl_max_bytes = 1000, pl_query_timeout = demo_seconds\<rparr>,
     pi_output = \<lparr>po_index = ''x'', po_sourcetype = ''t'', po_source = ''s''\<rparr>,
     pi_query_fingerprint = replicate 32 2, pi_lineage = replicate 32 1, pi_revision = replicate 32 4\<rparr>"

definition demo_attempt :: attempt_id where "demo_attempt = AttemptId (replicate 16 17)"

definition demo_first_attempt :: active_attempt where
  "demo_first_attempt = \<lparr>fence = \<lparr>fence_attempt = demo_attempt,
       fence_configuration = configuration_id (coordinator (initial_state demo_sha demo_input demo_rising)),
       fence_generation = 0\<rparr>, collection = Coll_InProgress, delivery = Del_InProgress\<rparr>"

definition demo_begun :: durable_state where
  "demo_begun = (let st = initial_state demo_sha demo_input demo_rising in
     st\<lparr>coordinator := (coordinator st)\<lparr>active := Some demo_first_attempt\<rparr>,
        scan := Some (fresh_scan demo_attempt None)\<rparr>)"

definition demo_page :: rising_metadata where
  "demo_page = \<lparr>rm_rows = 2, rm_truncated = False, rm_fingerprint = replicate 32 49,
     rm_candidate = Some (TimestampIdCursor 1001 11), rm_resume = Some (TimestampIdCursor 1001 11)\<rparr>"

definition demo_orphan :: ready_segment where
  "demo_orphan = \<lparr>rs_path = [], rs_header = demo_header\<lparr>hdr_batch_id := BatchId (replicate 16 17),
       hdr_batch_sequence := 0\<rparr>, rs_id = SegmentId (replicate 16 9),
     rs_summary = (summary_of demo_crypto [[1], [2]]), rs_version = 2,
     rs_metadata = (case encode_metadata demo_page of Inr bs \<Rightarrow> bs | _ \<Rightarrow> []), rs_len = 400\<rparr>"

lemmas demo_rising_defs = demo_begun_def demo_first_attempt_def demo_attempt_def demo_input_def demo_rising_def
  initial_state_def new_durable_state_def new_snapshot_def configuration_fence_id_def demo_sha_def
  INITIAL_CONFIGURATION_GENERATION_def INITIAL_CHECKPOINT_GENERATION_def fresh_scan_def

lemma demo_begun_valid: "state_validate demo_sha demo_begun = Inr ()"
  by (simp add: demo_rising_defs Let_def state_validate_Ok valid_snapshot_iff validate_active_Ok
      validate_last_Ok scan_spec_def sealed_pages_def sealed_row_count_def behind_def)

lemma demo_page_metadata: "decode_metadata (rs_metadata demo_orphan) = Inr demo_page"
proof -
  have "metadata_ok demo_page"
    by (simp add: metadata_ok_def metadata_validate_def demo_page_def less_eq_cursor_def less_cursor_def
        list_all_iff)
  moreover from this encode_metadata_Ok obtain bs where "encode_metadata demo_page = Inr bs"
    unfolding metadata_ok_def by blast
  ultimately show ?thesis using decode_encode_metadata by (simp add: demo_orphan_def)
qed

lemma demo_page_common:
  "validate_common_segment demo_begun demo_input (Located_Ready demo_orphan) = Inr demo_page"
  using demo_page_metadata
  by (simp add: validate_common_segment_def demo_rising_defs Let_def spool_input_key_def demo_orphan_def
      demo_header_def demo_page_def summary_of_def)

lemma demo_adopts: "\<exists>nxt. adopt_orphan demo_crypto demo_sha demo_begun demo_input demo_orphan = Inr nxt"
proof -
  have s: "scan demo_begun = Some (fresh_scan demo_attempt None)"
    "active (coordinator demo_begun) = Some demo_first_attempt" "valid_snapshot (coordinator demo_begun)"
    "collection demo_first_attempt = Coll_InProgress" "committed (coordinator demo_begun) = None"
    using demo_begun_valid by (simp_all add: demo_rising_defs Let_def state_validate_Ok)
  have "expected_request_fingerprint demo_sha demo_begun demo_input = Inr (rm_fingerprint demo_page)"
    by (simp add: expected_request_fingerprint_def require_rising_def demo_rising_defs require_scan_def
        rising_request_fingerprint_def demo_page_def Let_def)
  moreover obtain page where page: "adopted_scan demo_crypto demo_orphan demo_page (fresh_scan demo_attempt None) = Inr page"
    "scan_complete page" "maximum_candidate page = Some (TimestampIdCursor 1001 11)" "sealed_rows page = Inr 2"
    by (simp add: adopted_scan_def fresh_scan_def demo_orphan_def demo_header_def demo_page_def summary_of_def
        rising_segment_count_def u64_of_len_def checked_add_def MAX_SEGMENTS_PER_SCAN_def sealed_rows_def)
  moreover have "validate_candidate None 2 (Some (TimestampIdCursor 1001 11)) = Inr ()"
    by (simp add: validate_candidate_Ok)
  then have "\<exists>k. collection_completed (fence demo_first_attempt) 2 (Some (TimestampIdCursor 1001 11)) (coordinator demo_begun) =
      (Inr Recorded, k)"
    using collected_Ok [OF s(3,2,4)] s(5) by metis
  ultimately show ?thesis
    by (auto simp: adopt_orphan_def demo_page_common active_fence_def require_scan_def s coordinate_def)
qed

text \<open>
  C7. The coordinator's own steps. From every valid state, each state it builds next (a started attempt,
  a scan ended by an empty page, the receipt of the next page, the record without its acknowledged
  prefix, the confirmed delivery and the commit) exists, is valid, and passes the store's transition
  check: none of these steps can fail for a reason that lies in the record.
\<close>
theorem coordinator_steps_accepted:
  assumes "state_validate sha st = Inr ()"
  shows "(active (coordinator st) = None \<longrightarrow> (\<exists>nxt. started_state i st = Inr nxt \<and> accepted sha st nxt)) \<and>
    (\<forall>sc a. scan st = Some sc \<and> active (coordinator st) = Some a \<longrightarrow>
      (collection a = Coll_InProgress \<and> next_page sc = pc_page context \<longrightarrow>
        (\<exists>nxt. emptied_state context st = Inr nxt \<and> accepted sha st nxt)) \<and>
      (unat (delivered_through_sequence sc) < sealed_pages sc \<longrightarrow>
        (\<exists>nxt. receipted_state (delivered_through_sequence sc + 1) st = Inr nxt \<and> accepted sha st nxt)) \<and>
      (\<exists>p. pruned_state st = Inr p \<and> (\<forall>nxt. p = Some nxt \<longrightarrow> accepted sha st nxt)) \<and>
      (scan_complete sc \<and> unat (delivered_through_sequence sc) = sealed_pages sc \<and>
       delivery a \<in> {Del_InProgress, Del_Confirmed r} \<longrightarrow>
        (\<exists>p. confirmed_state st = Inr p \<and> (\<forall>nxt. p = Some nxt \<longrightarrow> accepted sha st nxt))) \<and>
      (delivery a = Del_Confirmed r \<and> checked_add (generation (coordinator st)) 1 = Some g \<longrightarrow>
        (\<exists>adv nxt. committed_state (fence a) st = Inr (Committed g adv, nxt) \<and> accepted sha st nxt)))"
proof (intro conjI allI impI)
  show "\<exists>nxt. started_state i st = Inr nxt \<and> accepted sha st nxt" if "active (coordinator st) = None"
    using started_accepted [OF assms that] .
next
  fix sc a assume "scan st = Some sc \<and> active (coordinator st) = Some a"
  then have sc: "scan st = Some sc" and a: "active (coordinator st) = Some a" by simp_all
  show "\<exists>nxt. emptied_state context st = Inr nxt \<and> accepted sha st nxt"
    if "collection a = Coll_InProgress \<and> next_page sc = pc_page context"
    using emptied_accepted [OF assms sc a] that by blast
  show "\<exists>nxt. receipted_state (delivered_through_sequence sc + 1) st = Inr nxt \<and> accepted sha st nxt"
    if "unat (delivered_through_sequence sc) < sealed_pages sc"
    using receipted_accepted [OF assms sc that] .
  show "\<exists>p. pruned_state st = Inr p \<and> (\<forall>nxt. p = Some nxt \<longrightarrow> accepted sha st nxt)"
    using pruned_accepted [OF assms sc] by (force split: option.split_asm)
  show "\<exists>p. confirmed_state st = Inr p \<and> (\<forall>nxt. p = Some nxt \<longrightarrow> accepted sha st nxt)"
    if "scan_complete sc \<and> unat (delivered_through_sequence sc) = sealed_pages sc \<and>
      delivery a \<in> {Del_InProgress, Del_Confirmed r}"
    using confirmed_accepted [OF assms sc a] that by (force split: option.split_asm)
  show "\<exists>adv nxt. committed_state (fence a) st = Inr (Committed g adv, nxt) \<and> accepted sha st nxt"
    if "delivery a = Del_Confirmed r \<and> checked_add (generation (coordinator st)) 1 = Some g"
    using committed_accepted [OF assms sc a] that by blast
qed

lemma coordinator_steps_accepted_witness:
  "\<exists>nxt. receipted_state 2 demo_pending = Inr nxt \<and> accepted demo_sha demo_pending nxt"
proof -
  have facts: "scan demo_pending = Some demo_half" "delivered_through_sequence demo_half = 1" "sealed_pages demo_half = 2"
    "\<exists>a. active (coordinator demo_pending) = Some a"
    by (simp_all add: demo_pending_def demo_half_def demo_scan_def sealed_pages_def demo_collected_def)
  show ?thesis
    using coordinator_steps_accepted [OF demo_pending_valid(1), of demo_attempt undefined 0 0] facts by auto
qed



end
