(* ===== verification/Rising_Inventory.thy ===== *)
theory Rising_Inventory
  imports Rising_Steps
begin

text \<open>
  What a reconciliation plan says of the spool (\<open>validate_inventory\<close> in \<open>rising.rs\<close>): every retained
  segment of the input has one role, and every page the record still waits for is at hand.
\<close>

section \<open>The index and the match\<close>

definition inv_segments :: "input_inventory \<Rightarrow> located_segment set" where
  "inv_segments held = Located_Ready ` set (inv_ready held) \<union> Located_Delivered ` set (inv_delivered held)"

lemma index_segments_Inr:
  assumes "index_segments st input segs by_id = Inr by_id'"
  shows "map_of by_id' k = Some seg \<longleftrightarrow> map_of by_id k = Some seg \<or> seg \<in> set segs \<and> view_id seg = k"
    and "\<forall>seg\<in>set segs. \<exists>m. validate_common_segment st input seg = Inr m"
  using assms
proof (induction segs arbitrary: by_id)
  case (Cons s segs)
  case 1
  then have "map_of by_id (view_id s) = None" "index_segments st input segs (AList.update (view_id s) s by_id) = Inr by_id'"
    by (auto split: if_split_asm)
  with Cons.IH(1) [OF this(2)] show ?case by (auto simp: update_conv')
next
  case (Cons s segs)
  case 2
  with Cons.IH(2) show ?case by (auto split: if_split_asm)
qed simp_all

lemma index_inventory_Inr:
  assumes "index_inventory st input held = Inr by_id"
  shows "map_of by_id k = Some seg \<longleftrightarrow> seg \<in> inv_segments held \<and> view_id seg = k"
    and "seg \<in> inv_segments held \<Longrightarrow> \<exists>m. validate_common_segment st input seg = Inr m"
proof -
  obtain half where half: "index_segments st input (map Located_Ready (inv_ready held)) [] = Inr half"
    "index_segments st input (map Located_Delivered (inv_delivered held)) half = Inr by_id"
    using assms by (auto simp: index_inventory_def)
  show "map_of by_id k = Some seg \<longleftrightarrow> seg \<in> inv_segments held \<and> view_id seg = k"
    using index_segments_Inr(1) [OF half(1)] index_segments_Inr(1) [OF half(2)] by (auto simp: inv_segments_def)
  show "\<exists>m. validate_common_segment st input seg = Inr m" if "seg \<in> inv_segments held"
    using index_segments_Inr(2) [OF half(1)] index_segments_Inr(2) [OF half(2)] that by (auto simp: inv_segments_def)
qed

text \<open>One reference: what it takes out of the index and where that goes.\<close>

definition receipted_ref :: "active_scan \<Rightarrow> segment_ref \<Rightarrow> bool" where
  "receipted_ref sc ref \<longleftrightarrow> ref_sequence ref \<le> delivered_through_sequence sc"

lemma match_references_Cons:
  assumes "match_references C st input sc (ref # refs) by_id waiting receipted = Inr res"
  obtains (gone) "receipted_ref sc ref" "map_of by_id (ref_segment_id ref) = None"
      "match_references C st input sc refs (AList.delete (ref_segment_id ref) by_id) waiting receipted = Inr res"
    | (receipted) d where "receipted_ref sc ref" "map_of by_id (ref_segment_id ref) = Some (Located_Delivered d)"
      "validate_reference C st input sc ref (Located_Delivered d) = Inr ()"
      "match_references C st input sc refs (AList.delete (ref_segment_id ref) by_id) waiting (receipted @ [d]) = Inr res"
    | (waiting) seg where "\<not> receipted_ref sc ref" "map_of by_id (ref_segment_id ref) = Some seg"
      "validate_reference C st input sc ref seg = Inr ()" "map_of waiting (ref_sequence ref) = None"
      "match_references C st input sc refs (AList.delete (ref_segment_id ref) by_id)
         (AList.update (ref_sequence ref) seg waiting) receipted = Inr res"
  using assms
  by (auto simp: Let_def receipted_ref_def split: if_split_asm option.split_asm located_segment.split_asm)

definition ref_matched ::
    "spool_crypto \<Rightarrow> durable_state \<Rightarrow> prepared_input \<Rightarrow> active_scan \<Rightarrow> segment_ref \<Rightarrow> located_segment option \<Rightarrow> bool"
  where
  "ref_matched C st input sc ref located \<longleftrightarrow>
     (case located of
        None \<Rightarrow> receipted_ref sc ref
      | Some seg \<Rightarrow> validate_reference C st input sc ref seg = Inr () \<and>
          (receipted_ref sc ref \<longrightarrow> (\<exists>d. seg = Located_Delivered d)))"

lemma match_references_Inr:
  assumes "match_references C st input sc refs by_id waiting receipted = Inr (rest, w, r)"
    and "distinct (map ref_segment_id refs)"
  shows "map_of rest k = (if k \<in> ref_segment_id ` set refs then None else map_of by_id k)"
    and "map_of w q = Some seg \<longleftrightarrow> map_of waiting q = Some seg \<or>
      (\<exists>ref\<in>set refs. \<not> receipted_ref sc ref \<and> ref_sequence ref = q \<and> map_of by_id (ref_segment_id ref) = Some seg)"
    and "d \<in> set r \<longleftrightarrow> d \<in> set receipted \<or>
      (\<exists>ref\<in>set refs. receipted_ref sc ref \<and> map_of by_id (ref_segment_id ref) = Some (Located_Delivered d))"
    and "\<forall>ref\<in>set refs. ref_matched C st input sc ref (map_of by_id (ref_segment_id ref))"
  using assms
proof (induction refs arbitrary: by_id waiting receipted)
  case (Cons x refs)
  note IH = Cons.IH
  have other: "map_of (AList.delete (ref_segment_id x) by_id) (ref_segment_id y) = map_of by_id (ref_segment_id y)"
    if "y \<in> set refs" "distinct (map ref_segment_id (x # refs))"
    for y and by_id :: "(bytes \<times> located_segment) list"
    using that by (auto simp: delete_conv' image_iff)
  {
    case 1
    from 1(1) show ?case by (rule match_references_Cons) (use IH(1) 1(2) in \<open>auto simp: delete_conv'\<close>)
  next
    case 2
    have same: "(\<exists>r\<in>set refs. \<not> receipted_ref sc r \<and> ref_sequence r = q \<and>
        map_of (AList.delete (ref_segment_id x) by_id) (ref_segment_id r) = Some seg) \<longleftrightarrow>
      (\<exists>r\<in>set refs. \<not> receipted_ref sc r \<and> ref_sequence r = q \<and> map_of by_id (ref_segment_id r) = Some seg)"
      by (rule bex_cong [OF refl]) (simp only: other [OF _ 2(2)])
    from 2(1) show ?case
      by (rule match_references_Cons) (use IH(2) 2(2) same in \<open>auto simp: update_conv'\<close>)
  next
    case 3
    from 3(1) show ?case by (rule match_references_Cons) (use IH(3) 3(2) other in auto)
  next
    case 4
    have same: "(\<forall>r\<in>set refs. ref_matched C st input sc r (map_of (AList.delete (ref_segment_id x) by_id) (ref_segment_id r))) \<longleftrightarrow>
      (\<forall>r\<in>set refs. ref_matched C st input sc r (map_of by_id (ref_segment_id r)))"
      by (rule ball_cong [OF refl]) (simp only: other [OF _ 4(2)])
    from 4(1) show ?case
      by (rule match_references_Cons) (use IH(4) 4(2) same in \<open>auto simp: ref_matched_def [of _ _ _ _ x]\<close>)
  }
qed simp_all

lemma adoptable_orphan_Inr:
  assumes "adoptable_orphan sc rest = Inr orphan"
  shows "map_of rest k = Some seg \<longleftrightarrow> (\<exists>s. orphan = Some s \<and> seg = Located_Ready s \<and> rest = [(k, seg)])"
    and "orphan = Some s \<Longrightarrow> \<not> scan_complete sc \<and> hdr_segment_sequence (rs_header s) = next_page sc \<and>
      (\<exists>k. rest = [(k, Located_Ready s)])"
  using assms by (auto simp: adoptable_orphan_def split: list.split_asm located_segment.split_asm if_split_asm)

section \<open>The plan\<close>

lemma validate_inventory_scan:
  assumes "validate_inventory C st input held = Inr plan" "scan st = Some sc"
  obtains by_id rest where "index_inventory st input held = Inr by_id"
    "match_references C st input sc (segments sc) by_id [] [] = Inr (rest, plan_pending plan, plan_receipted plan)"
    "adoptable_orphan sc rest = Inr (plan_orphan plan)"
  using assms by (auto simp: validate_inventory_def)

lemma numbered_ids: "numbered_from n segs \<Longrightarrow> distinct (map ref_segment_id segs)"
  by (simp add: numbered_from_def)

text \<open>The references of a valid scan number its retained pages.\<close>

lemma numbered_sequences:
  assumes "numbered_from n segs"
  shows "(\<exists>ref\<in>set segs. ref_sequence ref = q) \<longleftrightarrow> n \<le> unat q \<and> unat q < n + length segs"
proof
  assume "\<exists>ref\<in>set segs. ref_sequence ref = q"
  then show "n \<le> unat q \<and> unat q < n + length segs"
    using assms by (auto simp: numbered_from_def in_set_conv_nth)
next
  assume q: "n \<le> unat q \<and> unat q < n + length segs"
  then obtain i where i: "unat q = n + i" using nat_le_iff_add by blast
  with q have len: "i < length segs" by simp
  with assms i have "unat (ref_sequence (segs ! i)) = unat q" by (simp add: numbered_from_def)
  then have "ref_sequence (segs ! i) = q" by (rule unsigned_word_eqI)
  with len show "\<exists>ref\<in>set segs. ref_sequence ref = q" by (intro bexI [of _ "segs ! i"]) simp_all
qed

lemma waiting_sequences:
  assumes "scan_spec s a sc"
  shows "(\<exists>ref\<in>set (segments sc). \<not> receipted_ref sc ref \<and> ref_sequence ref = q) \<longleftrightarrow>
    delivered_through_sequence sc < q \<and> unat q \<le> sealed_pages sc"
proof -
  have spec: "numbered_from (unat (compacted_through_sequence sc) + 1) (segments sc)"
    "compacted_through_sequence sc \<le> delivered_through_sequence sc"
    using assms by (simp_all add: scan_spec_def)
  have "(\<exists>ref\<in>set (segments sc). \<not> receipted_ref sc ref \<and> ref_sequence ref = q) \<longleftrightarrow>
      (\<exists>ref\<in>set (segments sc). ref_sequence ref = q) \<and> delivered_through_sequence sc < q"
    by (auto simp: receipted_ref_def not_le)
  also have "\<dots> \<longleftrightarrow> delivered_through_sequence sc < q \<and> unat q \<le> sealed_pages sc"
    using spec(2) unfolding numbered_sequences [OF spec(1)]
    by (auto simp: sealed_pages_def word_le_nat_alt word_less_nat_alt)
  finally show ?thesis .
qed

lemma match_references_distinct:
  assumes "match_references C st input sc refs by_id waiting receipted = Inr (rest, w, r)"
    and "distinct receipted" "\<forall>d\<in>set receipted. \<forall>k. map_of by_id k \<noteq> Some (Located_Delivered d)"
    and "\<forall>k seg. map_of by_id k = Some seg \<longrightarrow> view_id seg = k"
  shows "distinct r"
  using assms
proof (induction refs arbitrary: by_id waiting receipted)
  case (Cons x refs)
  have less: "\<forall>d\<in>set receipted. \<forall>k. map_of (AList.delete (ref_segment_id x) by_id) k \<noteq> Some (Located_Delivered d)"
    "\<forall>k seg. map_of (AList.delete (ref_segment_id x) by_id) k = Some seg \<longrightarrow> view_id seg = k"
    using Cons.prems(3,4) by (auto simp: delete_conv')
  from Cons.prems(1) show ?case
  proof (rule match_references_Cons)
    assume "match_references C st input sc refs (AList.delete (ref_segment_id x) by_id) waiting receipted = Inr (rest, w, r)"
    from Cons.IH [OF this Cons.prems(2) less] show ?thesis .
  next
    fix d
    assume d: "map_of by_id (ref_segment_id x) = Some (Located_Delivered d)"
      and run: "match_references C st input sc refs (AList.delete (ref_segment_id x) by_id) waiting (receipted @ [d]) = Inr (rest, w, r)"
    have "d \<notin> set receipted" using Cons.prems(3) d by blast
    moreover have "map_of (AList.delete (ref_segment_id x) by_id) k \<noteq> Some (Located_Delivered d)" for k
      using d Cons.prems(4) by (auto simp: delete_conv')
    ultimately show ?thesis using Cons.prems(2) less by (intro Cons.IH [OF run]) auto
  next
    fix seg
    assume "match_references C st input sc refs (AList.delete (ref_segment_id x) by_id)
      (AList.update (ref_sequence x) seg waiting) receipted = Inr (rest, w, r)"
    from Cons.IH [OF this Cons.prems(2) less] show ?thesis .
  qed
qed simp

text \<open>The three roles a held segment can have in a plan.\<close>

definition waits_for :: "inventory_plan \<Rightarrow> located_segment \<Rightarrow> bool" where
  "waits_for plan seg \<longleftrightarrow> (\<exists>q. map_of (plan_pending plan) q = Some seg)"

definition removes :: "inventory_plan \<Rightarrow> located_segment \<Rightarrow> bool" where
  "removes plan seg \<longleftrightarrow> (\<exists>d\<in>set (plan_receipted plan). seg = Located_Delivered d)"

definition adopts :: "inventory_plan \<Rightarrow> located_segment \<Rightarrow> bool" where
  "adopts plan seg \<longleftrightarrow> (\<exists>s. plan_orphan plan = Some s \<and> seg = Located_Ready s)"

text \<open>The durable reference of a held segment.\<close>

definition refers_to ::
    "spool_crypto \<Rightarrow> durable_state \<Rightarrow> prepared_input \<Rightarrow> active_scan \<Rightarrow> segment_ref \<Rightarrow> located_segment \<Rightarrow> bool" where
  "refers_to C st input sc ref seg \<longleftrightarrow> ref \<in> set (segments sc) \<and> ref_segment_id ref = view_id seg \<and>
     validate_reference C st input sc ref seg = Inr ()"

text \<open>
  C6. The plan of a reconciliation is exact. Over a valid state, a plan waits for precisely the pages that
  are sealed and not yet receipted, and the segment it has for a page is the held one which that page's
  durable reference names and validates. It removes precisely the delivered segments whose references are
  receipted, each once. It adopts precisely the held segment that no reference names, which is the next
  page of an open scan. Every segment the spool holds for the input has exactly one of the three roles.
\<close>
theorem plan_exact:
  assumes "state_validate sha st = Inr ()" "scan st = Some sc" "validate_inventory C st input held = Inr plan"
  shows "(\<forall>q. map_of (plan_pending plan) q \<noteq> None \<longleftrightarrow>
      delivered_through_sequence sc < q \<and> unat q \<le> sealed_pages sc) \<and>
    (\<forall>q seg. map_of (plan_pending plan) q = Some seg \<longleftrightarrow> seg \<in> inv_segments held \<and>
      (\<exists>ref. refers_to C st input sc ref seg \<and> ref_sequence ref = q \<and> delivered_through_sequence sc < q)) \<and>
    (\<forall>d. d \<in> set (plan_receipted plan) \<longleftrightarrow> d \<in> set (inv_delivered held) \<and>
      (\<exists>ref. refers_to C st input sc ref (Located_Delivered d) \<and> ref_sequence ref \<le> delivered_through_sequence sc)) \<and>
    distinct (plan_receipted plan) \<and>
    (\<forall>s. plan_orphan plan = Some s \<longleftrightarrow> s \<in> set (inv_ready held) \<and>
      segment_id_bytes (rs_id s) \<notin> ref_segment_id ` set (segments sc)) \<and>
    (\<forall>s. plan_orphan plan = Some s \<longrightarrow> hdr_segment_sequence (rs_header s) = next_page sc \<and> \<not> scan_complete sc) \<and>
    (\<forall>seg\<in>inv_segments held.
      waits_for plan seg \<and> \<not> removes plan seg \<and> \<not> adopts plan seg \<or>
      removes plan seg \<and> \<not> waits_for plan seg \<and> \<not> adopts plan seg \<or>
      adopts plan seg \<and> \<not> waits_for plan seg \<and> \<not> removes plan seg)"
    (is "?pages \<and> ?waits \<and> ?removes \<and> ?once \<and> ?adopts \<and> ?next \<and> ?one")
proof -
  obtain a where spec: "scan_spec (coordinator st) a sc" using valid_parts [OF assms(1,2)] by metis
  obtain by_id rest where parts: "index_inventory st input held = Inr by_id"
    "match_references C st input sc (segments sc) by_id [] [] = Inr (rest, plan_pending plan, plan_receipted plan)"
    "adoptable_orphan sc rest = Inr (plan_orphan plan)"
    by (rule validate_inventory_scan [OF assms(3,2)])
  have ids: "distinct (map ref_segment_id (segments sc))" using spec by (auto simp: scan_spec_def numbered_ids)
  then have same: "x = y" if "x \<in> set (segments sc)" "y \<in> set (segments sc)" "ref_segment_id x = ref_segment_id y" for x y
    using that by (auto simp: distinct_map dest: inj_onD)
  note found = index_inventory_Inr(1) [OF parts(1)]
  note mr = match_references_Inr [OF parts(2) ids]
  note orphan = adoptable_orphan_Inr [OF parts(3)]
  have waits: "map_of (plan_pending plan) q = Some seg \<longleftrightarrow> (\<exists>ref\<in>set (segments sc). \<not> receipted_ref sc ref \<and>
      ref_sequence ref = q \<and> map_of by_id (ref_segment_id ref) = Some seg)" for q seg
    using mr(2) by simp
  have held_ref: "map_of by_id (ref_segment_id ref) \<noteq> None" if "ref \<in> set (segments sc)" "\<not> receipted_ref sc ref" for ref
    using mr(4) that by (auto simp: ref_matched_def split: option.split_asm)
  have refers: "refers_to C st input sc ref seg \<longleftrightarrow> ref \<in> set (segments sc) \<and> ref_segment_id ref = view_id seg"
    if "seg \<in> inv_segments held" for ref seg
  proof -
    have "map_of by_id (view_id seg) = Some seg" using that by (simp add: found)
    then show ?thesis using mr(4) by (auto simp: refers_to_def ref_matched_def split: option.split_asm)
  qed
  have delivered: "\<exists>d. seg = Located_Delivered d" if "ref \<in> set (segments sc)" "receipted_ref sc ref"
    "map_of by_id (ref_segment_id ref) = Some seg" for ref seg
    using mr(4) that by (auto simp: ref_matched_def)
  have pages: ?pages
    unfolding waiting_sequences [OF spec, symmetric] using waits held_ref by (metis not_None_eq)
  have w: ?waits
    using waits refers found by (auto simp: receipted_ref_def not_le)
  have r: ?removes
  proof
    fix d
    have "d \<in> set (plan_receipted plan) \<longleftrightarrow>
        (\<exists>ref\<in>set (segments sc). receipted_ref sc ref \<and> map_of by_id (ref_segment_id ref) = Some (Located_Delivered d))"
      using mr(3) by simp
    also have "\<dots> \<longleftrightarrow> Located_Delivered d \<in> inv_segments held \<and>
        (\<exists>ref. refers_to C st input sc ref (Located_Delivered d) \<and> receipted_ref sc ref)"
      using found refers by metis
    finally show "d \<in> set (plan_receipted plan) \<longleftrightarrow> d \<in> set (inv_delivered held) \<and>
      (\<exists>ref. refers_to C st input sc ref (Located_Delivered d) \<and> ref_sequence ref \<le> delivered_through_sequence sc)"
      by (auto simp: inv_segments_def receipted_ref_def)
  qed
  have once: ?once
    by (rule match_references_distinct [OF parts(2)]) (simp_all add: found)
  have o: "plan_orphan plan = Some s \<longleftrightarrow> Located_Ready s \<in> inv_segments held \<and>
      view_id (Located_Ready s) \<notin> ref_segment_id ` set (segments sc)" for s
  proof
    assume "plan_orphan plan = Some s"
    then obtain k where "rest = [(k, Located_Ready s)]" using orphan(2) by blast
    then have "map_of rest k = Some (Located_Ready s)" by simp
    with mr(1) have "k \<notin> ref_segment_id ` set (segments sc)" "map_of by_id k = Some (Located_Ready s)"
      by (auto split: if_split_asm)
    with found [of k "Located_Ready s"]
    show "Located_Ready s \<in> inv_segments held \<and> view_id (Located_Ready s) \<notin> ref_segment_id ` set (segments sc)"
      by metis
  next
    assume s: "Located_Ready s \<in> inv_segments held \<and> view_id (Located_Ready s) \<notin> ref_segment_id ` set (segments sc)"
    then have "map_of rest (view_id (Located_Ready s)) = Some (Located_Ready s)" using mr(1) found by auto
    then show "plan_orphan plan = Some s" unfolding orphan(1) by simp
  qed
  have nx: ?next using orphan(2) by blast
  have one: ?one
  proof
    fix seg assume seg: "seg \<in> inv_segments held"
    then have by_id: "map_of by_id (view_id seg) = Some seg" by (simp add: found)
    have W: "waits_for plan seg \<longleftrightarrow> (\<exists>ref\<in>set (segments sc). \<not> receipted_ref sc ref \<and> ref_segment_id ref = view_id seg)"
      using waits found seg unfolding waits_for_def by metis
    have R: "removes plan seg \<longleftrightarrow> (\<exists>ref\<in>set (segments sc). receipted_ref sc ref \<and> ref_segment_id ref = view_id seg)"
    proof
      assume "removes plan seg"
      then obtain d where d: "d \<in> set (plan_receipted plan)" "seg = Located_Delivered d" by (auto simp: removes_def)
      then obtain ref where "ref \<in> set (segments sc)" "receipted_ref sc ref" "map_of by_id (ref_segment_id ref) = Some seg"
        using mr(3) by auto
      then show "\<exists>ref\<in>set (segments sc). receipted_ref sc ref \<and> ref_segment_id ref = view_id seg"
        using found [of _ seg] by (intro bexI [of _ ref]) simp_all
    next
      assume "\<exists>ref\<in>set (segments sc). receipted_ref sc ref \<and> ref_segment_id ref = view_id seg"
      then obtain ref where ref: "ref \<in> set (segments sc)" "receipted_ref sc ref" "map_of by_id (ref_segment_id ref) = Some seg"
        using by_id by auto
      obtain d where "seg = Located_Delivered d" using delivered [OF ref] by blast
      then show "removes plan seg" using mr(3) [of d] ref by (auto simp: removes_def)
    qed
    have A: "adopts plan seg \<longleftrightarrow> view_id seg \<notin> ref_segment_id ` set (segments sc)"
    proof
      show "view_id seg \<notin> ref_segment_id ` set (segments sc)" if "adopts plan seg" using that o by (auto simp: adopts_def)
      assume "view_id seg \<notin> ref_segment_id ` set (segments sc)"
      then have "map_of rest (view_id seg) = Some seg" using mr(1) by_id by auto
      then show "adopts plan seg" using orphan(1) by (auto simp: adopts_def)
    qed
    show "waits_for plan seg \<and> \<not> removes plan seg \<and> \<not> adopts plan seg \<or>
      removes plan seg \<and> \<not> waits_for plan seg \<and> \<not> adopts plan seg \<or>
      adopts plan seg \<and> \<not> waits_for plan seg \<and> \<not> removes plan seg"
    proof (cases "\<exists>ref\<in>set (segments sc). ref_segment_id ref = view_id seg")
      case True
      then obtain ref where ref: "ref \<in> set (segments sc)" "ref_segment_id ref = view_id seg" by blast
      then have only: "x = ref" if "x \<in> set (segments sc)" "ref_segment_id x = view_id seg" for x using that same by simp
      have "waits_for plan seg \<longleftrightarrow> \<not> receipted_ref sc ref" "removes plan seg \<longleftrightarrow> receipted_ref sc ref"
        unfolding W R using ref only by metis+
      moreover have "\<not> adopts plan seg" unfolding A using ref by (metis imageI)
      ultimately show ?thesis by blast
    next
      case False
      then show ?thesis unfolding W R A by (metis imageE)
    qed
  qed
  have ad: ?adopts using o by (auto simp: inv_segments_def)
  show ?thesis using pages w r once ad nx one by blast
qed

lemma demo_page_next: "hdr_segment_sequence (rs_header demo_orphan) = 1" "sum_events (rs_summary demo_orphan) = 2"
  by (simp_all add: demo_orphan_def demo_header_def summary_of_def)

lemma plan_exact_witness:
  "\<exists>plan. validate_inventory demo_crypto demo_begun demo_input \<lparr>inv_ready = [demo_orphan], inv_delivered = []\<rparr> = Inr plan \<and>
     (\<forall>q. map_of (plan_pending plan) q = None)"
proof -
  have s: "scan demo_begun = Some (fresh_scan demo_attempt None)" by (simp add: demo_rising_defs Let_def)
  obtain plan where p: "validate_inventory demo_crypto demo_begun demo_input
      \<lparr>inv_ready = [demo_orphan], inv_delivered = []\<rparr> = Inr plan"
    by (simp add: validate_inventory_def index_inventory_def demo_page_common s fresh_scan_def
        adoptable_orphan_def demo_page_next)
  have "(\<forall>q. map_of (plan_pending plan) q \<noteq> None \<longleftrightarrow>
      delivered_through_sequence (fresh_scan demo_attempt None) < q \<and> unat q \<le> sealed_pages (fresh_scan demo_attempt None))"
    using plan_exact [OF demo_begun_valid s p] by blast
  with p show ?thesis by (auto simp: fresh_scan_def sealed_pages_def unat_eq_0)
qed

end
