(* ===== verification/Rising.thy ===== *)
theory Rising
  imports Rising_Inventory
begin

text \<open>
  The rising coordinator's operations (\<open>RisingCoordinator\<close> in \<open>rising.rs\<close>) on the world they act in: the
  outside that a delivery reaches, the spool's accounts, and the host. \<open>deliver\<close> stands for the
  delivery callback of \<open>reconcile\<close>; \<open>Delivery\<close> models the one the runtime passes.
\<close>

record rising_coordinator =
  rc_env :: state_env
  rc_store :: checkpoint_store

type_synonym ('w, 'a) rising_op = "('w \<times> accounting \<times> host, daemon_error, 'a) op"

definition on_store :: "'a store_io \<Rightarrow> ('w, 'a) rising_op" where
  "on_store m = on_snd (on_snd (map_fail state_store_err m))"

definition on_spool :: "'a spool_op \<Rightarrow> ('w, 'a) rising_op" where
  "on_spool m = on_snd (map_fail daemon_of_spool m)"

definition rising_sha :: "rising_coordinator \<Rightarrow> hash" where "rising_sha rc = env_sha (rc_env rc)"

definition rising_key :: "rising_coordinator \<Rightarrow> prepared_rising \<Rightarrow> state_key" where
  "rising_key rc rising = rising_state_key (rising_sha rc) rising"

definition open_coordinator :: "state_env \<Rightarrow> path option \<Rightarrow> ('w, rising_coordinator) rising_op" where
  "open_coordinator env root =
     bnd (on_store (open_store root)) (\<lambda>store. ret \<lparr>rc_env = env, rc_store = store\<rparr>)"

section \<open>The spool of an input\<close>

definition load_inventory :: "spool_crypto \<Rightarrow> spool \<Rightarrow> prepared_input \<Rightarrow> ('w, input_inventory) rising_op" where
  "load_inventory C sp input =
     bnd (on_spool (on_snd (list_ready C sp))) (\<lambda>ready.
     bnd (on_spool (on_snd (list_delivered C sp))) (\<lambda>delivered.
       ret \<lparr>inv_ready = filter (\<lambda>s. hdr_input_key (rs_header s) = spool_input_key input) ready,
            inv_delivered = filter (\<lambda>s. hdr_input_key (ds_header s) = spool_input_key input) delivered\<rparr>))"

definition spool_accounts :: "('w, accounting) rising_op" where
  "spool_accounts = on_snd get_fst"

definition input_spool_is_nonempty :: "spool_crypto \<Rightarrow> spool \<Rightarrow> prepared_input \<Rightarrow> ('w, bool) rising_op" where
  "input_spool_is_nonempty C sp input =
     bnd spool_accounts (\<lambda>acc.
     if bytes_of (stored_by_input acc) (spool_input_key input) \<noteq> 0 \<or>
        bytes_of (reserved_by_input acc) (spool_input_key input) \<noteq> 0
     then ret True
     else bnd (load_inventory C sp input) (\<lambda>held. ret (inv_ready held \<noteq> [] \<or> inv_delivered held \<noteq> [])))"

definition missing_with_data :: daemon_error where
  "missing_with_data = inventory_error ''durable rising state is missing while retained spool data exists''"

section \<open>Attempt identities\<close>

definition ATTEMPT_ID_GENERATION_LIMIT :: nat where "ATTEMPT_ID_GENERATION_LIMIT = 16"

definition generate_uuid_bytes :: "('w, bytes) rising_op" where
  "generate_uuid_bytes =
     bnd (on_snd (on_snd (map_fail (\<lambda>_. daemon_err ''DBX-RS-ID-0001'' ''internal'' ''random_generation''
         ''secure random generation failed'' False False) (sys_random 16)))) (\<lambda>random.
       ret (random[6 := or (and (random ! 6) 0x0F) 0x40, 8 := or (and (random ! 8) 0x3F) 0x80]))"

fun fresh_attempt_tries :: "nat \<Rightarrow> attempt_id option \<Rightarrow> ('w, attempt_id) rising_op" where
  "fresh_attempt_tries 0 previous =
     throw (daemon_err ''DBX-RS-RISING-0002'' ''internal'' ''attempt_identity''
       ''failed to generate a distinct rising attempt identity'' False False)"
| "fresh_attempt_tries (Suc n) previous =
     bnd generate_uuid_bytes (\<lambda>random.
     if Some (AttemptId random) \<noteq> previous then ret (AttemptId random) else fresh_attempt_tries n previous)"

definition fresh_attempt_id :: "durable_state \<Rightarrow> ('w, attempt_id) rising_op" where
  "fresh_attempt_id st =
     fresh_attempt_tries ATTEMPT_ID_GENERATION_LIMIT
       (map_option (\<lambda>a. fence_attempt (committed_fence a)) (last_committed_attempt (coordinator st)))"

section \<open>State of an input\<close>

definition exchange ::
    "rising_coordinator \<Rightarrow> state_key \<Rightarrow> stored_state \<Rightarrow> durable_state \<Rightarrow> ('w, stored_state) rising_op" where
  "exchange rc key stored nxt =
     on_store (compare_exchange (rc_env rc) (rc_store rc) key (stored_token stored) nxt)"

definition ensure_input ::
    "rising_coordinator \<Rightarrow> spool_crypto \<Rightarrow> spool \<Rightarrow> prepared_input \<Rightarrow> ('w, rising_state_status) rising_op" where
  "ensure_input rc C sp input =
     bnd (lift_res (require_rising input)) (\<lambda>rising.
     let key = rising_key rc rising in
     bnd (on_store (load (rc_env rc) (rc_store rc) key)) (\<lambda>found.
     bnd (case found of
         Missing \<Rightarrow>
           bnd (input_spool_is_nonempty C sp input) (\<lambda>nonempty.
           if nonempty then throw missing_with_data
           else on_store (create (rc_env rc) (rc_store rc) key (initial_state (rising_sha rc) input rising)))
       | Current stored \<Rightarrow>
           bnd (lift_res (validate_prepared_identity (stored_value stored) input rising)) (\<lambda>_.
           if configuration_fingerprint (stored_value stored) = Fingerprint (pi_revision input) then ret stored
           else
           bnd (if scan (stored_value stored) \<noteq> None \<or> active (coordinator (stored_value stored)) \<noteq> None then ret True
             else input_spool_is_nonempty C sp input) (\<lambda>blocked.
           if blocked then throw configuration_activation_error
           else on_store (activate_configuration (rc_env rc) (rc_store rc) key (stored_token stored)
             (Fingerprint (pi_revision input)))))) (\<lambda>stored.
       ret (rising_status (stored_value stored)))))"

definition load_current ::
    "rising_coordinator \<Rightarrow> prepared_input \<Rightarrow> prepared_rising \<Rightarrow> ('w, stored_state) rising_op" where
  "load_current rc input rising =
     bnd (on_store (load (rc_env rc) (rc_store rc) (rising_key rc rising))) (\<lambda>found.
     case found of
       Missing \<Rightarrow> throw missing_state_error
     | Current stored \<Rightarrow>
         bnd (lift_res (validate_prepared_identity (stored_value stored) input rising)) (\<lambda>_.
         if configuration_fingerprint (stored_value stored) \<noteq> Fingerprint (pi_revision input)
         then throw configuration_activation_error
         else ret stored))"

definition validate_candidate_identity ::
    "rising_coordinator \<Rightarrow> prepared_input \<Rightarrow> ('w, unit) rising_op" where
  "validate_candidate_identity rc input =
     bnd (lift_res (require_rising input)) (\<lambda>rising.
     bnd (on_store (load (rc_env rc) (rc_store rc) (rising_key rc rising))) (\<lambda>found.
     case found of
       Missing \<Rightarrow> ret ()
     | Current stored \<Rightarrow> lift_res (validate_prepared_identity (stored_value stored) input rising)))"

text \<open>\<open>inputs\<close> are the values of the prepared map, in the order of its keys.\<close>

definition validate_configured_identities ::
    "rising_coordinator \<Rightarrow> prepared_input list \<Rightarrow> ('w, unit) rising_op" where
  "validate_configured_identities rc inputs =
     bnd (on_store (input_ids (rc_env rc) (rc_store rc))) (\<lambda>persisted.
     if list_ex (\<lambda>i. i \<notin> set (map (\<lambda>rising. InputId (pr_state_input_id rising)) (List.map_filter pi_rising inputs))) persisted
     then throw detached_identity_error else ret ())"

fun preflight_inputs ::
    "rising_coordinator \<Rightarrow> spool_crypto \<Rightarrow> spool \<Rightarrow> prepared_input list \<Rightarrow> ('w, unit) rising_op" where
  "preflight_inputs rc C sp [] = ret ()"
| "preflight_inputs rc C sp (input # inputs) =
     bnd (lift_res (require_rising input)) (\<lambda>rising.
     bnd (on_store (load (rc_env rc) (rc_store rc) (rising_key rc rising))) (\<lambda>found.
     bnd (case found of
         Missing \<Rightarrow>
           bnd (input_spool_is_nonempty C sp input) (\<lambda>nonempty.
           if nonempty then throw missing_with_data else ret ())
       | Current _ \<Rightarrow> bnd (ensure_input rc C sp input) (\<lambda>_. ret ())) (\<lambda>_.
       preflight_inputs rc C sp inputs)))"

definition preflight_startup ::
    "rising_coordinator \<Rightarrow> spool_crypto \<Rightarrow> spool \<Rightarrow> prepared_input list \<Rightarrow> ('w, unit) rising_op" where
  "preflight_startup rc C sp inputs =
     bnd (validate_configured_identities rc inputs) (\<lambda>_.
       preflight_inputs rc C sp (filter (\<lambda>input. pi_rising input \<noteq> None) inputs))"

section \<open>Collecting a page\<close>

datatype start_page_outcome = PageReady rising_page_context | AwaitingReconcile

definition start_or_resume_page ::
    "rising_coordinator \<Rightarrow> spool_crypto \<Rightarrow> spool \<Rightarrow> prepared_input \<Rightarrow> ('w, start_page_outcome) rising_op" where
  "start_or_resume_page rc C sp input =
     bnd (ensure_input rc C sp input) (\<lambda>_.
     bnd (lift_res (require_rising input)) (\<lambda>rising.
     let key = rising_key rc rising in
     bnd (load_current rc input rising) (\<lambda>stored.
     bnd (load_inventory C sp input) (\<lambda>held.
     bnd (lift_res (validate_inventory C (stored_value stored) input held)) (\<lambda>plan.
     if \<not> is_clean_for_collection plan then ret AwaitingReconcile
     else
     bnd (if active (coordinator (stored_value stored)) = None
       then bnd (fresh_attempt_id (stored_value stored)) (\<lambda>i.
         bnd (lift_res (started_state i (stored_value stored))) (\<lambda>nxt. exchange rc key stored nxt))
       else ret stored) (\<lambda>stored.
     bnd (lift_res (page_context (stored_value stored) input rising)) (\<lambda>context.
       ret (case context of None \<Rightarrow> AwaitingReconcile | Some c \<Rightarrow> PageReady c))))))))"

text \<open>What a connector reports of one collected page (\<open>CollectionResult\<close> of the connector SDK).\<close>

record collection_result =
  cr_rows_read :: u64
  cr_truncated :: bool
  cr_candidate :: "timestamp_id_cursor option"
  cr_resume :: "timestamp_id_cursor option"

definition record_empty_completion ::
    "rising_coordinator \<Rightarrow> spool_crypto \<Rightarrow> spool \<Rightarrow> prepared_input \<Rightarrow> rising_page_context \<Rightarrow> collection_result
       \<Rightarrow> ('w, unit) rising_op" where
  "record_empty_completion rc C sp input context result =
     (if cr_rows_read result \<noteq> 0 \<or> cr_truncated result \<or> cr_candidate result \<noteq> None \<or> cr_resume result \<noteq> None
      then throw empty_completion_error
      else
      bnd (ensure_input rc C sp input) (\<lambda>_.
      bnd (lift_res (require_rising input)) (\<lambda>rising.
      bnd (load_current rc input rising) (\<lambda>stored.
      bnd (lift_res (validate_page_context (stored_value stored) input rising context)) (\<lambda>_.
      bnd (load_inventory C sp input) (\<lambda>held.
      bnd (lift_res (validate_inventory C (stored_value stored) input held)) (\<lambda>plan.
      if \<not> is_clean_for_collection plan
      then throw (inventory_error ''empty rising completion conflicts with retained spool work'')
      else
      bnd (lift_res (emptied_state context (stored_value stored))) (\<lambda>nxt.
      bnd (exchange rc (rising_key rc rising) stored nxt) (\<lambda>_. ret ())))))))))"

section \<open>Reconciliation\<close>

datatype rising_reconcile_outcome =
    Reconcile_Idle u64
  | Reconcile_NeedsCollection u64 u64
  | Reconcile_Committed u64 bool

definition prune_compacted_prefix ::
    "rising_coordinator \<Rightarrow> state_key \<Rightarrow> stored_state \<Rightarrow> ('w, stored_state) rising_op" where
  "prune_compacted_prefix rc key stored =
     bnd (lift_res (pruned_state (stored_value stored))) (\<lambda>p.
     case p of None \<Rightarrow> ret stored | Some nxt \<Rightarrow> exchange rc key stored nxt)"

fun compact_all :: "spool_crypto \<Rightarrow> spool \<Rightarrow> delivered_segment list \<Rightarrow> ('w, unit) rising_op" where
  "compact_all C sp [] = ret ()"
| "compact_all C sp (d # ds) = bnd (on_spool (compact_delivered C sp d)) (\<lambda>_. compact_all C sp ds)"

definition located_delivery ::
    "spool_crypto \<Rightarrow> prepared_input \<Rightarrow> (ready_segment \<Rightarrow> ('w, delivered_segment) rising_op) \<Rightarrow> durable_state
       \<Rightarrow> u64 \<Rightarrow> located_segment \<Rightarrow> ('w, delivered_segment) rising_op" where
  "located_delivery C input deliver st sequence located =
     (case located of
        Located_Ready ready \<Rightarrow>
          bnd (deliver ready) (\<lambda>delivered.
          bnd (lift_res (validate_delivered_for_reference C st input sequence delivered)) (\<lambda>_. ret delivered))
      | Located_Delivered delivered \<Rightarrow> ret delivered)"

lemma length_delete_less: "map_of al k = Some v \<Longrightarrow> length (AList.delete k al) < length al"
  by (induction al) (auto simp: AList.delete_eq less_Suc_eq_le split: if_split_asm intro: length_filter_le)

function deliver_prefix ::
    "rising_coordinator \<Rightarrow> spool_crypto \<Rightarrow> spool \<Rightarrow> prepared_input \<Rightarrow> state_key
       \<Rightarrow> (ready_segment \<Rightarrow> ('w, delivered_segment) rising_op) \<Rightarrow> stored_state \<Rightarrow> (u64 \<times> located_segment) list
       \<Rightarrow> ('w, stored_state) rising_op" where
  "deliver_prefix rc C sp input key deliver stored waiting =
     bnd (lift_res (require_scan (stored_value stored))) (\<lambda>sc.
     bnd (lift_res (ok_or checkpoint_invariant_error (checked_add (delivered_through_sequence sc) 1))) (\<lambda>sequence.
     bnd (lift_res (rising_segment_count sc)) (\<lambda>count.
     if sequence > count then ret stored
     else
     case map_of waiting sequence of
       None \<Rightarrow> throw (inventory_error ''a referenced rising segment is missing'')
     | Some located \<Rightarrow>
         bnd (located_delivery C input deliver (stored_value stored) sequence located) (\<lambda>delivered.
         bnd (lift_res (receipted_state sequence (stored_value stored))) (\<lambda>nxt.
         bnd (exchange rc key stored nxt) (\<lambda>receipted.
         bnd (on_spool (compact_delivered C sp delivered)) (\<lambda>_.
         bnd (prune_compacted_prefix rc key receipted) (\<lambda>pruned.
           deliver_prefix rc C sp input key deliver pruned (AList.delete sequence waiting)))))))))"
  by pat_completeness auto
termination
  by (relation "measure (\<lambda>(rc, C, sp, input, key, deliver, stored, waiting). length waiting)")
    (auto intro: length_delete_less)

declare deliver_prefix.simps [simp del]

definition adopt_page ::
    "rising_coordinator \<Rightarrow> spool_crypto \<Rightarrow> prepared_input \<Rightarrow> state_key \<Rightarrow> stored_state \<Rightarrow> inventory_plan
       \<Rightarrow> ('w, stored_state \<times> (u64 \<times> located_segment) list) rising_op" where
  "adopt_page rc C input key stored plan =
     (case plan_orphan plan of
        None \<Rightarrow> ret (stored, plan_pending plan)
      | Some orphan \<Rightarrow>
          bnd (lift_res (adopt_orphan C (rising_sha rc) (stored_value stored) input orphan)) (\<lambda>nxt.
          bnd (exchange rc key stored nxt) (\<lambda>adopted.
          bnd (lift_res (require_scan (stored_value adopted))) (\<lambda>sc.
          bnd (lift_res (rising_segment_count sc)) (\<lambda>sequence.
            ret (adopted, AList.update sequence (Located_Ready orphan) (plan_pending plan)))))))"

definition reconcile_delivery_prefix ::
    "rising_coordinator \<Rightarrow> spool_crypto \<Rightarrow> spool \<Rightarrow> prepared_input \<Rightarrow> state_key
       \<Rightarrow> (ready_segment \<Rightarrow> ('w, delivered_segment) rising_op) \<Rightarrow> stored_state \<Rightarrow> inventory_plan
       \<Rightarrow> ('w, stored_state) rising_op" where
  "reconcile_delivery_prefix rc C sp input key deliver stored plan =
     bnd (compact_all C sp (plan_receipted plan)) (\<lambda>_.
     bnd (prune_compacted_prefix rc key stored) (\<lambda>stored.
     bnd (adopt_page rc C input key stored plan) (\<lambda>(stored, waiting).
       deliver_prefix rc C sp input key deliver stored waiting)))"

definition finish_reconciled_scan ::
    "rising_coordinator \<Rightarrow> state_key \<Rightarrow> stored_state \<Rightarrow> ('w, rising_reconcile_outcome) rising_op" where
  "finish_reconciled_scan rc key stored =
     bnd (lift_res (require_scan (stored_value stored))) (\<lambda>sc.
     if \<not> scan_complete sc
     then ret (Reconcile_NeedsCollection (generation (coordinator (stored_value stored))) (next_page sc))
     else
     bnd (lift_res (rising_segment_count sc)) (\<lambda>count.
     if delivered_through_sequence sc \<noteq> count
     then throw (inventory_error ''completed rising scan has an incomplete delivery prefix'')
     else
     bnd (lift_res (active_fence (stored_value stored))) (\<lambda>f.
     bnd (lift_res (confirmed_state (stored_value stored))) (\<lambda>p.
     bnd (case p of None \<Rightarrow> ret stored | Some nxt \<Rightarrow> exchange rc key stored nxt) (\<lambda>stored.
     bnd (lift_res (committed_state f (stored_value stored))) (\<lambda>(outcome, nxt).
     bnd (exchange rc key stored nxt) (\<lambda>after.
     case outcome of
       AlreadyCommitted _ \<Rightarrow> throw checkpoint_invariant_error
     | Committed g moved \<Rightarrow>
         if generation (coordinator (stored_value after)) \<noteq> g then throw checkpoint_invariant_error
         else ret (Reconcile_Committed g moved))))))))"

definition reconcile ::
    "rising_coordinator \<Rightarrow> spool_crypto \<Rightarrow> spool \<Rightarrow> prepared_input
       \<Rightarrow> (ready_segment \<Rightarrow> ('w, delivered_segment) rising_op) \<Rightarrow> ('w, rising_reconcile_outcome) rising_op" where
  "reconcile rc C sp input deliver =
     bnd (lift_res (require_rising input)) (\<lambda>rising.
     let key = rising_key rc rising in
     bnd (on_store (load (rc_env rc) (rc_store rc) key)) (\<lambda>found.
     case found of
       Missing \<Rightarrow>
         bnd (input_spool_is_nonempty C sp input) (\<lambda>nonempty.
         if nonempty then throw missing_with_data
         else ret (Reconcile_Idle INITIAL_CHECKPOINT_GENERATION))
     | Current _ \<Rightarrow>
         bnd (ensure_input rc C sp input) (\<lambda>_.
         bnd (load_current rc input rising) (\<lambda>stored.
         bnd (load_inventory C sp input) (\<lambda>held.
         bnd (lift_res (validate_inventory C (stored_value stored) input held)) (\<lambda>plan.
         if scan (stored_value stored) = None
         then ret (Reconcile_Idle (generation (coordinator (stored_value stored))))
         else
         bnd (reconcile_delivery_prefix rc C sp input key deliver stored plan) (\<lambda>stored.
           finish_reconciled_scan rc key stored)))))))"

end
