(* ===== verification/Spec2Isabelle.thy ===== *)
theory Spec2Isabelle
  imports State_Store Store_History Spool_Startup Spool_Streaming Rising
begin

text \<open>
  A verification library for dbx-rs: the checkpointing core that moves database rows to an event
  collector without loss. \<open>Prelude\<close> holds the shared machinery, \<open>Cursor\<close> the cursor contract of
  \<open>crates/dbx-rs-connector-sdk/src/cursor.rs\<close>, \<open>Checkpoint\<close> the coordinator of
  \<open>crates/dbx-rs-checkpoint/src/lib.rs\<close>, \<open>State_Model\<close>, \<open>State_Transitions\<close> and
  \<open>State_Envelope\<close> the durable state of \<open>crates/dbx-rs-state/src\<close>.
\<close>

end
